(* ===== verification/Prelude.thy ===== *)
theory Prelude
  imports Main "HOL-Library.Word"
begin

text \<open>
  Shared vocabulary of the ExLink development: the machine integer types of the C sources,
  little-endian byte splitting and joining, bits of a word as a list in the order in which they
  leave the wire, and the collections of facts that the component theories add to.
\<close>

unbundle bit_operations_syntax

type_synonym u8 = "8 word"
type_synonym u16 = "16 word"
type_synonym u32 = "32 word"

named_theorems usb_consts \<open>constants of the USB specification, as numerals\<close>

section \<open>Lists\<close>

lemma take_Suc_update:
  "i < length xs \<Longrightarrow> take (Suc i) (xs[i := x]) = take i xs @ [x]"
  by (simp add: take_Suc_conv_app_nth)

lemma drop_Suc_update:
  "i < n \<Longrightarrow> drop n (xs[i := x]) = drop n xs"
  by simp

lemma take_append_exact [simp]: "n = length xs \<Longrightarrow> take n (xs @ ys) = xs"
  by simp

lemma map_nth_upt_take: "n \<le> length xs \<Longrightarrow> map ((!) xs) [0..<n] = take n xs"
  by (rule nth_equalityI) auto

lemma replicate_snoc: "replicate n x @ [x] = replicate (Suc n) x"
  by (induction n) simp_all

section \<open>Bytes of a word\<close>

definition lo8 :: "u16 \<Rightarrow> u8" where
  "lo8 w = ucast (w AND 0xFF)"

definition hi8 :: "u16 \<Rightarrow> u8" where
  "hi8 w = ucast (drop_bit 8 w AND 0xFF)"

definition join16 :: "u8 \<Rightarrow> u8 \<Rightarrow> u16" where
  "join16 lo hi = ucast lo OR push_bit 8 (ucast hi)"

lemma and_0xFF_u16: "(w :: u16) AND 0xFF = take_bit 8 w"
  by (simp add: take_bit_eq_mask mask_eq_exp_minus_1)

lemma and_0xFF_u32: "(w :: u32) AND 0xFF = take_bit 8 w"
  by (simp add: take_bit_eq_mask mask_eq_exp_minus_1)

lemma bit_beyond_8 [simp]: "8 \<le> n \<Longrightarrow> \<not> bit (b :: u8) n"
  using bit_imp_le_length [of b n] by auto

lemma bit_beyond_16 [simp]: "16 \<le> n \<Longrightarrow> \<not> bit (b :: u16) n"
  using bit_imp_le_length [of b n] by auto

lemma bit_beyond_32 [simp]: "32 \<le> n \<Longrightarrow> \<not> bit (b :: u32) n"
  using bit_imp_le_length [of b n] by auto

lemma lo8_alt: "lo8 w = ucast w"
  by (rule bit_word_eqI) (auto simp: lo8_def and_0xFF_u16 bit_simps)

lemma hi8_alt: "hi8 w = ucast (drop_bit 8 w)"
  by (rule bit_word_eqI) (auto simp: hi8_def and_0xFF_u16 bit_simps)

lemma join16_lo8_hi8 [simp]: "join16 (lo8 w) (hi8 w) = w"
  by (rule bit_word_eqI) (auto simp: join16_def lo8_alt hi8_alt bit_simps)

lemma lo8_join16 [simp]: "lo8 (join16 a b) = a"
  by (rule bit_word_eqI) (auto simp: join16_def lo8_alt bit_simps)

lemma hi8_join16 [simp]: "hi8 (join16 a b) = b"
  by (rule bit_word_eqI) (auto simp: join16_def hi8_alt bit_simps)

lemma unat_u8: "unat (b :: u8) < 256"
  by (rule order_less_le_trans [OF unsigned_less]) simp

lemma unat_u16: "unat (b :: u16) < 65536"
  by (rule order_less_le_trans [OF unsigned_less]) simp

lemma unat_u32: "unat (b :: u32) < 4294967296"
  by (rule order_less_le_trans [OF unsigned_less]) simp

lemma unat_ucast_u8_u16 [simp]: "unat (ucast (b :: u8) :: u16) = unat b"
  using unat_u8 [of b] by (simp add: unsigned_ucast_eq take_bit_nat_eq_self_iff)

lemma unat_ucast_u8_u32 [simp]: "unat (ucast (b :: u8) :: u32) = unat b"
  using unat_u8 [of b] by (simp add: unsigned_ucast_eq take_bit_nat_eq_self_iff)

lemma unat_of_nat_u8: "n < 256 \<Longrightarrow> unat (of_nat n :: u8) = n"
  by (simp add: unat_of_nat take_bit_nat_eq_self_iff)

lemma unat_of_nat_u16: "n < 65536 \<Longrightarrow> unat (of_nat n :: u16) = n"
  by (simp add: unat_of_nat take_bit_nat_eq_self_iff)

lemma unat_of_nat_u32: "n < 4294967296 \<Longrightarrow> unat (of_nat n :: u32) = n"
  by (simp add: unat_of_nat take_bit_nat_eq_self_iff)

lemma unat_Suc_less: "unat (a :: u16) < unat (b :: u16) \<Longrightarrow> unat (a + 1) = Suc (unat a)"
  using unat_u16 [of b] by (simp add: unat_word_ariths)

definition le32 :: "u8 \<Rightarrow> u8 \<Rightarrow> u8 \<Rightarrow> u8 \<Rightarrow> u32" where
  "le32 b0 b1 b2 b3 =
     ucast b0 OR push_bit 8 (ucast b1) OR push_bit 16 (ucast b2) OR push_bit 24 (ucast b3)"

definition bytes32 :: "u32 \<Rightarrow> u8 list" where
  "bytes32 w = [ucast w, ucast (drop_bit 8 w), ucast (drop_bit 16 w), ucast (drop_bit 24 w)]"

lemma length_bytes32 [simp]: "length (bytes32 w) = 4"
  by (simp add: bytes32_def)

lemma le32_bytes32:
  "bytes32 w = [b0, b1, b2, b3] \<Longrightarrow> le32 b0 b1 b2 b3 = w"
proof (rule bit_word_eqI)
  fix n
  assume h: "bytes32 w = [b0, b1, b2, b3]" and n: "n < LENGTH(32)"
  then have b: "b0 = ucast w" "b1 = ucast (drop_bit 8 w)" "b2 = ucast (drop_bit 16 w)"
    "b3 = ucast (drop_bit 24 w)"
    by (simp_all add: bytes32_def)
  consider "n < 8" | "8 \<le> n" "n < 16" | "16 \<le> n" "n < 24" | "24 \<le> n" "n < 32"
    using n by fastforce
  then show "bit (le32 b0 b1 b2 b3) n = bit w n"
    by cases (auto simp: b le32_def bit_simps)
qed

lemma bytes32_le32: "bytes32 (le32 b0 b1 b2 b3) = [b0, b1, b2, b3]"
  by (auto simp: bytes32_def le32_def bit_simps intro!: bit_word_eqI)

lemma bytes32_inject: "bytes32 v = bytes32 w \<Longrightarrow> v = w"
  by (metis bytes32_def le32_bytes32)

end
