(* ===== verification/Usb_Channel.thy ===== *)
theory Usb_Channel
  imports Prelude
begin

text \<open>
  What the USB interface modules of \<^verbatim>\<open>applications/usb_if_*.c\<close> share: the endpoint and
  interface numbers of \<^verbatim>\<open>usb_device.h\<close>, the calls they make into the USB stack (recorded
  as a log, oldest first), the bounded wait for the transmit flag, and the rule by which the IN
  callbacks end a transfer with a zero-length packet (locale \<open>bulk_in\<close>).
\<close>

section \<open>Endpoints and interfaces of usb_device.h\<close>

definition EXLINK_EP_CMD_OUT :: u8 where "EXLINK_EP_CMD_OUT = 0x01"
definition EXLINK_EP_CMD_IN :: u8 where "EXLINK_EP_CMD_IN = 0x81"
definition EXLINK_EP_DAP_OUT :: u8 where "EXLINK_EP_DAP_OUT = 0x02"
definition EXLINK_EP_DAP_IN :: u8 where "EXLINK_EP_DAP_IN = 0x82"
definition EXLINK_EP_HID_OUT :: u8 where "EXLINK_EP_HID_OUT = 0x03"
definition EXLINK_EP_HID_IN :: u8 where "EXLINK_EP_HID_IN = 0x83"
definition EXLINK_EP_CDC1_INT :: u8 where "EXLINK_EP_CDC1_INT = 0x84"
definition EXLINK_EP_CDC1_OUT :: u8 where "EXLINK_EP_CDC1_OUT = 0x05"
definition EXLINK_EP_CDC1_IN :: u8 where "EXLINK_EP_CDC1_IN = 0x85"
definition EXLINK_EP_CDC2_INT :: u8 where "EXLINK_EP_CDC2_INT = 0x86"
definition EXLINK_EP_CDC2_OUT :: u8 where "EXLINK_EP_CDC2_OUT = 0x07"
definition EXLINK_EP_CDC2_IN :: u8 where "EXLINK_EP_CDC2_IN = 0x87"

definition EXLINK_IFNUM_CMD :: u8 where "EXLINK_IFNUM_CMD = 0"
definition EXLINK_IFNUM_DAP :: u8 where "EXLINK_IFNUM_DAP = 1"
definition EXLINK_IFNUM_HID :: u8 where "EXLINK_IFNUM_HID = 2"
definition EXLINK_IFNUM_CDC1 :: u8 where "EXLINK_IFNUM_CDC1 = 3"
definition EXLINK_IFNUM_CDC2 :: u8 where "EXLINK_IFNUM_CDC2 = 5"
definition EXLINK_IFNUM_TOTAL :: u8 where "EXLINK_IFNUM_TOTAL = 7"

definition EXLINK_HID_REPORT_DESC_SIZE :: nat where "EXLINK_HID_REPORT_DESC_SIZE = 33"
definition EXLINK_BULK_MPS :: nat where "EXLINK_BULK_MPS = 512"
definition EXLINK_HID_MPS :: nat where "EXLINK_HID_MPS = 64"

lemmas endpoint_defs =
  EXLINK_EP_CMD_OUT_def EXLINK_EP_CMD_IN_def EXLINK_EP_DAP_OUT_def EXLINK_EP_DAP_IN_def
  EXLINK_EP_HID_OUT_def EXLINK_EP_HID_IN_def EXLINK_EP_CDC1_INT_def EXLINK_EP_CDC1_OUT_def
  EXLINK_EP_CDC1_IN_def EXLINK_EP_CDC2_INT_def EXLINK_EP_CDC2_OUT_def EXLINK_EP_CDC2_IN_def

lemmas ifnum_defs =
  EXLINK_IFNUM_CMD_def EXLINK_IFNUM_DAP_def EXLINK_IFNUM_HID_def EXLINK_IFNUM_CDC1_def
  EXLINK_IFNUM_CDC2_def EXLINK_IFNUM_TOTAL_def

section \<open>Calls into the USB stack\<close>

text \<open>
  The functions of the USB stack and of the kernel the interface modules call for their effect only.
  The first argument of a USB call is the bus id.
\<close>

datatype usb_call =
    Ep_Start_Read u8 u8 nat
  | Ep_Start_Write u8 u8 "u8 list"
  | Add_Interface u8 u8
  | Add_Endpoint u8 u8
  | Desc_Register u8
  | Usbd_Initialize u8 u32

text \<open>The transfers started on one IN endpoint, and the read requests of one OUT endpoint.\<close>

fun writes_of :: "u8 \<Rightarrow> usb_call list \<Rightarrow> u8 list list" where
  "writes_of ep [] = []"
| "writes_of ep (Ep_Start_Write b e d # cs) = (if e = ep then [d] else []) @ writes_of ep cs"
| "writes_of ep (_ # cs) = writes_of ep cs"

fun reads_of :: "u8 \<Rightarrow> usb_call list \<Rightarrow> nat list" where
  "reads_of ep [] = []"
| "reads_of ep (Ep_Start_Read b e n # cs) = (if e = ep then [n] else []) @ reads_of ep cs"
| "reads_of ep (_ # cs) = reads_of ep cs"

lemma writes_of_append [simp]: "writes_of ep (xs @ ys) = writes_of ep xs @ writes_of ep ys"
  by (induction ep xs rule: writes_of.induct) simp_all

lemma reads_of_append [simp]: "reads_of ep (xs @ ys) = reads_of ep xs @ reads_of ep ys"
  by (induction ep xs rule: reads_of.induct) simp_all

section \<open>The bounded wait for the transmit flag\<close>

text \<open>
  \<^verbatim>\<open>for (waited = 0; s_tx_busy; waited++) { if (waited >= TIMEOUT) return error; rt_thread_mdelay(1); }\<close>.
  What the interrupt handlers do during the \<open>k\<close>-th \<^verbatim>\<open>rt_thread_mdelay(1)\<close> is the \<open>k\<close>-th element of
  the script (nothing, when the script has ended); the rest of the script is returned.
\<close>

function wait_idle ::
  "('s \<Rightarrow> bool) \<Rightarrow> ('e list \<Rightarrow> 's \<Rightarrow> 's) \<Rightarrow> nat \<Rightarrow> nat \<Rightarrow> 's \<Rightarrow> 'e list list \<Rightarrow> bool \<times> 's \<times> 'e list list" where
  "wait_idle busy isr timeout waited s script =
    (if \<not> busy s then (True, s, script)
     else if timeout \<le> waited then (False, s, script)
     else wait_idle busy isr timeout (Suc waited)
            (isr (case script of [] \<Rightarrow> [] | es # _ \<Rightarrow> es) s) (tl script))"
  by pat_completeness auto
termination
  by (relation "measure (\<lambda>(busy, isr, timeout, waited, s, script). timeout - waited)") auto

declare wait_idle.simps [simp del]

lemma wait_idle_idle [simp]: "\<not> busy s \<Longrightarrow> wait_idle busy isr t w s script = (True, s, script)"
  by (simp add: wait_idle.simps)

lemma wait_idle_expired: "busy s \<Longrightarrow> t \<le> w \<Longrightarrow> wait_idle busy isr t w s script = (False, s, script)"
  by (simp add: wait_idle.simps)

lemma wait_idle_step:
  "busy s \<Longrightarrow> w < t \<Longrightarrow>
   wait_idle busy isr t w s (es # script) = wait_idle busy isr t (Suc w) (isr es s) script"
  by (simp add: wait_idle.simps [of busy isr t w])

text \<open>The loop ends with the flag down exactly when it reports success, after at most \<open>timeout\<close> delays.\<close>

lemma wait_idle_result:
  "wait_idle busy isr t w s script = (ok, s', rest) \<Longrightarrow> ok = (\<not> busy s')"
proof (induction busy isr t w s script rule: wait_idle.induct)
  case (1 busy isr t w s script)
  show ?case
    using 1(2) 1(1) by (subst (asm) wait_idle.simps) (cases "busy s"; cases "t \<le> w"; simp)
qed

lemma wait_idle_script:
  "wait_idle busy isr t w s script = (ok, s', rest) \<Longrightarrow>
   \<exists>k \<le> t - w. rest = drop k script"
proof (induction busy isr t w s script rule: wait_idle.induct)
  case (1 busy isr t w s script)
  consider "\<not> busy s \<or> t \<le> w" | "busy s" "w < t" by linarith
  then show ?case
  proof cases
    case 1
    with "1.prems" have "rest = drop 0 script" by (cases "busy s") (auto simp: wait_idle_expired)
    then show ?thesis by blast
  next
    case 2
    have "wait_idle busy isr t (Suc w) (isr (case script of [] \<Rightarrow> [] | es # _ \<Rightarrow> es) s) (tl script)
        = (ok, s', rest)"
      using "1.prems" 2 by (simp add: wait_idle.simps [of busy isr t w])
    then obtain k where "k \<le> t - Suc w" "rest = drop k (tl script)"
      using "1.IH" 2 by fastforce
    with 2 have "Suc k \<le> t - w" and "rest = drop (Suc k) script" by (simp_all add: drop_Suc)
    then show ?thesis by blast
  qed
qed

lemma wait_idle_preserves:
  "wait_idle busy isr t w s script = (ok, s', rest) \<Longrightarrow> P s \<Longrightarrow>
   (\<And>es x. P x \<Longrightarrow> P (isr es x)) \<Longrightarrow> P s'"
proof (induction busy isr t w s script rule: wait_idle.induct)
  case (1 busy isr t w s script)
  let ?s = "isr (case script of [] \<Rightarrow> [] | es # _ \<Rightarrow> es) s"
  consider "\<not> busy s \<or> t \<le> w" | "busy s" "w < t" by linarith
  then show ?case
  proof cases
    case 1
    with "1.prems" show ?thesis by (cases "busy s") (auto simp: wait_idle_expired)
  next
    case 2
    then have "wait_idle busy isr t (Suc w) ?s (tl script) = (ok, s', rest)"
      using "1.prems"(1) by (simp add: wait_idle.simps [of busy isr t w])
    moreover have "P ?s" using "1.prems"(2,3) by blast
    ultimately show ?thesis using "1.IH" 2 "1.prems"(3) by (meson not_le)
  qed
qed

text \<open>What the interrupts of the delays add is bounded by what the consumed part of the script holds.\<close>

lemma wait_idle_measure:
  "wait_idle busy isr t w s script = (ok, s', rest) \<Longrightarrow> P s \<Longrightarrow>
   (\<And>es x. P x \<Longrightarrow> P (isr es x) \<and> m (isr es x) \<le> m x + f es) \<Longrightarrow> f [] = 0 \<Longrightarrow>
   P s' \<and> m s' + sum_list (map f rest) \<le> m s + (sum_list (map f script) :: nat)"
proof (induction busy isr t w s script rule: wait_idle.induct)
  case (1 busy isr t w s script)
  let ?es = "case script of [] \<Rightarrow> [] | es # _ \<Rightarrow> es"
  consider "\<not> busy s \<or> t \<le> w" | "busy s" "w < t" by linarith
  then show ?case
  proof cases
    case 1
    with "1.prems" show ?thesis by (cases "busy s") (auto simp: wait_idle_expired)
  next
    case 2
    then have run: "wait_idle busy isr t (Suc w) (isr ?es s) (tl script) = (ok, s', rest)"
      using "1.prems"(1) by (simp add: wait_idle.simps [of busy isr t w])
    have step: "P (isr ?es s)" "m (isr ?es s) \<le> m s + f ?es" using "1.prems"(2,3) by blast+
    have "f ?es + sum_list (map f (tl script)) = sum_list (map f script)"
      using "1.prems"(4) by (cases script) simp_all
    moreover have "P s' \<and> m s' + sum_list (map f rest) \<le> m (isr ?es s) + sum_list (map f (tl script))"
      using "1.IH" 2 run step(1) "1.prems"(3,4) by (meson not_le)
    ultimately show ?thesis using step(2) by linarith
  qed
qed

text \<open>When the interrupts can only take the flag down, the wait succeeds if one of them does in time.\<close>

lemma wait_idle_flag:
  assumes "\<And>es x. busy (isr es x) = (busy x \<and> \<not> low es)" and "\<not> low []"
  shows "fst (wait_idle busy isr t w s script) = (\<not> busy s \<or> (\<exists>es \<in> set (take (t - w) script). low es))"
  using assms
proof (induction busy isr t w s script rule: wait_idle.induct)
  case (1 busy isr t w s script)
  consider "\<not> busy s" | "busy s" "t \<le> w" | "busy s" "w < t" by linarith
  then show ?case
  proof cases
    case 3
    let ?es = "case script of [] \<Rightarrow> [] | es # _ \<Rightarrow> es"
    have "fst (wait_idle busy isr t w s script) = fst (wait_idle busy isr t (Suc w) (isr ?es s) (tl script))"
      using 3 by (simp add: wait_idle.simps [of busy isr t w])
    also have "\<dots> = (\<not> busy (isr ?es s) \<or> (\<exists>es \<in> set (take (t - Suc w) (tl script)). low es))"
      using 1 3 by simp
    also have "\<dots> = (\<exists>es \<in> set (take (t - w) script). low es)"
      using "1.prems" 3 by (cases script) (auto simp: take_Cons' Suc_diff_Suc [symmetric])
    finally show ?thesis using 3 by simp
  qed (simp_all add: wait_idle_expired)
qed

section \<open>How an IN transfer ends\<close>

text \<open>
  The packets the controller puts on the bus for one transfer of \<open>n\<close> bytes: full packets and the
  remainder; a transfer of no bytes is one empty packet.
\<close>

definition usb_packets :: "nat \<Rightarrow> nat \<Rightarrow> nat list" where
  "usb_packets mps n = replicate (n div mps) mps @ (if n mod mps = 0 \<and> 0 < n then [] else [n mod mps])"

text \<open>The host takes a transfer to end at the first packet shorter than the packet size.\<close>

fun host_transfers :: "nat \<Rightarrow> nat \<Rightarrow> nat list \<Rightarrow> nat list" where
  "host_transfers mps acc [] = []"
| "host_transfers mps acc (p # ps) =
    (if p < mps then (acc + p) # host_transfers mps 0 ps else host_transfers mps (acc + p) ps)"

lemma host_transfers_full:
  "host_transfers mps acc (replicate k mps @ ps) = host_transfers mps (acc + k * mps) ps"
  by (induction k arbitrary: acc) (simp_all add: algebra_simps)

text \<open>
  The contract of an IN completion callback: a transfer that ends on a packet boundary is followed by
  an empty one and the transmit flag stays up, anything else takes it down.
\<close>

locale bulk_in =
  fixes mps :: nat
    and busy :: "'s \<Rightarrow> bool"
    and sent :: "'s \<Rightarrow> u8 list list"
    and in_cb :: "nat \<Rightarrow> 's \<Rightarrow> 's"
  assumes in_cb_boundary: "0 < n \<Longrightarrow> n mod mps = 0 \<Longrightarrow>
          busy (in_cb n s) = busy s \<and> sent (in_cb n s) = sent s @ [[]]"
    and in_cb_last: "\<not> (0 < n \<and> n mod mps = 0) \<Longrightarrow>
          \<not> busy (in_cb n s) \<and> sent (in_cb n s) = sent s"
begin

text \<open>The completion reports for a transfer of \<open>n\<close> bytes: its own, and that of the empty transfer.\<close>

definition completions :: "nat \<Rightarrow> nat list" where
  "completions n = (if 0 < n \<and> n mod mps = 0 then [n, 0] else [n])"

lemma completions_idle: "\<not> busy (fold in_cb (completions n) s)"
  using in_cb_last [of 0] in_cb_last [of n] by (auto simp: completions_def)

lemma completions_sent:
  "sent (fold in_cb (completions n) s) = sent s @ (if 0 < n \<and> n mod mps = 0 then [[]] else [])"
  using in_cb_last [of 0] in_cb_last [of n] in_cb_boundary [of n] by (auto simp: completions_def)

text \<open>The transmit flag stays up until the last of the reports.\<close>

lemma completions_busy:
  assumes "busy s" and "k < length (completions n)"
  shows "busy (fold in_cb (take k (completions n)) s)"
proof (cases "0 < n \<and> n mod mps = 0")
  case True
  with assms show ?thesis
    using in_cb_boundary [of n s] by (cases k) (auto simp: completions_def take_Cons' less_Suc_eq)
next
  case False
  with assms show ?thesis by (auto simp: completions_def)
qed

text \<open>
  A wait whose delays bring the completion reports one by one, further events \<open>es\<close> with the last of
  them, ends with the flag down after the last.
\<close>

definition takes :: "(nat \<Rightarrow> 'e) \<Rightarrow> nat \<Rightarrow> 'e list \<Rightarrow> 'e list list" where
  "takes report n es =
    (if 0 < n \<and> n mod mps = 0 then [[report n], report 0 # es] else [report n # es])"

lemma wait_takes:
  assumes "busy s" and "2 \<le> t"
    and "\<And>k es. isr (report k # es) s = more es (in_cb k s)"
    and "\<And>j k es. isr (report k # es) (in_cb j s) = more es (in_cb k (in_cb j s))"
    and "\<And>x. busy (more es x) = busy x" and "\<And>x. more [] x = x"
  shows "wait_idle busy isr t 0 s (takes report n es @ rest)
    = (True, more es (fold in_cb (completions n) s), rest)"
proof (cases "0 < n \<and> n mod mps = 0")
  case True
  then have "busy (in_cb n s)" "\<not> busy (in_cb 0 (in_cb n s))"
    using in_cb_boundary assms(1) in_cb_last [of 0] by simp_all
  with True show ?thesis
    using assms by (simp add: takes_def completions_def wait_idle_step)
next
  case False
  then have "\<not> busy (in_cb n s)" using in_cb_last by metis
  with False show ?thesis
    using assms by (auto simp: takes_def completions_def wait_idle_step)
qed

text \<open>
  The packets of the transfer and of what the callback adds to it are one transfer of exactly \<open>n\<close>
  bytes to the host.
\<close>

lemma one_host_transfer:
  assumes "0 < mps" and "0 < n" and "sent (fold in_cb (completions n) s) = sent s @ extra"
  shows "host_transfers mps 0 (concat (map (usb_packets mps) (n # map length extra))) = [n]"
proof -
  have rest: "n mod mps < mps" using assms(1) by simp
  have "concat (map (usb_packets mps) (n # map length extra)) = replicate (n div mps) mps @ [n mod mps]"
    using assms completions_sent [of n s] by (auto simp: usb_packets_def)
  then show ?thesis using rest by (simp only: host_transfers_full) simp
qed

end

end
