(* ===== verification/Ring_Buffer.thy ===== *)
theory Ring_Buffer
  imports Prelude
begin

text \<open>
  The single-producer single-consumer ring that two parts of the firmware use: the byte ring of the
  control channel (\<^verbatim>\<open>applications/usb_if_ctrl.c\<close>) and the request ring of the DAP engine
  (\<^verbatim>\<open>applications/dap_engine.c\<close>).  The interface is a locale: what the code does to the
  two indices and to the slots is assumed, that the ring is a bounded FIFO queue is proved once.
\<close>

text \<open>The queue a ring stands for: the slots from \<open>tail\<close> up to, and without, \<open>head\<close>.\<close>

definition ring_list :: "nat \<Rightarrow> nat \<Rightarrow> nat \<Rightarrow> (nat \<Rightarrow> 'a) \<Rightarrow> 'a list" where
  "ring_list N h t slot = map (\<lambda>i. slot ((t + i) mod N)) [0..<(h + N - t) mod N]"

lemma ring_count:
  fixes h N t :: nat
  assumes "h < N" and "t < N"
  shows "(h + N - t) mod N = (if t \<le> h then h - t else h + N - t)"
proof (cases "t \<le> h")
  case True
  then have "(h + N - t) mod N = ((h - t) + N) mod N" by simp
  also have "\<dots> = h - t" using assms by (simp only: mod_add_self2) simp
  finally show ?thesis using True by simp
qed (use assms in simp)

lemma ring_succ: "h < N \<Longrightarrow> (h + 1) mod N = (if h + 1 = N then 0 else h + 1)" for h N :: nat
  by auto

lemma ring_count_put:
  fixes h N t :: nat
  assumes "h < N" and "t < N" and "(h + 1) mod N \<noteq> t"
  shows "((h + 1) mod N + N - t) mod N = Suc ((h + N - t) mod N)"
  using assms unfolding ring_succ [OF assms(1)]
  by (auto simp: ring_count simp del: add_diff_assoc add_diff_assoc2 split: if_splits)

lemma ring_count_get:
  fixes h N t :: nat
  assumes "h < N" and "t < N" and "h \<noteq> t"
  shows "Suc ((h + N - (t + 1) mod N) mod N) = (h + N - t) mod N"
  using assms unfolding ring_succ [OF assms(2)]
  by (auto simp: ring_count simp del: add_diff_assoc add_diff_assoc2 split: if_splits)

lemma ring_index:
  fixes t N i :: nat
  assumes "t < N" and "i < N"
  shows "(t + i) mod N = (if t + i < N then t + i else t + i - N)"
  using assms by (auto simp: le_mod_geq)

lemma ring_head_index:
  fixes h N t :: nat
  assumes "h < N" and "t < N"
  shows "(t + (h + N - t) mod N) mod N = h"
  using assms by (simp add: ring_count)

lemma ring_index_distinct:
  fixes h N t i :: nat
  assumes "t < N" and "i < (h + N - t) mod N" and "h < N"
  shows "(t + i) mod N \<noteq> h"
proof -
  have i: "i < N" using assms(1,2) mod_less_divisor [of N "h + N - t"] by linarith
  show ?thesis
    using assms(2) unfolding ring_index [OF assms(1) i] ring_count [OF assms(3,1)]
    by (cases "t \<le> h"; cases "t + i < N") (use assms(1,3) i in simp_all)
qed

lemma ring_list_put:
  assumes "h < N" and "t < N" and "(h + 1) mod N \<noteq> t"
  shows "ring_list N ((h + 1) mod N) t (slot(h := x)) = ring_list N h t slot @ [x]"
  using ring_count_put [OF assms] ring_head_index [OF assms(1,2)]
    ring_index_distinct [OF assms(2) _ assms(1)]
  by (auto simp: ring_list_def)

lemma ring_list_get:
  assumes "h < N" and "t < N" and "h \<noteq> t"
  shows "ring_list N h t slot = slot t # ring_list N h ((t + 1) mod N) slot"
proof -
  let ?n = "(h + N - (t + 1) mod N) mod N"
  have "ring_list N h t slot = map (\<lambda>i. slot ((t + i) mod N)) (0 # map Suc [0..<?n])"
    unfolding ring_list_def ring_count_get [OF assms, symmetric]
    by (simp only: map_Suc_upt upt_conv_Cons zero_less_Suc)
  also have "\<dots> = slot t # map (\<lambda>i. slot (((t + 1) mod N + i) mod N)) [0..<?n]"
    using assms(2) by (simp add: mod_add_left_eq add.assoc comp_def)
  finally show ?thesis by (simp add: ring_list_def)
qed

lemma ring_list_empty: "h < N \<Longrightarrow> t < N \<Longrightarrow> ring_list N h t slot = [] \<longleftrightarrow> h = t"
  using ring_list_get [of h N t slot] by (cases "h = t") (simp_all add: ring_list_def)

lemma length_ring_list: "length (ring_list N h t slot) = (h + N - t) mod N"
  by (simp add: ring_list_def)

lemma ring_full:
  fixes h N t :: nat
  assumes "h < N" and "t < N"
  shows "(h + 1) mod N = t \<longleftrightarrow> length (ring_list N h t slot) = N - 1"
  using assms unfolding length_ring_list ring_count [OF assms] ring_succ [OF assms(1)]
  by (cases "t \<le> h"; cases "h + 1 = N") auto

text \<open>
  The contract of a ring: index ranges, what a successful put and a get do.  \<open>put\<close> is only called
  when the successor of the head is not the tail, \<open>get\<close> only when head and tail differ.
\<close>

locale spsc_ring =
  fixes N :: nat
    and head tail :: "'s \<Rightarrow> nat"
    and slot :: "'s \<Rightarrow> nat \<Rightarrow> 'a"
    and put :: "'a \<Rightarrow> 's \<Rightarrow> 's"
    and get :: "'s \<Rightarrow> 's"
    and inv :: "'s \<Rightarrow> bool"
  assumes inv_range: "inv s \<Longrightarrow> head s < N \<and> tail s < N"
    and put_law: "inv s \<Longrightarrow> (head s + 1) mod N \<noteq> tail s \<Longrightarrow>
       inv (put x s) \<and> head (put x s) = (head s + 1) mod N \<and> tail (put x s) = tail s
       \<and> (\<forall>i < N. slot (put x s) i = (if i = head s then x else slot s i))"
    and get_law: "inv s \<Longrightarrow> head s \<noteq> tail s \<Longrightarrow>
       inv (get s) \<and> head (get s) = head s \<and> tail (get s) = (tail s + 1) mod N
       \<and> (\<forall>i < N. slot (get s) i = slot s i)"
begin

abbreviation queue :: "'s \<Rightarrow> 'a list" where
  "queue s \<equiv> ring_list N (head s) (tail s) (slot s)"

lemma ring_list_cong:
  "0 < N \<Longrightarrow> \<forall>i < N. f i = g i \<Longrightarrow> ring_list N h t f = ring_list N h t g"
  by (simp add: ring_list_def)

lemma queue_put:
  assumes "inv s" and "(head s + 1) mod N \<noteq> tail s"
  shows "queue (put x s) = queue s @ [x]" and "inv (put x s)"
proof -
  have r: "head s < N" "tail s < N" using inv_range [OF assms(1)] by simp_all
  have "queue (put x s) = ring_list N ((head s + 1) mod N) (tail s) ((slot s)(head s := x))"
    using put_law [OF assms, of x] r by (auto intro!: ring_list_cong)
  with ring_list_put [OF r assms(2)] show "queue (put x s) = queue s @ [x]" by simp
  show "inv (put x s)" using put_law [OF assms] by simp
qed

lemma queue_get:
  assumes "inv s" and "head s \<noteq> tail s"
  shows "queue s = slot s (tail s) # queue (get s)" and "inv (get s)"
proof -
  have r: "head s < N" "tail s < N" using inv_range [OF assms(1)] by simp_all
  have "queue (get s) = ring_list N (head s) ((tail s + 1) mod N) (slot s)"
    using get_law [OF assms] r by (auto intro!: ring_list_cong)
  with ring_list_get [OF r assms(2)] show "queue s = slot s (tail s) # queue (get s)" by simp
  show "inv (get s)" using get_law [OF assms] by simp
qed

lemma queue_empty: "inv s \<Longrightarrow> queue s = [] \<longleftrightarrow> head s = tail s"
  using inv_range ring_list_empty by metis

lemma queue_full: "inv s \<Longrightarrow> (head s + 1) mod N = tail s \<longleftrightarrow> length (queue s) = N - 1"
  using inv_range ring_full by metis

lemma queue_bound: "inv s \<Longrightarrow> length (queue s) \<le> N - 1"
  using inv_range [of s] mod_less_divisor [of N "head s + N - tail s"]
  unfolding length_ring_list by (cases N) auto

text \<open>The slot that the consumer works on is never overwritten by the producer.\<close>

lemma put_keeps_front:
  assumes "inv s" and "head s \<noteq> tail s" and "(head s + 1) mod N \<noteq> tail s"
  shows "slot (put x s) (tail s) = slot s (tail s)"
  using put_law [OF assms(1,3), of x] inv_range [OF assms(1)] assms(2) by auto

end

end
