(* ===== verification/Swd_Spi.thy ===== *)
theory Swd_Spi
  imports Prelude
begin

text \<open>
  The SWD transport over the SPI peripheral (\<^verbatim>\<open>cmsis-dap/port/dap_swd_spi.c\<close> and its private header,
  single-wire variant): every phase of the protocol is one SPI unit of 1 to 32 clocks.  What is behind
  the pins is a parameter of the model, the record \<open>wire\<close>: the effect of one SWCLK cycle with SWDIO
  driven, the bit sampled in one cycle with SWDIO released, the level of a GPIO pin, and the effect of
  the pad, GPIO, clock and delay functions of the SDK.
\<close>

section \<open>Constants of dap_swd_spi_priv.h\<close>

definition DAP_TRANSFER_APnDP :: u32 where "DAP_TRANSFER_APnDP = 1"
definition DAP_TRANSFER_RnW :: u32 where "DAP_TRANSFER_RnW = 2"
definition DAP_TRANSFER_A2 :: u32 where "DAP_TRANSFER_A2 = 4"
definition DAP_TRANSFER_A3 :: u32 where "DAP_TRANSFER_A3 = 8"
definition DAP_TRANSFER_OK :: u32 where "DAP_TRANSFER_OK = 1"
definition DAP_TRANSFER_WAIT :: u32 where "DAP_TRANSFER_WAIT = 2"
definition DAP_TRANSFER_FAULT :: u32 where "DAP_TRANSFER_FAULT = 4"
definition DAP_TRANSFER_ERROR :: u32 where "DAP_TRANSFER_ERROR = 8"
definition DAP_TRANSFER_MISMATCH :: u32 where "DAP_TRANSFER_MISMATCH = 16"

lemmas transfer_bits =
  DAP_TRANSFER_APnDP_def DAP_TRANSFER_RnW_def DAP_TRANSFER_A2_def DAP_TRANSFER_A3_def
  DAP_TRANSFER_OK_def DAP_TRANSFER_WAIT_def DAP_TRANSFER_FAULT_def DAP_TRANSFER_ERROR_def
  DAP_TRANSFER_MISMATCH_def

definition DP_IDCODE :: u8 where "DP_IDCODE = 0x00"
definition DP_ABORT :: u8 where "DP_ABORT = 0x00"
definition DP_CTRL_STAT :: u8 where "DP_CTRL_STAT = 0x04"
definition DP_SELECT :: u8 where "DP_SELECT = 0x08"
definition DP_RDBUFF :: u8 where "DP_RDBUFF = 0x0C"

definition AP_CSW :: u8 where "AP_CSW = 0x00"
definition AP_TAR :: u8 where "AP_TAR = 0x04"
definition AP_DRW :: u8 where "AP_DRW = 0x0C"
definition AP_IDR :: u8 where "AP_IDR = 0xFC"

definition SWD_WAIT_RETRIES :: nat where "SWD_WAIT_RETRIES = 64"
definition DAP_SWD_TURNAROUND :: u8 where "DAP_SWD_TURNAROUND = 1"

text \<open>The GPIO pins of the board: SWCLK, SWDIO and nRESET.\<close>

definition SWCLK_PIN :: nat where "SWCLK_PIN = 27"
definition SWDIO_PIN :: nat where "SWDIO_PIN = 29"
definition NRESET_GPIO_PIN :: nat where "NRESET_GPIO_PIN = 26"

section \<open>The hardware behind the pins\<close>

datatype hw_act =
    Init_Spi_Pins
  | Pad_Pullup nat
  | Pad_Pulldown nat
  | Pad_Strong nat
  | Pad_Gpio nat
  | Gpio_Input nat
  | Gpio_Output nat
  | Gpio_Write nat bool
  | Delay_Ms u32
  | Delay_Loop u32
  | Poll
  | Spi_Timing u32 u32

text \<open>
  \<open>Delay_Loop\<close> is a busy loop of that many iterations, \<open>Poll\<close> the time one iteration of a polling
  loop takes.  \<open>w_in\<close> takes the sampling edge: true for the falling one (CPHA = 1).
\<close>

record 't wire =
  w_out :: "bool \<Rightarrow> 't \<Rightarrow> 't"
  w_in :: "bool \<Rightarrow> 't \<Rightarrow> bool \<times> 't"
  w_pin :: "nat \<Rightarrow> 't \<Rightarrow> bool"
  w_act :: "hw_act \<Rightarrow> 't \<Rightarrow> 't"
  w_spi_hz :: u32

text \<open>
  The statics of the file, the SPI registers it sets (transfer mode, clock phase, data length) and
  what is on the wire.
\<close>

record 't swd =
  s_read_even :: bool
  s_trn :: u8
  s_drive :: bool
  s_sel_cache :: u32
  spi_drive :: bool
  spi_even :: bool
  spi_bits :: u8
  on_wire :: 't

definition swd_act :: "'t wire \<Rightarrow> hw_act \<Rightarrow> 't swd \<Rightarrow> 't swd" where
  "swd_act W a s = s\<lparr> on_wire := w_act W a (on_wire s) \<rparr>"

text \<open>Clocks out a list of bits; clocks in a number of bits.\<close>

definition out_bits :: "'t wire \<Rightarrow> bool list \<Rightarrow> 't \<Rightarrow> 't" where
  "out_bits W bs t = fold (w_out W) bs t"

fun in_bits :: "'t wire \<Rightarrow> bool \<Rightarrow> nat \<Rightarrow> 't \<Rightarrow> bool list \<times> 't" where
  "in_bits W edge 0 t = ([], t)"
| "in_bits W edge (Suc n) t =
    (case w_in W edge t of (b, t) \<Rightarrow> (case in_bits W edge n t of (bs, t) \<Rightarrow> (b # bs, t)))"

text \<open>The bits of a buffer of bytes, and the bytes of a list of bits, least significant bit first.\<close>

definition buf_bits :: "nat \<Rightarrow> u8 list \<Rightarrow> bool list" where
  "buf_bits n buf = map (\<lambda>i. bit (buf ! (i div 8)) (i mod 8)) [0..<n]"

definition bits_buf :: "bool list \<Rightarrow> u8 list" where
  "bits_buf bs = map (\<lambda>k. horner_sum of_bool 2 (take 8 (drop (8 * k) bs))) [0..<4]"

section \<open>Phases\<close>

definition spi_set_drive :: "bool \<Rightarrow> 't swd \<Rightarrow> 't swd" where
  "spi_set_drive drive s =
    (if drive \<noteq> s_drive s
     then s\<lparr> spi_drive := drive, spi_even := (if drive then False else s_read_even s), s_drive := drive \<rparr>
     else s)"

definition spi_set_data_bits :: "u8 \<Rightarrow> 't swd \<Rightarrow> 't swd" where
  "spi_set_data_bits n s = s\<lparr> spi_bits := n \<rparr>"

text \<open>
  \<^verbatim>\<open>spi_transfer\<close> with one direction: units of \<open>spi_bits\<close> clocks, the transfer mode set from its
  control word.
\<close>

definition spi_send_units :: "'t wire \<Rightarrow> u8 list list \<Rightarrow> 't swd \<Rightarrow> 't swd" where
  "spi_send_units W units s =
    s\<lparr> spi_drive := True,
       on_wire := out_bits W (concat (map (buf_bits (unat (spi_bits s))) units)) (on_wire s) \<rparr>"

definition spi_receive_unit :: "'t wire \<Rightarrow> 't swd \<Rightarrow> u8 list \<times> 't swd" where
  "spi_receive_unit W s =
    (case in_bits W (spi_even s) (unat (spi_bits s)) (on_wire s) of
      (bs, t) \<Rightarrow> (bits_buf bs, s\<lparr> spi_drive := False, on_wire := t \<rparr>))"

definition swd_write_bits :: "'t wire \<Rightarrow> u32 \<Rightarrow> u8 \<Rightarrow> 't swd \<Rightarrow> 't swd" where
  "swd_write_bits W val nbits s =
    (let s = spi_set_drive True s;
         s = spi_set_data_bits nbits s;
         buf = [ucast (val AND 0xFF), ucast (drop_bit 8 val AND 0xFF),
                ucast (drop_bit 16 val AND 0xFF), ucast (drop_bit 24 val AND 0xFF)]
     in spi_send_units W [buf] s)"

definition swd_read_bits :: "'t wire \<Rightarrow> u8 \<Rightarrow> 't swd \<Rightarrow> u32 \<times> 't swd" where
  "swd_read_bits W nbits s =
    (let s = spi_set_drive False s;
         s = spi_set_data_bits nbits s;
         (buf, s) = spi_receive_unit W s;
         v = ucast (buf ! 0) OR push_bit 8 (ucast (buf ! 1)) OR push_bit 16 (ucast (buf ! 2))
             OR push_bit 24 (ucast (buf ! 3));
         v = (if nbits < 32 then v AND (push_bit (unat nbits) 1 - 1) else v)
     in (v, s))"

function swd_write_chunks :: "'t wire \<Rightarrow> u8 list \<Rightarrow> nat \<Rightarrow> 't swd \<Rightarrow> 't swd" where
  "swd_write_chunks W data nbytes s =
    (if 0 < nbytes
     then (let chunk = (if 256 < nbytes then 256 else nbytes)
           in swd_write_chunks W (drop chunk data) (nbytes - chunk)
                (spi_send_units W (map (\<lambda>b. [b]) (take chunk data)) s))
     else s)"
  by pat_completeness auto
termination
  by (relation "measure (\<lambda>(W, data, nbytes, s). nbytes)") auto

declare swd_write_chunks.simps [simp del]

definition swd_write_bytes :: "'t wire \<Rightarrow> u8 list \<Rightarrow> nat \<Rightarrow> 't swd \<Rightarrow> 't swd" where
  "swd_write_bytes W data nbytes s =
    swd_write_chunks W data nbytes (spi_set_data_bits 8 (spi_set_drive True s))"

definition swd_turnaround :: "'t wire \<Rightarrow> 't swd \<Rightarrow> 't swd" where
  "swd_turnaround W s = snd (swd_read_bits W (if s_trn s \<noteq> 0 then s_trn s else 1) s)"

definition parity32 :: "u32 \<Rightarrow> u32" where
  "parity32 v =
    (let v = v XOR drop_bit 16 v; v = v XOR drop_bit 8 v; v = v XOR drop_bit 4 v;
         v = v XOR drop_bit 2 v; v = v XOR drop_bit 1 v
     in v AND 1)"

section \<open>Ports and pins\<close>

definition swd_pad_pullup :: "'t wire \<Rightarrow> 't swd \<Rightarrow> 't swd" where
  "swd_pad_pullup W s = swd_act W (Pad_Pullup SWDIO_PIN) s"

definition swd_nreset_init :: "'t wire \<Rightarrow> 't swd \<Rightarrow> 't swd" where
  "swd_nreset_init W s =
    swd_act W (Gpio_Input NRESET_GPIO_PIN)
      (swd_act W (Pad_Pullup NRESET_GPIO_PIN) (swd_act W (Pad_Gpio NRESET_GPIO_PIN) s))"

definition dap_swd_nreset_pulse :: "'t wire \<Rightarrow> u32 \<Rightarrow> 't swd \<Rightarrow> u8 \<times> 't swd" where
  "dap_swd_nreset_pulse W low_ms s =
    (let s = swd_nreset_init W s;
         s = swd_act W (Gpio_Write NRESET_GPIO_PIN False) s;
         s = swd_act W (Gpio_Output NRESET_GPIO_PIN) s;
         s = swd_act W (Delay_Ms (if low_ms \<noteq> 0 then low_ms else 1)) s;
         s = swd_act W (Gpio_Input NRESET_GPIO_PIN) s;
         s = swd_act W (Delay_Ms 2) s
     in (of_bool (w_pin W NRESET_GPIO_PIN (on_wire s)), s))"

definition dap_swd_nreset_park :: "'t wire \<Rightarrow> u8 \<Rightarrow> 't swd \<Rightarrow> 't swd" where
  "dap_swd_nreset_park W lvl s =
    swd_act W (Gpio_Output NRESET_GPIO_PIN)
      (swd_act W (Gpio_Write NRESET_GPIO_PIN (lvl \<noteq> 0))
        (swd_act W (Pad_Strong NRESET_GPIO_PIN) (swd_act W (Pad_Gpio NRESET_GPIO_PIN) s)))"

definition EXLINK_DAP_SWCLK_HZ_DEFAULT :: u32 where "EXLINK_DAP_SWCLK_HZ_DEFAULT = 10000000"

definition dap_swd_spi_init :: "'t wire \<Rightarrow> 't swd \<Rightarrow> 't swd" where
  "dap_swd_spi_init W s =
    (let s = swd_act W Init_Spi_Pins s;
         s = swd_pad_pullup W s;
         s = swd_nreset_init W s;
         s = swd_act W (Spi_Timing (w_spi_hz W) EXLINK_DAP_SWCLK_HZ_DEFAULT) s
     in s\<lparr> spi_bits := 8, spi_even := s_read_even s, s_drive := True, spi_drive := True \<rparr>)"

definition dap_swd_spi_set_clock :: "'t wire \<Rightarrow> u32 \<Rightarrow> 't swd \<Rightarrow> 't swd" where
  "dap_swd_spi_set_clock W hz s =
    (let hz = (if hz = 0 \<or> w_spi_hz W < hz then w_spi_hz W else hz)
     in swd_act W (Spi_Timing (w_spi_hz W) hz) s)"

definition dap_swd_spi_port_setup :: "'t wire \<Rightarrow> 't swd \<Rightarrow> 't swd" where
  "dap_swd_spi_port_setup W s =
    (let s = swd_act W Init_Spi_Pins s;
         s = swd_pad_pullup W s;
         s = swd_nreset_init W s
     in s\<lparr> s_drive := True, spi_drive := True \<rparr>)"

definition dap_swd_spi_port_off :: "'t swd \<Rightarrow> 't swd" where
  "dap_swd_spi_port_off s = s\<lparr> spi_drive := False, s_drive := False \<rparr>"

section \<open>The three functions DAP.c expects\<close>

definition SWJ_Sequence :: "'t wire \<Rightarrow> nat \<Rightarrow> u8 list \<Rightarrow> 't swd \<Rightarrow> 't swd" where
  "SWJ_Sequence W count data s =
    (let full = count div 8; rem = count mod 8;
         s = (if 0 < full then swd_write_bytes W data full s else s)
     in if 0 < rem then swd_write_bits W (ucast (data ! full)) (of_nat rem) s else s)"

text \<open>The two loops of \<^verbatim>\<open>SWD_Sequence\<close>; the bytes of a word are taken eight bits at a time.\<close>

definition seq_bytes :: "nat \<Rightarrow> u32 \<Rightarrow> u8 list" where
  "seq_bytes m got = map (\<lambda>k. ucast (drop_bit (8 * k) got AND 0xFF)) [0..<(m + 7) div 8]"

function swd_seq_in :: "'t wire \<Rightarrow> nat \<Rightarrow> 't swd \<Rightarrow> u8 list \<times> 't swd" where
  "swd_seq_in W remain s =
    (if 0 < remain
     then (let m = (if 32 \<le> remain then 32 else remain);
               (got, s) = swd_read_bits W (of_nat m) s;
               (more, s) = swd_seq_in W (remain - m) s
           in (seq_bytes m got @ more, s))
     else ([], s))"
  by pat_completeness auto
termination
  by (relation "measure (\<lambda>(W, remain, s). remain)") auto

definition seq_word :: "nat \<Rightarrow> u8 list \<Rightarrow> u32" where
  "seq_word m swdo = foldl (\<lambda>w k. w OR push_bit (8 * k) (ucast (swdo ! k))) 0 [0..<(m + 7) div 8]"

function swd_seq_out :: "'t wire \<Rightarrow> nat \<Rightarrow> u8 list \<Rightarrow> 't swd \<Rightarrow> 't swd" where
  "swd_seq_out W remain swdo s =
    (if 0 < remain
     then (let m = (if 32 \<le> remain then 32 else remain)
           in swd_seq_out W (remain - m) (drop ((m + 7) div 8) swdo)
                (swd_write_bits W (seq_word m swdo) (of_nat m) s))
     else s)"
  by pat_completeness auto
termination
  by (relation "measure (\<lambda>(W, remain, swdo, s). remain)") auto

declare swd_seq_in.simps [simp del] swd_seq_out.simps [simp del]

text \<open>The number of clocks in the info byte; the bytes captured are returned.\<close>

definition sequence_clocks :: "u32 \<Rightarrow> nat" where
  "sequence_clocks info = (let n = unat (info AND 0x3F) in if n = 0 then 64 else n)"

definition SWD_Sequence :: "'t wire \<Rightarrow> u32 \<Rightarrow> u8 list \<Rightarrow> 't swd \<Rightarrow> u8 list \<times> 't swd" where
  "SWD_Sequence W info swdo s =
    (let n = sequence_clocks info
     in if info AND 0x80 \<noteq> 0 then swd_seq_in W n s else ([], swd_seq_out W n swdo s))"

definition request_byte :: "u32 \<Rightarrow> u8" where
  "request_byte request =
    (let parity = (request XOR drop_bit 1 request XOR drop_bit 2 request XOR drop_bit 3 request) AND 1
     in ucast (0x81 OR push_bit 1 (request AND 0x0F) OR push_bit 5 parity))"

text \<open>
  \<open>data\<close> is the word the pointer points to, \<open>None\<close> for a null pointer; the acknowledge, the word
  after the call and the state are returned.
\<close>

definition SWD_Transfer ::
  "'t wire \<Rightarrow> u32 \<Rightarrow> u32 option \<Rightarrow> 't swd \<Rightarrow> u8 \<times> u32 option \<times> 't swd" where
  "SWD_Transfer W request data s =
    (let s = swd_write_bits W (ucast (request_byte request)) 8 s;
         s = swd_turnaround W s;
         (ack, s) = swd_read_bits W 3 s
     in if ack = DAP_TRANSFER_OK
        then (if request AND DAP_TRANSFER_RnW \<noteq> 0
              then (let (val, s) = swd_read_bits W 32 s;
                        (par, s) = swd_read_bits W 1 s;
                        s = swd_turnaround W s;
                        ack = (if parity32 val \<noteq> par AND 1 then ack OR DAP_TRANSFER_ERROR else ack)
                    in (ucast ack, map_option (\<lambda>_. val) data, s))
              else (let s = swd_turnaround W s;
                        val = (case data of Some d \<Rightarrow> d | None \<Rightarrow> 0);
                        s = swd_write_bits W val 32 s;
                        s = swd_write_bits W (parity32 val) 1 s
                    in (ucast ack, data, s)))
        else (ucast ack, data, swd_turnaround W s))"

section \<open>Phases as bits on the wire\<close>

definition word_bits :: "nat \<Rightarrow> u32 \<Rightarrow> bool list" where
  "word_bits n w = map (bit w) [0..<n]"

definition bits_word :: "bool list \<Rightarrow> u32" where
  "bits_word bs = horner_sum of_bool 2 bs"

lemma length_word_bits [simp]: "length (word_bits n w) = n"
  by (simp add: word_bits_def)

lemma bit_bits_word: "bit (bits_word bs) n \<longleftrightarrow> n < 32 \<and> n < length bs \<and> bs ! n"
  by (auto simp: bits_word_def bit_horner_sum_bit_word_iff)

lemma bits_word_bits: "bits_word (word_bits n w) = take_bit n w"
  by (rule bit_word_eqI) (auto simp: bit_bits_word word_bits_def bit_take_bit_iff)

lemma word_bits_word: "length bs \<le> 32 \<Longrightarrow> word_bits (length bs) (bits_word bs) = bs"
  by (rule nth_equalityI) (auto simp: word_bits_def bit_bits_word)

lemma length_in_bits [simp]: "length (fst (in_bits W e n t)) = n"
  by (induction n arbitrary: t) (simp_all split: prod.split, metis fst_conv)

lemma out_bits_append: "out_bits W (xs @ ys) t = out_bits W ys (out_bits W xs t)"
  by (simp add: out_bits_def)

lemma out_bits_Nil [simp]: "out_bits W [] t = t"
  by (simp add: out_bits_def)

lemma out_bits_Cons: "out_bits W (b # bs) t = out_bits W bs (w_out W b t)"
  by (simp add: out_bits_def)

lemma in_bits_add:
  "in_bits W e (m + n) t =
    (case in_bits W e m t of (xs, t) \<Rightarrow> (case in_bits W e n t of (ys, t) \<Rightarrow> (xs @ ys, t)))"
  by (induction m arbitrary: t) (auto split: prod.split)

lemma word_nibble_bits:
  assumes "n \<le> 32"
  shows "buf_bits n [ucast (val AND 0xFF), ucast (drop_bit 8 val AND 0xFF),
    ucast (drop_bit 16 val AND 0xFF), ucast (drop_bit 24 val AND 0xFF)] = word_bits n (val :: u32)"
    (is "buf_bits n ?buf = _")
proof -
  have "bit (?buf ! (i div 8)) (i mod 8) = bit val i" if "i < 32" for i
  proof -
    have split: "i = 8 * (i div 8) + i mod 8" by simp
    have "i div 8 < 4" using that by simp
    then consider "i div 8 = 0" | "i div 8 = 1" | "i div 8 = 2" | "i div 8 = 3" by linarith
    then show ?thesis
      by cases (use split div_eq_0_iff [of i 8] in \<open>auto simp: and_0xFF_u32 bit_simps\<close>)
  qed
  then show ?thesis using assms by (simp add: buf_bits_def word_bits_def)
qed

lemma byte_join_bits:
  assumes "length bs \<le> 32"
  shows "(ucast (bits_buf bs ! 0) OR push_bit 8 (ucast (bits_buf bs ! 1)) OR push_bit 16 (ucast (bits_buf bs ! 2))
    OR push_bit 24 (ucast (bits_buf bs ! 3)) :: u32) = bits_word bs"
proof (rule bit_word_eqI)
  fix i assume "i < LENGTH(32)"
  then have i: "i < 32" by simp
  have byte: "bit (bits_buf bs ! k) j \<longleftrightarrow> j < 8 \<and> 8 * k + j < length bs \<and> bs ! (8 * k + j)" if "k < 4" for k j
    using that by (auto simp: bits_buf_def bit_horner_sum_bit_word_iff)
  consider "i < 8" | "8 \<le> i" "i < 16" | "16 \<le> i" "i < 24" | "24 \<le> i" "i < 32" using i by linarith
  then show "bit (ucast (bits_buf bs ! 0) OR push_bit 8 (ucast (bits_buf bs ! 1)) OR push_bit 16 (ucast (bits_buf bs ! 2))
    OR push_bit 24 (ucast (bits_buf bs ! 3)) :: u32) i = bit (bits_word bs) i"
    by cases (auto simp: byte bit_simps bit_bits_word)
qed

text \<open>The SPI side conditions: nothing but the sampling edge matters for what a phase does.\<close>

definition std_edge :: "'t swd \<Rightarrow> bool" where
  "std_edge s \<longleftrightarrow> \<not> s_read_even s \<and> \<not> spi_even s"

lemma write_bits_effect:
  assumes "unat nb \<le> 32"
  shows "on_wire (swd_write_bits W v nb s) = out_bits W (word_bits (unat nb) v) (on_wire s)"
    and "s_trn (swd_write_bits W v nb s) = s_trn s"
    and "s_sel_cache (swd_write_bits W v nb s) = s_sel_cache s"
    and "std_edge s \<Longrightarrow> std_edge (swd_write_bits W v nb s)"
  using assms
  by (simp_all add: swd_write_bits_def spi_send_units_def spi_set_data_bits_def spi_set_drive_def
    word_nibble_bits std_edge_def Let_def)

lemma read_bits_effect:
  assumes "unat nb \<le> 32" and "std_edge s"
  shows "fst (swd_read_bits W nb s) = bits_word (fst (in_bits W False (unat nb) (on_wire s)))"
    and "on_wire (snd (swd_read_bits W nb s)) = snd (in_bits W False (unat nb) (on_wire s))"
    and "s_trn (snd (swd_read_bits W nb s)) = s_trn s"
    and "s_sel_cache (snd (swd_read_bits W nb s)) = s_sel_cache s"
    and "std_edge (snd (swd_read_bits W nb s))"
proof -
  define n where "n = unat nb"
  obtain bs t where in_bits: "in_bits W False n (on_wire s) = (bs, t)" by fastforce
  have len: "length bs = n" using length_in_bits [of W False n "on_wire s"] in_bits by simp
  have n: "n \<le> 32" "nb < 32 \<longleftrightarrow> n < 32" using assms(1) by (simp_all add: n_def word_less_nat_alt)
  have m: "bits_word bs AND (push_bit n 1 - 1) = bits_word bs"
  proof -
    have "(push_bit n 1 - 1 :: u32) = mask n" by (simp add: mask_eq_exp_minus_1)
    then show ?thesis
      using len by (auto simp: bit_bits_word bit_mask_iff bit_and_iff intro!: bit_word_eqI)
  qed
  have edge: "spi_even (spi_set_data_bits nb (spi_set_drive False s)) = False"
    "on_wire (spi_set_data_bits nb (spi_set_drive False s)) = on_wire s"
    "spi_bits (spi_set_data_bits nb (spi_set_drive False s)) = nb"
    using assms(2) by (simp_all add: spi_set_data_bits_def spi_set_drive_def std_edge_def)
  have run: "swd_read_bits W nb s =
      (bits_word bs, (spi_set_data_bits nb (spi_set_drive False s))\<lparr> spi_drive := False, on_wire := t \<rparr>)"
    unfolding swd_read_bits_def Let_def spi_receive_unit_def edge
    using in_bits byte_join_bits [of bs] len n m by (simp add: n_def)
  show "fst (swd_read_bits W nb s) = bits_word (fst (in_bits W False (unat nb) (on_wire s)))"
    "on_wire (snd (swd_read_bits W nb s)) = snd (in_bits W False (unat nb) (on_wire s))"
    "s_trn (snd (swd_read_bits W nb s)) = s_trn s"
    "s_sel_cache (snd (swd_read_bits W nb s)) = s_sel_cache s"
    "std_edge (snd (swd_read_bits W nb s))"
    using in_bits assms(2) unfolding run
    by (simp_all add: n_def spi_set_data_bits_def spi_set_drive_def std_edge_def)
qed

section \<open>Parity\<close>

fun parity_bits :: "bool list \<Rightarrow> bool" where
  "parity_bits [] = False"
| "parity_bits (b # bs) = (b \<noteq> parity_bits bs)"

lemma parity_bits_append: "parity_bits (xs @ ys) = (parity_bits xs \<noteq> parity_bits ys)"
  by (induction xs) auto

lemma parity_bits_xor:
  "(parity_bits (map f xs) \<noteq> parity_bits (map g xs)) = parity_bits (map (\<lambda>i. f i \<noteq> g i) xs)"
  by (induction xs) auto

lemma parity_bits_halves:
  "parity_bits (map f [0..<2 * k]) = parity_bits (map (\<lambda>i. f i \<noteq> f (i + k)) [0..<k])"
proof -
  have "[0..<2 * k] = [0..<k] @ map (\<lambda>i. i + k) [0..<k]"
    by (simp add: map_add_upt mult_2 upt_add_eq_append [of 0 k k, simplified])
  then have "parity_bits (map f [0..<2 * k]) = (parity_bits (map f [0..<k]) \<noteq> parity_bits (map (\<lambda>i. f (i + k)) [0..<k]))"
    by (simp add: parity_bits_append comp_def)
  also have "\<dots> = parity_bits (map (\<lambda>i. f i \<noteq> f (i + k)) [0..<k])"
    by (rule parity_bits_xor)
  finally show ?thesis .
qed

lemma parity_bits_fold:
  "parity_bits (map (bit v) [0..<2 * k]) = parity_bits (map (bit (v XOR drop_bit k v)) [0..<k])" for v :: u32
  unfolding parity_bits_halves
  by (intro arg_cong [where f = parity_bits] map_cong refl) (simp add: bit_xor_iff bit_drop_bit_eq add.commute)

lemma parity32_parity: "parity32 v = of_bool (parity_bits (word_bits 32 v))"
proof -
  define v1 where "v1 = v XOR drop_bit 16 v"
  define v2 where "v2 = v1 XOR drop_bit 8 v1"
  define v3 where "v3 = v2 XOR drop_bit 4 v2"
  define v4 where "v4 = v3 XOR drop_bit 2 v3"
  define v5 where "v5 = v4 XOR drop_bit 1 v4"
  have "parity_bits (word_bits 32 v) = parity_bits (map (bit v) [0..<2 * 16])" by (simp add: word_bits_def)
  also have "\<dots> = parity_bits (map (bit v1) [0..<2 * 8])" unfolding v1_def by (subst parity_bits_fold) simp
  also have "\<dots> = parity_bits (map (bit v2) [0..<2 * 4])" unfolding v2_def by (subst parity_bits_fold) simp
  also have "\<dots> = parity_bits (map (bit v3) [0..<2 * 2])" unfolding v3_def by (subst parity_bits_fold) simp
  also have "\<dots> = parity_bits (map (bit v4) [0..<2 * 1])" unfolding v4_def by (subst parity_bits_fold) simp
  also have "\<dots> = parity_bits (map (bit v5) [0..<1])" unfolding v5_def by (subst parity_bits_fold) simp
  also have "\<dots> = odd v5" by (simp add: bit_0)
  finally have "parity_bits (word_bits 32 v) = odd v5" .
  moreover have "parity32 v = v5 AND 1"
    unfolding parity32_def Let_def v1_def [symmetric] v2_def [symmetric] v3_def [symmetric]
      v4_def [symmetric] v5_def [symmetric] by (rule refl)
  ultimately show ?thesis by (simp add: and_one_eq odd_iff_mod_2_eq_one)
qed

section \<open>A transfer on the wire\<close>

definition request_bits :: "u32 \<Rightarrow> bool list" where
  "request_bits r = [True, bit r 0, bit r 1, bit r 2, bit r 3,
     parity_bits [bit r 0, bit r 1, bit r 2, bit r 3], False, True]"

lemma bit_start_park: "bit (0x81 :: u32) n \<longleftrightarrow> n = 0 \<or> n = 7"
proof -
  have e: "(0x81 :: u32) = push_bit 7 1 OR 1" by (simp add: push_bit_eq_mult)
  show ?thesis unfolding e bit_or_iff bit_push_bit_iff bit_1_iff by auto
qed

lemma bit_nibble: "bit (r AND 0x0F) n \<longleftrightarrow> n < 4 \<and> bit r n" for r :: u32
proof -
  have e: "(0x0F :: u32) = mask 4" by (simp add: mask_eq_exp_minus_1)
  show ?thesis unfolding e bit_and_iff bit_mask_iff by auto
qed

lemma request_byte_bits: "word_bits 8 (ucast (request_byte r)) = request_bits r"
proof -
  define p where "p = (r XOR drop_bit 1 r XOR drop_bit 2 r XOR drop_bit 3 r) AND 1"
  have p: "bit p n \<longleftrightarrow> n = 0 \<and> (bit r 0 \<noteq> (bit r 1 \<noteq> (bit r 2 \<noteq> bit r 3)))" for n
    by (auto simp: p_def bit_simps numeral_2_eq_2 numeral_3_eq_3)
  have b: "bit (ucast (request_byte r) :: u32) n \<longleftrightarrow>
      n < 8 \<and> (n = 0 \<or> n = 7 \<or> (1 \<le> n \<and> n - 1 < 4 \<and> bit r (n - 1)) \<or> (5 \<le> n \<and> bit p (n - 5)))" for n
    unfolding request_byte_def Let_def p_def [symmetric] bit_unsigned_iff bit_or_iff bit_push_bit_iff
      bit_start_park bit_nibble by auto
  have "[0..<8] = [0, 1, 2, 3, 4, 5, 6, 7 :: nat]" by (simp add: upt_rec)
  then show ?thesis by (simp add: word_bits_def b p request_bits_def)
qed

text \<open>What a transfer is on the wire, with \<open>trn\<close> turnaround clocks: data read, acknowledge, state of the wire.\<close>

definition wire_transfer :: "'t wire \<Rightarrow> nat \<Rightarrow> u32 \<Rightarrow> u32 \<Rightarrow> 't \<Rightarrow> u8 \<times> u32 \<times> 't" where
  "wire_transfer W trn request data t =
    (let t = out_bits W (request_bits request) t;
         t = snd (in_bits W False trn t);
         (a, t) = in_bits W False 3 t
     in if a = [True, False, False]
        then (if bit request 1
              then (let (bs, t) = in_bits W False 32 t;
                        (p, t) = in_bits W False 1 t;
                        t = snd (in_bits W False trn t)
                    in (if parity_bits bs \<noteq> p ! 0 then 9 else 1, bits_word bs, t))
              else (let t = snd (in_bits W False trn t)
                    in (1, data, out_bits W (word_bits 32 data @ [parity_bits (word_bits 32 data)]) t)))
        else (ucast (bits_word a), data, snd (in_bits W False trn t)))"

definition trn_clocks :: "'t swd \<Rightarrow> nat" where
  "trn_clocks s = (if s_trn s = 0 then 1 else unat (s_trn s))"

lemma turnaround_effect:
  assumes "trn_clocks s \<le> 32" and "std_edge s"
  shows "on_wire (swd_turnaround W s) = snd (in_bits W False (trn_clocks s) (on_wire s))"
    and "s_trn (swd_turnaround W s) = s_trn s" and "s_sel_cache (swd_turnaround W s) = s_sel_cache s"
    and "std_edge (swd_turnaround W s)"
  using read_bits_effect [of "if s_trn s \<noteq> 0 then s_trn s else 1" s W] assms
  by (auto simp: swd_turnaround_def trn_clocks_def split: if_splits)


lemma eq_three_bits:
  assumes "length a = 3"
  shows "bits_word a = DAP_TRANSFER_OK \<longleftrightarrow> a = [True, False, False]"
    and "bits_word a = DAP_TRANSFER_WAIT \<longleftrightarrow> a = [False, True, False]"
    and "bits_word a = DAP_TRANSFER_FAULT \<longleftrightarrow> a = [False, False, True]"
proof -
  obtain x y z where a: "a = [x, y, z]" using assms by (auto simp: eval_nat_numeral length_Suc_conv)
  show "bits_word a = DAP_TRANSFER_OK \<longleftrightarrow> a = [True, False, False]"
    "bits_word a = DAP_TRANSFER_WAIT \<longleftrightarrow> a = [False, True, False]"
    "bits_word a = DAP_TRANSFER_FAULT \<longleftrightarrow> a = [False, False, True]"
    unfolding a by (cases x; cases y; cases z; simp add: bits_word_def transfer_bits)+
qed

lemma request_read_bit: "r AND DAP_TRANSFER_RnW \<noteq> 0 \<longleftrightarrow> bit r 1"
  using and_exp_eq_0_iff_not_bit [of r 1] by (simp add: DAP_TRANSFER_RnW_def)

text \<open>The SPI transport realises the protocol on the wire.\<close>

lemma swd_transfer_wire:
  assumes "std_edge s" and "trn_clocks s \<le> 32"
  shows "case SWD_Transfer W request (Some d) s of (ack, data, s') \<Rightarrow>
      (ack, the data, on_wire s') = wire_transfer W (trn_clocks s) request d (on_wire s)
      \<and> data \<noteq> None \<and> std_edge s' \<and> s_trn s' = s_trn s \<and> s_sel_cache s' = s_sel_cache s"
proof -
  let ?n = "trn_clocks s"
  define s1 where "s1 = swd_write_bits W (ucast (request_byte request)) 8 s"
  define s2 where "s2 = swd_turnaround W s1"
  define s3 where "s3 = snd (swd_read_bits W 3 s2)"
  define ack where "ack = fst (swd_read_bits W 3 s2)"
  obtain a t3 where a: "in_bits W False 3 (on_wire s2) = (a, t3)" by fastforce
  have len: "length a = 3" using length_in_bits [of W False 3 "on_wire s2"] a by simp
  have s1: "on_wire s1 = out_bits W (request_bits request) (on_wire s)" "std_edge s1" "s_trn s1 = s_trn s"
    "s_sel_cache s1 = s_sel_cache s"
    using write_bits_effect [where nb = 8 and W = W and v = "ucast (request_byte request)" and s = s] assms(1) request_byte_bits
    by (simp_all add: s1_def)
  have trn: "trn_clocks x = ?n" if "s_trn x = s_trn s" for x :: "'a swd" using that by (simp add: trn_clocks_def)
  have s2: "on_wire s2 = snd (in_bits W False ?n (on_wire s1))" "std_edge s2" "s_trn s2 = s_trn s"
    "s_sel_cache s2 = s_sel_cache s"
    using turnaround_effect [of s1 W] s1 assms(2) trn [OF s1(3)] by (simp_all add: s2_def)
  have s3: "ack = bits_word a" "on_wire s3 = t3" "std_edge s3" "s_trn s3 = s_trn s" "s_sel_cache s3 = s_sel_cache s"
    using read_bits_effect [of 3 s2 W] s2 a by (simp_all add: s3_def ack_def)
  have turn: "on_wire (swd_turnaround W x) = snd (in_bits W False ?n (on_wire x))"
    "std_edge (swd_turnaround W x)" "s_trn (swd_turnaround W x) = s_trn s"
    "s_sel_cache (swd_turnaround W x) = s_sel_cache x"
    if "std_edge x" "s_trn x = s_trn s" for x
    using turnaround_effect [of x W] that assms(2) trn [OF that(2)] by simp_all
  have start: "SWD_Transfer W request (Some d) s =
      (if ack = DAP_TRANSFER_OK
        then (if request AND DAP_TRANSFER_RnW \<noteq> 0
              then (let (val, s) = swd_read_bits W 32 s3; (par, s) = swd_read_bits W 1 s; s = swd_turnaround W s;
                        ack = (if parity32 val \<noteq> par AND 1 then ack OR DAP_TRANSFER_ERROR else ack)
                    in (ucast ack, Some val, s))
              else (let s = swd_turnaround W s3; s = swd_write_bits W d 32 s; s = swd_write_bits W (parity32 d) 1 s
                    in (ucast ack, Some d, s)))
        else (ucast ack, Some d, swd_turnaround W s3))"
    unfolding SWD_Transfer_def Let_def s1_def [symmetric] s2_def [symmetric] ack_def s3_def
    by (simp add: case_prod_beta)
  have wire: "wire_transfer W ?n request d (on_wire s) =
      (if a = [True, False, False]
        then (if bit request 1
              then (let (bs, t) = in_bits W False 32 t3; (p, t) = in_bits W False 1 t; t = snd (in_bits W False ?n t)
                    in (if parity_bits bs \<noteq> p ! 0 then 9 else 1, bits_word bs, t))
              else (1, d, out_bits W (word_bits 32 d @ [parity_bits (word_bits 32 d)]) (snd (in_bits W False ?n t3))))
        else (ucast (bits_word a), d, snd (in_bits W False ?n t3)))"
    using a s1 s2 by (simp add: wire_transfer_def Let_def)
  consider "a \<noteq> [True, False, False]" | "a = [True, False, False]" "bit request 1"
    | "a = [True, False, False]" "\<not> bit request 1" by blast
  then show ?thesis
  proof cases
    case 1
    then show ?thesis
      using start wire s3 eq_three_bits(1) [OF len] turn [OF s3(3,4)] by simp
  next
    case 2
    define s4 where "s4 = snd (swd_read_bits W 32 s3)"
    define s5 where "s5 = snd (swd_read_bits W 1 s4)"
    obtain bs t4 where bs: "in_bits W False 32 t3 = (bs, t4)" by fastforce
    obtain p t5 where p: "in_bits W False 1 t4 = (p, t5)" by fastforce
    have lens: "length bs = 32" "length p = 1"
      using length_in_bits [of W False 32 t3] length_in_bits [of W False 1 t4] bs p by simp_all
    have s4: "fst (swd_read_bits W 32 s3) = bits_word bs" "on_wire s4 = t4" "std_edge s4" "s_trn s4 = s_trn s"
      "s_sel_cache s4 = s_sel_cache s"
      using read_bits_effect [of 32 s3 W] s3 bs by (simp_all add: s4_def)
    have s5: "fst (swd_read_bits W 1 s4) = bits_word p" "on_wire s5 = t5" "std_edge s5" "s_trn s5 = s_trn s"
      "s_sel_cache s5 = s_sel_cache s"
      using read_bits_effect [of 1 s4 W] s4 p by (simp_all add: s5_def)
    obtain q where q: "p = [q]" using lens(2) by (auto simp: length_Suc_conv)
    have par: "bits_word p AND 1 = of_bool (p ! 0)" by (cases q) (simp_all add: q bits_word_def)
    have "parity32 (bits_word bs) = of_bool (parity_bits bs)"
      using word_bits_word [of bs] lens(1) by (simp add: parity32_parity)
    then have "(parity32 (bits_word bs) \<noteq> bits_word p AND 1) = (parity_bits bs \<noteq> p ! 0)"
      unfolding par by (cases "parity_bits bs"; cases "p ! 0") simp_all
    moreover have "fst (w_in W False t4) = p ! 0" using p by (auto split: prod.splits)
    moreover have "(ucast (DAP_TRANSFER_OK OR DAP_TRANSFER_ERROR) :: u8) = 9" "(ucast DAP_TRANSFER_OK :: u8) = 1"
      by (simp_all add: transfer_bits)
    ultimately show ?thesis
      using start wire s3 s4 s5 2 eq_three_bits(1) [OF len] request_read_bit [of request] bs p turn [OF s5(3,4)]
      by (simp add: s4_def [symmetric] s5_def [symmetric] case_prod_beta Let_def)
  next
    case 3
    define s4 where "s4 = swd_turnaround W s3"
    define s5 where "s5 = swd_write_bits W d 32 s4"
    define s6 where "s6 = swd_write_bits W (parity32 d) 1 s5"
    have s4: "on_wire s4 = snd (in_bits W False ?n t3)" "std_edge s4" "s_trn s4 = s_trn s"
      "s_sel_cache s4 = s_sel_cache s"
      using turn [OF s3(3,4)] s3 by (simp_all add: s4_def)
    have s5: "on_wire s5 = out_bits W (word_bits 32 d) (on_wire s4)" "std_edge s5" "s_trn s5 = s_trn s"
      "s_sel_cache s5 = s_sel_cache s"
      using write_bits_effect [where nb = 32 and W = W and v = d and s = s4] s4 by (simp_all add: s5_def)
    have "word_bits 1 (parity32 d) = [parity_bits (word_bits 32 d)]"
      by (cases "parity_bits (word_bits 32 d)") (simp_all add: parity32_parity word_bits_def)
    then have s6: "on_wire s6 = out_bits W [parity_bits (word_bits 32 d)] (on_wire s5)" "std_edge s6" "s_trn s6 = s_trn s"
      "s_sel_cache s6 = s_sel_cache s"
      using write_bits_effect [where nb = 1 and W = W and v = "parity32 d" and s = s5] s5 by (simp_all add: s6_def)
    have "(ucast DAP_TRANSFER_OK :: u8) = 1" by (simp add: transfer_bits)
    then show ?thesis
      using start wire s3 s4(1) s5 s6 3 eq_three_bits(1) [OF len] request_read_bit [of request]
      by (simp add: s4_def [symmetric] s5_def [symmetric] s6_def [symmetric] Let_def out_bits_append)
  qed
qed

section \<open>Sequences on the wire\<close>

lemma upt_split_shift: "[0..<a + b] = [0..<a] @ map (\<lambda>i. i + a) [0..<b]"
  using upt_add_eq_append [of 0 a b] map_add_upt [of a b] by (simp add: add.commute)

lemma buf_bits_bytes: "n \<le> length data \<Longrightarrow>
  concat (map (buf_bits 8) (map (\<lambda>b. [b]) (take n data))) = buf_bits (8 * n) data"
proof (induction n)
  case (Suc n)
  have "[0..<8 * Suc n] = [0..<8 * n] @ map (\<lambda>i. i + 8 * n) [0..<8]"
    using upt_split_shift [of "8 * n" 8] by (simp add: add.commute)
  moreover have "map (\<lambda>i. bit (data ! ((i + 8 * n) div 8)) ((i + 8 * n) mod 8)) [0..<8] =
      buf_bits 8 [data ! n]"
    unfolding buf_bits_def by (rule map_cong [OF refl]) simp
  ultimately have "buf_bits (8 * Suc n) data = buf_bits (8 * n) data @ buf_bits 8 [data ! n]"
    by (simp add: buf_bits_def comp_def)
  with Suc show ?case by (simp add: take_Suc_conv_app_nth)
qed (simp add: buf_bits_def)

lemma buf_bits_drop: "buf_bits (8 * m + n) data = buf_bits (8 * m) data @ buf_bits n (drop m data)"
  if "m \<le> length data"
proof -
  have "[0..<8 * m + n] = [0..<8 * m] @ map (\<lambda>i. i + 8 * m) [0..<n]"
    by (rule upt_split_shift)
  moreover have "map (\<lambda>i. bit (data ! ((i + 8 * m) div 8)) ((i + 8 * m) mod 8)) [0..<n] =
      buf_bits n (drop m data)"
    unfolding buf_bits_def using that by (intro map_cong refl) (simp add: add.commute)
  ultimately show ?thesis by (simp add: buf_bits_def comp_def)
qed

lemma send_units_effect:
  assumes "spi_bits s = 8" and "n \<le> length data"
  shows "on_wire (spi_send_units W (map (\<lambda>b. [b]) (take n data)) s) = out_bits W (buf_bits (8 * n) data) (on_wire s)"
  using assms buf_bits_bytes [OF assms(2)] by (simp add: spi_send_units_def comp_def)

lemma send_units_fields [simp]:
  "spi_bits (spi_send_units W us s) = spi_bits s" "s_trn (spi_send_units W us s) = s_trn s"
  "s_sel_cache (spi_send_units W us s) = s_sel_cache s"
  "s_read_even (spi_send_units W us s) = s_read_even s" "spi_even (spi_send_units W us s) = spi_even s"
  by (simp_all add: spi_send_units_def)

lemma write_chunks_effect:
  "spi_bits s = 8 \<Longrightarrow> n \<le> length data \<Longrightarrow>
   on_wire (swd_write_chunks W data n s) = out_bits W (buf_bits (8 * n) data) (on_wire s)
   \<and> s_trn (swd_write_chunks W data n s) = s_trn s
   \<and> s_sel_cache (swd_write_chunks W data n s) = s_sel_cache s
   \<and> s_read_even (swd_write_chunks W data n s) = s_read_even s
   \<and> spi_even (swd_write_chunks W data n s) = spi_even s"
proof (induction W data n s rule: swd_write_chunks.induct)
  case (1 W data n s)
  show ?case
  proof (cases "n = 0")
    case False
    define c where "c = (if 256 < n then 256 else n)"
    define s1 where "s1 = spi_send_units W (map (\<lambda>b. [b]) (take c data)) s"
    have c: "c \<le> n" by (simp add: c_def)
    have step: "swd_write_chunks W data n s = swd_write_chunks W (drop c data) (n - c) s1"
      using False by (subst swd_write_chunks.simps) (simp add: c_def s1_def Let_def)
    have s1: "on_wire s1 = out_bits W (buf_bits (8 * c) data) (on_wire s)" "spi_bits s1 = 8"
      using send_units_effect [of s c data W] "1.prems" c by (simp_all add: s1_def)
    have "8 * n = 8 * c + 8 * (n - c)" using c by simp
    then have "buf_bits (8 * n) data = buf_bits (8 * c) data @ buf_bits (8 * (n - c)) (drop c data)"
      using buf_bits_drop [of c data "8 * (n - c)"] "1.prems"(2) c by simp
    moreover have "on_wire (swd_write_chunks W (drop c data) (n - c) s1) =
        out_bits W (buf_bits (8 * (n - c)) (drop c data)) (on_wire s1)
      \<and> s_trn (swd_write_chunks W (drop c data) (n - c) s1) = s_trn s1
      \<and> s_sel_cache (swd_write_chunks W (drop c data) (n - c) s1) = s_sel_cache s1
      \<and> s_read_even (swd_write_chunks W (drop c data) (n - c) s1) = s_read_even s1
      \<and> spi_even (swd_write_chunks W (drop c data) (n - c) s1) = spi_even s1"
      using "1.IH" [of c] False "1.prems" s1(2) unfolding s1_def c_def by (simp add: Let_def)
    ultimately show ?thesis by (simp add: step s1(1) out_bits_append) (simp add: s1_def)
  qed (simp add: swd_write_chunks.simps buf_bits_def)
qed

lemma write_bytes_effect:
  assumes "n \<le> length data"
  shows "on_wire (swd_write_bytes W data n s) = out_bits W (buf_bits (8 * n) data) (on_wire s)"
    and "std_edge s \<Longrightarrow> std_edge (swd_write_bytes W data n s)"
    and "s_trn (swd_write_bytes W data n s) = s_trn s"
    and "s_sel_cache (swd_write_bytes W data n s) = s_sel_cache s"
  using write_chunks_effect [of "spi_set_data_bits 8 (spi_set_drive True s)" n data W] assms
  by (simp_all add: swd_write_bytes_def spi_set_data_bits_def spi_set_drive_def std_edge_def)

lemma buf_bits_word: "m \<le> 8 \<Longrightarrow> buf_bits m (x # xs) = word_bits m (ucast x)"
  by (auto simp: buf_bits_def word_bits_def bit_simps)

text \<open>\<^verbatim>\<open>SWJ_Sequence\<close> drives the bits of the buffer, least significant first, one clock each.\<close>

lemma swj_sequence_wire:
  assumes "count \<le> 8 * length data"
  shows "on_wire (SWJ_Sequence W count data s) = out_bits W (buf_bits count data) (on_wire s)"
    and "std_edge s \<Longrightarrow> std_edge (SWJ_Sequence W count data s)"
    and "s_trn (SWJ_Sequence W count data s) = s_trn s"
proof -
  define full where "full = count div 8"
  define r where "r = count mod 8"
  define s1 where "s1 = (if 0 < full then swd_write_bytes W data full s else s)"
  have count: "count = 8 * full + r" "r < 8" by (simp_all add: full_def r_def)
  have full: "full \<le> length data" using assms count by linarith
  have s1: "on_wire s1 = out_bits W (buf_bits (8 * full) data) (on_wire s)" "std_edge s \<Longrightarrow> std_edge s1" "s_trn s1 = s_trn s"
    using write_bytes_effect [OF full, where W = W and s = s] by (auto simp: s1_def buf_bits_def)
  have run: "SWJ_Sequence W count data s =
      (if 0 < r then swd_write_bits W (ucast (data ! full)) (of_nat r) s1 else s1)"
    by (simp add: SWJ_Sequence_def Let_def full_def r_def s1_def)
  have split: "buf_bits count data = buf_bits (8 * full) data @ buf_bits r (drop full data)"
    using buf_bits_drop [OF full, of r] count by simp
  show "on_wire (SWJ_Sequence W count data s) = out_bits W (buf_bits count data) (on_wire s)"
    "std_edge s \<Longrightarrow> std_edge (SWJ_Sequence W count data s)" "s_trn (SWJ_Sequence W count data s) = s_trn s"
  proof -
    have r8: "unat (of_nat r :: u8) = r" using count(2) by (simp add: unat_of_nat take_bit_nat_eq_self_iff)
    have "drop full data = data ! full # drop (Suc full) data" if "0 < r"
      using that assms count by (intro Cons_nth_drop_Suc [symmetric]) linarith
    then have "buf_bits r (drop full data) = word_bits r (ucast (data ! full))" if "0 < r"
      using that buf_bits_word [of r] count(2) by simp
    then show "on_wire (SWJ_Sequence W count data s) = out_bits W (buf_bits count data) (on_wire s)"
      "std_edge s \<Longrightarrow> std_edge (SWJ_Sequence W count data s)" "s_trn (SWJ_Sequence W count data s) = s_trn s"
      using run split s1 r8 count(2)
        write_bits_effect [where nb = "of_nat r" and W = W and v = "ucast (data ! full)" and s = s1]
      by (auto simp: out_bits_append buf_bits_def)
  qed
qed

text \<open>The same for the two directions of \<^verbatim>\<open>SWD_Sequence\<close>; captured bits are packed eight to a byte.\<close>

definition pack_bits :: "bool list \<Rightarrow> u8 list" where
  "pack_bits bs = map (\<lambda>k. horner_sum of_bool 2 (take 8 (drop (8 * k) bs))) [0..<(length bs + 7) div 8]"

lemma seq_bytes_pack: "length bs \<le> 32 \<Longrightarrow> seq_bytes (length bs) (bits_word bs) = pack_bits bs"
  unfolding seq_bytes_def pack_bits_def
  by (intro map_cong refl bit_word_eqI)
    (auto simp: and_0xFF_u32 bit_simps bit_bits_word bit_horner_sum_bit_word_iff)

lemma pack_bits_append:
  assumes "length xs = 8 * k"
  shows "pack_bits (xs @ ys) = pack_bits xs @ pack_bits ys"
proof -
  have "(length (xs @ ys) + 7) div 8 = k + (length ys + 7) div 8" using assms by simp
  then have "[0..<(length (xs @ ys) + 7) div 8] = [0..<k] @ map (\<lambda>i. i + k) [0..<(length ys + 7) div 8]"
    by (simp only: upt_split_shift)
  then show ?thesis
    using assms by (auto simp: pack_bits_def comp_def algebra_simps)
qed

lemma seq_in_wire:
  "std_edge s \<Longrightarrow>
   (case swd_seq_in W n s of (bytes, s') \<Rightarrow>
      (case in_bits W False n (on_wire s) of (bs, t) \<Rightarrow> bytes = pack_bits bs \<and> on_wire s' = t)
      \<and> std_edge s' \<and> s_trn s' = s_trn s)"
proof (induction W n s rule: swd_seq_in.induct)
  case (1 W n s)
  show ?case
  proof (cases "n = 0")
    case False
    define m where "m = (if 32 \<le> n then 32 else n)"
    define s1 where "s1 = snd (swd_read_bits W (of_nat m) s)"
    have m: "m \<le> n" "m \<le> 32" "m < n \<Longrightarrow> m = 32" by (auto simp: m_def split: if_splits)
    have m8: "unat (of_nat m :: u8) = m" using m(2) by (simp add: unat_of_nat take_bit_nat_eq_self_iff)
    obtain bs t where bs: "in_bits W False m (on_wire s) = (bs, t)" by fastforce
    have len: "length bs = m" using length_in_bits [of W False m "on_wire s"] bs by simp
    have read: "fst (swd_read_bits W (of_nat m) s) = bits_word bs" "on_wire s1 = t" "std_edge s1" "s_trn s1 = s_trn s"
      using read_bits_effect [of "of_nat m" s W] m8 m(2) "1.prems" bs by (simp_all add: s1_def)
    obtain more s2 where more: "swd_seq_in W (n - m) s1 = (more, s2)" by fastforce
    obtain cs u where cs: "in_bits W False (n - m) t = (cs, u)" by fastforce
    have clen: "length cs = n - m" using length_in_bits [of W False "n - m" t] cs by simp
    have ih: "more = pack_bits cs" "on_wire s2 = u" "std_edge s2" "s_trn s2 = s_trn s1"
      using "1.IH" [of m "swd_read_bits W (of_nat m) s" "fst (swd_read_bits W (of_nat m) s)" s1] False read(2,3) more cs
      by (simp_all add: m_def s1_def)
    have "in_bits W False n (on_wire s) = (bs @ cs, u)"
      using in_bits_add [of W False m "n - m" "on_wire s"] bs cs m(1) by simp
    moreover have "pack_bits (bs @ cs) = pack_bits bs @ pack_bits cs"
    proof (cases "m < n")
      case True
      then show ?thesis using pack_bits_append [of bs 4] len m(3) by simp
    next
      case False
      then show ?thesis using clen by (simp add: pack_bits_def)
    qed
    moreover have "swd_seq_in W n s = (seq_bytes m (bits_word bs) @ more, s2)"
      using False read(1) more by (subst swd_seq_in.simps) (simp add: m_def [symmetric] s1_def case_prod_beta Let_def)
    ultimately show ?thesis
      using seq_bytes_pack [of bs] len m(2) ih read(4) by simp
  qed (simp add: swd_seq_in.simps pack_bits_def 1)
qed

lemma seq_word_bits:
  assumes "m \<le> 32" and "m \<le> 8 * length swdo"
  shows "word_bits m (seq_word m swdo) = buf_bits m swdo"
proof -
  have fold: "bit (foldl (\<lambda>w k. w OR push_bit (8 * k) (ucast (swdo ! k))) w ks :: u32) i \<longleftrightarrow>
      bit w i \<or> i < 32 \<and> (\<exists>k \<in> set ks. 8 * k \<le> i \<and> i - 8 * k < 8 \<and> bit (swdo ! k) (i - 8 * k))" for w ks i
    by (induction ks arbitrary: w) (auto simp: bit_simps)
  have "bit (seq_word m swdo) i = bit (swdo ! (i div 8)) (i mod 8)" if "i < m" for i
  proof -
    have "(\<exists>k \<in> {0..<(m + 7) div 8}. 8 * k \<le> i \<and> i - 8 * k < 8 \<and> bit (swdo ! k) (i - 8 * k))
        \<longleftrightarrow> bit (swdo ! (i div 8)) (i mod 8)" (is "?l \<longleftrightarrow> ?r")
    proof
      assume ?l
      then obtain k where k: "8 * k \<le> i" "i - 8 * k < 8" "bit (swdo ! k) (i - 8 * k)" by blast
      then have "i div 8 = k" by (intro div_nat_eqI) simp_all
      moreover from this have "i - 8 * k = i mod 8" using minus_mult_div_eq_mod [of i 8] by simp
      ultimately show ?r using k(3) by simp
    next
      assume ?r
      moreover have "8 * (i div 8) \<le> i" "i - 8 * (i div 8) = i mod 8" "i div 8 < (m + 7) div 8"
        using that minus_mult_div_eq_mod [of i 8] by simp_all
      ultimately show ?l by (intro bexI [of _ "i div 8"]) simp_all
    qed
    then show ?thesis unfolding seq_word_def fold using that assms(1) by simp
  qed
  then show ?thesis by (simp add: word_bits_def buf_bits_def)
qed

lemma seq_out_wire:
  "n \<le> 8 * length swdo \<Longrightarrow>
   on_wire (swd_seq_out W n swdo s) = out_bits W (buf_bits n swdo) (on_wire s)
   \<and> (std_edge s \<longrightarrow> std_edge (swd_seq_out W n swdo s)) \<and> s_trn (swd_seq_out W n swdo s) = s_trn s"
proof (induction W n swdo s rule: swd_seq_out.induct)
  case (1 W n swdo s)
  show ?case
  proof (cases "n = 0")
    case False
    define m where "m = (if 32 \<le> n then 32 else n)"
    define s1 where "s1 = swd_write_bits W (seq_word m swdo) (of_nat m) s"
    have m: "m \<le> n" "m \<le> 32" "m < n \<Longrightarrow> m = 32" by (auto simp: m_def split: if_splits)
    have m8: "unat (of_nat m :: u8) = m" using m(2) by (simp add: unat_of_nat take_bit_nat_eq_self_iff)
    have s1: "on_wire s1 = out_bits W (buf_bits m swdo) (on_wire s)" "std_edge s \<Longrightarrow> std_edge s1" "s_trn s1 = s_trn s"
      using write_bits_effect [where nb = "of_nat m" and W = W and v = "seq_word m swdo" and s = s]
        m m8 seq_word_bits [of m swdo] "1.prems" by (simp_all add: s1_def)
    have step: "swd_seq_out W n swdo s = swd_seq_out W (n - m) (drop ((m + 7) div 8) swdo) s1"
      using False by (subst swd_seq_out.simps) (simp add: m_def [symmetric] s1_def Let_def)
    have rest: "n - m \<le> 8 * length (drop ((m + 7) div 8) swdo)"
    proof (cases "m < n")
      case True
      then show ?thesis using m(3) "1.prems" by simp
    qed simp
    have split: "buf_bits n swdo = buf_bits m swdo @ buf_bits (n - m) (drop ((m + 7) div 8) swdo)"
    proof (cases "m < n")
      case True
      then show ?thesis using buf_bits_drop [of 4 swdo "n - 32"] m(3) "1.prems" by simp
    next
      case False
      then show ?thesis using m(1) by (simp add: buf_bits_def)
    qed
    show ?thesis
      using "1.IH" [of m] False rest s1 split step by (simp add: m_def [symmetric] s1_def [symmetric] out_bits_append)
  qed (simp add: swd_seq_out.simps buf_bits_def)
qed

lemma swd_sequence_wire:
  assumes "std_edge s" and "info AND 0x80 = 0 \<Longrightarrow> sequence_clocks info \<le> 8 * length swdo"
  shows "case SWD_Sequence W info swdo s of (swdi, s') \<Rightarrow>
    (if info AND 0x80 \<noteq> 0
     then (case in_bits W False (sequence_clocks info) (on_wire s) of
            (bs, t) \<Rightarrow> swdi = pack_bits bs \<and> on_wire s' = t)
     else swdi = [] \<and> on_wire s' = out_bits W (buf_bits (sequence_clocks info) swdo) (on_wire s))
    \<and> std_edge s' \<and> s_trn s' = s_trn s"
  using seq_in_wire [OF assms(1), of W "sequence_clocks info"]
    seq_out_wire [OF assms(2), of W s] assms(1)
  by (auto simp: SWD_Sequence_def Let_def split: prod.splits)

section \<open>Access to the debug port and the access port\<close>

text \<open>
  The register layer, over any transfer function \<open>xfer\<close> with the type of \<open>SWD_Transfer\<close>; a state
  record carries the cache of the SELECT register.
\<close>

type_synonym 's xfer = "u32 \<Rightarrow> u32 option \<Rightarrow> 's \<Rightarrow> u8 \<times> u32 option \<times> 's"

text \<open>\<open>tries\<close> is the loop counter: the loop body runs once more while the answer is WAIT and the decremented counter is positive.\<close>

fun swd_retry_loop :: "'s xfer \<Rightarrow> nat \<Rightarrow> 's xfer" where
  "swd_retry_loop xfer 0 request data s = xfer request data s"
| "swd_retry_loop xfer (Suc tries) request data s =
    (case xfer request data s of (ack, data, s) \<Rightarrow>
      (if ack AND 7 = ucast DAP_TRANSFER_WAIT \<and> 0 < tries
       then swd_retry_loop xfer tries request data s
       else (ack, data, s)))"

definition swd_xfer_retry :: "'s xfer \<Rightarrow> 's xfer" where
  "swd_xfer_retry xfer = swd_retry_loop xfer SWD_WAIT_RETRIES"

definition swd_select_ap :: "'t swd xfer \<Rightarrow> u8 \<Rightarrow> 't swd \<Rightarrow> u8 \<times> 't swd" where
  "swd_select_ap xfer apreg s =
    (let sel = ucast (apreg AND 0xF0)
     in if sel \<noteq> s_sel_cache s
        then (case swd_xfer_retry xfer (ucast (DP_SELECT AND 0x0C)) (Some sel) s of
          (ack, d, s) \<Rightarrow> (ack, if ack AND 7 = ucast DAP_TRANSFER_OK then s\<lparr> s_sel_cache := the d \<rparr> else s))
        else (ucast DAP_TRANSFER_OK, s))"

definition dp_read :: "'s xfer \<Rightarrow> u8 \<Rightarrow> u32 \<Rightarrow> 's \<Rightarrow> u8 \<times> u32 option \<times> 's" where
  "dp_read xfer r out s = swd_xfer_retry xfer (DAP_TRANSFER_RnW OR ucast (r AND 0x0C)) (Some out) s"

definition dp_write :: "'s xfer \<Rightarrow> u8 \<Rightarrow> u32 \<Rightarrow> 's \<Rightarrow> u8 \<times> 's" where
  "dp_write xfer r v s = (case swd_xfer_retry xfer (ucast (r AND 0x0C)) (Some v) s of (ack, d, s) \<Rightarrow> (ack, s))"

definition ap_write :: "'t swd xfer \<Rightarrow> u8 \<Rightarrow> u32 \<Rightarrow> 't swd \<Rightarrow> u8 \<times> 't swd" where
  "ap_write xfer apreg v s =
    (case swd_select_ap xfer apreg s of (ack, s) \<Rightarrow>
      if ack AND 7 \<noteq> ucast DAP_TRANSFER_OK then (ack, s)
      else (case swd_xfer_retry xfer (DAP_TRANSFER_APnDP OR ucast (apreg AND 0x0C)) (Some v) s of
        (ack, d, s) \<Rightarrow> (ack, s)))"

definition ap_read :: "'t swd xfer \<Rightarrow> u8 \<Rightarrow> u32 \<Rightarrow> 't swd \<Rightarrow> u8 \<times> u32 option \<times> 't swd" where
  "ap_read xfer apreg out s =
    (case swd_select_ap xfer apreg s of (ack, s) \<Rightarrow>
      if ack AND 7 \<noteq> ucast DAP_TRANSFER_OK then (ack, Some out, s)
      else (case swd_xfer_retry xfer (DAP_TRANSFER_APnDP OR DAP_TRANSFER_RnW OR ucast (apreg AND 0x0C)) (Some 0) s of
        (ack, d, s) \<Rightarrow>
          if ack AND 7 \<noteq> ucast DAP_TRANSFER_OK then (ack, Some out, s)
          else swd_xfer_retry xfer (DAP_TRANSFER_RnW OR ucast (DP_RDBUFF AND 0x0C)) (Some out) s))"

definition k_swd_connect :: "u8 list" where
  "k_swd_connect = [0xFF, 0xFF, 0xFF, 0xFF, 0xFF, 0xFF, 0xFF, 0x9E, 0xE7,
     0xFF, 0xFF, 0xFF, 0xFF, 0xFF, 0xFF, 0xFF, 0x00]"

definition swd_send_connect :: "'t wire \<Rightarrow> 't swd \<Rightarrow> 't swd" where
  "swd_send_connect W s = swd_write_bytes W k_swd_connect (length k_swd_connect) s"

section \<open>The register layer, proved\<close>

text \<open>The result of the \<open>k\<close>-th attempt, counted from 0, each on the state the one before left.\<close>

fun attempt :: "'s xfer \<Rightarrow> u32 \<Rightarrow> u32 option \<Rightarrow> 's \<Rightarrow> nat \<Rightarrow> u8 \<times> u32 option \<times> 's" where
  "attempt xfer request data s 0 = xfer request data s"
| "attempt xfer request data s (Suc k) =
    (case attempt xfer request data s k of (_, data, s) \<Rightarrow> xfer request data s)"

definition waits :: "u8 \<Rightarrow> bool" where
  "waits ack \<longleftrightarrow> ack AND 7 = 2"

lemma attempt_shift:
  "attempt xfer request data s (Suc k) =
    (case xfer request data s of (_, data, s) \<Rightarrow> attempt xfer request data s k)"
  by (induction k) (auto split: prod.splits)

lemma retry_loop_attempt:
  assumes "0 < tries"
  shows "\<exists>k < tries. swd_retry_loop xfer tries request data s = attempt xfer request data s k
    \<and> (\<forall>j < k. waits (fst (attempt xfer request data s j)))
    \<and> (Suc k < tries \<longrightarrow> \<not> waits (fst (attempt xfer request data s k)))"
  using assms
proof (induction tries arbitrary: data s)
  case (Suc tries)
  obtain ack data' s' where x: "xfer request data s = (ack, data', s')" by (metis prod_cases3)
  show ?case
  proof (cases "waits ack \<and> 0 < tries")
    case True
    from Suc.IH [of data' s'] True obtain k where k: "k < tries"
      "swd_retry_loop xfer tries request data' s' = attempt xfer request data' s' k"
      "\<forall>j < k. waits (fst (attempt xfer request data' s' j))"
      "Suc k < tries \<longrightarrow> \<not> waits (fst (attempt xfer request data' s' k))" by blast
    have shift: "attempt xfer request data s (Suc j) = attempt xfer request data' s' j" for j
      by (simp add: attempt_shift x del: attempt.simps)
    have "swd_retry_loop xfer (Suc tries) request data s = attempt xfer request data s (Suc k)"
      using x True k(2) shift [of k] by (simp add: waits_def DAP_TRANSFER_WAIT_def del: attempt.simps)
    moreover have "waits (fst (attempt xfer request data s j))" if "j < Suc k" for j
    proof (cases j)
      case 0
      then show ?thesis using x True by simp
    next
      case (Suc i)
      then show ?thesis using that k(3) shift [of i] by (simp del: attempt.simps)
    qed
    ultimately show ?thesis
      using k(1,4) shift [of k] by (intro exI [of _ "Suc k"]) (simp del: attempt.simps)
  next
    case False
    then have "swd_retry_loop xfer (Suc tries) request data s = attempt xfer request data s 0"
      using x by (auto simp: waits_def DAP_TRANSFER_WAIT_def)
    then show ?thesis using False x by (intro exI [of _ 0]) auto
  qed
qed simp

text \<open>Invariants of single transfers are invariants of the retries.\<close>

lemma retry_preserves:
  assumes "\<And>d s ack d' s'. P (d, s) \<Longrightarrow> xfer request d s = (ack, d', s') \<Longrightarrow> waits ack \<Longrightarrow> P (d', s')"
    and "P (data, s)"
  obtains d1 s1 where "P (d1, s1)" "swd_xfer_retry xfer request data s = xfer request d1 s1"
proof -
  have "\<exists>d1 s1. P (d1, s1) \<and> swd_retry_loop xfer tries request data s = xfer request d1 s1" for tries
    using assms(2)
  proof (induction tries arbitrary: data s)
    case (Suc tries)
    obtain ack data' s' where x: "xfer request data s = (ack, data', s')" by (metis prod_cases3)
    show ?case
    proof (cases "waits ack \<and> 0 < tries")
      case True
      then show ?thesis
        using Suc.IH [OF assms(1) [OF Suc.prems x]] x by (simp add: waits_def DAP_TRANSFER_WAIT_def)
    next
      case False
      then have "swd_retry_loop xfer (Suc tries) request data s = xfer request data s"
        using x by (auto simp: waits_def DAP_TRANSFER_WAIT_def)
      with Suc.prems show ?thesis by blast
    qed
  qed auto
  then show thesis using that by (auto simp: swd_xfer_retry_def)
qed

text \<open>Bank and offset of an access-port register number, and the value of the acknowledge.\<close>

lemma ucast_bank: "(ucast (apreg AND 0xF0) :: u32) = ucast apreg AND 0xF0" for apreg :: u8
  by (simp add: unsigned_and_eq)

lemma ucast_offset: "(ucast (apreg AND 0x0C) :: u32) = ucast apreg AND 0xC" for apreg :: u8
  by (simp add: unsigned_and_eq)

lemma bank_offset:
  "((x AND 0xF0) AND 0xF0) = x AND 0xF0" "((x AND 0xF0) OR (x AND 0xC)) = x AND 0xFC"
  "(1 OR (x AND 0xC)) AND 3 = 1" "(1 OR (x AND 0xC)) AND 2 = 0" "(1 OR (x AND 0xC)) AND 0xC = x AND 0xC"
  "(1 OR 2 OR (x AND 0xC)) AND 3 = 3" "(1 OR 2 OR (x AND 0xC)) AND 0xC = x AND 0xC" for x :: u32
proof -
  show "((x AND 0xF0) OR (x AND 0xC)) = x AND 0xFC"
    by (simp flip: bit.conj_disj_distrib)
  have "(x AND 0xC) AND 3 = 0" "(x AND 0xC) AND 2 = 0" "(x AND 0xC) AND 0xC = x AND 0xC"
    "((x AND 0xF0) AND 0xF0) = x AND 0xF0"
    by (simp_all add: and.assoc)
  then show "((x AND 0xF0) AND 0xF0) = x AND 0xF0"
    "(1 OR (x AND 0xC)) AND 3 = 1" "(1 OR (x AND 0xC)) AND 2 = 0" "(1 OR (x AND 0xC)) AND 0xC = x AND 0xC"
    "(1 OR 2 OR (x AND 0xC)) AND 3 = 3" "(1 OR 2 OR (x AND 0xC)) AND 0xC = x AND 0xC"
    by (simp_all add: bit.conj_disj_distrib2)
qed

lemma ack_ok: "(ucast DAP_TRANSFER_OK :: u8) = 1"
  by (simp add: DAP_TRANSFER_OK_def)

text \<open>
  The access-port register of a number, read and written through the registers \<open>'d\<close> of a debug port: its
  bank goes to SELECT, its offset into the request.
\<close>

definition ap_get_reg :: "(u32 \<Rightarrow> 'd \<Rightarrow> u32 \<times> 'd) \<Rightarrow> (u32 \<Rightarrow> u32 \<Rightarrow> 'd \<Rightarrow> 'd) \<Rightarrow> u8 \<Rightarrow> 'd \<Rightarrow> u32 \<times> 'd" where
  "ap_get_reg get put apreg d = get (1 OR 2 OR (ucast apreg AND 0xC)) (put 8 (ucast apreg AND 0xF0) d)"

definition ap_put_reg :: "(u32 \<Rightarrow> u32 \<Rightarrow> 'd \<Rightarrow> 'd) \<Rightarrow> u8 \<Rightarrow> u32 \<Rightarrow> 'd \<Rightarrow> 'd" where
  "ap_put_reg put apreg v d = put (1 OR (ucast apreg AND 0xC)) v (put 8 (ucast apreg AND 0xF0) d)"

text \<open>The cache holds what SELECT holds, or a value that no bank selection writes.\<close>

definition sel_coherent :: "u32 \<Rightarrow> 't swd \<Rightarrow> bool" where
  "sel_coherent held s \<longleftrightarrow> s_sel_cache s = held \<or> s_sel_cache s AND 0xF0 \<noteq> s_sel_cache s"

text \<open>
  What ADIv5 documents of a debug port that the probe talks to (\<open>up\<close>), whatever it answers: a transfer
  that is not acknowledged with OK changes no register; an access-port read is posted, its value goes to
  RDBUFF and comes with the next read of it, unless that read has a parity error (9); a write writes, and
  the word to be written is not touched; SELECT holds what was written to it and no access-port access
  changes it.
\<close>

locale register_port =
  fixes xfer :: "'t swd xfer"
    and up :: "'t swd \<Rightarrow> bool"
    and regs :: "'t \<Rightarrow> 'd"
    and rbuf :: "'t \<Rightarrow> u32"
    and get :: "u32 \<Rightarrow> 'd \<Rightarrow> u32 \<times> 'd"
    and put :: "u32 \<Rightarrow> u32 \<Rightarrow> 'd \<Rightarrow> 'd"
    and sel :: "'d \<Rightarrow> u32"
  assumes stays: "up s \<Longrightarrow> xfer rq (Some d) s = (ack, d', s') \<Longrightarrow>
      up s' \<and> s_sel_cache s' = s_sel_cache s \<and> (\<exists>w. d' = Some w)"
    and word_kept: "up s \<Longrightarrow> xfer rq (Some d) s = (ack, d', s') \<Longrightarrow> rq AND 2 = 0 \<Longrightarrow> d' = Some d"
    and refused: "up s \<Longrightarrow> xfer rq (Some d) s = (ack, d', s') \<Longrightarrow> ack AND 7 \<noteq> 1 \<Longrightarrow>
      regs (on_wire s') = regs (on_wire s) \<and> rbuf (on_wire s') = rbuf (on_wire s)"
    and posts: "up s \<Longrightarrow> xfer rq (Some d) s = (ack, d', s') \<Longrightarrow> ack AND 7 = 1 \<Longrightarrow> rq AND 3 = 3 \<Longrightarrow>
      (rbuf (on_wire s'), regs (on_wire s')) = get rq (regs (on_wire s))"
    and fetches: "up s \<Longrightarrow> xfer 0xE (Some d) s = (ack, d', s') \<Longrightarrow> ack AND 7 = 1 \<Longrightarrow>
      regs (on_wire s') = regs (on_wire s) \<and> (ack = 1 \<longrightarrow> d' = Some (rbuf (on_wire s)))"
    and writes: "up s \<Longrightarrow> xfer rq (Some d) s = (ack, d', s') \<Longrightarrow> ack AND 7 = 1 \<Longrightarrow> rq AND 2 = 0 \<Longrightarrow>
      regs (on_wire s') = put rq d (regs (on_wire s))"
    and up_cache: "up (s\<lparr> s_sel_cache := c \<rparr>) = up s"
    and select: "sel (put 8 b r) = b"
    and selected: "sel r = b \<Longrightarrow> put 8 b r = r"
    and put_keeps_select: "rq AND 3 = 1 \<Longrightarrow> sel (put rq v r) = sel r"
    and get_keeps_select: "rq AND 3 = 3 \<Longrightarrow> sel (snd (get rq r)) = sel r"
begin

abbreviation held :: "'t swd \<Rightarrow> 'd" where "held s \<equiv> regs (on_wire s)"
abbreviation coherent :: "'t swd \<Rightarrow> bool" where "coherent s \<equiv> sel_coherent (sel (held s)) s"

text \<open>One access with retries: the state before the attempt that counts is as good as the first one.\<close>

lemma retry_access:
  assumes "up s" and "swd_xfer_retry xfer rq (Some d) s = (ack, d', s')"
  obtains d1 s1 where "xfer rq (Some d1) s1 = (ack, d', s')" "up s1" "s_sel_cache s1 = s_sel_cache s"
    "held s1 = held s" "rbuf (on_wire s1) = rbuf (on_wire s)" "rq AND 2 = 0 \<Longrightarrow> d1 = d"
proof -
  let ?P = "\<lambda>(x, t). (\<exists>y. x = Some y \<and> (rq AND 2 = 0 \<longrightarrow> y = d)) \<and> up t \<and> s_sel_cache t = s_sel_cache s
    \<and> held t = held s \<and> rbuf (on_wire t) = rbuf (on_wire s)"
  have "?P (x', t')" if P: "?P (x, t)" and run: "xfer rq x t = (a, x', t')" and w: "waits a" for x t a x' t'
  proof -
    obtain y where y: "x = Some y" "rq AND 2 = 0 \<longrightarrow> y = d" "up t" using P by auto
    note run' = run [unfolded y(1)]
    have na: "a AND 7 \<noteq> 1" using w by (simp add: waits_def)
    show ?thesis
      using P y(2) stays [OF y(3) run'] word_kept [OF y(3) run'] refused [OF y(3) run' na] by auto
  qed
  moreover have "?P (Some d, s)" using assms(1) by simp
  ultimately obtain x t where "?P (x, t)" "swd_xfer_retry xfer rq (Some d) s = xfer rq x t"
    by (rule retry_preserves)
  with that assms(2) show thesis by auto
qed

text \<open>After a successful bank selection SELECT holds the bank, whether the cache hit or missed.\<close>

lemma select_ap_effect:
  assumes "up s" and "coherent s" and "swd_select_ap xfer apreg s = (ack, s')"
  shows "up s' \<and> coherent s' \<and> held s' = (if ack AND 7 = 1 then put 8 (ucast apreg AND 0xF0) (held s) else held s)"
proof -
  let ?bank = "ucast apreg AND 0xF0 :: u32"
  show ?thesis
  proof (cases "?bank = s_sel_cache s")
    case True
    then have "s' = s" "ack = 1" using assms(3) by (simp_all add: swd_select_ap_def ucast_bank ack_ok)
    moreover have "s_sel_cache s AND 0xF0 = s_sel_cache s" unfolding True [symmetric] by (rule bank_offset)
    ultimately show ?thesis using assms(1,2) True selected by (simp add: sel_coherent_def)
  next
    case False
    obtain ack1 d s1 where run: "swd_xfer_retry xfer 8 (Some ?bank) s = (ack1, d, s1)" by (metis prod_cases3)
    have s': "ack = ack1" "s' = (if ack AND 7 = 1 then s1\<lparr> s_sel_cache := the d \<rparr> else s1)"
      using assms(3) False run by (auto simp: swd_select_ap_def ucast_bank DP_SELECT_def ack_ok)
    have two: "(8 :: u32) AND 2 = 0" by simp
    obtain d0 s0 where x: "xfer 8 (Some d0) s0 = (ack1, d, s1)" "up s0" "s_sel_cache s0 = s_sel_cache s"
      "held s0 = held s" "d0 = ?bank"
      using retry_access [OF assms(1) run] two by metis
    note f = stays [OF x(2,1)] word_kept [OF x(2,1) two]
    show ?thesis
    proof (cases "ack AND 7 = 1")
      case True
      then show ?thesis
        using writes [OF x(2,1) _ two] f s' x(4,5) by (simp add: sel_coherent_def up_cache select)
    next
      case False
      then show ?thesis using refused [OF x(2,1)] f s' x(3,4) assms(2) by (simp add: sel_coherent_def)
    qed
  qed
qed

lemma ap_write_effect:
  assumes "up s" and "coherent s" and "ap_write xfer apreg v s = (ack, s')"
  shows "up s' \<and> coherent s'"
    and "ack AND 7 = 1 \<Longrightarrow> held s' = ap_put_reg put apreg v (held s)"
    and "ack AND 7 \<noteq> 1 \<Longrightarrow> held s' \<in> {held s, put 8 (ucast apreg AND 0xF0) (held s)}"
proof -
  let ?r = "1 OR (ucast apreg AND 0xC) :: u32"
  obtain ack1 s1 where sel1: "swd_select_ap xfer apreg s = (ack1, s1)" by fastforce
  note S = select_ap_effect [OF assms(1,2) sel1]
  have "up s' \<and> coherent s' \<and> (ack AND 7 = 1 \<longrightarrow> held s' = ap_put_reg put apreg v (held s))
    \<and> (ack AND 7 \<noteq> 1 \<longrightarrow> held s' \<in> {held s, put 8 (ucast apreg AND 0xF0) (held s)})"
  proof (cases "ack1 AND 7 = 1")
    case False
    then have "ack = ack1" "s' = s1" using assms(3) sel1 by (simp_all add: ap_write_def ack_ok)
    then show ?thesis using S False by auto
  next
    case True
    obtain d where run: "swd_xfer_retry xfer ?r (Some v) s1 = (ack, d, s')"
      using assms(3) sel1 True
      by (auto simp: ap_write_def ack_ok ucast_offset DAP_TRANSFER_APnDP_def split: prod.splits)
    have up1: "up s1" using S by simp
    obtain d0 s0 where x: "xfer ?r (Some d0) s0 = (ack, d, s')" "up s0" "s_sel_cache s0 = s_sel_cache s1"
      "held s0 = held s1" "d0 = v"
      using retry_access [OF up1 run] bank_offset(4) by metis
    note f = stays [OF x(2,1)]
    have held1: "held s1 = put 8 (ucast apreg AND 0xF0) (held s)" using S True by simp
    show ?thesis
    proof (cases "ack AND 7 = 1")
      case ok: True
      have w: "held s' = put ?r v (held s1)" using writes [OF x(2,1) ok bank_offset(4)] x(4,5) by simp
      then have "sel (held s') = sel (held s1)" using put_keeps_select [OF bank_offset(3)] by simp
      then show ?thesis using w f x(3) S ok held1 by (simp add: sel_coherent_def ap_put_reg_def)
    next
      case False
      then show ?thesis using refused [OF x(2,1)] f x(3,4) S held1 by (simp add: sel_coherent_def)
    qed
  qed
  then show "up s' \<and> coherent s'" and "ack AND 7 = 1 \<Longrightarrow> held s' = ap_put_reg put apreg v (held s)"
    and "ack AND 7 \<noteq> 1 \<Longrightarrow> held s' \<in> {held s, put 8 (ucast apreg AND 0xF0) (held s)}" by simp_all
qed

lemma ap_read_effect:
  assumes "up s" and "coherent s" and "ap_read xfer apreg out s = (ack, d', s')"
  shows "up s' \<and> coherent s'"
    and "ack AND 7 = 1 \<Longrightarrow> held s' = snd (ap_get_reg get put apreg (held s))"
    and "ack = 1 \<Longrightarrow> d' = Some (fst (ap_get_reg get put apreg (held s)))"
    and "ack AND 7 \<noteq> 1 \<Longrightarrow>
      held s' \<in> {held s, put 8 (ucast apreg AND 0xF0) (held s), snd (ap_get_reg get put apreg (held s))}"
proof -
  let ?r = "1 OR 2 OR (ucast apreg AND 0xC) :: u32"
  obtain ack1 s1 where sel1: "swd_select_ap xfer apreg s = (ack1, s1)" by fastforce
  note S = select_ap_effect [OF assms(1,2) sel1]
  have "up s' \<and> coherent s' \<and> (ack AND 7 = 1 \<longrightarrow> held s' = snd (ap_get_reg get put apreg (held s)))
    \<and> (ack = 1 \<longrightarrow> d' = Some (fst (ap_get_reg get put apreg (held s))))
    \<and> (ack AND 7 \<noteq> 1 \<longrightarrow>
      held s' \<in> {held s, put 8 (ucast apreg AND 0xF0) (held s), snd (ap_get_reg get put apreg (held s))})"
  proof (cases "ack1 AND 7 = 1")
    case False
    then have "ack = ack1" "s' = s1" using assms(3) sel1 by (simp_all add: ap_read_def ack_ok)
    then show ?thesis using S False by auto
  next
    case True
    have S1: "up s1" "coherent s1" "held s1 = put 8 (ucast apreg AND 0xF0) (held s)" using S True by auto
    obtain ack2 d2 s2 where run: "swd_xfer_retry xfer ?r (Some 0) s1 = (ack2, d2, s2)" by (metis prod_cases3)
    obtain d0 s0 where x: "xfer ?r (Some d0) s0 = (ack2, d2, s2)" "up s0" "s_sel_cache s0 = s_sel_cache s1"
      "held s0 = held s1"
      using retry_access [OF S1(1) run] by metis
    note f = stays [OF x(2,1)]
    have rest: "ap_read xfer apreg out s =
        (if ack2 AND 7 \<noteq> 1 then (ack2, Some out, s2) else swd_xfer_retry xfer 0xE (Some out) s2)"
      using sel1 True run
      by (simp add: ap_read_def ack_ok ucast_offset DAP_TRANSFER_APnDP_def DAP_TRANSFER_RnW_def DP_RDBUFF_def)
    show ?thesis
    proof (cases "ack2 AND 7 = 1")
      case False
      then have "ack = ack2" "s' = s2" using assms(3) rest by simp_all
      then show ?thesis using refused [OF x(2,1) False] False f x(3,4) S1 by (auto simp: sel_coherent_def)
    next
      case ok: True
      have got: "(rbuf (on_wire s2), held s2) = ap_get_reg get put apreg (held s)"
        using posts [OF x(2,1) ok bank_offset(6)] x(4) S1(3) by (simp add: ap_get_reg_def)
      have "held s2 = snd (get ?r (held s1))" using got S1(3) by (metis ap_get_reg_def snd_conv)
      then have "sel (held s2) = sel (held s1)" using get_keeps_select [OF bank_offset(6)] by simp
      then have c2: "up s2" "coherent s2" using f x(3) S1(2) by (simp_all add: sel_coherent_def)
      have run3: "swd_xfer_retry xfer 0xE (Some out) s2 = (ack, d', s')" using assms(3) rest ok by simp
      obtain d3 s3 where y: "xfer 0xE (Some d3) s3 = (ack, d', s')" "up s3" "s_sel_cache s3 = s_sel_cache s2"
        "held s3 = held s2" "rbuf (on_wire s3) = rbuf (on_wire s2)"
        using retry_access [OF c2(1) run3] by metis
      note g = stays [OF y(2,1)]
      have same: "held s' = held s2"
        using fetches [OF y(2,1)] refused [OF y(2,1)] y(4) by (cases "ack AND 7 = 1") simp_all
      then have "coherent s'" using c2(2) g y(3) by (simp add: sel_coherent_def)
      moreover have "held s' = snd (ap_get_reg get put apreg (held s))" using same got by (metis snd_conv)
      moreover have "ack = 1 \<longrightarrow> d' = Some (fst (ap_get_reg get put apreg (held s)))"
      proof
        assume one: "ack = 1"
        then have "ack AND 7 = 1" by simp
        then show "d' = Some (fst (ap_get_reg get put apreg (held s)))"
          using fetches [OF y(2,1)] one y(5) got [symmetric] by simp
      qed
      ultimately show ?thesis using g by simp
    qed
  qed
  then show "up s' \<and> coherent s'"
    and "ack AND 7 = 1 \<Longrightarrow> held s' = snd (ap_get_reg get put apreg (held s))"
    and "ack = 1 \<Longrightarrow> d' = Some (fst (ap_get_reg get put apreg (held s)))"
    and "ack AND 7 \<noteq> 1 \<Longrightarrow>
      held s' \<in> {held s, put 8 (ucast apreg AND 0xF0) (held s), snd (ap_get_reg get put apreg (held s))}" by simp_all
qed

end

section \<open>Properties\<close>

text \<open>
  C15. One call of \<open>SWD_Transfer\<close> through the SPI units is exactly the SWD packet on the wire: the
  eight request bits (start, APnDP, RnW, A2, A3, even parity, stop, park), the turnaround of
  \<open>s_trn\<close> clocks (at least one), the three acknowledge bits, and after OK the 32 data bits with their
  parity and the turnaround on the right side; a parity error sets the ERROR bit, any other
  acknowledge ends after one turnaround.
\<close>

theorem swd_transfer_is_packet:
  assumes "std_edge s" and "s_trn s \<le> 32"
    and "SWD_Transfer W request (Some d) s = (ack, Some d', s')"
  shows "(ack, d', on_wire s') = wire_transfer W (max 1 (unat (s_trn s))) request d (on_wire s)"
proof -
  have "unat (s_trn s) \<le> 32" using assms(2) by (simp add: word_le_nat_alt)
  moreover have "s_trn s = 0 \<longleftrightarrow> unat (s_trn s) = 0" by (simp add: unat_eq_0)
  ultimately have "trn_clocks s = max 1 (unat (s_trn s))" "trn_clocks s \<le> 32"
    by (auto simp: trn_clocks_def)
  with swd_transfer_wire [OF assms(1), of W request d] assms(3) show ?thesis by simp
qed

text \<open>A wire that logs what the host drives, and answers with the bits of a list.\<close>

definition tape_wire :: "(bool list \<times> bool list) wire" where
  "tape_wire = \<lparr> w_out = (\<lambda>b (log, tape). (log @ [b], tape)),
     w_in = (\<lambda>edge (log, tape). (case tape of [] \<Rightarrow> (True, (log, [])) | b # bs \<Rightarrow> (b, (log, bs)))),
     w_pin = (\<lambda>n t. True), w_act = (\<lambda>a t. t), w_spi_hz = 80000000 \<rparr>"

definition tape_swd :: "bool list \<Rightarrow> (bool list \<times> bool list) swd" where
  "tape_swd tape = \<lparr> s_read_even = False, s_trn = 1, s_drive = True, s_sel_cache = 0, spi_drive = True,
     spi_even = False, spi_bits = 8, on_wire = ([], tape) \<rparr>"

lemma swd_transfer_is_packet_witness:
  "\<exists>ack d' s'. SWD_Transfer tape_wire 0xA (Some 5) (tape_swd [True, True, False, False, True]) = (ack, Some d', s')
     \<and> (ack, d', on_wire s') = wire_transfer tape_wire 1 0xA 5 ([], [True, True, False, False, True])"
proof -
  let ?s = "tape_swd [True, True, False, False, True]"
  have s: "std_edge ?s" "trn_clocks ?s \<le> 32" "s_trn ?s \<le> 32" "s_trn ?s = 1" "on_wire ?s = ([], [True, True, False, False, True])"
    by (simp_all add: tape_swd_def std_edge_def trn_clocks_def)
  obtain ack d' s' where r: "SWD_Transfer tape_wire 0xA (Some 5) ?s = (ack, Some d', s')"
    using swd_transfer_wire [OF s(1,2), of tape_wire "0xA" 5] by (auto split: prod.splits)
  from swd_transfer_is_packet [OF s(1,3) r] r s(4,5) show ?thesis by (intro exI [of _ ack] exI [of _ d'] exI [of _ s']) simp
qed

text \<open>
  A transaction with retries makes between 1 and 64 transfers: every one before the last was
  answered WAIT, and the last was not, unless it was the 64th.
\<close>

theorem retry_is_bounded:
  "\<exists>k < 64. swd_xfer_retry xfer request data s = attempt xfer request data s k
    \<and> (\<forall>j < k. waits (fst (attempt xfer request data s j)))
    \<and> (waits (fst (attempt xfer request data s k)) \<longrightarrow> k = 63)"
proof -
  obtain k where "k < 64" "swd_xfer_retry xfer request data s = attempt xfer request data s k"
    "\<forall>j < k. waits (fst (attempt xfer request data s j))"
    "Suc k < 64 \<longrightarrow> \<not> waits (fst (attempt xfer request data s k))"
    using retry_loop_attempt [of 64 xfer request data s] by (auto simp: swd_xfer_retry_def SWD_WAIT_RETRIES_def)
  then show ?thesis by (intro exI [of _ k]) auto
qed

lemma retry_is_bounded_witness:
  "\<exists>k < 64. swd_xfer_retry (\<lambda>r d (n :: nat). (if n < 3 then 2 else 1, d, n + 1)) 0 None 0
    = attempt (\<lambda>r d n. (if n < 3 then 2 else 1, d, n + 1)) 0 None 0 k"
  using retry_is_bounded [of "\<lambda>r d (n :: nat). (if n < 3 then 2 else 1, d, n + 1)" 0 None 0] by blast

text \<open>
  The connect sequence is, bit by bit, a line reset of 56 clocks with SWDIO high, the 16-bit
  JTAG-to-SWD select value 0xE79E least significant bit first, a second line reset of 56 clocks, and
  8 idle clocks low.
\<close>

lemma connect_sequence_bits:
  "on_wire (swd_send_connect W s) =
    out_bits W (replicate 56 True @ word_bits 16 0xE79E @ replicate 56 True @ replicate 8 False) (on_wire s)"
proof -
  have byte: "concat (map (buf_bits 8) (map (\<lambda>b. [b]) k_swd_connect)) =
      concat (map (\<lambda>b. word_bits 8 (ucast b)) k_swd_connect)"
    using buf_bits_word [of 8] by (simp add: comp_def)
  have ff: "word_bits 8 0xFF = replicate 8 True" and z: "word_bits 8 0 = replicate 8 False"
  proof -
    have e: "(0xFF :: u32) = mask 8" by (simp add: mask_eq_exp_minus_1)
    have "word_bits 8 (mask 8) = replicate 8 True"
      by (rule nth_equalityI) (simp_all add: word_bits_def bit_mask_iff)
    then show "word_bits 8 0xFF = replicate 8 True" unfolding e .
    show "word_bits 8 0 = replicate 8 False" by (rule nth_equalityI) (simp_all add: word_bits_def)
  qed
  have sw: "word_bits 8 0x9E @ word_bits 8 0xE7 = word_bits 16 0xE79E"
    by (simp add: word_bits_def upt_rec)
  have "buf_bits (8 * length k_swd_connect) k_swd_connect =
      concat (map (\<lambda>b. word_bits 8 (ucast b)) k_swd_connect)"
    using buf_bits_bytes [of "length k_swd_connect" k_swd_connect] byte by simp
  also have "\<dots> = replicate 56 True @ word_bits 16 0xE79E @ replicate 56 True @ replicate 8 False"
  proof -
    let ?o = "replicate 8 True"
    have r56: "replicate 56 True = ?o @ ?o @ ?o @ ?o @ ?o @ ?o @ ?o"
      by (simp flip: replicate_add)
    have "map (\<lambda>b. word_bits 8 (ucast b)) k_swd_connect =
        [?o, ?o, ?o, ?o, ?o, ?o, ?o, word_bits 8 0x9E, word_bits 8 0xE7, ?o, ?o, ?o, ?o, ?o, ?o, ?o, replicate 8 False]"
      by (simp only: k_swd_connect_def list.map unsigned_numeral) (simp add: ff z)
    then show ?thesis by (simp only: r56 concat.simps append_assoc append_Nil2 sw [symmetric])
  qed
  finally show ?thesis using write_bytes_effect(1) [of "length k_swd_connect" k_swd_connect W s]
    by (simp add: swd_send_connect_def)
qed

end
