(* ===== verification/Sw_Dp.thy ===== *)
theory Sw_Dp
  imports Swd_Spi
begin

text \<open>
  The reference implementation of the SWD port that ships with CMSIS-DAP
  (\<^verbatim>\<open>cmsis-dap/arm/SW_DP.c\<close>): every clock by hand on the SWCLK and SWDIO pins.  The firmware replaces
  it by \<^verbatim>\<open>dap_swd_spi.c\<close>; this theory models it on the same wire and proves where the two agree.
  Also here: the state record of the debug unit, \<^verbatim>\<open>DAP_Data\<close> of \<^verbatim>\<open>DAP.h\<close>, which configures it.
\<close>

section \<open>DAP_Data\<close>

record dap_data =
  debug_port :: u8
  fast_clock :: u8
  clock_delay :: u32
  timestamp :: u32
  idle_cycles :: u8
  retry_count :: u16
  match_retry :: u16
  match_mask :: u32
  swd_turnaround_clk :: u8
  swd_data_phase :: u8

definition DAP_TRANSFER_MATCH_VALUE :: u32 where "DAP_TRANSFER_MATCH_VALUE = 16"
definition DAP_TRANSFER_MATCH_MASK :: u32 where "DAP_TRANSFER_MATCH_MASK = 32"
definition DAP_TRANSFER_TIMESTAMP :: u32 where "DAP_TRANSFER_TIMESTAMP = 128"

section \<open>Pins\<close>

text \<open>The output latch of SWDIO, whether it is driven, and what is on the wire.\<close>

record 't sw_pins =
  pin_swdio :: bool
  pin_drive :: bool
  pin_wire :: 't

definition PIN_SWDIO_OUT :: "u32 \<Rightarrow> 't sw_pins \<Rightarrow> 't sw_pins" where
  "PIN_SWDIO_OUT b p = p\<lparr> pin_swdio := bit b 0 \<rparr>"

definition SW_CLOCK_CYCLE :: "'t wire \<Rightarrow> 't sw_pins \<Rightarrow> 't sw_pins" where
  "SW_CLOCK_CYCLE W p =
    (if pin_drive p then p\<lparr> pin_wire := w_out W (pin_swdio p) (pin_wire p) \<rparr>
     else p\<lparr> pin_wire := snd (w_in W False (pin_wire p)) \<rparr>)"

definition SW_WRITE_BIT :: "'t wire \<Rightarrow> u32 \<Rightarrow> 't sw_pins \<Rightarrow> 't sw_pins" where
  "SW_WRITE_BIT W b p = SW_CLOCK_CYCLE W (PIN_SWDIO_OUT b p)"

text \<open>With the pin driven the probe reads its own level back.\<close>

definition SW_READ_BIT :: "'t wire \<Rightarrow> 't sw_pins \<Rightarrow> u32 \<times> 't sw_pins" where
  "SW_READ_BIT W p =
    (if pin_drive p then (of_bool (pin_swdio p), SW_CLOCK_CYCLE W p)
     else (of_bool (fst (w_in W False (pin_wire p))), SW_CLOCK_CYCLE W p))"

fun sw_clocks :: "'t wire \<Rightarrow> nat \<Rightarrow> 't sw_pins \<Rightarrow> 't sw_pins" where
  "sw_clocks W 0 p = p"
| "sw_clocks W (Suc n) p = sw_clocks W n (SW_CLOCK_CYCLE W p)"

section \<open>Sequences\<close>

text \<open>\<open>n\<close> is the number of bits of \<open>val\<close> left; a new byte is fetched when there are none.\<close>

fun sw_swj_loop :: "'t wire \<Rightarrow> nat \<Rightarrow> u8 list \<Rightarrow> u32 \<Rightarrow> nat \<Rightarrow> 't sw_pins \<Rightarrow> 't sw_pins" where
  "sw_swj_loop W 0 data val n p = p"
| "sw_swj_loop W (Suc count) data val n p =
    (let val = (if n = 0 then ucast (hd data) else val);
         data = (if n = 0 then tl data else data);
         n = (if n = 0 then 8 else n)
     in sw_swj_loop W count data (drop_bit 1 val) (n - 1) (SW_CLOCK_CYCLE W (PIN_SWDIO_OUT (val AND 1) p)))"

definition SW_DP_SWJ_Sequence :: "'t wire \<Rightarrow> nat \<Rightarrow> u8 list \<Rightarrow> 't sw_pins \<Rightarrow> 't sw_pins" where
  "SW_DP_SWJ_Sequence W count data p = sw_swj_loop W count data 0 0 p"

text \<open>The inner loops of \<^verbatim>\<open>SWD_Sequence\<close> over the \<open>k\<close> bits of one byte.\<close>

fun sw_read_byte :: "'t wire \<Rightarrow> nat \<Rightarrow> u32 \<Rightarrow> 't sw_pins \<Rightarrow> u32 \<times> 't sw_pins" where
  "sw_read_byte W 0 val p = (val, p)"
| "sw_read_byte W (Suc k) val p =
    (case SW_READ_BIT W p of (b, p) \<Rightarrow> sw_read_byte W k (drop_bit 1 val OR push_bit 7 b) p)"

fun sw_write_byte :: "'t wire \<Rightarrow> nat \<Rightarrow> u32 \<Rightarrow> 't sw_pins \<Rightarrow> 't sw_pins" where
  "sw_write_byte W 0 val p = p"
| "sw_write_byte W (Suc k) val p = sw_write_byte W k (drop_bit 1 val) (SW_WRITE_BIT W val p)"

function sw_seq_in :: "'t wire \<Rightarrow> nat \<Rightarrow> 't sw_pins \<Rightarrow> u8 list \<times> 't sw_pins" where
  "sw_seq_in W n p =
    (if 0 < n
     then (let k = min 8 n;
               (val, p) = sw_read_byte W k 0 p;
               val = drop_bit (8 - k) val;
               (more, p) = sw_seq_in W (n - k) p
           in (ucast val # more, p))
     else ([], p))"
  by pat_completeness auto
termination
  by (relation "measure (\<lambda>(W, n, p). n)") auto

function sw_seq_out :: "'t wire \<Rightarrow> nat \<Rightarrow> u8 list \<Rightarrow> 't sw_pins \<Rightarrow> 't sw_pins" where
  "sw_seq_out W n swdo p =
    (if 0 < n
     then (let k = min 8 n in sw_seq_out W (n - k) (tl swdo) (sw_write_byte W k (ucast (hd swdo)) p))
     else p)"
  by pat_completeness auto
termination
  by (relation "measure (\<lambda>(W, n, swdo, p). n)") auto

declare sw_seq_in.simps [simp del] sw_seq_out.simps [simp del]

definition SW_DP_SWD_Sequence :: "'t wire \<Rightarrow> u32 \<Rightarrow> u8 list \<Rightarrow> 't sw_pins \<Rightarrow> u8 list \<times> 't sw_pins" where
  "SW_DP_SWD_Sequence W info swdo p =
    (let n = unat (info AND 0x3F); n = (if n = 0 then 64 else n)
     in if info AND 0x80 \<noteq> 0 then sw_seq_in W n p else ([], sw_seq_out W n swdo p))"

section \<open>Transfer\<close>

text \<open>The data loops: the word and the running parity sum.\<close>

fun sw_read_data :: "'t wire \<Rightarrow> nat \<Rightarrow> u32 \<Rightarrow> u32 \<Rightarrow> 't sw_pins \<Rightarrow> u32 \<times> u32 \<times> 't sw_pins" where
  "sw_read_data W 0 val parity p = (val, parity, p)"
| "sw_read_data W (Suc n) val parity p =
    (case SW_READ_BIT W p of (b, p) \<Rightarrow>
      sw_read_data W n (drop_bit 1 val OR push_bit 31 b) (parity + b) p)"

fun sw_write_data :: "'t wire \<Rightarrow> nat \<Rightarrow> u32 \<Rightarrow> u32 \<Rightarrow> 't sw_pins \<Rightarrow> u32 \<times> 't sw_pins" where
  "sw_write_data W 0 val parity p = (parity, p)"
| "sw_write_data W (Suc n) val parity p =
    sw_write_data W n (drop_bit 1 val) (parity + val) (SW_WRITE_BIT W val p)"

definition sw_request :: "'t wire \<Rightarrow> u32 \<Rightarrow> 't sw_pins \<Rightarrow> 't sw_pins" where
  "sw_request W request p =
    (let p = SW_WRITE_BIT W 1 p;
         b = request; p = SW_WRITE_BIT W b p; parity = b;
         b = drop_bit 1 request; p = SW_WRITE_BIT W b p; parity = parity + b;
         b = drop_bit 2 request; p = SW_WRITE_BIT W b p; parity = parity + b;
         b = drop_bit 3 request; p = SW_WRITE_BIT W b p; parity = parity + b;
         p = SW_WRITE_BIT W parity p;
         p = SW_WRITE_BIT W 0 p
     in SW_WRITE_BIT W 1 p)"

definition sw_ack :: "'t wire \<Rightarrow> 't sw_pins \<Rightarrow> u32 \<times> 't sw_pins" where
  "sw_ack W p =
    (let (b, p) = SW_READ_BIT W p; ack = b;
         (b, p) = SW_READ_BIT W p; ack = ack OR push_bit 1 b;
         (b, p) = SW_READ_BIT W p; ack = ack OR push_bit 2 b
     in (ack, p))"

text \<open>
  \<open>TIMESTAMP_GET\<close> is 0 in this port.  The two speeds differ only in the delays between the edges.
\<close>

definition SW_DP_SWD_Transfer ::
  "'t wire \<Rightarrow> dap_data \<Rightarrow> u32 \<Rightarrow> u32 option \<Rightarrow> 't sw_pins \<Rightarrow> u8 \<times> u32 option \<times> dap_data \<times> 't sw_pins" where
  "SW_DP_SWD_Transfer W dd request data p =
    (let turnaround = unat (swd_turnaround_clk dd);
         p = sw_request W request p;
         p = p\<lparr> pin_drive := False \<rparr>;
         p = sw_clocks W turnaround p;
         (ack, p) = sw_ack W p
     in if ack = DAP_TRANSFER_OK
        then (let (ack, data, p) =
                (if request AND DAP_TRANSFER_RnW \<noteq> 0
                 then (let (val, parity, p) = sw_read_data W 32 0 0 p;
                           (b, p) = SW_READ_BIT W p;
                           ack = (if (parity XOR b) AND 1 \<noteq> 0 then DAP_TRANSFER_ERROR else ack);
                           data = map_option (\<lambda>_. val) data;
                           p = sw_clocks W turnaround p
                       in (ack, data, p\<lparr> pin_drive := True \<rparr>))
                 else (let p = sw_clocks W turnaround p;
                           p = p\<lparr> pin_drive := True \<rparr>;
                           (parity, p) = sw_write_data W 32 (the data) 0 p
                       in (ack, data, SW_WRITE_BIT W parity p)));
                  dd = (if request AND DAP_TRANSFER_TIMESTAMP \<noteq> 0 then dd\<lparr> timestamp := 0 \<rparr> else dd);
                  n = unat (idle_cycles dd);
                  p = (if n \<noteq> 0 then sw_clocks W n (PIN_SWDIO_OUT 0 p) else p)
              in (ucast ack, data, dd, PIN_SWDIO_OUT 1 p))
        else if ack = DAP_TRANSFER_WAIT \<or> ack = DAP_TRANSFER_FAULT
        then (let p = (if swd_data_phase dd \<noteq> 0 \<and> request AND DAP_TRANSFER_RnW \<noteq> 0
                       then sw_clocks W 33 p else p);
                  p = sw_clocks W turnaround p;
                  p = p\<lparr> pin_drive := True \<rparr>;
                  p = (if swd_data_phase dd \<noteq> 0 \<and> request AND DAP_TRANSFER_RnW = 0
                       then sw_clocks W 33 (PIN_SWDIO_OUT 0 p) else p)
              in (ucast ack, data, dd, PIN_SWDIO_OUT 1 p))
        else (let p = sw_clocks W (turnaround + 33) p;
                  p = p\<lparr> pin_drive := True \<rparr>
              in (ucast ack, data, dd, PIN_SWDIO_OUT 1 p)))"

section \<open>The loops as bits on the wire\<close>

lemma read_bit_released:
  "\<not> pin_drive p \<Longrightarrow> SW_READ_BIT W p =
    (of_bool (fst (w_in W False (pin_wire p))), p\<lparr> pin_wire := snd (w_in W False (pin_wire p)) \<rparr>)"
  by (simp add: SW_READ_BIT_def SW_CLOCK_CYCLE_def)

lemma write_bit_driven:
  "pin_drive p \<Longrightarrow> SW_WRITE_BIT W b p = p\<lparr> pin_swdio := bit b 0, pin_wire := w_out W (bit b 0) (pin_wire p) \<rparr>"
  by (cases p) (simp add: SW_WRITE_BIT_def SW_CLOCK_CYCLE_def PIN_SWDIO_OUT_def)

lemma clocks_released:
  "\<not> pin_drive p \<Longrightarrow> sw_clocks W n p = p\<lparr> pin_wire := snd (in_bits W False n (pin_wire p)) \<rparr>"
  by (induction n arbitrary: p) (simp_all add: SW_CLOCK_CYCLE_def split: prod.splits)

lemma clocks_driven:
  "pin_drive p \<Longrightarrow> sw_clocks W n (PIN_SWDIO_OUT 0 p) =
    p\<lparr> pin_swdio := False, pin_wire := out_bits W (replicate n False) (pin_wire p) \<rparr>"
proof (induction n arbitrary: p)
  case (Suc n)
  have "SW_CLOCK_CYCLE W (PIN_SWDIO_OUT 0 p) = PIN_SWDIO_OUT 0 (p\<lparr> pin_wire := w_out W False (pin_wire p) \<rparr>)"
    using Suc.prems by (simp add: SW_CLOCK_CYCLE_def PIN_SWDIO_OUT_def)
  then show ?case
    using Suc.IH [of "p\<lparr> pin_wire := w_out W False (pin_wire p) \<rparr>"] Suc.prems by (simp add: out_bits_Cons)
qed (simp add: PIN_SWDIO_OUT_def out_bits_def)

lemma bit_shift_in: "bit (drop_bit 1 v OR push_bit 31 (of_bool b)) i \<longleftrightarrow> (if i = 31 then b else i < 31 \<and> bit v (i + 1))"
  for v :: u32
  by (cases "i < 31") (auto simp: bit_simps)

lemma read_data_released:
  assumes "\<not> pin_drive p" and "n \<le> 32"
  shows "\<exists>val parity'. sw_read_data W n v parity p =
      (val, parity', p\<lparr> pin_wire := snd (in_bits W False n (pin_wire p)) \<rparr>)
    \<and> odd parity' = (odd parity \<noteq> parity_bits (fst (in_bits W False n (pin_wire p))))
    \<and> (\<forall>i < 32. bit val i = (if i < 32 - n then bit v (i + n) else fst (in_bits W False n (pin_wire p)) ! (i - (32 - n))))"
  using assms
proof (induction n arbitrary: v parity p)
  case (Suc n)
  obtain b t where bt: "w_in W False (pin_wire p) = (b, t)" by fastforce
  let ?p = "p\<lparr> pin_wire := t \<rparr>" let ?v = "drop_bit 1 v OR push_bit 31 (of_bool b) :: u32"
  obtain bs u where bs: "in_bits W False n t = (bs, u)" by fastforce
  have "\<not> pin_drive ?p" "n \<le> 32" using Suc.prems by simp_all
  note I = Suc.IH [OF this, where v = ?v and parity = "parity + of_bool b"]
  have ib: "in_bits W False n (pin_wire ?p) = (bs, u)" using bs by simp
  obtain val q where ih: "sw_read_data W n ?v (parity + of_bool b) ?p = (val, q, ?p\<lparr> pin_wire := u \<rparr>)"
    "odd q = (odd (parity + of_bool b) \<noteq> parity_bits bs)"
    "\<forall>i < 32. bit val i = (if i < 32 - n then bit ?v (i + n) else bs ! (i - (32 - n)))"
    using I unfolding ib fst_conv snd_conv by blast
  note ih3 = ih(3) [unfolded bit_shift_in]
  have run: "sw_read_data W (Suc n) v parity p = (val, q, p\<lparr> pin_wire := u \<rparr>)"
    using Suc.prems(1) ih(1) bt by (simp add: read_bit_released)
  have bits: "bit val i = (if i < 32 - Suc n then bit v (i + Suc n) else (b # bs) ! (i - (32 - Suc n)))" if "i < 32" for i
  proof -
    consider "i < 31 - n" | "i = 31 - n" | "31 - n < i" by linarith
    then show ?thesis
    proof cases
      case 1
      then have "i < 32 - n" "i + n < 31" using Suc.prems(2) by linarith+
      then show ?thesis using ih3 that 1 by simp
    next
      case 2
      then have "i < 32 - n" "i + n = 31" using Suc.prems(2) by linarith+
      then show ?thesis using ih3 that 2 by simp
    next
      case 3
      then have "i - (31 - n) = Suc (i - (32 - n))" "\<not> i < 32 - n" using Suc.prems(2) by linarith+
      then show ?thesis using ih3 that 3 by simp
    qed
  qed
  have "odd q = (odd parity \<noteq> parity_bits (b # bs))"
    using ih(2) by (cases b; cases "even parity"; simp add: even_add)
  then show ?case using run bits bt bs by simp
qed simp

lemma read_word_released:
  assumes "\<not> pin_drive p" and "in_bits W False 32 (pin_wire p) = (bs, t)"
  shows "\<exists>parity. sw_read_data W 32 0 0 p = (bits_word bs, parity, p\<lparr> pin_wire := t \<rparr>) \<and> odd parity = parity_bits bs"
proof -
  have len: "length bs = 32" using length_in_bits [of W False 32 "pin_wire p"] assms(2) by simp
  from read_data_released [OF assms(1), of 32 W 0 0] assms(2) obtain val q where
    r: "sw_read_data W 32 0 0 p = (val, q, p\<lparr> pin_wire := t \<rparr>)" "odd q = parity_bits bs"
    "\<forall>i < 32. bit val i = bs ! i" by auto
  have "val = bits_word bs" using r(3) len by (intro bit_word_eqI) (simp add: bit_bits_word)
  with r show ?thesis by blast
qed

lemma word_bits_Suc: "word_bits (Suc n) v = bit v 0 # word_bits n (drop_bit 1 v)"
  unfolding word_bits_def upt_conv_Cons [OF zero_less_Suc] map_Suc_upt [symmetric]
  by (simp add: bit_drop_bit_eq comp_def)

lemma write_data_driven:
  "pin_drive p \<Longrightarrow> \<exists>parity' q. sw_write_data W n v parity p = (parity', q)
    \<and> odd parity' = (odd parity \<noteq> parity_bits (word_bits n v)) \<and> pin_drive q
    \<and> pin_wire q = out_bits W (word_bits n v) (pin_wire p)"
proof (induction n arbitrary: v parity p)
  case (Suc n)
  let ?p = "SW_WRITE_BIT W v p"
  have p: "pin_drive ?p" "pin_wire ?p = w_out W (bit v 0) (pin_wire p)"
    using Suc.prems by (simp_all add: write_bit_driven)
  from Suc.IH [OF p(1), of "drop_bit 1 v" "parity + v"] show ?case
    by (auto simp: word_bits_Suc out_bits_Cons p(2) bit_0 even_add)
qed (simp add: word_bits_def)

lemma request_driven:
  assumes "pin_drive p"
  shows "pin_drive (sw_request W r p)"
    and "pin_wire (sw_request W r p) = out_bits W (request_bits r) (pin_wire p)"
proof -
  have par: "bit (r + drop_bit 1 r + drop_bit 2 r + drop_bit 3 r) 0 =
      parity_bits [bit r 0, bit r 1, bit r 2, bit r 3]"
  proof -
    have d: "even (drop_bit n r) = (\<not> bit r n)" for n by (simp add: bit_iff_odd_drop_bit)
    show ?thesis unfolding bit_0 even_add d by (auto simp: bit_0 d)
  qed
  show "pin_drive (sw_request W r p)"
    using assms by (simp add: sw_request_def Let_def write_bit_driven)
  show "pin_wire (sw_request W r p) = out_bits W (request_bits r) (pin_wire p)"
    using assms par by (simp add: sw_request_def Let_def write_bit_driven request_bits_def out_bits_Cons
      bit_drop_bit_eq del: parity_bits.simps)
qed

lemma ack_released:
  assumes "\<not> pin_drive p" and "in_bits W False 3 (pin_wire p) = (a, t)"
  shows "sw_ack W p = (bits_word a, p\<lparr> pin_wire := t \<rparr>)"
proof -
  obtain x t1 where x: "w_in W False (pin_wire p) = (x, t1)" by fastforce
  obtain y t2 where y: "w_in W False t1 = (y, t2)" by fastforce
  obtain z t3 where z: "w_in W False t2 = (z, t3)" by fastforce
  have "a = [x, y, z]" "t = t3"
    using assms(2) x y z by (auto simp: numeral_3_eq_3)
  moreover have "of_bool x OR push_bit 1 (of_bool y) OR push_bit 2 (of_bool z) = bits_word [x, y, z]"
    by (cases x; cases y; cases z; simp add: bits_word_def)
  ultimately show ?thesis
    using assms(1) x y z by (simp add: sw_ack_def read_bit_released Let_def or.assoc)
qed

text \<open>A transfer with both idle cycles and forced data phase off.\<close>

text \<open>
  What the reference clocks beyond the packet, by the acknowledge: the idle cycles with SWDIO low after OK,
  the dummy data phase after WAIT and FAULT if it is configured, 33 cycles with SWDIO released after an
  invalid acknowledge.
\<close>

definition extra_clocks :: "'t wire \<Rightarrow> dap_data \<Rightarrow> u32 \<Rightarrow> u8 \<Rightarrow> 't \<Rightarrow> 't" where
  "extra_clocks W dd request ack t =
    (if ack = 1 \<or> ack = 9 then out_bits W (replicate (unat (idle_cycles dd)) False) t
     else if ack = 2 \<or> ack = 4
     then (if swd_data_phase dd = 0 then t
           else if bit request 1 then snd (in_bits W False 33 t)
           else out_bits W (replicate 33 False) t)
     else snd (in_bits W False 33 t))"

lemma in_bits_swap:
  "snd (in_bits W e m (snd (in_bits W e n t))) = snd (in_bits W e n (snd (in_bits W e m t)))"
proof -
  have "snd (in_bits W e (n + m) t) = snd (in_bits W e m (snd (in_bits W e n t)))"
    and "snd (in_bits W e (m + n) t) = snd (in_bits W e n (snd (in_bits W e m t)))"
    by (simp_all add: in_bits_add split: prod.splits)
  then show ?thesis by (simp add: add.commute)
qed

lemma swdio_out_fields [simp]:
  "pin_wire (PIN_SWDIO_OUT b p) = pin_wire p" "pin_drive (PIN_SWDIO_OUT b p) = pin_drive p"
  by (simp_all add: PIN_SWDIO_OUT_def)

lemma sw_dp_transfer_wire:
  assumes "pin_drive p"
    and "SW_DP_SWD_Transfer W dd request (Some d) p = (ack, data, dd', p')"
    and "wire_transfer W (unat (swd_turnaround_clk dd)) request d (pin_wire p) = (a, d', t)"
  shows "data = Some d' \<and> pin_drive p'
    \<and> ack = (if a = 9 then 8 else a)
    \<and> pin_wire p' = extra_clocks W dd request a t"
proof -
  let ?n = "unat (swd_turnaround_clk dd)"
  define p1 where "p1 = (sw_request W request p)\<lparr> pin_drive := False \<rparr>"
  define p2 where "p2 = sw_clocks W ?n p1"
  have p1: "\<not> pin_drive p1" "pin_wire p1 = out_bits W (request_bits request) (pin_wire p)"
    using request_driven [OF assms(1)] by (simp_all add: p1_def)
  have p2: "\<not> pin_drive p2" "pin_wire p2 = snd (in_bits W False ?n (pin_wire p1))"
    using p1(1) by (simp_all add: p2_def clocks_released)
  obtain b t3 where b: "in_bits W False 3 (pin_wire p2) = (b, t3)" by fastforce
  have len: "length b = 3" using length_in_bits [of W False 3 "pin_wire p2"] b by simp
  define p3 where "p3 = p2\<lparr> pin_wire := t3 \<rparr>"
  have p3: "\<not> pin_drive p3" "pin_wire p3 = t3" using p2(1) by (simp_all add: p3_def)
  have ack: "sw_ack W p2 = (bits_word b, p3)" using ack_released [OF p2(1) b] by (simp add: p3_def)
  have "wire_transfer W ?n request d (pin_wire p) =
      (if b = [True, False, False]
        then (if bit request 1
              then (let (bs, t) = in_bits W False 32 t3; (p, t) = in_bits W False 1 t; t = snd (in_bits W False ?n t)
                    in (if parity_bits bs \<noteq> p ! 0 then 9 else 1, bits_word bs, t))
              else (1, d, out_bits W (word_bits 32 d @ [parity_bits (word_bits 32 d)]) (snd (in_bits W False ?n t3))))
        else (ucast (bits_word b), d, snd (in_bits W False ?n t3)))"
    using b p2(2) p1(2) by (simp add: wire_transfer_def Let_def)
  note wire = this [unfolded assms(3)]
  note start = assms(2) [unfolded SW_DP_SWD_Transfer_def Let_def p1_def [symmetric] p2_def [symmetric] ack prod.case]
  have trn: "sw_clocks W k q = q\<lparr> pin_wire := snd (in_bits W False k (pin_wire q)) \<rparr>" if "\<not> pin_drive q" for k q
    using clocks_released [OF that] .
  consider (rd) "b = [True, False, False]" "bit request 1" | (wr) "b = [True, False, False]" "\<not> bit request 1"
    | (wf) "b \<noteq> [True, False, False]" "bits_word b = 2 \<or> bits_word b = 4"
    | (other) "b \<noteq> [True, False, False]" "bits_word b \<noteq> 2" "bits_word b \<noteq> 4" by blast
  then show ?thesis
  proof cases
    case rd
    obtain bs t4 where bs: "in_bits W False 32 t3 = (bs, t4)" by fastforce
    obtain q t5 where q: "w_in W False t4 = (q, t5)" by fastforce
    obtain par where par: "sw_read_data W 32 0 0 p3 = (bits_word bs, par, p3\<lparr> pin_wire := t4 \<rparr>)" "odd par = parity_bits bs"
      using read_word_released [OF p3(1), of W bs t4] bs p3(2) by auto
    have x: "((par XOR of_bool q) AND 1 \<noteq> 0) = (parity_bits bs \<noteq> q)"
    proof -
      have "((par XOR of_bool q) AND 1 \<noteq> 0) = bit (par XOR of_bool q) 0"
        using and_exp_eq_0_iff_not_bit [of "par XOR of_bool q" 0] by simp
      also have "\<dots> = (bit par 0 \<noteq> q)" by (cases q) (simp_all add: bit_xor_iff bit_1_iff del: bit_0)
      finally show ?thesis using par(2) by (simp add: bit_0)
    qed
    show ?thesis
      using start wire rd bs q par(1) x p3(1) eq_three_bits(1) [OF len] request_read_bit [of request]
      by (auto simp: read_bit_released trn clocks_driven extra_clocks_def transfer_bits split: if_splits)
  next
    case wr
    let ?p4 = "(sw_clocks W ?n p3)\<lparr> pin_drive := True \<rparr>"
    have p4: "pin_drive ?p4" "pin_wire ?p4 = snd (in_bits W False ?n t3)" using trn [OF p3(1)] p3(2) by simp_all
    obtain par p5 where w: "sw_write_data W 32 d 0 ?p4 = (par, p5)" "odd par = parity_bits (word_bits 32 d)"
      "pin_drive p5" "pin_wire p5 = out_bits W (word_bits 32 d) (pin_wire ?p4)"
      using write_data_driven [OF p4(1), of W 32 d 0] by auto
    show ?thesis
      using start wire wr w p4(2) eq_three_bits(1) [OF len] request_read_bit [of request]
      by (auto simp: write_bit_driven clocks_driven extra_clocks_def transfer_bits out_bits_append out_bits_Cons bit_0 split: if_splits)
  next
    case wf
    then show ?thesis
      using start wire p3 eq_three_bits(1) [OF len] request_read_bit [of request]
      by (auto simp: trn clocks_driven extra_clocks_def transfer_bits in_bits_swap [of W False ?n 33] split: if_splits)
  next
    case other
    obtain x y z where xyz: "b = [x, y, z]" using len by (auto simp: eval_nat_numeral length_Suc_conv)
    have code: "(ucast (bits_word b) :: u8) \<notin> {1, 2, 4, 9}" "bits_word b \<noteq> 1"
      using other unfolding xyz by (cases x; cases y; cases z; simp add: bits_word_def)+
    have a: "a = ucast (bits_word b)" "d' = d" "t = snd (in_bits W False ?n t3)"
      using wire other(1) by simp_all
    have "snd (in_bits W False (?n + 33) t3) = snd (in_bits W False 33 t)"
      by (simp add: in_bits_add a(3) split: prod.split)
    moreover have "ack = ucast (bits_word b)" "data = Some d"
      "p' = PIN_SWDIO_OUT 1 ((sw_clocks W (?n + 33) p3)\<lparr> pin_drive := True \<rparr>)"
      using start code(2) other(2,3) by (auto simp: transfer_bits)
    ultimately show ?thesis using a(1,2) code(1) p3 by (simp add: trn extra_clocks_def)
  qed
qed

section \<open>Sequences as bits on the wire\<close>

lemma swj_loop_driven:
  "pin_drive p \<Longrightarrow> n \<le> 8 \<Longrightarrow> count \<le> n + 8 * length data \<Longrightarrow>
   pin_drive (sw_swj_loop W count data val n p)
   \<and> pin_wire (sw_swj_loop W count data val n p) =
       out_bits W (take count (word_bits n val @ buf_bits (8 * length data) data)) (pin_wire p)"
proof (induction count arbitrary: data val n p)
  case (Suc count)
  have clk: "SW_CLOCK_CYCLE W (PIN_SWDIO_OUT (v AND 1) p) =
      p\<lparr> pin_swdio := bit v 0, pin_wire := w_out W (bit v 0) (pin_wire p) \<rparr>" for v :: u32
    using Suc.prems(1) by (cases p) (simp add: SW_CLOCK_CYCLE_def PIN_SWDIO_OUT_def bit_and_iff bit_1_iff)
  show ?case
  proof (cases n)
    case 0
    with Suc.prems(3) obtain x xs where data: "data = x # xs" by (cases data) auto
    let ?v = "ucast x :: u32"
    have "8 * length data = 8 * 1 + 8 * length xs" using data by simp
    then have "buf_bits (8 * length data) data = word_bits 8 ?v @ buf_bits (8 * length xs) xs"
      using buf_bits_drop [of 1 data "8 * length xs"] buf_bits_word [of 8 x xs] data by simp
    also have "word_bits 8 ?v = bit ?v 0 # word_bits 7 (drop_bit 1 ?v)"
      using word_bits_Suc [of 7 ?v] by simp
    finally show ?thesis
      using Suc.IH [of _ 7 xs "drop_bit 1 ?v"] Suc.prems 0 data
      by (simp add: clk Let_def out_bits_Cons word_bits_def)
  next
    case (Suc m)
    then show ?thesis
      using Suc.IH [of _ m data "drop_bit 1 val"] Suc.prems
      by (simp add: clk Let_def out_bits_Cons word_bits_Suc)
  qed
qed simp

lemma sw_dp_swj_wire:
  assumes "pin_drive p" and "count \<le> 8 * length data"
  shows "pin_drive (SW_DP_SWJ_Sequence W count data p)"
    and "pin_wire (SW_DP_SWJ_Sequence W count data p) = out_bits W (buf_bits count data) (pin_wire p)"
proof -
  have "take count (buf_bits (8 * length data) data) = buf_bits count data"
    using assms(2) by (simp add: buf_bits_def take_map)
  then show "pin_drive (SW_DP_SWJ_Sequence W count data p)"
    and "pin_wire (SW_DP_SWJ_Sequence W count data p) = out_bits W (buf_bits count data) (pin_wire p)"
    using swj_loop_driven [OF assms(1), of 0 count data W 0] assms(2)
    by (simp_all add: SW_DP_SWJ_Sequence_def word_bits_def)
qed

lemma write_byte_driven:
  "pin_drive p \<Longrightarrow> pin_drive (sw_write_byte W k val p)
   \<and> pin_wire (sw_write_byte W k val p) = out_bits W (word_bits k val) (pin_wire p)"
proof (induction k arbitrary: val p)
  case (Suc k)
  then show ?case using Suc.IH [of "SW_WRITE_BIT W val p" "drop_bit 1 val"]
    by (simp add: write_bit_driven word_bits_Suc out_bits_Cons)
qed (simp add: word_bits_def)

lemma seq_out_driven:
  "pin_drive p \<Longrightarrow> n \<le> 8 * length swdo \<Longrightarrow> pin_drive (sw_seq_out W n swdo p)
   \<and> pin_wire (sw_seq_out W n swdo p) = out_bits W (buf_bits n swdo) (pin_wire p)"
proof (induction W n swdo p rule: sw_seq_out.induct)
  case (1 W n swdo p)
  show ?case
  proof (cases "n = 0")
    case False
    with "1.prems"(2) obtain x xs where swdo: "swdo = x # xs" by (cases swdo) auto
    define k where "k = min 8 n"
    define p1 where "p1 = sw_write_byte W k (ucast x) p"
    have k: "k \<le> 8" "k \<le> n" "k < n \<Longrightarrow> k = 8" by (auto simp: k_def)
    have p1: "pin_drive p1" "pin_wire p1 = out_bits W (word_bits k (ucast x)) (pin_wire p)"
      using write_byte_driven [OF "1.prems"(1)] by (simp_all add: p1_def)
    have step: "sw_seq_out W n swdo p = sw_seq_out W (n - k) xs p1"
      using False swdo by (subst sw_seq_out.simps) (simp add: k_def p1_def Let_def)
    have bits: "buf_bits n swdo = word_bits k (ucast x) @ buf_bits (n - k) xs"
    proof (cases "k < n")
      case True
      then have "n = 8 * 1 + (n - k)" using k(3) by simp
      then have "buf_bits n swdo = buf_bits (8 * 1) swdo @ buf_bits (n - k) (drop 1 swdo)"
        using buf_bits_drop [of 1 swdo "n - k"] swdo by simp
      then show ?thesis using buf_bits_word [of 8 x xs] swdo k(3) True by simp
    next
      case False
      then show ?thesis using k buf_bits_word [of n x xs] swdo by (simp add: buf_bits_def)
    qed
    have "n - k \<le> 8 * length xs" using "1.prems"(2) swdo k by (cases "k < n") auto
    then show ?thesis
      using "1.IH" [of k] False p1 swdo step bits by (simp add: k_def [symmetric] p1_def [symmetric] out_bits_append)
  qed (simp add: sw_seq_out.simps buf_bits_def "1.prems")
qed

lemma read_byte_released:
  assumes "\<not> pin_drive p" and "k \<le> 8" and "\<forall>i \<ge> 8. \<not> bit v i"
  shows "\<exists>val. sw_read_byte W k v p = (val, p\<lparr> pin_wire := snd (in_bits W False k (pin_wire p)) \<rparr>)
    \<and> (\<forall>i. bit val i \<longleftrightarrow> (if i < 8 - k then bit v (i + k) else i < 8 \<and> fst (in_bits W False k (pin_wire p)) ! (i - (8 - k))))"
  using assms
proof (induction k arbitrary: v p)
  case 0
  have "bit v i \<longleftrightarrow> i < 8 \<and> bit v i" for i using "0.prems"(3) by (meson not_le)
  then show ?case by auto
next
  case (Suc k)
  obtain b t where bt: "w_in W False (pin_wire p) = (b, t)" by fastforce
  let ?p = "p\<lparr> pin_wire := t \<rparr>" let ?v = "drop_bit 1 v OR push_bit 7 (of_bool b) :: u32"
  obtain bs u where bs: "in_bits W False k t = (bs, u)" by fastforce
  have v8: "\<not> bit v i" if "8 \<le> i" for i using Suc.prems(3) that by blast
  have vb: "bit ?v i \<longleftrightarrow> (if i = 7 then b else i < 7 \<and> bit v (i + 1))" for i
    using v8 [of "i + 1"] by (cases "i < 7") (auto simp: bit_simps)
  have pre: "\<not> pin_drive ?p" "k \<le> 8" "\<forall>i \<ge> 8. \<not> bit ?v i" unfolding vb using Suc.prems by simp_all
  have ib: "in_bits W False k (pin_wire ?p) = (bs, u)" using bs by simp
  obtain val where ih: "sw_read_byte W k ?v ?p = (val, ?p\<lparr> pin_wire := u \<rparr>)"
    "\<forall>i. bit val i \<longleftrightarrow> (if i < 8 - k then bit ?v (i + k) else i < 8 \<and> bs ! (i - (8 - k)))"
    using Suc.IH [OF pre] unfolding ib fst_conv snd_conv by blast
  have run: "sw_read_byte W (Suc k) v p = (val, p\<lparr> pin_wire := u \<rparr>)"
    using Suc.prems(1) ih(1) bt by (simp add: read_bit_released)
  have "bit val i \<longleftrightarrow> (if i < 8 - Suc k then bit v (i + Suc k) else i < 8 \<and> (b # bs) ! (i - (8 - Suc k)))" for i
  proof -
    note ih2 = ih(2) [unfolded vb]
    consider "i < 7 - k" | "i = 7 - k" | "7 - k < i" by linarith
    then show ?thesis
    proof cases
      case 1
      then have "i < 8 - k" "i + k < 7" using Suc.prems(2) by linarith+
      then show ?thesis using ih2 1 by simp
    next
      case 2
      then have "i < 8 - k" "i + k = 7" "i < 8" using Suc.prems(2) by linarith+
      then show ?thesis using ih2 2 by simp
    next
      case 3
      then have "i - (7 - k) = Suc (i - (8 - k))" "\<not> i < 8 - k" using Suc.prems(2) by linarith+
      then show ?thesis using ih2 3 by simp
    qed
  qed
  then show ?case using run bt bs by simp
qed

lemma seq_in_released:
  "\<not> pin_drive p \<Longrightarrow>
   (case in_bits W False n (pin_wire p) of (bs, t) \<Rightarrow> sw_seq_in W n p = (pack_bits bs, p\<lparr> pin_wire := t \<rparr>))"
proof (induction W n p rule: sw_seq_in.induct)
  case (1 W n p)
  show ?case
  proof (cases "n = 0")
    case False
    define k where "k = min 8 n"
    have k: "k \<le> 8" "k \<le> n" "0 < k" "k < n \<Longrightarrow> k = 8" using False by (auto simp: k_def)
    obtain bs t where bs: "in_bits W False k (pin_wire p) = (bs, t)" by fastforce
    have len: "length bs = k" using length_in_bits [of W False k "pin_wire p"] bs by simp
    let ?p = "p\<lparr> pin_wire := t \<rparr>"
    obtain val where val: "sw_read_byte W k 0 p = (val, ?p)"
      "\<forall>i. bit val i \<longleftrightarrow> (if i < 8 - k then False else i < 8 \<and> bs ! (i - (8 - k)))"
      using read_byte_released [OF "1.prems" k(1), of 0 W] bs by auto
    obtain cs u where cs: "in_bits W False (n - k) t = (cs, u)" by fastforce
    have clen: "length cs = n - k" using length_in_bits [of W False "n - k" t] cs by simp
    have ih: "sw_seq_in W (n - k) ?p = (pack_bits cs, ?p\<lparr> pin_wire := u \<rparr>)"
      using "1.IH" [of k "(val, ?p)" val ?p] False val(1) "1.prems" cs by (simp add: k_def [symmetric])
    have byte: "ucast (drop_bit (8 - k) val) = (horner_sum of_bool 2 bs :: u8)"
      using k(1) len by (intro bit_word_eqI) (auto simp: bit_simps val(2) bit_horner_sum_bit_word_iff)
    have one: "pack_bits bs = [horner_sum of_bool 2 bs]"
    proof -
      have "(length bs + 7) div 8 = 1" using len k by (cases k) auto
      then show ?thesis using len k(1) by (simp add: pack_bits_def)
    qed
    have "pack_bits (bs @ cs) = pack_bits bs @ pack_bits cs"
    proof (cases "k < n")
      case True
      then show ?thesis using pack_bits_append [of bs 1] len k(4) by simp
    next
      case False
      then show ?thesis using clen by (simp add: pack_bits_def)
    qed
    moreover have "in_bits W False n (pin_wire p) = (bs @ cs, u)"
      using in_bits_add [of W False k "n - k" "pin_wire p"] bs cs k(2) by simp
    moreover have "sw_seq_in W n p = (ucast (drop_bit (8 - k) val) # pack_bits cs, ?p\<lparr> pin_wire := u \<rparr>)"
      using False val(1) ih by (subst sw_seq_in.simps) (simp add: k_def [symmetric] Let_def)
    ultimately show ?thesis using byte one by simp
  qed (simp add: sw_seq_in.simps pack_bits_def)
qed


section \<open>Properties\<close>

text \<open>
  C9. The SPI transport against the bit-banged reference of CMSIS-DAP, on any target and for every
  configuration of idle cycles and data phase, with the same turnaround (1 to 32 clocks) and sampling on
  the standard edge: both drive and sample the clocks of the packet in the same order and deliver the same
  data word; the acknowledge is the same but for a parity error, which is 9 (OK with ERROR) over SPI and
  8 (ERROR) in the reference.  Behind the packet the reference clocks on, where the SPI transport stops:
  the configured idle cycles after OK (also with a parity error), the dummy data phase, in its direction,
  after WAIT and FAULT if it is configured, and 33 cycles with SWDIO released after an invalid
  acknowledge.  So the two leave the target in the same state exactly where none of these is due.
\<close>

theorem spi_transfer_matches_reference:
  assumes "std_edge s" and "s_trn s = swd_turnaround_clk dd" and "1 \<le> s_trn s" and "s_trn s \<le> 32"
    and "pin_drive p" and "pin_wire p = on_wire s"
    and "SW_DP_SWD_Transfer W dd request (Some d) p = (ref_ack, ref_data, dd', p')"
    and "SWD_Transfer W request (Some d) s = (ack, data, s')"
  shows "data = ref_data \<and> ref_ack = (if ack = 9 then 8 else ack)
    \<and> pin_wire p' = extra_clocks W dd request ack (on_wire s')"
proof -
  have n: "unat (s_trn s) \<le> 32" "1 \<le> unat (s_trn s)"
    using assms(3,4) by (simp_all add: word_le_nat_alt)
  have "s_trn s \<noteq> 0" using n(2) by auto
  then have trn: "trn_clocks s = unat (swd_turnaround_clk dd)" by (simp add: trn_clocks_def assms(2))
  have tl: "trn_clocks s \<le> 32" using n(1) assms(2) trn by simp
  obtain d' where w: "(ack, d', on_wire s') = wire_transfer W (unat (swd_turnaround_clk dd)) request d (pin_wire p)"
    "data = Some d'"
    using swd_transfer_wire [OF assms(1) tl, of W request d] assms(6,8) trn by auto
  show ?thesis
    using sw_dp_transfer_wire [OF assms(5,7) w(1) [symmetric]] w(2) by simp
qed

definition ref_config :: dap_data where
  "ref_config = \<lparr> debug_port = 1, fast_clock = 0, clock_delay = 1, timestamp = 0, idle_cycles = 8,
     retry_count = 100, match_retry = 0, match_mask = 0, swd_turnaround_clk = 1, swd_data_phase = 1 \<rparr>"

definition ref_pins :: "bool list \<Rightarrow> (bool list \<times> bool list) sw_pins" where
  "ref_pins tape = \<lparr> pin_swdio = True, pin_drive = True, pin_wire = ([], tape) \<rparr>"

lemma spi_transfer_matches_reference_witness:
  "\<exists>ack data s' dd' p'. SWD_Transfer tape_wire 0x2 (Some 5) (tape_swd [True, False, True, False]) = (ack, data, s')
    \<and> SW_DP_SWD_Transfer tape_wire ref_config 0x2 (Some 5) (ref_pins [True, False, True, False])
       = (if ack = 9 then 8 else ack, data, dd', p')
    \<and> pin_wire p' = extra_clocks tape_wire ref_config 0x2 ack (on_wire s')"
proof -
  obtain ack data s' where a: "SWD_Transfer tape_wire 0x2 (Some 5) (tape_swd [True, False, True, False]) = (ack, data, s')"
    by (metis prod_cases3)
  obtain x y dd' p' where b: "SW_DP_SWD_Transfer tape_wire ref_config 0x2 (Some 5) (ref_pins [True, False, True, False]) = (x, y, dd', p')"
    by (metis prod_cases4)
  have "std_edge (tape_swd [True, False, True, False])" "s_trn (tape_swd [True, False, True, False]) = swd_turnaround_clk ref_config"
    "1 \<le> s_trn (tape_swd [True, False, True, False])" "s_trn (tape_swd [True, False, True, False]) \<le> 32"
    "pin_drive (ref_pins [True, False, True, False])"
    "pin_wire (ref_pins [True, False, True, False]) = on_wire (tape_swd [True, False, True, False])"
    by (simp_all add: tape_swd_def ref_config_def ref_pins_def std_edge_def)
  from spi_transfer_matches_reference [OF this b a] a b show ?thesis by simp
qed

text \<open>
  \<open>SWJ_Sequence\<close> over SPI, whole bytes in one transaction and the rest as one short unit, clocks
  exactly the bits the reference clocks one by one.
\<close>

theorem swj_sequence_matches_reference:
  assumes "count \<le> 8 * length data" and "pin_drive p" and "pin_wire p = on_wire s"
  shows "pin_wire (SW_DP_SWJ_Sequence W count data p) = on_wire (SWJ_Sequence W count data s)"
  using swj_sequence_wire(1) [OF assms(1), of W s] sw_dp_swj_wire(2) [OF assms(2,1), of W] assms(3) by simp

lemma swj_sequence_matches_reference_witness:
  "pin_wire (SW_DP_SWJ_Sequence tape_wire 11 [0x9E, 0xE7] (ref_pins []))
    = on_wire (SWJ_Sequence tape_wire 11 [0x9E, 0xE7] (tape_swd []))"
  by (rule swj_sequence_matches_reference) (simp_all add: ref_pins_def tape_swd_def)

text \<open>
  \<open>SWD_Sequence\<close> over SPI, up to 32 bits to a unit, clocks the same bits as the reference: in the
  output direction the bits of the buffer, in the input direction it captures the same bits into the
  same bytes.
\<close>

lemma swd_sequence_matches_reference:
  assumes "std_edge s" and "pin_wire p = on_wire s"
    and "info AND 0x80 = 0 \<Longrightarrow> pin_drive p \<and> sequence_clocks info \<le> 8 * length swdo"
    and "info AND 0x80 \<noteq> 0 \<Longrightarrow> \<not> pin_drive p"
    and "SWD_Sequence W info swdo s = (swdi, s')" and "SW_DP_SWD_Sequence W info swdo p = (ref_swdi, p')"
  shows "swdi = ref_swdi \<and> on_wire s' = pin_wire p'"
proof -
  have ref: "SW_DP_SWD_Sequence W info swdo p =
      (if info AND 0x80 \<noteq> 0 then sw_seq_in W (sequence_clocks info) p else ([], sw_seq_out W (sequence_clocks info) swdo p))"
    by (simp add: SW_DP_SWD_Sequence_def sequence_clocks_def Let_def)
  show ?thesis
  proof (cases "info AND 0x80 = 0")
    case True
    then show ?thesis
      using swd_sequence_wire [OF assms(1), of info swdo W] seq_out_driven [of p "sequence_clocks info" swdo W]
        assms(2,3,5,6) ref by auto
  next
    case False
    then show ?thesis
      using swd_sequence_wire [OF assms(1), of info swdo W] seq_in_released [OF assms(4) [OF False], of W "sequence_clocks info"]
        assms(2,5,6) ref by (auto split: prod.splits)
  qed
qed

end
