(* ===== verification/Dap_Base.thy ===== *)
theory Dap_Base
  imports Sw_Dp "HOL-Library.Monad_Syntax"
begin

text \<open>
  The commands of the debug unit but the transfers (\<^verbatim>\<open>cmsis-dap/arm/DAP.c\<close> with the configuration
  of \<^verbatim>\<open>cmsis-dap/port/DAP_config.h\<close>: SWD only, no SWO, no UART, no timestamps, 512-byte packets).

  A handler takes the bytes from its request pointer to the end of the request buffer and returns the
  bytes it writes from its response pointer on, its return value (low half: response bytes, high half:
  request bytes) and the state.  \<open>None\<close> stands for a run that does not return properly: a read
  beyond the request buffer, or an endless loop.
\<close>

section \<open>Configuration\<close>

definition DAP_PACKET_SIZE :: nat where "DAP_PACKET_SIZE = 512"
definition DAP_PACKET_COUNT :: nat where "DAP_PACKET_COUNT = 2"
definition DAP_DEFAULT_PORT :: u32 where "DAP_DEFAULT_PORT = 1"
definition DAP_DEFAULT_SWJ_CLOCK :: u32 where "DAP_DEFAULT_SWJ_CLOCK = 1000000"
definition CPU_CLOCK :: u32 where "CPU_CLOCK = 480000000"
definition IO_PORT_WRITE_CYCLES :: u32 where "IO_PORT_WRITE_CYCLES = 2"
definition DELAY_SLOW_CYCLES :: u32 where "DELAY_SLOW_CYCLES = 3"
definition DELAY_FAST_CYCLES :: u32 where "DELAY_FAST_CYCLES = 0"

definition DAP_OK :: u8 where "DAP_OK = 0"
definition DAP_ERROR :: u8 where "DAP_ERROR = 0xFF"

definition DAP_PORT_AUTODETECT :: u32 where "DAP_PORT_AUTODETECT = 0"
definition DAP_PORT_DISABLED :: u32 where "DAP_PORT_DISABLED = 0"
definition DAP_PORT_SWD :: u32 where "DAP_PORT_SWD = 1"

definition DAP_SWJ_SWCLK_TCK :: nat where "DAP_SWJ_SWCLK_TCK = 0"
definition DAP_SWJ_SWDIO_TMS :: nat where "DAP_SWJ_SWDIO_TMS = 1"
definition DAP_SWJ_TDI :: nat where "DAP_SWJ_TDI = 2"
definition DAP_SWJ_TDO :: nat where "DAP_SWJ_TDO = 3"
definition DAP_SWJ_nTRST :: nat where "DAP_SWJ_nTRST = 5"
definition DAP_SWJ_nRESET :: nat where "DAP_SWJ_nRESET = 7"

definition MAX_SWJ_CLOCK :: "u32 \<Rightarrow> u32" where
  "MAX_SWJ_CLOCK delay_cycles = (CPU_CLOCK div 2) div (IO_PORT_WRITE_CYCLES + delay_cycles)"

section \<open>State, requests and return values\<close>

record 't dap =
  dap_dd :: dap_data
  dap_abort :: u8
  dap_swd :: "'t swd"

definition dap_act :: "'t wire \<Rightarrow> hw_act \<Rightarrow> 't dap \<Rightarrow> 't dap" where
  "dap_act W a st = st\<lparr> dap_swd := swd_act W a (dap_swd st) \<rparr>"

type_synonym 't handled = "(u8 list \<times> u32 \<times> 't dap) option"

definition rd :: "u8 list \<Rightarrow> nat \<Rightarrow> u8 option" where
  "rd req i = (if i < length req then Some (req ! i) else None)"

definition rd16 :: "u8 list \<Rightarrow> nat \<Rightarrow> u16 option" where
  "rd16 req i = do { a \<leftarrow> rd req i; b \<leftarrow> rd req (i + 1); Some (join16 a b) }"

definition rd32 :: "u8 list \<Rightarrow> nat \<Rightarrow> u32 option" where
  "rd32 req i =
    do { a \<leftarrow> rd req i; b \<leftarrow> rd req (i + 1); c \<leftarrow> rd req (i + 2); d \<leftarrow> rd req (i + 3); Some (le32 a b c d) }"

text \<open>The return value with the given numbers of request and response bytes.\<close>

definition halves :: "nat \<Rightarrow> nat \<Rightarrow> u32" where
  "halves req resp = push_bit 16 (of_nat req) OR of_nat resp"

section \<open>Clock\<close>

definition Set_Clock_Delay :: "u32 \<Rightarrow> dap_data \<Rightarrow> dap_data" where
  "Set_Clock_Delay clock dd =
    (if MAX_SWJ_CLOCK DELAY_FAST_CYCLES \<le> clock
     then dd\<lparr> fast_clock := 1, clock_delay := 1 \<rparr>
     else (let delay = ((CPU_CLOCK div 2) + (clock - 1)) div clock;
               delay = (if IO_PORT_WRITE_CYCLES < delay
                        then ((delay - IO_PORT_WRITE_CYCLES) + (DELAY_SLOW_CYCLES - 1)) div DELAY_SLOW_CYCLES
                        else 1)
           in dd\<lparr> fast_clock := 0, clock_delay := delay \<rparr>))"

section \<open>Information\<close>

definition DAP_VENDOR :: string where "DAP_VENDOR = ''LabForge''"
definition DAP_PRODUCT :: string where "DAP_PRODUCT = ''ExLink CMSIS-DAP''"
definition DAP_SER_NUM :: string where "DAP_SER_NUM = ''EXLINK-F1-0001''"
definition DAP_FW_Ver :: string where "DAP_FW_Ver = ''2.1.1''"

text \<open>Copies a string with its NUL; an empty string copies nothing.\<close>

definition exlink_dap_copy_str :: "string \<Rightarrow> u8 list" where
  "exlink_dap_copy_str src = (if src = [] then [] else map of_char src @ [0])"

definition DAP_capabilities :: "u8 list" where
  "DAP_capabilities = [1 OR push_bit 4 1, 0]"

text \<open>The information bytes; their number is the return value.\<close>

definition DAP_Info :: "u8 \<Rightarrow> u8 list" where
  "DAP_Info ident =
    (if ident = 1 then exlink_dap_copy_str DAP_VENDOR
     else if ident = 2 then exlink_dap_copy_str DAP_PRODUCT
     else if ident = 3 then exlink_dap_copy_str DAP_SER_NUM
     else if ident = 4 then map of_char DAP_FW_Ver @ [0]
     else if ident = 0xF0 then DAP_capabilities
     else if ident = 0xFF then [of_nat DAP_PACKET_SIZE, of_nat (DAP_PACKET_SIZE div 256)]
     else if ident = 0xFE then [of_nat DAP_PACKET_COUNT]
     else [])"

section \<open>Simple commands\<close>

definition Delayms :: "'t wire \<Rightarrow> u32 \<Rightarrow> 't dap \<Rightarrow> 't dap" where
  "Delayms W delay =
    dap_act W (Delay_Loop (delay * ((CPU_CLOCK div 1000 + (DELAY_SLOW_CYCLES - 1)) div DELAY_SLOW_CYCLES)))"

definition DAP_Delay :: "'t wire \<Rightarrow> u8 list \<Rightarrow> 't dap \<Rightarrow> 't handled" where
  "DAP_Delay W req st = do {
    delay \<leftarrow> rd16 req 0;
    let delay = ucast delay * ((CPU_CLOCK div 1000000 + (DELAY_SLOW_CYCLES - 1)) div DELAY_SLOW_CYCLES);
    Some ([DAP_OK], halves 2 1, dap_act W (Delay_Loop delay) st) }"

text \<open>The LED functions of the configuration do nothing.\<close>

definition DAP_HostStatus :: "u8 list \<Rightarrow> 't dap \<Rightarrow> 't handled" where
  "DAP_HostStatus req st = do {
    kind \<leftarrow> rd req 0;
    if kind = 0 \<or> kind = 1
    then do { b \<leftarrow> rd req 1; Some ([DAP_OK], halves 2 1, st) }
    else Some ([DAP_ERROR], halves 2 1, st) }"

definition DAP_Connect :: "'t wire \<Rightarrow> u8 list \<Rightarrow> 't dap \<Rightarrow> 't handled" where
  "DAP_Connect W req st = do {
    r \<leftarrow> rd req 0;
    let port = (if ucast r = DAP_PORT_AUTODETECT then DAP_DEFAULT_PORT else ucast r);
    if port = DAP_PORT_SWD
    then Some ([ucast port], halves 1 1,
      st\<lparr> dap_dd := (dap_dd st)\<lparr> debug_port := ucast DAP_PORT_SWD \<rparr>,
          dap_swd := dap_swd_spi_port_setup W (dap_swd st) \<rparr>)
    else Some ([ucast DAP_PORT_DISABLED], halves 1 1, st) }"

definition DAP_Disconnect :: "'t dap \<Rightarrow> u8 list \<times> u32 \<times> 't dap" where
  "DAP_Disconnect st =
    ([DAP_OK], 1, st\<lparr> dap_dd := (dap_dd st)\<lparr> debug_port := ucast DAP_PORT_DISABLED \<rparr>,
                     dap_swd := dap_swd_spi_port_off (dap_swd st) \<rparr>)"

text \<open>nRESET is open drain: released it is an input, asserted it is first set low, then driven.\<close>

definition PIN_nRESET_OUT :: "'t wire \<Rightarrow> u32 \<Rightarrow> 't dap \<Rightarrow> 't dap" where
  "PIN_nRESET_OUT W b st =
    (if b AND 1 \<noteq> 0 then dap_act W (Gpio_Input NRESET_GPIO_PIN) st
     else dap_act W (Gpio_Output NRESET_GPIO_PIN) (dap_act W (Gpio_Write NRESET_GPIO_PIN False) st))"

definition RESET_TARGET :: "'t wire \<Rightarrow> 't dap \<Rightarrow> u8 \<times> 't dap" where
  "RESET_TARGET W st =
    (let st = PIN_nRESET_OUT W 0 st;
         st = dap_act W (Delay_Ms 1) st;
         st = PIN_nRESET_OUT W 1 st;
         st = dap_act W (Delay_Ms 10) st
     in (1, st))"

definition DAP_ResetTarget :: "'t wire \<Rightarrow> 't dap \<Rightarrow> u8 list \<times> u32 \<times> 't dap" where
  "DAP_ResetTarget W st = (case RESET_TARGET W st of (r, st) \<Rightarrow> ([DAP_OK, r], 2, st))"

section \<open>SWJ pins\<close>

text \<open>The pin inputs; TDI, TDO and nTRST are stubs that read 0.\<close>

definition pin_in :: "'t wire \<Rightarrow> nat \<Rightarrow> 't dap \<Rightarrow> u32" where
  "pin_in W k st = of_bool (w_pin W k (on_wire (dap_swd st)))"

definition swj_pins_out :: "'t wire \<Rightarrow> u32 \<Rightarrow> u32 \<Rightarrow> 't dap \<Rightarrow> 't dap" where
  "swj_pins_out W value select st =
    (let st = (if bit select DAP_SWJ_SWCLK_TCK
               then dap_act W (Gpio_Write SWCLK_PIN (bit value DAP_SWJ_SWCLK_TCK)) st else st);
         st = (if bit select DAP_SWJ_SWDIO_TMS
               then dap_act W (Gpio_Write SWDIO_PIN (bit value DAP_SWJ_SWDIO_TMS)) st else st)
     in if bit select DAP_SWJ_nRESET then PIN_nRESET_OUT W (drop_bit DAP_SWJ_nRESET value) st else st)"

text \<open>One pass over the comparisons: does every selected pin read what the shifted value asks?\<close>

definition swj_pins_match :: "'t wire \<Rightarrow> u32 \<Rightarrow> u32 \<Rightarrow> 't dap \<Rightarrow> bool" where
  "swj_pins_match W value select st \<longleftrightarrow>
     (bit select DAP_SWJ_SWCLK_TCK \<longrightarrow> drop_bit DAP_SWJ_SWCLK_TCK value XOR pin_in W SWCLK_PIN st = 0)
   \<and> (bit select DAP_SWJ_SWDIO_TMS \<longrightarrow> drop_bit DAP_SWJ_SWDIO_TMS value XOR pin_in W SWDIO_PIN st = 0)
   \<and> (bit select DAP_SWJ_TDI \<longrightarrow> drop_bit DAP_SWJ_TDI value XOR 0 = 0)
   \<and> (bit select DAP_SWJ_nTRST \<longrightarrow> drop_bit DAP_SWJ_nTRST value XOR 0 = 0)
   \<and> (bit select DAP_SWJ_nRESET \<longrightarrow> drop_bit DAP_SWJ_nRESET value XOR pin_in W NRESET_GPIO_PIN st = 0)"

text \<open>
  \<^verbatim>\<open>do { ... continue ... break; } while ((TIMESTAMP_GET() - timestamp) < wait)\<close> with a clock that
  reads 0 and \<open>wait\<close> 1: the condition of the loop always holds, only the \<^verbatim>\<open>break\<close> leaves it.
\<close>

definition TIMESTAMP_GET :: u32 where "TIMESTAMP_GET = 0"

partial_function (option) swj_pins_wait :: "'t wire \<Rightarrow> u32 \<Rightarrow> u32 \<Rightarrow> u32 \<Rightarrow> u32 \<Rightarrow> 't dap \<Rightarrow> 't dap option" where
  "swj_pins_wait W value select t0 wait st =
    (if swj_pins_match W value select st then Some st
     else if TIMESTAMP_GET - t0 < wait
     then swj_pins_wait W value select t0 wait (dap_act W Poll st)
     else Some st)"

definition swj_pins_read :: "'t wire \<Rightarrow> 't dap \<Rightarrow> u8" where
  "swj_pins_read W st =
    ucast (push_bit DAP_SWJ_SWCLK_TCK (pin_in W SWCLK_PIN st)
      OR push_bit DAP_SWJ_SWDIO_TMS (pin_in W SWDIO_PIN st)
      OR push_bit DAP_SWJ_nRESET (pin_in W NRESET_GPIO_PIN st))"

definition DAP_SWJ_Pins :: "'t wire \<Rightarrow> u8 list \<Rightarrow> 't dap \<Rightarrow> 't handled" where
  "DAP_SWJ_Pins W req st = do {
    v \<leftarrow> rd req 0;
    s \<leftarrow> rd req 1;
    wait \<leftarrow> rd32 req 2;
    let value = ucast v; let select = ucast s;
    let st = swj_pins_out W value select st;
    st \<leftarrow> (if wait \<noteq> 0 then swj_pins_wait W value select TIMESTAMP_GET 1 st else Some st);
    Some ([swj_pins_read W st], halves 6 1, st) }"

section \<open>SWJ clock and sequences\<close>

definition DAP_SWJ_Clock :: "'t wire \<Rightarrow> u8 list \<Rightarrow> 't dap \<Rightarrow> 't handled" where
  "DAP_SWJ_Clock W req st = do {
    clock \<leftarrow> rd32 req 0;
    if clock = 0 then Some ([DAP_ERROR], halves 4 1, st)
    else Some ([DAP_OK], halves 4 1,
      st\<lparr> dap_dd := Set_Clock_Delay clock (dap_dd st),
          dap_swd := dap_swd_spi_set_clock W clock (dap_swd st) \<rparr>) }"

definition DAP_SWJ_Sequence :: "'t wire \<Rightarrow> u8 list \<Rightarrow> 't dap \<Rightarrow> 't handled" where
  "DAP_SWJ_Sequence W req st = do {
    c \<leftarrow> rd req 0;
    let count = (if c = 0 then 256 else unat c);
    let bytes = (count + 7) div 8;
    if length (drop 1 req) < bytes then None
    else Some ([DAP_OK], halves (bytes + 1) 1,
      st\<lparr> dap_swd := SWJ_Sequence W count (drop 1 req) (dap_swd st) \<rparr>) }"

definition DAP_SWD_Configure :: "u8 list \<Rightarrow> 't dap \<Rightarrow> 't handled" where
  "DAP_SWD_Configure req st = do {
    value \<leftarrow> rd req 0;
    Some ([DAP_OK], halves 1 1,
      st\<lparr> dap_dd := (dap_dd st)\<lparr> swd_turnaround_clk := (value AND 3) + 1,
                                swd_data_phase := (if value AND 4 \<noteq> 0 then 1 else 0) \<rparr> \<rparr>) }"

text \<open>
  The loop of \<^verbatim>\<open>DAP_SWD_Sequence\<close>: \<open>n\<close> sequences to go; the bytes captured and the two counters
  are accumulated.
\<close>

fun swd_sequences :: "'t wire \<Rightarrow> nat \<Rightarrow> u8 list \<Rightarrow> u8 list \<Rightarrow> nat \<Rightarrow> nat \<Rightarrow> 't dap
    \<Rightarrow> (u8 list \<times> nat \<times> nat \<times> 't dap) option" where
  "swd_sequences W 0 req resp rqc rsc st = Some (resp, rqc, rsc, st)"
| "swd_sequences W (Suc n) req resp rqc rsc st = do {
    i \<leftarrow> rd req 0;
    let info = ucast i;
    let req = drop 1 req;
    let count = (sequence_clocks info + 7) div 8;
    let din = info AND 0x80 \<noteq> 0;
    let st = dap_act W (if din then Gpio_Input SWDIO_PIN else Gpio_Output SWDIO_PIN) st;
    (if \<not> din \<and> length req < count then None else do {
      let (swdi, swd) = SWD_Sequence W info req (dap_swd st);
      let st = st\<lparr> dap_swd := swd \<rparr>;
      let st = (if n = 0 then dap_act W (Gpio_Output SWDIO_PIN) st else st);
      if din then swd_sequences W n req (resp @ swdi) (rqc + 1) (rsc + count) st
      else swd_sequences W n (drop count req) resp (rqc + count + 1) rsc st }) }"

definition DAP_SWD_Sequence :: "'t wire \<Rightarrow> u8 list \<Rightarrow> 't dap \<Rightarrow> 't handled" where
  "DAP_SWD_Sequence W req st = do {
    n \<leftarrow> rd req 0;
    (resp, rqc, rsc, st) \<leftarrow> swd_sequences W (unat n) (drop 1 req) [DAP_OK] 1 1 st;
    Some (resp, halves rqc rsc, st) }"

section \<open>JTAG commands of a unit without JTAG\<close>

fun jtag_sequences :: "nat \<Rightarrow> u8 list \<Rightarrow> nat \<Rightarrow> nat option" where
  "jtag_sequences 0 req rqc = Some rqc"
| "jtag_sequences (Suc n) req rqc = do {
    i \<leftarrow> rd req 0;
    let count = (sequence_clocks (ucast i) + 7) div 8;
    jtag_sequences n (drop (count + 1) req) (rqc + count + 1) }"

definition DAP_JTAG_Sequence :: "u8 list \<Rightarrow> 't dap \<Rightarrow> 't handled" where
  "DAP_JTAG_Sequence req st = do {
    n \<leftarrow> rd req 0;
    rqc \<leftarrow> jtag_sequences (unat n) (drop 1 req) 1;
    Some ([DAP_ERROR], halves rqc 1, st) }"

definition DAP_JTAG_Configure :: "u8 list \<Rightarrow> 't dap \<Rightarrow> 't handled" where
  "DAP_JTAG_Configure req st = do { c \<leftarrow> rd req 0; Some ([DAP_ERROR], halves (unat c + 1) 1, st) }"

definition DAP_JTAG_IDCode :: "'t dap \<Rightarrow> u8 list \<times> u32 \<times> 't dap" where
  "DAP_JTAG_IDCode st = ([DAP_ERROR], halves 1 1, st)"

section \<open>Configuration and setup\<close>

definition DAP_TransferConfigure :: "u8 list \<Rightarrow> 't dap \<Rightarrow> 't handled" where
  "DAP_TransferConfigure req st = do {
    idle \<leftarrow> rd req 0; retry \<leftarrow> rd16 req 1; match \<leftarrow> rd16 req 3;
    Some ([DAP_OK], halves 5 1,
      st\<lparr> dap_dd := (dap_dd st)\<lparr> idle_cycles := idle, retry_count := retry, match_retry := match \<rparr> \<rparr>) }"

definition DAP_Setup :: "'t dap \<Rightarrow> 't dap" where
  "DAP_Setup st =
    st\<lparr> dap_dd := Set_Clock_Delay DAP_DEFAULT_SWJ_CLOCK
          ((dap_dd st)\<lparr> debug_port := 0, idle_cycles := 0, retry_count := 100, match_retry := 0,
             match_mask := 0, swd_turnaround_clk := 1, swd_data_phase := 0 \<rparr>),
        dap_swd := dap_swd_spi_port_off (dap_swd st) \<rparr>"

section \<open>A silent target\<close>

text \<open>Every pin and every captured bit has one level; nothing the unit does changes it.\<close>

definition still_wire :: "bool wire" where
  "still_wire = \<lparr> w_out = \<lambda>b t. t, w_in = \<lambda>e t. (t, t), w_pin = \<lambda>p t. t, w_act = \<lambda>a t. t, w_spi_hz = 80000000 \<rparr>"

definition still_start :: "bool \<Rightarrow> bool dap" where
  "still_start level =
    \<lparr> dap_dd = \<lparr> debug_port = 1, fast_clock = 0, clock_delay = 1, timestamp = 0, idle_cycles = 0, retry_count = 100,
        match_retry = 0, match_mask = 0, swd_turnaround_clk = 1, swd_data_phase = 0 \<rparr>,
      dap_abort = 0,
      dap_swd = \<lparr> s_read_even = False, s_trn = 1, s_drive = False, s_sel_cache = 0, spi_drive = False,
        spi_even = False, spi_bits = 8, on_wire = level \<rparr> \<rparr>"

section \<open>Clock delay\<close>

lemma ceil_div_bounds:
  fixes a b c :: nat
  assumes "0 < b" and "c = (a + (b - 1)) div b"
  shows "a \<le> c * b" and "0 < c \<Longrightarrow> (c - 1) * b < a"
proof -
  have m: "c * b + (a + (b - 1)) mod b = a + (b - 1)" and r: "(a + (b - 1)) mod b < b"
    unfolding assms(2) using assms(1) by (simp_all only: div_mult_mod_eq mod_less_divisor)
  show "a \<le> c * b" using m r by linarith
  assume "0 < c"
  then have "c * b = (c - 1) * b + b" by (cases c) simp_all
  then show "(c - 1) * b < a" using m r assms(1) by linarith
qed

lemma slow_delay_unat:
  fixes clock :: u32
  assumes c: "0 < unat clock" "unat clock < 120000000"
  defines "cyc \<equiv> (240000000 + (unat clock - 1)) div unat clock"
  shows "clock_delay (Set_Clock_Delay clock dd)
      = of_nat (if 2 < cyc then ((cyc - 2) + 2) div 3 else 1)"
    and "unat (clock_delay (Set_Clock_Delay clock dd)) = (if 2 < cyc then ((cyc - 2) + 2) div 3 else 1)"
    and "fast_clock (Set_Clock_Delay clock dd) = 0"
proof -
  have le: "cyc \<le> 240000000 + unat clock"
    unfolding cyc_def by (rule order_trans [OF div_le_dividend]) (use c in simp)
  have w: "unat (240000000 + (clock - 1)) = 240000000 + (unat clock - 1)"
    using c by (simp add: unat_word_ariths unat_sub word_le_nat_alt)
  have half': "unat (239999999 + clock) = 239999999 + unat clock"
    using c by (simp add: unat_word_ariths)
  have t: "unat ((240000000 + (clock - 1)) div clock) = cyc"
    using c by (simp add: unat_div half' cyc_def)
  have slow: "\<not> MAX_SWJ_CLOCK DELAY_FAST_CYCLES \<le> clock"
    using c by (simp add: MAX_SWJ_CLOCK_def CPU_CLOCK_def IO_PORT_WRITE_CYCLES_def DELAY_FAST_CYCLES_def
        word_le_nat_alt unat_div)
  have gt: "IO_PORT_WRITE_CYCLES < (240000000 + (clock - 1)) div clock \<longleftrightarrow> 2 < cyc"
    by (simp only: word_less_nat_alt t IO_PORT_WRITE_CYCLES_def) simp
  have d: "unat ((((240000000 + (clock - 1)) div clock - IO_PORT_WRITE_CYCLES) + (DELAY_SLOW_CYCLES - 1))
      div DELAY_SLOW_CYCLES) = ((cyc - 2) + 2) div 3" if "2 < cyc"
  proof -
    have s: "unat ((240000000 + (clock - 1)) div clock - 2) = cyc - 2"
      using that t by (simp add: unat_sub word_le_nat_alt)
    have "unat (((240000000 + (clock - 1)) div clock - 2) + 2) = cyc - 2 + 2"
      using le c s by (subst unat_word_ariths(1)) simp
    then show ?thesis by (simp add: unat_div IO_PORT_WRITE_CYCLES_def DELAY_SLOW_CYCLES_def)
  qed
  have half: "CPU_CLOCK div 2 = 240000000"
    by (simp add: CPU_CLOCK_def)
  show u: "unat (clock_delay (Set_Clock_Delay clock dd)) = (if 2 < cyc then ((cyc - 2) + 2) div 3 else 1)"
    using slow gt d unfolding Set_Clock_Delay_def half Let_def by simp
  show "clock_delay (Set_Clock_Delay clock dd)
      = of_nat (if 2 < cyc then ((cyc - 2) + 2) div 3 else 1)"
    unfolding u [symmetric] by simp
  show "fast_clock (Set_Clock_Delay clock dd) = 0"
    using slow by (simp add: Set_Clock_Delay_def Let_def)
qed

text \<open>
  The delay chosen for a requested clock gives the fastest clock that is not faster than requested:
  half a period is 2 + 3 * delay processor cycles of the 240 million half-periods per second.
\<close>

theorem clock_delay_is_tight:
  assumes "0 < unat clock" and "unat clock < 120000000"
  shows "let delay = unat (clock_delay (Set_Clock_Delay clock dd))
    in fast_clock (Set_Clock_Delay clock dd) = 0
     \<and> 1 \<le> delay
     \<and> 240000000 \<le> (2 + 3 * delay) * unat clock
     \<and> (delay = 1 \<or> (2 + 3 * (delay - 1)) * unat clock < 240000000)"
proof -
  define cyc where "cyc = (240000000 + (unat clock - 1)) div unat clock"
  define delay where "delay = unat (clock_delay (Set_Clock_Delay clock dd))"
  have d: "delay = (if 2 < cyc then ((cyc - 2) + 2) div 3 else 1)"
    using slow_delay_unat(2) [OF assms, of dd] by (simp only: delay_def cyc_def)
  note t = ceil_div_bounds [OF assms(1) cyc_def]
  have "1 \<le> delay" using d by (auto split: if_splits)
  moreover have up: "240000000 \<le> (2 + 3 * delay) * unat clock"
  proof -
    have "cyc \<le> 2 + 3 * delay"
      using d ceil_div_bounds(1) [of 3 delay "cyc - 2"] by (auto split: if_splits)
    then show ?thesis using t(1) mult_le_mono1 order_trans by blast
  qed
  moreover have "(2 + 3 * (delay - 1)) * unat clock < 240000000" if "delay \<noteq> 1"
  proof -
    have big: "2 < cyc" using that d by (auto split: if_splits)
    then have dd: "delay = ((cyc - 2) + (3 - 1)) div 3" using d by simp
    have "2 + 3 * (delay - 1) \<le> cyc - 1"
      using ceil_div_bounds(2) [OF _ dd] big \<open>1 \<le> delay\<close> by simp
    moreover have "(cyc - 1) * unat clock < 240000000"
      using t(2) big by simp
    ultimately show ?thesis using mult_le_mono1 order_le_less_trans by blast
  qed
  moreover have "fast_clock (Set_Clock_Delay clock dd) = 0"
    by (rule slow_delay_unat(3) [OF assms])
  ultimately show ?thesis by (auto simp: Let_def delay_def)
qed

lemma clock_delay_is_tight_witness:
  "240000000 \<le> (2 + 3 * unat (clock_delay (Set_Clock_Delay 1000000 (dap_dd (still_start True))))) * 1000000"
  using clock_delay_is_tight [of 1000000 "dap_dd (still_start True)"] by (simp add: Let_def)

section \<open>Waiting for pins\<close>

definition polled :: "'t wire \<Rightarrow> nat \<Rightarrow> 't dap \<Rightarrow> 't dap" where
  "polled W k st = (dap_act W Poll ^^ k) st"

lemma polled_0 [simp]: "polled W 0 st = st"
  by (simp add: polled_def)

lemma polled_Suc: "polled W (Suc k) st = polled W k (dap_act W Poll st)"
  by (simp add: polled_def funpow_swap1)

definition pins_found :: "'t wire \<Rightarrow> u32 \<Rightarrow> u32 \<Rightarrow> 't dap \<Rightarrow> 't dap \<Rightarrow> bool" where
  "pins_found W v s st st' \<longleftrightarrow>
     (\<exists>k. st' = polled W k st \<and> swj_pins_match W v s st' \<and> (\<forall>j < k. \<not> swj_pins_match W v s (polled W j st)))"

lemma pins_found_later:
  assumes "\<not> swj_pins_match W v s st" and "pins_found W v s (dap_act W Poll st) st'"
  shows "pins_found W v s st st'"
proof -
  from assms(2) obtain k where k: "st' = polled W k (dap_act W Poll st)" "swj_pins_match W v s st'"
      "\<forall>j < k. \<not> swj_pins_match W v s (polled W j (dap_act W Poll st))"
    by (auto simp: pins_found_def)
  have "\<not> swj_pins_match W v s (polled W j st)" if "j < Suc k" for j
    using assms(1) k(3) that by (cases j) (simp_all add: polled_Suc)
  then show ?thesis using k by (auto simp: pins_found_def polled_Suc intro!: exI [of _ "Suc k"])
qed

lemma pins_wait_some:
  assumes "swj_pins_wait W v s 0 1 st = Some st'"
  shows "pins_found W v s st st'"
proof -
  have "(0 :: u32) = 0 \<longrightarrow> (1 :: u32) = 1 \<longrightarrow> pins_found W v s st st'"
  proof (rule swj_pins_wait.raw_induct
      [where P = "\<lambda>W v s t0 w st st'. t0 = 0 \<longrightarrow> w = 1 \<longrightarrow> pins_found W v s st st'", OF _ assms], intro impI)
    fix f W v s and t0 w :: u32 and st st'
    assume ih: "\<And>W v s t0 w st st'. f W v s t0 w st = Some st' \<Longrightarrow> t0 = 0 \<longrightarrow> w = 1 \<longrightarrow> pins_found W v s st st'"
      and eq: "(if swj_pins_match W v s st then Some st
        else if TIMESTAMP_GET - t0 < w then f W v s t0 w (dap_act W Poll st) else Some st) = Some st'"
      and "t0 = 0" "w = 1"
    then show "pins_found W v s st st'"
    proof (cases "swj_pins_match W v s st")
      case True
      then have "st' = st" using eq by simp
      then show ?thesis using True by (auto simp: pins_found_def intro!: exI [of _ 0])
    next
      case False
      then have "f W v s 0 1 (dap_act W Poll st) = Some st'"
        using eq \<open>t0 = 0\<close> \<open>w = 1\<close> by (simp add: TIMESTAMP_GET_def)
      from ih [OF this] False show ?thesis by (simp add: pins_found_later)
    qed
  qed
  then show ?thesis by simp
qed

lemma pins_wait_after:
  "swj_pins_match W v s (polled W k st) \<Longrightarrow> (\<forall>j < k. \<not> swj_pins_match W v s (polled W j st)) \<Longrightarrow>
   swj_pins_wait W v s 0 1 st = Some (polled W k st)"
proof (induction k arbitrary: st)
  case 0
  then show ?case by (subst swj_pins_wait.simps) simp
next
  case (Suc k)
  have "\<not> swj_pins_match W v s st" using Suc.prems(2) by fastforce
  moreover have "swj_pins_wait W v s 0 1 (dap_act W Poll st) = Some (polled W k (dap_act W Poll st))"
    using Suc.prems by (intro Suc.IH) (auto simp: polled_Suc [symmetric])
  ultimately show ?case by (subst swj_pins_wait.simps) (simp add: polled_Suc TIMESTAMP_GET_def)
qed

lemma pins_wait_eq:
  "swj_pins_wait W v s 0 1 st =
     (if \<exists>k. swj_pins_match W v s (polled W k st)
      then Some (polled W (LEAST k. swj_pins_match W v s (polled W k st)) st) else None)"
proof (cases "\<exists>k. swj_pins_match W v s (polled W k st)")
  case True
  then show ?thesis
    using pins_wait_after [OF LeastI_ex [OF True]] True
    by (auto dest: not_less_Least)
next
  case False
  then show ?thesis
    using pins_wait_some [of W v s st] by (cases "swj_pins_wait W v s 0 1 st") (auto simp: pins_found_def)
qed

text \<open>
  The pins command sets the selected pins; without a wait time it answers at once with the levels
  of the pins, with one it answers after the first poll whose levels match; if no poll ever matches it
  never returns, whatever the wait time of the request.
\<close>

theorem swj_pins_answer:
  assumes "6 \<le> length req"
  shows "let value = ucast (req ! 0); select = ucast (req ! 1);
             st0 = swj_pins_out W value select st;
             hit = (\<lambda>k. swj_pins_match W value select (polled W k st0));
             answer = (\<lambda>st. Some ([swj_pins_read W st], halves 6 1, st))
    in DAP_SWJ_Pins W req st =
      (if le32 (req ! 2) (req ! 3) (req ! 4) (req ! 5) = 0 then answer st0
       else if \<exists>k. hit k then answer (polled W (LEAST k. hit k) st0)
       else None)"
proof -
  have "i < length req" if "i < 6" for i using assms that by simp
  note len = this [of 0] this [of 1] this [of 2] this [of 3] this [of 4] this [of 5]
  show ?thesis
    using len by (simp add: DAP_SWJ_Pins_def rd_def rd32_def Let_def TIMESTAMP_GET_def pins_wait_eq)
qed

lemma still_act [simp]: "dap_act still_wire a st = st"
  by (simp add: dap_act_def swd_act_def still_wire_def)

lemma still_pin [simp]: "w_pin still_wire k b = b" "on_wire (dap_swd (still_start b)) = b"
  by (simp_all add: still_wire_def still_start_def)

lemma still_polled [simp]: "polled still_wire k st = st"
  by (induction k arbitrary: st) (simp_all add: polled_Suc)

lemma swj_pins_answer_witness:
  "map_option fst (DAP_SWJ_Pins (still_wire) [0, 0, 0, 0, 0, 0] (still_start True)) = Some [0x83]
   \<and> DAP_SWJ_Pins still_wire [0, 1, 1, 0, 0, 0] (still_start True) = None"
  using swj_pins_answer [of "[0, 0, 0, 0, 0, 0]" still_wire "still_start True"]
    swj_pins_answer [of "[0, 1, 1, 0, 0, 0]" still_wire "still_start True"]
  by (simp add: Let_def le32_def swj_pins_out_def PIN_nRESET_OUT_def swj_pins_read_def swj_pins_match_def
      pin_in_def DAP_SWJ_SWCLK_TCK_def DAP_SWJ_SWDIO_TMS_def DAP_SWJ_nRESET_def DAP_SWJ_TDI_def DAP_SWJ_nTRST_def)

text \<open>
  C36. A request that waits for a pin and whose output byte has a bit above that pin set is never
  answered: the comparison does not mask the shifted value.
\<close>

theorem swj_pins_hangs:
  assumes "6 \<le> length req" and "le32 (req ! 2) (req ! 3) (req ! 4) (req ! 5) \<noteq> 0"
    and "k \<in> {DAP_SWJ_SWCLK_TCK, DAP_SWJ_SWDIO_TMS, DAP_SWJ_TDI, DAP_SWJ_nTRST}"
    and "bit (req ! 1) k" and "k < j" and "bit (req ! 0) j"
  shows "DAP_SWJ_Pins W req st = None"
proof -
  have bit1: "bit (drop_bit k (ucast (req ! 0) :: u32)) (j - k)"
    using assms(5,6) bit_imp_le_length [OF assms(6)] by (simp add: bit_simps)
  have "drop_bit k (ucast (req ! 0)) XOR (of_bool p :: u32) \<noteq> 0" for p
  proof
    assume "drop_bit k (ucast (req ! 0)) XOR (of_bool p :: u32) = 0"
    then have "bit (drop_bit k (ucast (req ! 0)) XOR (of_bool p :: u32)) (j - k) = False" by simp
    then show False using bit1 assms(5) by (cases p) (auto simp: bit_xor_iff bit_1_iff)
  qed
  moreover have "bit (ucast (req ! 1) :: u32) k"
    using assms(4) bit_imp_le_length [OF assms(4)] by (simp add: bit_simps)
  ultimately have "\<not> swj_pins_match W (ucast (req ! 0)) (ucast (req ! 1)) st'" for st'
    using assms(3) unfolding swj_pins_match_def pin_in_def
    by (metis empty_iff insert_iff of_bool_eq(1))
  then show ?thesis
    using assms(1,2) by (simp add: DAP_SWJ_Pins_def rd_def rd32_def Let_def TIMESTAMP_GET_def pins_wait_eq)
qed

lemma swj_pins_hangs_witness:
  "DAP_SWJ_Pins still_wire [0x81, 0x01, 0x10, 0x27, 0, 0] (still_start True) = None"
  using swj_pins_hangs [of "[0x81, 0x01, 0x10, 0x27, 0, 0]" 0 7 still_wire "still_start True"]
  by (simp add: DAP_SWJ_SWCLK_TCK_def le32_def)

section \<open>Sequences as a program\<close>

text \<open>A sequence captures a number of bits or drives a list of bits, 1 to 64.\<close>

datatype seq_op = Capture nat | Drive "bool list"

fun op_bits :: "seq_op \<Rightarrow> nat" where
  "op_bits (Capture n) = n"
| "op_bits (Drive bs) = length bs"

fun op_bytes :: "seq_op \<Rightarrow> u8 list" where
  "op_bytes (Capture n) = [0x80 OR of_nat (n mod 64)]"
| "op_bytes (Drive bs) = of_nat (length bs mod 64) # pack_bits bs"

text \<open>What the sequences do on the wire: the bytes captured and the wire after them.\<close>

fun run_ops :: "'t wire \<Rightarrow> seq_op list \<Rightarrow> 't \<Rightarrow> u8 list \<times> 't" where
  "run_ops W [] t = ([], t)"
| "run_ops W (Capture n # ops) t =
    (case in_bits W False n (w_act W (Gpio_Input SWDIO_PIN) t) of (bs, t) \<Rightarrow>
      (case run_ops W ops (if ops = [] then w_act W (Gpio_Output SWDIO_PIN) t else t) of
        (bytes, t) \<Rightarrow> (pack_bits bs @ bytes, t)))"
| "run_ops W (Drive bs # ops) t =
    (let t = out_bits W bs (w_act W (Gpio_Output SWDIO_PIN) t)
     in run_ops W ops (if ops = [] then w_act W (Gpio_Output SWDIO_PIN) t else t))"

lemma length_pack_bits [simp]: "length (pack_bits bs) = (length bs + 7) div 8"
  by (simp add: pack_bits_def)

lemma buf_bits_pack: "buf_bits (length bs) (pack_bits bs @ rest) = bs"
proof (rule nth_equalityI)
  fix i assume "i < length (buf_bits (length bs) (pack_bits bs @ rest))"
  then have i: "i < length bs" by (simp add: buf_bits_def)
  then have k: "i div 8 < (length bs + 7) div 8" by linarith
  have at: "8 * (i div 8) + i mod 8 = i" by simp
  have "i mod 8 < length (take 8 (drop (8 * (i div 8)) bs))"
  proof -
    have "i mod 8 < length bs - 8 * (i div 8)" using i at by linarith
    then show ?thesis by simp
  qed
  then have "bit (horner_sum of_bool 2 (take 8 (drop (8 * (i div 8)) bs)) :: u8) (i mod 8) = bs ! i"
    using i at by (simp add: bit_horner_sum_bit_word_iff)
  then show "buf_bits (length bs) (pack_bits bs @ rest) ! i = bs ! i"
    using i k by (simp add: buf_bits_def pack_bits_def nth_append)
qed (simp add: buf_bits_def)

lemma info_clocks:
  assumes "1 \<le> n" "n \<le> 64"
  shows "sequence_clocks (ucast (0x80 OR of_nat (n mod 64) :: u8)) = n"
    and "sequence_clocks (ucast (of_nat (n mod 64) :: u8)) = n"
    and "(ucast (0x80 OR of_nat (n mod 64) :: u8) :: u32) AND 0x80 \<noteq> 0"
    and "(ucast (of_nat (n mod 64) :: u8) :: u32) AND 0x80 = 0"
proof -
  have "n \<in> set [1..<65]" using assms by simp
  moreover have "\<forall>n \<in> set [1..<65]. sequence_clocks (ucast (0x80 OR of_nat (n mod 64) :: u8)) = n
      \<and> sequence_clocks (ucast (of_nat (n mod 64) :: u8)) = n
      \<and> (ucast (0x80 OR of_nat (n mod 64) :: u8) :: u32) AND 0x80 \<noteq> 0
      \<and> (ucast (of_nat (n mod 64) :: u8) :: u32) AND 0x80 = 0"
    by code_simp
  ultimately show "sequence_clocks (ucast (0x80 OR of_nat (n mod 64) :: u8)) = n"
    "sequence_clocks (ucast (of_nat (n mod 64) :: u8)) = n"
    "(ucast (0x80 OR of_nat (n mod 64) :: u8) :: u32) AND 0x80 \<noteq> 0"
    "(ucast (of_nat (n mod 64) :: u8) :: u32) AND 0x80 = 0"
    by blast+
qed

definition op_ok :: "seq_op \<Rightarrow> bool" where
  "op_ok p \<longleftrightarrow> 1 \<le> op_bits p \<and> op_bits p \<le> 64"

lemma swd_sequences_run:
  "list_all op_ok ops \<Longrightarrow> std_edge (dap_swd st) \<Longrightarrow>
   run_ops W ops (on_wire (dap_swd st)) = (bytes, t) \<Longrightarrow>
   \<exists>st'. swd_sequences W (length ops) (concat (map op_bytes ops) @ rest) resp rqc rsc st
      = Some (resp @ bytes, rqc + length (concat (map op_bytes ops)), rsc + length bytes, st')
     \<and> on_wire (dap_swd st') = t \<and> std_edge (dap_swd st') \<and> dap_dd st' = dap_dd st"
proof (induction ops arbitrary: st resp rqc rsc bytes t)
  case (Cons p ops)
  have ok: "1 \<le> op_bits p" "op_bits p \<le> 64" and oks: "list_all op_ok ops"
    using Cons.prems(1) by (simp_all add: op_ok_def [of p])
  define tail where "tail = concat (map op_bytes ops) @ rest"
  define fin where "fin = (\<lambda>st :: 'a dap. if ops = [] then dap_act W (Gpio_Output SWDIO_PIN) st else st)"
  have fin: "on_wire (dap_swd (fin s)) =
      (if ops = [] then w_act W (Gpio_Output SWDIO_PIN) (on_wire (dap_swd s)) else on_wire (dap_swd s))"
      "std_edge (dap_swd (fin s)) = std_edge (dap_swd s)" "dap_dd (fin s) = dap_dd s" for s
    by (simp_all add: fin_def dap_act_def swd_act_def std_edge_def)
  show ?case
  proof (cases p)
    case (Capture n)
    define st0 where "st0 = dap_act W (Gpio_Input SWDIO_PIN) st"
    define info :: u8 where "info = 0x80 OR of_nat (n mod 64)"
    note info = info_clocks [of n, folded info_def]
    obtain swdi swd where seq: "SWD_Sequence W (ucast info) tail (dap_swd st0) = (swdi, swd)" by fastforce
    obtain bs u where in_eq: "in_bits W False n (w_act W (Gpio_Input SWDIO_PIN) (on_wire (dap_swd st))) = (bs, u)"
      by fastforce
    have "std_edge (dap_swd st0)" "on_wire (dap_swd st0) = w_act W (Gpio_Input SWDIO_PIN) (on_wire (dap_swd st))"
      using Cons.prems(2) by (simp_all add: st0_def dap_act_def swd_act_def std_edge_def)
    then have s: "swdi = pack_bits bs" "on_wire swd = u" "std_edge swd"
      using swd_sequence_wire [of "dap_swd st0" "ucast info" tail W] seq in_eq info ok Capture by simp_all
    have len: "length bs = n" using length_in_bits [of W False n] in_eq by (metis fst_conv)
    have fin0: "on_wire (dap_swd (fin (st0\<lparr> dap_swd := swd \<rparr>)))
        = (if ops = [] then w_act W (Gpio_Output SWDIO_PIN) u else u)"
      using s(2) by (simp add: fin)
    obtain more where more: "run_ops W ops (on_wire (dap_swd (fin (st0\<lparr> dap_swd := swd \<rparr>)))) = (more, t)"
        "bytes = pack_bits bs @ more"
      using Cons.prems(3) unfolding fin0 by (auto simp: Capture in_eq split: prod.splits)
    from Cons.IH [OF oks _ more(1), of "resp @ swdi" "rqc + 1" "rsc + (n + 7) div 8"] s
    obtain st' where st': "swd_sequences W (length ops) tail (resp @ swdi) (rqc + 1) (rsc + (n + 7) div 8)
          (fin (st0\<lparr> dap_swd := swd \<rparr>))
        = Some ((resp @ swdi) @ more, rqc + 1 + length (concat (map op_bytes ops)), rsc + (n + 7) div 8 + length more, st')"
        "on_wire (dap_swd st') = t" "std_edge (dap_swd st')" "dap_dd st' = dap_dd st"
      by (auto simp: fin tail_def st0_def dap_act_def)
    have "swd_sequences W (length (p # ops)) (concat (map op_bytes (p # ops)) @ rest) resp rqc rsc st
      = swd_sequences W (length ops) tail (resp @ swdi) (rqc + 1) (rsc + (n + 7) div 8) (fin (st0\<lparr> dap_swd := swd \<rparr>))"
      using info ok Capture seq
      by (simp add: rd_def tail_def info_def [symmetric] st0_def [symmetric] fin_def)
    then show ?thesis using st' more s len Capture by (auto simp: algebra_simps)
  next
    case (Drive bs)
    define st0 where "st0 = dap_act W (Gpio_Output SWDIO_PIN) st"
    define info :: u8 where "info = of_nat (length bs mod 64)"
    note info = info_clocks [of "length bs", folded info_def]
    obtain swdi swd where seq: "SWD_Sequence W (ucast info) (pack_bits bs @ tail) (dap_swd st0) = (swdi, swd)"
      by fastforce
    have "std_edge (dap_swd st0)" "on_wire (dap_swd st0) = w_act W (Gpio_Output SWDIO_PIN) (on_wire (dap_swd st))"
      using Cons.prems(2) by (simp_all add: st0_def dap_act_def swd_act_def std_edge_def)
    moreover have "length bs \<le> 8 * length (pack_bits bs @ tail)" by simp
    ultimately have s: "swdi = []" "std_edge swd"
      "on_wire swd = out_bits W bs (w_act W (Gpio_Output SWDIO_PIN) (on_wire (dap_swd st)))"
      using swd_sequence_wire [of "dap_swd st0" "ucast info" "pack_bits bs @ tail" W] seq info ok Drive
      by (simp_all add: buf_bits_pack)
    have more: "run_ops W ops (on_wire (dap_swd (fin (st0\<lparr> dap_swd := swd \<rparr>)))) = (bytes, t)"
      using Cons.prems(3) s by (auto simp: Drive fin Let_def)
    from Cons.IH [OF oks _ more, of resp "rqc + (length bs + 7) div 8 + 1" rsc] s
    obtain st' where st': "swd_sequences W (length ops) tail resp (rqc + (length bs + 7) div 8 + 1) rsc
          (fin (st0\<lparr> dap_swd := swd \<rparr>))
        = Some (resp @ bytes, rqc + (length bs + 7) div 8 + 1 + length (concat (map op_bytes ops)), rsc + length bytes, st')"
        "on_wire (dap_swd st') = t" "std_edge (dap_swd st')" "dap_dd st' = dap_dd st"
      by (auto simp: fin tail_def st0_def dap_act_def)
    have "swd_sequences W (length (p # ops)) (concat (map op_bytes (p # ops)) @ rest) resp rqc rsc st
      = swd_sequences W (length ops) tail resp (rqc + (length bs + 7) div 8 + 1) rsc (fin (st0\<lparr> dap_swd := swd \<rparr>))"
      using info ok Drive seq
      by (simp add: rd_def tail_def info_def [symmetric] st0_def [symmetric] fin_def)
    then show ?thesis using st' Drive by (auto simp: algebra_simps)
  qed
qed simp

text \<open>
  C37. A SWD sequence command built from a list of sequences drives and captures exactly their bits,
  with the direction of SWDIO switched for each, answers the captured bits packed per sequence, counts
  the bytes it consumed and leaves SWDIO driven.
\<close>

theorem swd_sequence_command:
  assumes "list_all op_ok ops" and "length ops < 256" and "std_edge (dap_swd st)"
  shows "\<exists>st'. DAP_SWD_Sequence W (of_nat (length ops) # concat (map op_bytes ops) @ rest) st
      = Some (DAP_OK # fst (run_ops W ops (on_wire (dap_swd st))),
              halves (1 + length (concat (map op_bytes ops))) (1 + length (fst (run_ops W ops (on_wire (dap_swd st))))), st')
    \<and> on_wire (dap_swd st') = snd (run_ops W ops (on_wire (dap_swd st))) \<and> dap_dd st' = dap_dd st"
proof -
  obtain bytes t where r: "run_ops W ops (on_wire (dap_swd st)) = (bytes, t)" by fastforce
  have "unat (of_nat (length ops) :: u8) = length ops"
    using assms(2) by (rule unat_of_nat_u8)
  then show ?thesis
    using swd_sequences_run [OF assms(1,3) r, of rest "[DAP_OK]" 1 1]
    by (auto simp: DAP_SWD_Sequence_def rd_def r)
qed

lemma still_bits [simp]:
  "in_bits still_wire e n t = (replicate n t, t)" "out_bits still_wire bs t = t" "w_act still_wire a t = t"
proof -
  show "in_bits still_wire e n t = (replicate n t, t)"
    by (induction n) (simp_all add: still_wire_def)
  show "out_bits still_wire bs t = t"
    by (induction bs) (simp_all add: out_bits_def still_wire_def)
qed (simp add: still_wire_def)

lemma swd_sequence_command_witness:
  "\<exists>st'. DAP_SWD_Sequence still_wire [2, 0x03, 0x05, 0x89] (still_start True)
      = Some ([0, 0xFF, 0x01], halves 4 3, st')"
proof -
  let ?ops = "[Drive [True, False, True], Capture 9]"
  have enc: "concat (map op_bytes ?ops) = [0x03, 0x05, 0x89]" by code_simp
  have ok: "list_all op_ok ?ops" by (simp add: op_ok_def)
  have run: "run_ops still_wire ?ops True = ([0xFF, 0x01], True)"
  proof -
    have "pack_bits (replicate 9 True) = [0xFF, 0x01]" by code_simp
    then show ?thesis by simp
  qed
  have "std_edge (dap_swd (still_start True))" by (simp add: still_start_def std_edge_def)
  from swd_sequence_command [OF ok _ this, of still_wire "[]"] show ?thesis
    unfolding enc still_pin(2) run by (auto simp: DAP_OK_def numeral_nat)
qed

end
