(* ===== verification/Dap_Engine.thy ===== *)
theory Dap_Engine
  imports Ring_Buffer Dap_Base
begin

text \<open>
  The request ring of the DAP engine (\<^verbatim>\<open>applications/dap_engine.c\<close>): the OUT callback submits one
  bulk packet per request, the engine thread takes them in order.  The ring is interpreted as the
  locale \<open>spsc_ring\<close>; the thread that consumes it is in theory \<open>Dap_Thread\<close>.
\<close>

section \<open>State\<close>

definition DAP_REQ_SLOTS :: nat where "DAP_REQ_SLOTS = DAP_PACKET_COUNT + 1"

record dap_req_slot =
  slot_len :: u32
  slot_buf :: "u8 list"

record dap_engine =
  s_req :: "nat \<Rightarrow> dap_req_slot"
  s_req_head :: u16
  s_req_tail :: u16
  s_req_dropped :: u32
  s_req_submitted :: u32
  s_req_processed :: u32
  s_last_send_ret :: int
  s_resp :: "u8 list"
  s_dap_sem :: nat

section \<open>The producer\<close>

text \<open>\<^verbatim>\<open>(uint16_t)((i + 1u) % DAP_REQ_SLOTS)\<close>\<close>

definition req_next :: "u16 \<Rightarrow> u16" where
  "req_next i = ucast ((ucast i + 1 :: u32) mod of_nat DAP_REQ_SLOTS)"

definition req_store :: "dap_req_slot \<Rightarrow> dap_engine \<Rightarrow> dap_engine" where
  "req_store x e =
    e\<lparr> s_req := (s_req e)(unat (s_req_head e) := x), s_req_head := req_next (s_req_head e),
       s_req_submitted := s_req_submitted e + 1, s_dap_sem := s_dap_sem e + 1 \<rparr>"

text \<open>\<^verbatim>\<open>rt_memcpy\<close> leaves the bytes behind the request as the slot's earlier requests left them.\<close>

definition req_slot :: "u8 list \<Rightarrow> u32 \<Rightarrow> dap_req_slot \<Rightarrow> dap_req_slot" where
  "req_slot data len x =
    x\<lparr> slot_len := len, slot_buf := take (unat len) data @ drop (unat len) (slot_buf x) \<rparr>"

definition dap_engine_submit :: "u8 list \<Rightarrow> u32 \<Rightarrow> dap_engine \<Rightarrow> int \<times> dap_engine" where
  "dap_engine_submit data len e =
    (if req_next (s_req_head e) = s_req_tail e
     then (- 1, e\<lparr> s_req_dropped := s_req_dropped e + 1 \<rparr>)
     else (let len = (if of_nat DAP_PACKET_SIZE < len then of_nat DAP_PACKET_SIZE else len)
           in (0, req_store (req_slot data len (s_req e (unat (s_req_head e)))) e)))"

text \<open>The consumer gives a slot back.\<close>

definition req_release :: "dap_engine \<Rightarrow> dap_engine" where
  "req_release e = e\<lparr> s_req_tail := req_next (s_req_tail e) \<rparr>"

text \<open>\<^verbatim>\<open>ok\<close> is whether the kernel could create the thread.\<close>

definition dap_engine_thread_start :: "bool \<Rightarrow> dap_engine \<Rightarrow> int \<times> dap_engine" where
  "dap_engine_thread_start ok e =
    (let e = e\<lparr> s_req_head := 0, s_req_tail := 0, s_req_dropped := 0, s_dap_sem := 0 \<rparr>
     in (if ok then 0 else - 1, e))"

text \<open>The statics of the file before \<^verbatim>\<open>dap_engine_thread_start\<close>.\<close>

definition static_engine :: dap_engine where
  "static_engine = \<lparr> s_req = (\<lambda>i. \<lparr> slot_len = 0, slot_buf = replicate DAP_PACKET_SIZE 0 \<rparr>),
     s_req_head = 0, s_req_tail = 0, s_req_dropped = 0, s_req_submitted = 0, s_req_processed = 0,
     s_last_send_ret = 0, s_resp = replicate DAP_PACKET_SIZE 0, s_dap_sem = 0 \<rparr>"

section \<open>The ring is a queue of two requests\<close>

definition engine_inv :: "dap_engine \<Rightarrow> bool" where
  "engine_inv e \<longleftrightarrow> unat (s_req_head e) < DAP_REQ_SLOTS \<and> unat (s_req_tail e) < DAP_REQ_SLOTS"

lemma unat_req_next: "unat i < DAP_REQ_SLOTS \<Longrightarrow> unat (req_next i) = (unat i + 1) mod DAP_REQ_SLOTS"
proof -
  assume i: "unat i < DAP_REQ_SLOTS"
  have u: "unat (ucast i :: u32) = unat i" using unat_u16 [of i] by (simp add: unsigned_ucast_eq take_bit_nat_eq_self_iff)
  have "unat ((ucast i + 1 :: u32) mod of_nat DAP_REQ_SLOTS) = (unat i + 1) mod DAP_REQ_SLOTS"
    using i by (simp add: unat_mod unat_word_ariths(1) u DAP_REQ_SLOTS_def DAP_PACKET_COUNT_def)
  moreover have "(unat i + 1) mod DAP_REQ_SLOTS < 65536"
    by (simp add: DAP_REQ_SLOTS_def DAP_PACKET_COUNT_def order_less_le_trans [OF mod_less_divisor])
  ultimately show ?thesis by (simp add: req_next_def unsigned_ucast_eq take_bit_nat_eq_self_iff)
qed

interpretation req: spsc_ring DAP_REQ_SLOTS
  "\<lambda>e. unat (s_req_head e)" "\<lambda>e. unat (s_req_tail e)" s_req req_store req_release engine_inv
  by unfold_locales
    (auto simp: engine_inv_def req_store_def req_release_def unat_req_next DAP_REQ_SLOTS_def DAP_PACKET_COUNT_def)

text \<open>A request is what the host sent of a slot; the thread works on the whole buffer.\<close>

definition slot_request :: "dap_req_slot \<Rightarrow> u8 list" where
  "slot_request x = take (unat (slot_len x)) (slot_buf x)"

definition req_slots :: "dap_engine \<Rightarrow> dap_req_slot list" where
  "req_slots e = ring_list DAP_REQ_SLOTS (unat (s_req_head e)) (unat (s_req_tail e)) (s_req e)"

definition engine_ok :: "dap_engine \<Rightarrow> bool" where
  "engine_ok e \<longleftrightarrow> engine_inv e \<and> (\<forall>i. length (slot_buf (s_req e i)) = DAP_PACKET_SIZE)"

lemma req_full_iff:
  assumes "engine_inv e"
  shows "req_next (s_req_head e) = s_req_tail e \<longleftrightarrow> length (req_slots e) = DAP_PACKET_COUNT"
proof -
  have "req_next (s_req_head e) = s_req_tail e \<longleftrightarrow> (unat (s_req_head e) + 1) mod DAP_REQ_SLOTS = unat (s_req_tail e)"
    using assms unat_req_next by (metis engine_inv_def unsigned_word_eqI)
  then show ?thesis using req.queue_full [OF assms] by (simp add: req_slots_def DAP_REQ_SLOTS_def)
qed

lemma req_bound: "engine_inv e \<Longrightarrow> length (req_slots e) \<le> DAP_PACKET_COUNT"
  using req.queue_bound [of e] by (simp add: req_slots_def DAP_REQ_SLOTS_def)

lemma req_empty_iff: "engine_inv e \<Longrightarrow> s_req_tail e = s_req_head e \<longleftrightarrow> req_slots e = []"
  using req.queue_empty [of e] by (metis req_slots_def unsigned_word_eqI)

lemma req_release_slots:
  assumes "engine_inv e" and "req_slots e \<noteq> []"
  shows "req_slots e = s_req e (unat (s_req_tail e)) # req_slots (req_release e)" and "engine_inv (req_release e)"
  using req.queue_get [OF assms(1)] req.queue_empty [OF assms(1)] assms(2) by (simp_all add: req_slots_def)

lemma req_slots_cong:
  "s_req e' = s_req e \<Longrightarrow> s_req_head e' = s_req_head e \<Longrightarrow> s_req_tail e' = s_req_tail e
   \<Longrightarrow> req_slots e' = req_slots e \<and> engine_inv e' = engine_inv e \<and> engine_ok e' = engine_ok e"
  by (simp add: req_slots_def engine_inv_def engine_ok_def)

lemma start_engine_ok: "engine_ok static_engine \<and> req_slots static_engine = []"
  by (simp add: static_engine_def engine_ok_def engine_inv_def req_slots_def ring_list_def DAP_REQ_SLOTS_def)

lemma submit_full:
  assumes "engine_inv e" and "length (req_slots e) = DAP_PACKET_COUNT"
  shows "dap_engine_submit data len e = (- 1, e\<lparr> s_req_dropped := s_req_dropped e + 1 \<rparr>)"
  using assms req_full_iff by (simp add: dap_engine_submit_def)

lemma submit_stores:
  assumes "engine_ok e" and "length (req_slots e) < DAP_PACKET_COUNT" and "length data = DAP_PACKET_SIZE"
    and "dap_engine_submit data len e = (r, e')"
  shows "r = 0 \<and> engine_ok e' \<and> s_req_dropped e' = s_req_dropped e \<and> s_req_submitted e' = s_req_submitted e + 1
    \<and> s_dap_sem e' = s_dap_sem e + 1 \<and> s_req_tail e' = s_req_tail e
    \<and> (\<exists>x. req_slots e' = req_slots e @ [x] \<and> slot_request x = take (unat len) data)"
proof -
  define n where "n = (if of_nat DAP_PACKET_SIZE < len then of_nat DAP_PACKET_SIZE else len)"
  define x where "x = req_slot data n (s_req e (unat (s_req_head e)))"
  have inv: "engine_inv e" using assms(1) by (simp add: engine_ok_def)
  have room: "req_next (s_req_head e) \<noteq> s_req_tail e" using req_full_iff [OF inv] assms(2) by simp
  then have e': "r = 0" "e' = req_store x e"
    using assms(4) by (simp_all add: dap_engine_submit_def n_def x_def Let_def)
  have n: "unat n = min (unat len) DAP_PACKET_SIZE"
    by (auto simp: n_def DAP_PACKET_SIZE_def word_less_nat_alt)
  have "length (slot_buf (s_req e (unat (s_req_head e)))) = DAP_PACKET_SIZE"
    using assms(1) by (simp add: engine_ok_def)
  then have x: "length (slot_buf x) = DAP_PACKET_SIZE" "slot_request x = take (unat len) data"
    using n assms(3) by (simp_all add: x_def req_slot_def slot_request_def min_def)
  have "(unat (s_req_head e) + 1) mod DAP_REQ_SLOTS \<noteq> unat (s_req_tail e)"
    using req.queue_full [OF inv] assms(2) by (simp add: req_slots_def DAP_REQ_SLOTS_def)
  then have "req_slots e' = req_slots e @ [x]" "engine_inv e'"
    using req.queue_put [OF inv, of x] e'(2) by (simp_all add: req_slots_def)
  then show ?thesis
    using e' x assms(1) by (auto simp: req_store_def engine_ok_def)
qed

section \<open>Properties\<close>

text \<open>
  C21. Submitting a packet is a bounded enqueue of two: with fewer than two requests in the ring the
  packet joins the end, cut to 512 bytes, and the thread is signalled; with two it is refused with -1
  and counted as dropped.  In both cases the slot the thread works on stays as it is.
\<close>

theorem submit_is_bounded_enqueue:
  assumes "engine_ok e" and "length data = DAP_PACKET_SIZE" and "dap_engine_submit data len e = (r, e')"
  shows "engine_ok e'
    \<and> (if length (req_slots e) < 2
       then r = 0 \<and> map slot_request (req_slots e') = map slot_request (req_slots e) @ [take (unat len) data]
         \<and> s_dap_sem e' = s_dap_sem e + 1 \<and> s_req_dropped e' = s_req_dropped e
       else r = - 1 \<and> e' = e\<lparr> s_req_dropped := s_req_dropped e + 1 \<rparr>)
    \<and> (req_slots e \<noteq> [] \<longrightarrow> s_req e' (unat (s_req_tail e')) = s_req e (unat (s_req_tail e)))"
proof -
  have inv: "engine_inv e" using assms(1) by (simp add: engine_ok_def)
  show ?thesis
  proof (cases "length (req_slots e) < DAP_PACKET_COUNT")
    case True
    note s = submit_stores [OF assms(1) True assms(2,3)]
    then obtain x where x: "req_slots e' = req_slots e @ [x]" "slot_request x = take (unat len) data" by blast
    have "s_req e' (unat (s_req_tail e')) = s_req e (unat (s_req_tail e))" if "req_slots e \<noteq> []"
      using req_release_slots(1) [OF inv that] req_release_slots(1) [of e'] x(1) s
      by (metis append_Cons append_is_Nil_conv engine_ok_def list.inject that)
    then show ?thesis using s x True by (simp add: DAP_PACKET_COUNT_def)
  next
    case False
    then have "length (req_slots e) = DAP_PACKET_COUNT" using req_bound [OF inv] by simp
    from submit_full [OF inv this] have "r = - 1" "e' = e\<lparr> s_req_dropped := s_req_dropped e + 1 \<rparr>"
      using assms(3) by simp_all
    then show ?thesis using False assms(1) by (simp add: DAP_PACKET_COUNT_def engine_ok_def engine_inv_def)
  qed
qed

lemma submit_is_bounded_enqueue_witness:
  "\<exists>e. dap_engine_submit (replicate DAP_PACKET_SIZE 7) 2 static_engine = (0, e)
    \<and> map slot_request (req_slots e) = [[7, 7]] \<and> engine_ok e"
proof -
  obtain r e where e: "dap_engine_submit (replicate DAP_PACKET_SIZE 7) 2 static_engine = (r, e)" by fastforce
  show ?thesis
    using submit_is_bounded_enqueue [OF _ _ e] start_engine_ok e
    by (simp add: DAP_PACKET_SIZE_def) (simp add: eval_nat_numeral)
qed

end
