(* ===== verification/Usb_Dap.thy ===== *)
theory Usb_Dap
  imports Usb_Channel Dap_Engine
begin

text \<open>
  The CMSIS-DAP v2 interface, interface 1 (\<^verbatim>\<open>applications/usb_if_dap.c\<close>): the OUT callback that
  submits requests to the engine, the IN callback, the bus events and the blocking send of a response.
\<close>

section \<open>State\<close>

record usb_if_dap =
  dap_out_buf :: "u8 list"
  dap_in_buf :: "u8 list"
  dap_tx_busy :: bool
  dap_busid :: u8
  g_dap_out_cb_calls :: u32
  g_dap_out_zero :: u32
  g_dap_in_cb_calls :: u32
  dap_calls :: "usb_call list"
  dap_eng :: dap_engine

definition dap_call :: "usb_call \<Rightarrow> usb_if_dap \<Rightarrow> usb_if_dap" where
  "dap_call c s = s\<lparr> dap_calls := dap_calls s @ [c] \<rparr>"

section \<open>Endpoint callbacks and bus events\<close>

definition dap_out_cb :: "u8 \<Rightarrow> nat \<Rightarrow> usb_if_dap \<Rightarrow> usb_if_dap" where
  "dap_out_cb busid nbytes s =
    (let s = s\<lparr> g_dap_out_cb_calls := g_dap_out_cb_calls s + 1 \<rparr>;
         s = (if 0 < nbytes
              then s\<lparr> dap_eng := snd (dap_engine_submit (dap_out_buf s) (of_nat nbytes) (dap_eng s)) \<rparr>
              else s\<lparr> g_dap_out_zero := g_dap_out_zero s + 1 \<rparr>)
     in dap_call (Ep_Start_Read busid EXLINK_EP_DAP_OUT EXLINK_BULK_MPS) s)"

definition dap_in_cb :: "nat \<Rightarrow> u8 \<Rightarrow> nat \<Rightarrow> usb_if_dap \<Rightarrow> usb_if_dap" where
  "dap_in_cb mps busid nbytes s =
    (let s = s\<lparr> g_dap_in_cb_calls := g_dap_in_cb_calls s + 1 \<rparr>
     in if 0 < nbytes \<and> nbytes mod mps = 0
        then dap_call (Ep_Start_Write busid EXLINK_EP_DAP_IN []) s
        else s\<lparr> dap_tx_busy := False \<rparr>)"

text \<open>Installing the interface also initialises the command layer and the transport below it.\<close>

definition usb_if_dap_add :: "'t wire \<Rightarrow> u8 \<Rightarrow> usb_if_dap \<times> 't dap \<Rightarrow> usb_if_dap \<times> 't dap" where
  "usb_if_dap_add W busid = (\<lambda>(s, st).
    (let s = s\<lparr> dap_busid := busid, dap_tx_busy := False \<rparr>;
         st = DAP_Setup st;
         st = st\<lparr> dap_swd := dap_swd_spi_init W (dap_swd st) \<rparr>
     in (dap_call (Add_Endpoint busid EXLINK_EP_DAP_IN)
          (dap_call (Add_Endpoint busid EXLINK_EP_DAP_OUT)
            (dap_call (Add_Interface busid EXLINK_IFNUM_DAP) s)), st)))"

definition usb_if_dap_on_configured :: "u8 \<Rightarrow> usb_if_dap \<Rightarrow> usb_if_dap" where
  "usb_if_dap_on_configured busid s =
    dap_call (Ep_Start_Read busid EXLINK_EP_DAP_OUT EXLINK_BULK_MPS) (s\<lparr> dap_tx_busy := False \<rparr>)"

definition usb_if_dap_on_reset :: "usb_if_dap \<Rightarrow> usb_if_dap" where
  "usb_if_dap_on_reset s = s\<lparr> dap_tx_busy := False \<rparr>"

text \<open>What interrupts the engine thread, as for the control channel.\<close>

datatype dap_event =
    Dap_Out "u8 list"
  | Dap_In nat
  | Dap_Reset
  | Dap_Configured

fun dap_isr :: "nat \<Rightarrow> dap_event \<Rightarrow> usb_if_dap \<Rightarrow> usb_if_dap" where
  "dap_isr mps (Dap_Out d) s =
    dap_out_cb (dap_busid s) (length d) (s\<lparr> dap_out_buf := d @ drop (length d) (dap_out_buf s) \<rparr>)"
| "dap_isr mps (Dap_In n) s = dap_in_cb mps (dap_busid s) n s"
| "dap_isr mps Dap_Reset s = usb_if_dap_on_reset s"
| "dap_isr mps Dap_Configured s = usb_if_dap_on_configured (dap_busid s) s"

section \<open>The blocking send\<close>

definition DAP_TX_TIMEOUT_MS :: nat where "DAP_TX_TIMEOUT_MS = 1000"

definition dap_wait :: "nat \<Rightarrow> usb_if_dap \<Rightarrow> dap_event list list \<Rightarrow> bool \<times> usb_if_dap \<times> dap_event list list" where
  "dap_wait mps = wait_idle dap_tx_busy (fold (dap_isr mps)) DAP_TX_TIMEOUT_MS 0"

definition dap_start :: "u8 list \<Rightarrow> nat \<Rightarrow> usb_if_dap \<Rightarrow> usb_if_dap" where
  "dap_start data len s =
    (let s = s\<lparr> dap_in_buf := take len data @ drop len (dap_in_buf s), dap_tx_busy := True \<rparr>
     in dap_call (Ep_Start_Write (dap_busid s) EXLINK_EP_DAP_IN (take len (dap_in_buf s))) s)"

text \<open>
  \<open>data\<close> is \<open>None\<close> for a null pointer, \<open>ret\<close> is what \<^verbatim>\<open>usbd_ep_start_write\<close> returns.
\<close>

definition usb_if_dap_send ::
  "nat \<Rightarrow> int \<Rightarrow> u8 list option \<Rightarrow> nat \<Rightarrow> usb_if_dap \<Rightarrow> dap_event list list
    \<Rightarrow> int \<times> usb_if_dap \<times> dap_event list list" where
  "usb_if_dap_send mps ret data len s script =
    (case data of
       None \<Rightarrow> (- 1, s, script)
     | Some d \<Rightarrow>
        if len = 0 then (- 1, s, script)
        else if EXLINK_BULK_MPS < len then (- 3, s, script)
        else (case dap_wait mps s script of
            (idle, s, script) \<Rightarrow>
              if \<not> idle then (- 4, s, script)
              else (let s = dap_start d len s in
                if ret < 0 then (- 5, s\<lparr> dap_tx_busy := False \<rparr>, script)
                else (case dap_wait mps s script of
                    (idle, s, script) \<Rightarrow> (if idle then 0 else - 6, s, script)))))"

text \<open>The statics of the file before \<^verbatim>\<open>usb_if_dap_add\<close>.\<close>

definition static_usb_dap :: usb_if_dap where
  "static_usb_dap = \<lparr> dap_out_buf = replicate EXLINK_BULK_MPS 0, dap_in_buf = replicate EXLINK_BULK_MPS 0,
     dap_tx_busy = False, dap_busid = 0, g_dap_out_cb_calls = 0, g_dap_out_zero = 0, g_dap_in_cb_calls = 0,
     dap_calls = [], dap_eng = static_engine \<rparr>"

section \<open>What the callbacks keep\<close>

interpretation dap_in: bulk_in mps dap_tx_busy "\<lambda>s. writes_of EXLINK_EP_DAP_IN (dap_calls s)"
  "dap_in_cb mps busid" for mps :: nat and busid :: u8
  by unfold_locales (auto simp: dap_in_cb_def dap_call_def Let_def)

definition dap_writes :: "usb_if_dap \<Rightarrow> u8 list list" where
  "dap_writes s = writes_of EXLINK_EP_DAP_IN (dap_calls s)"

definition usb_dap_ok :: "usb_if_dap \<Rightarrow> bool" where
  "usb_dap_ok s \<longleftrightarrow> length (dap_out_buf s) = EXLINK_BULK_MPS \<and> length (dap_in_buf s) = EXLINK_BULK_MPS
     \<and> engine_ok (dap_eng s)"

text \<open>The requests the engine has not answered, the one in work first.\<close>

definition pending :: "usb_if_dap \<Rightarrow> u8 list list" where
  "pending s = map slot_request (req_slots (dap_eng s))"

lemma dap_in_cb_fields [simp]:
  "dap_busid (dap_in_cb mps b n s) = dap_busid s" "dap_eng (dap_in_cb mps b n s) = dap_eng s"
  "dap_out_buf (dap_in_cb mps b n s) = dap_out_buf s" "dap_in_buf (dap_in_cb mps b n s) = dap_in_buf s"
  by (simp_all add: dap_in_cb_def dap_call_def Let_def)

lemma dap_start_fields [simp]:
  "dap_busid (dap_start d n s) = dap_busid s" "dap_eng (dap_start d n s) = dap_eng s"
  "dap_out_buf (dap_start d n s) = dap_out_buf s" "dap_tx_busy (dap_start d n s)"
  by (simp_all add: dap_start_def dap_call_def Let_def)

lemma dap_start_writes:
  assumes "n \<le> length d" and "n \<le> EXLINK_BULK_MPS" and "usb_dap_ok s"
  shows "dap_writes (dap_start d n s) = dap_writes s @ [take n d]" and "usb_dap_ok (dap_start d n s)"
  using assms by (auto simp: dap_start_def dap_writes_def dap_call_def usb_dap_ok_def Let_def)

text \<open>An OUT packet that finds room is queued and counted, and nothing else changes.\<close>

lemma dap_out_accepted:
  assumes "usb_dap_ok s" and "length (pending s) < DAP_PACKET_COUNT" and "0 < length d" and "length d \<le> EXLINK_BULK_MPS"
  shows "usb_dap_ok (dap_isr mps (Dap_Out d) s) \<and> pending (dap_isr mps (Dap_Out d) s) = pending s @ [d]
    \<and> dap_tx_busy (dap_isr mps (Dap_Out d) s) = dap_tx_busy s \<and> dap_writes (dap_isr mps (Dap_Out d) s) = dap_writes s
    \<and> dap_busid (dap_isr mps (Dap_Out d) s) = dap_busid s
    \<and> s_req_dropped (dap_eng (dap_isr mps (Dap_Out d) s)) = s_req_dropped (dap_eng s)
    \<and> s_dap_sem (dap_eng (dap_isr mps (Dap_Out d) s)) = s_dap_sem (dap_eng s) + 1"
proof -
  let ?b = "d @ drop (length d) (dap_out_buf s)"
  obtain r e where sub: "dap_engine_submit ?b (of_nat (length d)) (dap_eng s) = (r, e)" by fastforce
  have len: "length ?b = DAP_PACKET_SIZE" "unat (of_nat (length d) :: u32) = length d"
    using assms(1,4) by (simp_all add: usb_dap_ok_def DAP_PACKET_SIZE_def EXLINK_BULK_MPS_def unat_of_nat_u32)
  have "length (req_slots (dap_eng s)) < DAP_PACKET_COUNT" "engine_ok (dap_eng s)"
    using assms(1,2) by (simp_all add: pending_def usb_dap_ok_def)
  note e = submit_stores [OF this(2,1) len(1) sub]
  have s': "dap_isr mps (Dap_Out d) s = dap_call (Ep_Start_Read (dap_busid s) EXLINK_EP_DAP_OUT EXLINK_BULK_MPS)
      (s\<lparr> dap_out_buf := ?b, g_dap_out_cb_calls := g_dap_out_cb_calls s + 1, dap_eng := e \<rparr>)"
    using assms(3) sub by (simp add: dap_out_cb_def)
  obtain x where x: "req_slots e = req_slots (dap_eng s) @ [x]" "slot_request x = take (unat (of_nat (length d) :: u32)) ?b"
    using e by blast
  have "take (unat (of_nat (length d) :: u32)) ?b = d" unfolding len(2) by simp
  then have "map slot_request (req_slots e) = map slot_request (req_slots (dap_eng s)) @ [d]" using x by simp
  then show ?thesis
    unfolding s' using e assms(1,4) len(1)
    by (simp add: dap_call_def usb_dap_ok_def pending_def dap_writes_def)
qed

lemma dap_outs_accepted:
  assumes "usb_dap_ok s" and "length (pending s) + length ds \<le> DAP_PACKET_COUNT"
    and "\<forall>d \<in> set ds. 0 < length d \<and> length d \<le> EXLINK_BULK_MPS"
  shows "usb_dap_ok (fold (dap_isr mps) (map Dap_Out ds) s)
    \<and> pending (fold (dap_isr mps) (map Dap_Out ds) s) = pending s @ ds
    \<and> dap_writes (fold (dap_isr mps) (map Dap_Out ds) s) = dap_writes s
    \<and> dap_busid (fold (dap_isr mps) (map Dap_Out ds) s) = dap_busid s
    \<and> s_req_dropped (dap_eng (fold (dap_isr mps) (map Dap_Out ds) s)) = s_req_dropped (dap_eng s)
    \<and> s_dap_sem (dap_eng (fold (dap_isr mps) (map Dap_Out ds) s)) = s_dap_sem (dap_eng s) + length ds"
  using assms
proof (induction ds arbitrary: s)
  case (Cons d ds)
  have "length (pending s) < DAP_PACKET_COUNT" using Cons.prems(2) by simp
  note d = dap_out_accepted [OF Cons.prems(1) this, of d mps]
  show ?case
    using Cons.IH [of "dap_isr mps (Dap_Out d) s"] d Cons.prems(2,3) by (simp del: dap_isr.simps)
qed simp

text \<open>The transmit flag is no business of the OUT callback.\<close>

lemma dap_out_busy: "dap_tx_busy (fold (dap_isr mps) (map Dap_Out ds) s) = dap_tx_busy s"
  by (induction ds arbitrary: s) (simp_all add: dap_out_cb_def dap_call_def Let_def)

section \<open>What a send does\<close>

text \<open>
  The script of a host that takes a response of \<open>n\<close> bytes and writes the packets \<open>ds\<close> before the
  thread sees the flag go down.
\<close>

definition dap_host_takes :: "nat \<Rightarrow> nat \<Rightarrow> u8 list list \<Rightarrow> dap_event list list" where
  "dap_host_takes mps n ds =
    (if 0 < n \<and> n mod mps = 0 then [[Dap_In n], Dap_In 0 # map Dap_Out ds] else [Dap_In n # map Dap_Out ds])"

definition dap_taken :: "nat \<Rightarrow> u8 list \<Rightarrow> nat \<Rightarrow> u8 list list \<Rightarrow> usb_if_dap \<Rightarrow> usb_if_dap" where
  "dap_taken mps d n ds s = fold (dap_isr mps) (map Dap_Out ds)
    (fold (dap_in_cb mps (dap_busid s)) (dap_in.completions mps n) (dap_start d n s))"

lemma dap_wait_taken:
  "dap_wait mps (dap_start d n s) (dap_host_takes mps n ds @ rest) = (True, dap_taken mps d n ds s, rest)"
proof -
  have "dap_host_takes mps n ds = dap_in.takes mps Dap_In n (map Dap_Out ds)"
    by (simp add: dap_host_takes_def dap_in.takes_def)
  then show ?thesis
    unfolding dap_wait_def dap_taken_def
    using dap_in.wait_takes [where es = "map Dap_Out ds" and more = "\<lambda>es. fold (dap_isr mps) es"
      and report = Dap_In and isr = "fold (dap_isr mps)" and s = "dap_start d n s" and busid = "dap_busid s"]
    by (simp add: DAP_TX_TIMEOUT_MS_def dap_out_busy)
qed

lemma completions_fields:
  "dap_busid (fold (dap_in_cb mps b) ns s) = dap_busid s \<and> dap_eng (fold (dap_in_cb mps b) ns s) = dap_eng s
   \<and> dap_out_buf (fold (dap_in_cb mps b) ns s) = dap_out_buf s \<and> dap_in_buf (fold (dap_in_cb mps b) ns s) = dap_in_buf s"
  by (induction ns arbitrary: s) simp_all

lemma usb_dap_cong:
  "dap_out_buf s' = dap_out_buf s \<Longrightarrow> dap_in_buf s' = dap_in_buf s \<Longrightarrow> dap_eng s' = dap_eng s
   \<Longrightarrow> usb_dap_ok s' = usb_dap_ok s \<and> pending s' = pending s"
  by (simp add: usb_dap_ok_def pending_def)

lemma dap_taken_result:
  assumes "usb_dap_ok s" and "0 < n" and "n \<le> length d" and "n \<le> EXLINK_BULK_MPS"
    and "length (pending s) + length ds \<le> DAP_PACKET_COUNT"
    and "\<forall>d \<in> set ds. 0 < length d \<and> length d \<le> EXLINK_BULK_MPS"
  shows "usb_dap_ok (dap_taken mps d n ds s) \<and> pending (dap_taken mps d n ds s) = pending s @ ds
    \<and> \<not> dap_tx_busy (dap_taken mps d n ds s) \<and> dap_busid (dap_taken mps d n ds s) = dap_busid s
    \<and> s_req_dropped (dap_eng (dap_taken mps d n ds s)) = s_req_dropped (dap_eng s)
    \<and> dap_writes (dap_taken mps d n ds s) = dap_writes s @ take n d # (if n mod mps = 0 then [[]] else [])"
proof -
  let ?s = "fold (dap_in_cb mps (dap_busid s)) (dap_in.completions mps n) (dap_start d n s)"
  have f: "usb_dap_ok ?s" "pending ?s = pending s" "dap_busid ?s = dap_busid s"
    "s_req_dropped (dap_eng ?s) = s_req_dropped (dap_eng s)"
    using usb_dap_cong [of ?s "dap_start d n s"] completions_fields [of mps] dap_start_writes [OF assms(3,4,1)]
    by (simp_all add: pending_def)
  have "\<not> dap_tx_busy ?s" by (rule dap_in.completions_idle)
  moreover have "dap_writes ?s = dap_writes s @ take n d # (if n mod mps = 0 then [[]] else [])"
    unfolding dap_writes_def dap_in.completions_sent
    using dap_start_writes(1) [OF assms(3,4,1)] assms(2) by (simp add: dap_writes_def)
  ultimately show ?thesis
    using dap_outs_accepted [OF f(1), of ds mps] f assms(5,6) dap_out_busy [of mps ds ?s]
    by (simp add: dap_taken_def)
qed

lemma dap_send_taken:
  assumes "\<not> dap_tx_busy s" and "0 < n" and "n \<le> EXLINK_BULK_MPS" and "0 \<le> ret"
  shows "usb_if_dap_send mps ret (Some d) n s (dap_host_takes mps n ds @ rest) = (0, dap_taken mps d n ds s, rest)"
proof -
  have "dap_wait mps s script = (True, s, script)" for script
    using assms(1) by (simp add: dap_wait_def)
  then show ?thesis using assms by (simp add: usb_if_dap_send_def dap_wait_taken)
qed

section \<open>Properties\<close>

text \<open>The events that take the transmit flag down.\<close>

fun lowers :: "nat \<Rightarrow> dap_event \<Rightarrow> bool" where
  "lowers mps (Dap_Out d) = False"
| "lowers mps (Dap_In n) = (n = 0 \<or> n mod mps \<noteq> 0)"
| "lowers mps Dap_Reset = True"
| "lowers mps Dap_Configured = True"

lemma dap_isr_busy: "dap_tx_busy (dap_isr mps e s) = (dap_tx_busy s \<and> \<not> lowers mps e)"
  by (cases e) (auto simp: dap_out_cb_def dap_in_cb_def dap_call_def usb_if_dap_on_reset_def
    usb_if_dap_on_configured_def Let_def)

lemma dap_isrs_busy:
  "dap_tx_busy (fold (dap_isr mps) es s) = (dap_tx_busy s \<and> \<not> (\<exists>e \<in> set es. lowers mps e))"
  by (induction es arbitrary: s) (auto simp: dap_isr_busy simp del: dap_isr.simps)

text \<open>
  C35. A response of 1 to 512 bytes that the stack accepts on an idle channel is reported as sent exactly
  when one of the interrupts of the next 1000 delays takes the transmit flag down: the completion of a
  transfer that ends it, but also a bus reset or a configuration, which the caller cannot tell from it;
  else -6 is reported.
\<close>

theorem dap_send_reports:
  assumes "\<not> dap_tx_busy s" and "0 < n" and "n \<le> EXLINK_BULK_MPS" and "0 \<le> ret"
  shows "fst (usb_if_dap_send mps ret (Some d) n s script) =
    (if \<exists>e \<in> set (concat (take 1000 script)). lowers mps e then 0 else - 6)"
proof -
  have idle: "dap_wait mps s script = (True, s, script)" using assms(1) by (simp add: dap_wait_def)
  have "fst (dap_wait mps (dap_start d n s) script) = (\<exists>es \<in> set (take 1000 script). \<exists>e \<in> set es. lowers mps e)"
    unfolding dap_wait_def DAP_TX_TIMEOUT_MS_def
    by (subst wait_idle_flag [where low = "\<lambda>es. \<exists>e \<in> set es. lowers mps e"]) (simp_all add: dap_isrs_busy)
  moreover obtain ok s' rest where "dap_wait mps (dap_start d n s) script = (ok, s', rest)" by (metis prod_cases3)
  ultimately show ?thesis
    using assms by (simp add: usb_if_dap_send_def idle)
qed

lemma dap_send_reports_witness:
  "fst (usb_if_dap_send 512 0 (Some [5]) 1 static_usb_dap [[], [Dap_Reset]]) = 0
   \<and> fst (usb_if_dap_send 512 0 (Some [5]) 1 static_usb_dap [[Dap_Out [1]]]) = - 6"
  using dap_send_reports [of static_usb_dap 1 0 512 "[5]" "[[], [Dap_Reset]]"]
    dap_send_reports [of static_usb_dap 1 0 512 "[5]" "[[Dap_Out [1]]]"]
  by (simp add: static_usb_dap_def EXLINK_BULK_MPS_def)

end
