(* ===== verification/Dap_Transfer.thy ===== *)
theory Dap_Transfer
  imports Dap_Base
begin

text \<open>
  The transfer commands of the debug unit (\<^verbatim>\<open>DAP_SWD_Transfer\<close>, \<^verbatim>\<open>DAP_SWD_TransferBlock\<close> and the
  functions around them in \<^verbatim>\<open>cmsis-dap/arm/DAP.c\<close>), over any \<open>xfer\<close> with the type of \<open>SWD_Transfer\<close>,
  and the register-level specification they implement.

  The variable \<open>data\<close> of the C functions is not initialised: \<open>junk\<close> gives its first value.
\<close>

section \<open>Retries\<close>

text \<open>
  \<^verbatim>\<open>do { rv = SWD_Transfer(...) } while ((rv == DAP_TRANSFER_WAIT) && retry-- && !DAP_TransferAbort)\<close>
\<close>

fun dap_retry :: "'s xfer \<Rightarrow> bool \<Rightarrow> nat \<Rightarrow> 's xfer" where
  "dap_retry xfer stop 0 request data s = xfer request data s"
| "dap_retry xfer stop (Suc retry) request data s =
    (case xfer request data s of (rv, data, s) \<Rightarrow>
      if rv = ucast DAP_TRANSFER_WAIT \<and> \<not> stop then dap_retry xfer stop retry request data s
      else (rv, data, s))"

section \<open>The variables of a transfer command\<close>

text \<open>
  Request position, bytes stored after the response head, the flags \<open>post_read\<close> and \<open>check_write\<close>,
  \<open>data\<close>, \<open>response_value\<close>, \<open>response_count\<close> and the state of the unit.
\<close>

record 't run =
  r_pos :: nat
  r_resp :: "u8 list"
  r_post :: bool
  r_check :: bool
  r_data :: u32
  r_value :: u32
  r_count :: nat
  r_dap :: "'t dap"

definition r_ok :: "'t run \<Rightarrow> bool" where
  "r_ok r \<longleftrightarrow> r_value r = DAP_TRANSFER_OK"

definition rdbuff_request :: u32 where
  "rdbuff_request = ucast DP_RDBUFF OR DAP_TRANSFER_RnW"

text \<open>One access with retries; \<open>keep\<close> tells whether it is given the address of \<open>data\<close> or a null pointer.\<close>

definition r_access :: "'t swd xfer \<Rightarrow> u32 \<Rightarrow> bool \<Rightarrow> 't run \<Rightarrow> 't run" where
  "r_access xfer request keep r =
    (let st = r_dap r in
     case dap_retry xfer (dap_abort st \<noteq> 0) (unat (retry_count (dap_dd st))) request
            (if keep then Some (r_data r) else None) (dap_swd st) of
       (rv, d, swd) \<Rightarrow>
         r\<lparr> r_value := ucast rv, r_data := (case d of Some v \<Rightarrow> v | None \<Rightarrow> r_data r),
            r_dap := st\<lparr> dap_swd := swd \<rparr> \<rparr>)"

definition r_store :: "'t run \<Rightarrow> 't run" where
  "r_store r = r\<lparr> r_resp := r_resp r @ bytes32 (r_data r) \<rparr>"

section \<open>DAP_SWD_Transfer\<close>

text \<open>
  The steps of one request; the Boolean tells whether the loop goes on (false: the \<^verbatim>\<open>break\<close> was taken).
  A read that finds a posted one fetches its value, with the next post of the same kind if it can.
\<close>

definition read_posted :: "'t swd xfer \<Rightarrow> u32 \<Rightarrow> 't run \<Rightarrow> bool \<times> 't run" where
  "read_posted xfer rqv r =
    (if r_post r
     then (let r = (if rqv AND (DAP_TRANSFER_APnDP OR DAP_TRANSFER_MATCH_VALUE) = DAP_TRANSFER_APnDP
                    then r_access xfer rqv True r
                    else (r_access xfer rdbuff_request True r)\<lparr> r_post := False \<rparr>)
           in if r_ok r then (True, r_store r) else (False, r))
     else (True, r))"

fun match_loop :: "'t swd xfer \<Rightarrow> nat \<Rightarrow> u32 \<Rightarrow> u32 \<Rightarrow> 't run \<Rightarrow> 't run" where
  "match_loop xfer tries rqv mv r =
    (let r = r_access xfer rqv True r
     in if \<not> r_ok r then r
        else if r_data r AND match_mask (dap_dd (r_dap r)) \<noteq> mv
        then (case tries of
            0 \<Rightarrow> r
          | Suc tries \<Rightarrow> if dap_abort (r_dap r) \<noteq> 0 then r else match_loop xfer tries rqv mv r)
        else r)"

declare match_loop.simps [simp del]

definition read_match :: "'t swd xfer \<Rightarrow> u32 \<Rightarrow> u32 \<Rightarrow> 't run \<Rightarrow> bool \<times> 't run" where
  "read_match xfer rqv mv r =
    (let r = (if rqv AND DAP_TRANSFER_APnDP \<noteq> 0 then r_access xfer rqv False r else r)
     in if rqv AND DAP_TRANSFER_APnDP \<noteq> 0 \<and> \<not> r_ok r then (False, r)
        else (let r = match_loop xfer (unat (match_retry (dap_dd (r_dap r)))) rqv mv r;
                  r = (if r_data r AND match_mask (dap_dd (r_dap r)) \<noteq> mv
                       then r\<lparr> r_value := r_value r OR DAP_TRANSFER_MISMATCH \<rparr> else r)
              in (r_ok r, r)))"

definition read_normal :: "'t swd xfer \<Rightarrow> u32 \<Rightarrow> 't run \<Rightarrow> bool \<times> 't run" where
  "read_normal xfer rqv r =
    (if rqv AND DAP_TRANSFER_APnDP \<noteq> 0
     then (if r_post r then (True, r)
           else (let r = r_access xfer rqv False r
                 in if r_ok r then (True, r\<lparr> r_post := True \<rparr>) else (False, r)))
     else (let r = r_access xfer rqv True r
           in if r_ok r then (True, r_store r) else (False, r)))"

definition read_request :: "'t swd xfer \<Rightarrow> u8 list \<Rightarrow> u32 \<Rightarrow> 't run \<Rightarrow> (bool \<times> 't run) option" where
  "read_request xfer req rqv r =
    (case read_posted xfer rqv r of (go, r) \<Rightarrow>
      if \<not> go then Some (False, r)
      else if rqv AND DAP_TRANSFER_MATCH_VALUE \<noteq> 0
      then do { mv \<leftarrow> rd32 req (r_pos r);
                let (go, r) = read_match xfer rqv mv (r\<lparr> r_pos := r_pos r + 4 \<rparr>);
                Some (go, if go then r\<lparr> r_check := False \<rparr> else r) }
      else (let (go, r) = read_normal xfer rqv r
            in Some (go, if go then r\<lparr> r_check := False \<rparr> else r)))"

definition write_request :: "'t swd xfer \<Rightarrow> u8 list \<Rightarrow> u32 \<Rightarrow> 't run \<Rightarrow> (bool \<times> 't run) option" where
  "write_request xfer req rqv r =
    (let (go, r) =
       (if r_post r
        then (let r = r_access xfer rdbuff_request True r
              in if r_ok r then (True, (r_store r)\<lparr> r_post := False \<rparr>) else (False, r))
        else (True, r))
     in if \<not> go then Some (False, r)
        else do {
          d \<leftarrow> rd32 req (r_pos r);
          let r = r\<lparr> r_data := d, r_pos := r_pos r + 4 \<rparr>;
          if rqv AND DAP_TRANSFER_MATCH_MASK \<noteq> 0
          then Some (True, r\<lparr> r_value := DAP_TRANSFER_OK,
            r_dap := (r_dap r)\<lparr> dap_dd := (dap_dd (r_dap r))\<lparr> match_mask := r_data r \<rparr> \<rparr> \<rparr>)
          else (let r = r_access xfer rqv True r
                in Some (if r_ok r then (True, r\<lparr> r_check := True \<rparr>) else (False, r))) })"

text \<open>The loop over the requests; the number of requests not counted down is returned.\<close>

fun transfer_loop :: "'t swd xfer \<Rightarrow> u8 list \<Rightarrow> nat \<Rightarrow> 't run \<Rightarrow> (nat \<times> 't run) option" where
  "transfer_loop xfer req 0 r = Some (0, r)"
| "transfer_loop xfer req (Suc n) r = do {
    b \<leftarrow> rd req (r_pos r);
    let rqv = ucast b; let r = r\<lparr> r_pos := r_pos r + 1 \<rparr>;
    (go, r) \<leftarrow> (if rqv AND DAP_TRANSFER_RnW \<noteq> 0 then read_request xfer req rqv r
                else write_request xfer req rqv r);
    if \<not> go then Some (Suc n, r)
    else (let r = r\<lparr> r_count := r_count r + 1 \<rparr>
          in if dap_abort (r_dap r) \<noteq> 0 then Some (Suc n, r) else transfer_loop xfer req n r) }"

text \<open>The loop over canceled requests: the position after them.\<close>

fun cancel_loop :: "u8 list \<Rightarrow> nat \<Rightarrow> nat \<Rightarrow> nat option" where
  "cancel_loop req 0 pos = Some pos"
| "cancel_loop req (Suc n) pos = do {
    b \<leftarrow> rd req pos;
    let rqv = (ucast b :: u32);
    cancel_loop req n
      (if rqv AND DAP_TRANSFER_RnW \<noteq> 0
       then (if rqv AND DAP_TRANSFER_MATCH_VALUE \<noteq> 0 then pos + 5 else pos + 1)
       else pos + 5) }"

definition transfer_tail :: "'t swd xfer \<Rightarrow> 't run \<Rightarrow> 't run" where
  "transfer_tail xfer r =
    (if r_ok r
     then (if r_post r
           then (let r = r_access xfer rdbuff_request True r in if r_ok r then r_store r else r)
           else if r_check r then r_access xfer rdbuff_request False r
           else r)
     else r)"

definition DAP_SWD_Transfer :: "'t swd xfer \<Rightarrow> ('t dap \<Rightarrow> u32) \<Rightarrow> u8 list \<Rightarrow> 't dap \<Rightarrow> 't handled" where
  "DAP_SWD_Transfer xfer junk req st = do {
    let st = st\<lparr> dap_abort := 0 \<rparr>;
    n \<leftarrow> rd req 1;
    (left, r) \<leftarrow> transfer_loop xfer req (unat n)
      \<lparr> r_pos = 2, r_resp = [], r_post = False, r_check = False, r_data = junk st, r_value = 0,
        r_count = 0, r_dap = st \<rparr>;
    pos \<leftarrow> cancel_loop req left (r_pos r);
    let r = transfer_tail xfer r;
    Some (of_nat (r_count r) # ucast (r_value r) # r_resp r, halves pos (2 + length (r_resp r)), r_dap r) }"

definition DAP_Dummy_Transfer :: "u8 list \<Rightarrow> 't dap \<Rightarrow> 't handled" where
  "DAP_Dummy_Transfer req st = do {
    n \<leftarrow> rd req 1;
    pos \<leftarrow> cancel_loop req (unat n) 2;
    Some ([0, 0], halves pos 2, st) }"

definition DAP_Transfer :: "'t swd xfer \<Rightarrow> ('t dap \<Rightarrow> u32) \<Rightarrow> u8 list \<Rightarrow> 't dap \<Rightarrow> 't handled" where
  "DAP_Transfer xfer junk req st =
    (if ucast (debug_port (dap_dd st)) = DAP_PORT_SWD then DAP_SWD_Transfer xfer junk req st
     else DAP_Dummy_Transfer req st)"

section \<open>DAP_SWD_TransferBlock\<close>

text \<open>
  The loops over the words of a block, \<open>n\<close> words to go; they stop at the first access that fails.
\<close>

fun block_read :: "'t swd xfer \<Rightarrow> nat \<Rightarrow> u32 \<Rightarrow> 't run \<Rightarrow> 't run" where
  "block_read xfer 0 rqv r = r"
| "block_read xfer (Suc n) rqv r =
    (let rqv = (if n = 0 \<and> rqv AND DAP_TRANSFER_APnDP \<noteq> 0 then rdbuff_request else rqv);
         r = r_access xfer rqv True r
     in if r_ok r then block_read xfer n rqv ((r_store r)\<lparr> r_count := r_count r + 1 \<rparr>) else r)"

fun block_write :: "'t swd xfer \<Rightarrow> u8 list \<Rightarrow> nat \<Rightarrow> u32 \<Rightarrow> 't run \<Rightarrow> (bool \<times> 't run) option" where
  "block_write xfer req 0 rqv r = Some (True, r)"
| "block_write xfer req (Suc n) rqv r = do {
    d \<leftarrow> rd32 req (r_pos r);
    let r = r_access xfer rqv True (r\<lparr> r_data := d, r_pos := r_pos r + 4 \<rparr>);
    if r_ok r then block_write xfer req n rqv (r\<lparr> r_count := r_count r + 1 \<rparr>) else Some (False, r) }"

definition DAP_SWD_TransferBlock :: "'t swd xfer \<Rightarrow> ('t dap \<Rightarrow> u32) \<Rightarrow> u8 list \<Rightarrow> 't dap \<Rightarrow> 't handled" where
  "DAP_SWD_TransferBlock xfer junk req st = do {
    let st = st\<lparr> dap_abort := 0 \<rparr>;
    n \<leftarrow> rd16 req 1;
    let r = \<lparr> r_pos = 4, r_resp = [], r_post = False, r_check = False, r_data = junk st, r_value = 0,
        r_count = 0, r_dap = st \<rparr>;
    r \<leftarrow> (if n = 0 then Some r
         else do {
           b \<leftarrow> rd req 3;
           let rqv = ucast b;
           if rqv AND DAP_TRANSFER_RnW \<noteq> 0
           then (let p = (if rqv AND DAP_TRANSFER_APnDP \<noteq> 0 then r_access xfer rqv False r else r)
                 in if rqv AND DAP_TRANSFER_APnDP \<noteq> 0 \<and> \<not> r_ok p then Some p
                    else Some (block_read xfer (unat n) rqv p))
           else do {
             (go, r) \<leftarrow> block_write xfer req (unat n) rqv r;
             Some (if go then r_access xfer rdbuff_request False r else r) } });
    Some ([of_nat (r_count r), of_nat (r_count r div 256), ucast (r_value r)] @ r_resp r,
      of_nat (3 + length (r_resp r)), r_dap r) }"

definition DAP_TransferBlock :: "'t swd xfer \<Rightarrow> ('t dap \<Rightarrow> u32) \<Rightarrow> u8 list \<Rightarrow> 't dap \<Rightarrow> 't handled" where
  "DAP_TransferBlock xfer junk req st = do {
    (resp, num, st) \<leftarrow> (if ucast (debug_port (dap_dd st)) = DAP_PORT_SWD
                       then DAP_SWD_TransferBlock xfer junk req st else Some ([0, 0, 0], 3, st));
    b \<leftarrow> rd req 3;
    if (ucast b :: u32) AND DAP_TRANSFER_RnW \<noteq> 0 then Some (resp, num OR push_bit 16 4, st)
    else do { n \<leftarrow> rd16 req 1; Some (resp, num OR push_bit 16 (4 + ucast n * 4), st) } }"

section \<open>Write abort\<close>

definition DAP_SWD_WriteAbort :: "'t swd xfer \<Rightarrow> u8 list \<Rightarrow> 't dap \<Rightarrow> 't handled" where
  "DAP_SWD_WriteAbort xfer req st = do {
    d \<leftarrow> rd32 req 1;
    let (rv, d, swd) = xfer (ucast DP_ABORT) (Some d) (dap_swd st);
    Some ([DAP_OK], 1, st\<lparr> dap_swd := swd \<rparr>) }"

definition DAP_WriteAbort :: "'t swd xfer \<Rightarrow> u8 list \<Rightarrow> 't dap \<Rightarrow> 't handled" where
  "DAP_WriteAbort xfer req st = do {
    (resp, num, st) \<leftarrow> (if ucast (debug_port (dap_dd st)) = DAP_PORT_SWD
                       then DAP_SWD_WriteAbort xfer req st else Some ([DAP_ERROR], 1, st));
    Some (resp, push_bit 16 5 OR num, st) }"

section \<open>The register-level specification\<close>

text \<open>
  What the host asks for: reads of a register, writes of a register, and settings of the match mask.
  The request byte is one without match value, match mask and timestamp bits.
\<close>

datatype reg_op = Read_Reg u8 | Write_Reg u8 u32 | Set_Mask u8 u32

fun reg_bytes :: "reg_op \<Rightarrow> u8 list" where
  "reg_bytes (Read_Reg rq) = [rq]"
| "reg_bytes (Write_Reg rq v) = rq # bytes32 v"
| "reg_bytes (Set_Mask rq v) = rq # bytes32 v"

text \<open>Reads of RDBUFF are the business of the unit, not of the host.\<close>

fun reg_ok :: "reg_op \<Rightarrow> bool" where
  "reg_ok (Read_Reg rq) \<longleftrightarrow> rq AND 0xF2 = 2 \<and> rq \<noteq> 0xE"
| "reg_ok (Write_Reg rq v) \<longleftrightarrow> rq AND 0xF2 = 0"
| "reg_ok (Set_Mask rq v) \<longleftrightarrow> rq AND 0x22 = 0x20"

text \<open>
  The registers behind the port are a state \<open>'d\<close>, read through \<open>get\<close> (a read may change them) and
  written through \<open>put\<close>; the match mask belongs to the unit.  Every operation takes effect before the
  next one: no posting.
\<close>

fun reg_run :: "(u32 \<Rightarrow> 'd \<Rightarrow> u32 \<times> 'd) \<Rightarrow> (u32 \<Rightarrow> u32 \<Rightarrow> 'd \<Rightarrow> 'd) \<Rightarrow> reg_op list \<Rightarrow> u32 \<times> 'd \<Rightarrow> u32 list \<times> u32 \<times> 'd"
  where
  "reg_run get put [] (mk, d) = ([], mk, d)"
| "reg_run get put (Read_Reg rq # ops) (mk, d) =
    (case get (ucast rq) d of (v, d) \<Rightarrow>
      (case reg_run get put ops (mk, d) of (vs, res) \<Rightarrow> (v # vs, res)))"
| "reg_run get put (Write_Reg rq v # ops) (mk, d) = reg_run get put ops (mk, put (ucast rq) v d)"
| "reg_run get put (Set_Mask rq v # ops) (mk, d) = reg_run get put ops (v, d)"

section \<open>The contract of a debug port\<close>

text \<open>
  What ADIv5 documents of a port that is up and does not fault: an access is answered OK or WAIT, a WAIT
  changes nothing and there are at most \<open>limit\<close> in a row; an access-port read delivers the value of the
  one before (RDBUFF) and puts its own there; a debug-port read delivers its register; a read of RDBUFF
  delivers the value of the last access-port read; a write writes.
\<close>

locale posted_port =
  fixes xfer :: "'t swd xfer"
    and up :: "'t swd \<Rightarrow> bool"
    and regs :: "'t swd \<Rightarrow> 'd"
    and rbuf :: "'t swd \<Rightarrow> u32"
    and get :: "u32 \<Rightarrow> 'd \<Rightarrow> u32 \<times> 'd"
    and put :: "u32 \<Rightarrow> u32 \<Rightarrow> 'd \<Rightarrow> 'd"
    and busy :: "'t swd \<Rightarrow> nat"
    and limit :: nat
  assumes not_ok: "up s \<Longrightarrow> xfer rq d s = (rv, d', s') \<Longrightarrow> rv \<noteq> 1 \<Longrightarrow>
      rv = 2 \<and> d' = d \<and> up s' \<and> regs s' = regs s \<and> rbuf s' = rbuf s \<and> busy s' < busy s"
    and busy_limit: "up s \<Longrightarrow> busy s \<le> limit"
    and still_up: "up s \<Longrightarrow> xfer rq d s = (1, d', s') \<Longrightarrow> up s'"
    and ap_get: "up s \<Longrightarrow> xfer rq d s = (1, d', s') \<Longrightarrow> rq AND 3 = 3 \<Longrightarrow>
      d' = map_option (\<lambda>_. rbuf s) d \<and> (rbuf s', regs s') = get rq (regs s)"
    and dp_get: "up s \<Longrightarrow> xfer rq d s = (1, d', s') \<Longrightarrow> rq AND 3 = 2 \<Longrightarrow> rq AND 0xC \<noteq> 0xC \<Longrightarrow>
      d' = map_option (\<lambda>_. fst (get rq (regs s))) d \<and> regs s' = snd (get rq (regs s))"
    and rdbuff_get: "up s \<Longrightarrow> xfer 0xE d s = (1, d', s') \<Longrightarrow>
      d' = map_option (\<lambda>_. rbuf s) d \<and> regs s' = regs s"
    and put_reg: "up s \<Longrightarrow> xfer rq (Some v) s = (1, d', s') \<Longrightarrow> rq AND 2 = 0 \<Longrightarrow>
      regs s' = put rq v (regs s)"
begin

lemma retry_succeeds:
  "up s \<Longrightarrow> busy s \<le> n \<Longrightarrow>
   \<exists>s1 d' s'. dap_retry xfer False n rq d s = (1, d', s') \<and> xfer rq d s1 = (1, d', s')
     \<and> up s1 \<and> regs s1 = regs s \<and> rbuf s1 = rbuf s"
proof (induction n arbitrary: s)
  case 0
  obtain rv d' s' where x: "xfer rq d s = (rv, d', s')" by (metis prod_cases3)
  then have "rv = 1" using not_ok [OF 0(1) x] 0(2) by auto
  then show ?case using x 0 by auto
next
  case (Suc n)
  obtain rv d' s' where x: "xfer rq d s = (rv, d', s')" by (metis prod_cases3)
  show ?case
  proof (cases "rv = 1")
    case True
    then show ?thesis using x Suc.prems by (auto simp: DAP_TRANSFER_WAIT_def)
  next
    case False
    note w = not_ok [OF Suc.prems(1) x False]
    with Suc.IH [of s'] Suc.prems(2) x show ?thesis by (auto simp: DAP_TRANSFER_WAIT_def)
  qed
qed

definition ready :: "'t run \<Rightarrow> bool" where
  "ready r \<longleftrightarrow> up (dap_swd (r_dap r)) \<and> dap_abort (r_dap r) = 0
     \<and> limit \<le> unat (retry_count (dap_dd (r_dap r)))"

abbreviation run_regs :: "'t run \<Rightarrow> 'd" where "run_regs r \<equiv> regs (dap_swd (r_dap r))"
abbreviation run_rbuf :: "'t run \<Rightarrow> u32" where "run_rbuf r \<equiv> rbuf (dap_swd (r_dap r))"

text \<open>\<open>r'\<close> is \<open>r\<close> after an access: value OK, only data and the port changed.\<close>

definition accessed :: "'t run \<Rightarrow> 't run \<Rightarrow> bool" where
  "accessed r r' \<longleftrightarrow> ready r' \<and> (\<exists>d s. r' = r\<lparr> r_value := 1, r_data := d, r_dap := (r_dap r)\<lparr> dap_swd := s \<rparr> \<rparr>)"

lemma accessedI:
  "ready r \<Longrightarrow> up s \<Longrightarrow> accessed r (r\<lparr> r_value := 1, r_data := d, r_dap := (r_dap r)\<lparr> dap_swd := s \<rparr> \<rparr>)"
  by (auto simp: accessed_def ready_def)

lemma accessedD:
  assumes "accessed r r'"
  shows "ready r'" "r_ok r'" "r_value r' = 1" "r_pos r' = r_pos r" "r_resp r' = r_resp r" "r_post r' = r_post r"
    "r_check r' = r_check r" "r_count r' = r_count r" "dap_dd (r_dap r') = dap_dd (r_dap r)"
    "dap_abort (r_dap r') = 0"
  using assms by (auto simp: accessed_def r_ok_def DAP_TRANSFER_OK_def ready_def)

text \<open>Every access succeeds; what it delivers and does is that of one transfer.\<close>

lemma access_succeeds:
  fixes rq :: u32 and keep :: bool
  assumes "ready r"
  defines "r' \<equiv> r_access xfer rq keep r"
  shows "accessed r r'"
    and "\<exists>s1 d'. xfer rq (if keep then Some (r_data r) else None) s1 = (1, d', dap_swd (r_dap r')) \<and> up s1
      \<and> regs s1 = run_regs r \<and> rbuf s1 = run_rbuf r
      \<and> r_data r' = (case d' of Some v \<Rightarrow> v | None \<Rightarrow> r_data r)"
proof -
  have "busy (dap_swd (r_dap r)) \<le> unat (retry_count (dap_dd (r_dap r)))"
    using assms(1) busy_limit order_trans unfolding ready_def by blast
  from retry_succeeds [OF _ this, of rq "if keep then Some (r_data r) else None"] assms(1)
  obtain s1 d' s' where x: "dap_retry xfer False (unat (retry_count (dap_dd (r_dap r)))) rq
      (if keep then Some (r_data r) else None) (dap_swd (r_dap r)) = (1, d', s')"
    "xfer rq (if keep then Some (r_data r) else None) s1 = (1, d', s')"
    "up s1" "regs s1 = run_regs r" "rbuf s1 = run_rbuf r"
    unfolding ready_def by blast
  have r': "r' = r\<lparr> r_value := 1, r_data := (case d' of Some v \<Rightarrow> v | None \<Rightarrow> r_data r),
       r_dap := (r_dap r)\<lparr> dap_swd := s' \<rparr> \<rparr>"
    using x(1) assms(1) by (simp add: r'_def r_access_def ready_def Let_def)
  show "accessed r r'"
    unfolding r' using assms(1) still_up [OF x(3,2)] by (rule accessedI)
  show "\<exists>s1 d'. xfer rq (if keep then Some (r_data r) else None) s1 = (1, d', dap_swd (r_dap r')) \<and> up s1
      \<and> regs s1 = run_regs r \<and> rbuf s1 = run_rbuf r
      \<and> r_data r' = (case d' of Some v \<Rightarrow> v | None \<Rightarrow> r_data r)"
    using x by (intro exI [of _ s1] exI [of _ d']) (simp add: r')
qed

lemma access_ap:
  assumes "ready r" and "rq AND 3 = 3"
  shows "accessed r (r_access xfer rq keep r)"
    and "(run_rbuf (r_access xfer rq keep r), run_regs (r_access xfer rq keep r)) = get rq (run_regs r)"
    and "keep \<Longrightarrow> r_data (r_access xfer rq keep r) = run_rbuf r"
  using access_succeeds [OF assms(1), where rq = rq and keep = keep] ap_get assms(2) by fastforce+

lemma access_dp:
  assumes "ready r" and "rq AND 3 = 2" and "rq AND 0xC \<noteq> 0xC"
  shows "accessed r (r_access xfer rq True r)"
    and "(r_data (r_access xfer rq True r), run_regs (r_access xfer rq True r)) = get rq (run_regs r)"
  using access_succeeds [OF assms(1), where rq = rq and keep = True] dp_get assms(2,3) by fastforce+

lemma access_rdbuff:
  assumes "ready r"
  shows "accessed r (r_access xfer rdbuff_request keep r)"
    and "run_regs (r_access xfer rdbuff_request keep r) = run_regs r"
    and "keep \<Longrightarrow> r_data (r_access xfer rdbuff_request keep r) = run_rbuf r"
proof -
  have rq: "rdbuff_request = 0xE" by (simp add: rdbuff_request_def DP_RDBUFF_def DAP_TRANSFER_RnW_def)
  show "accessed r (r_access xfer rdbuff_request keep r)"
    and "run_regs (r_access xfer rdbuff_request keep r) = run_regs r"
    and "keep \<Longrightarrow> r_data (r_access xfer rdbuff_request keep r) = run_rbuf r"
    unfolding rq using access_succeeds [OF assms(1), where rq = "0xE" and keep = keep] rdbuff_get by fastforce+
qed

lemma access_put:
  assumes "ready r" and "rq AND 2 = 0"
  shows "accessed r (r_access xfer rq True r)"
    and "run_regs (r_access xfer rq True r) = put rq (r_data r) (run_regs r)"
  using access_succeeds [OF assms(1), where rq = rq and keep = True] put_reg assms(2) by fastforce+

end

section \<open>The pipeline of posted reads\<close>

lemma request_and [simp]:
  "(ucast (rq :: u8) :: u32) AND 1 = ucast (rq AND 1)" "(ucast rq :: u32) AND 2 = ucast (rq AND 2)"
  "(ucast rq :: u32) AND 3 = ucast (rq AND 3)" "(ucast rq :: u32) AND 0xC = ucast (rq AND 0xC)"
  "(ucast rq :: u32) AND 16 = ucast (rq AND 16)" "(ucast rq :: u32) AND 17 = ucast (rq AND 17)"
  "(ucast rq :: u32) AND 32 = ucast (rq AND 32)"
  by (simp_all add: unsigned_and_eq)

lemma ucast_u8_eq: "(ucast (a :: u8) :: u32) = ucast b \<longleftrightarrow> a = b"
  by (metis unat_ucast_u8_u32 word_unat_eq_iff)

lemma request_eq:
  "(ucast (rq :: u8) :: u32) AND 0xC = 0xC \<longleftrightarrow> rq AND 0xC = 0xC" "(ucast rq :: u32) AND 32 = 0 \<longleftrightarrow> rq AND 32 = 0"
  using ucast_u8_eq [of "rq AND 0xC" "0xC"] ucast_u8_eq [of "rq AND 32" 0] by simp_all

text \<open>The bits of a valid request byte, by exhaustion of the 256 bytes.\<close>

lemma all_u8: "(\<forall>n \<in> set [0..<256]. P (of_nat n :: u8)) \<Longrightarrow> P b"
  using unat_u8 [of b] by (metis atLeastLessThan_iff le0 set_upt unat_of_nat_u8 word_unat_eq_iff)

definition request_bits_ok :: "u8 \<Rightarrow> bool" where
  "request_bits_ok rq \<longleftrightarrow>
     (rq AND 0xF2 = 2 \<and> rq \<noteq> 0xE \<longrightarrow>
        rq AND 2 = 2 \<and> rq AND 16 = 0
        \<and> (rq AND 1 = 0 \<and> rq AND 3 = 2 \<and> rq AND 17 = 0 \<and> rq AND 0xC \<noteq> 0xC
           \<or> rq AND 1 = 1 \<and> rq AND 3 = 3 \<and> rq AND 17 = 1))
   \<and> (rq AND 0xF2 = 0 \<longrightarrow> rq AND 2 = 0 \<and> rq AND 32 = 0)
   \<and> (rq AND 0x22 = 0x20 \<longrightarrow> rq AND 2 = 0 \<and> rq AND 32 = 32)"

lemma request_bits_ok: "request_bits_ok rq"
  by (rule all_u8) code_simp


lemma read_bits:
  assumes "reg_ok (Read_Reg rq)"
  shows "rq AND 2 = 2" "rq AND 16 = 0"
    "rq AND 1 = 0 \<and> rq AND 3 = 2 \<and> rq AND 17 = 0 \<and> rq AND 0xC \<noteq> 0xC \<or> rq AND 1 = 1 \<and> rq AND 3 = 3 \<and> rq AND 17 = 1"
  using request_bits_ok [of rq] assms by (simp_all add: request_bits_ok_def)

lemma write_bits:
  "reg_ok (Write_Reg rq v) \<Longrightarrow> rq AND 2 = 0" "reg_ok (Write_Reg rq v) \<Longrightarrow> rq AND 32 = 0"
  "reg_ok (Set_Mask rq v) \<Longrightarrow> rq AND 2 = 0" "reg_ok (Set_Mask rq v) \<Longrightarrow> rq AND 32 = 32"
  using request_bits_ok [of rq] by (simp_all add: request_bits_ok_def)

lemmas request_masks = transfer_bits DAP_TRANSFER_MATCH_VALUE_def DAP_TRANSFER_MATCH_MASK_def

lemma rd_at: "drop pos req = b # bs \<Longrightarrow> rd req pos = Some b"
  by (metis drop_eq_Nil leI list.distinct(1) nth_via_drop rd_def)

lemma drop_plus: "drop pos req = xs @ ys \<Longrightarrow> n = length xs \<Longrightarrow> drop (pos + n) req = ys"
  by (metis add.commute append_eq_conv_conj drop_drop)

lemma rd32_at:
  assumes "drop pos req = bytes32 v @ bs"
  shows "rd32 req pos = Some v"
proof -
  obtain a b c d where v: "bytes32 v = [a, b, c, d]" by (simp add: bytes32_def)
  have "rd req pos = Some a" "rd req (pos + 1) = Some b" "rd req (pos + 2) = Some c" "rd req (pos + 3) = Some d"
    using assms v drop_plus [of pos req "[a]" "[b, c, d] @ bs" 1] drop_plus [of pos req "[a, b]" "[c, d] @ bs" 2]
      drop_plus [of pos req "[a, b, c]" "[d] @ bs" 3] by (auto intro: rd_at)
  then show ?thesis using le32_bytes32 [OF v] by (simp add: rd32_def)
qed

context posted_port
begin

text \<open>The response bytes of a run with the value that is still owed: the one of a posted read.\<close>

definition owed :: "'t run \<Rightarrow> u8 list" where
  "owed r = r_resp r @ (if r_post r then bytes32 (run_rbuf r) else [])"

lemma ready_upd [simp]:
  "ready (r\<lparr> r_pos := p \<rparr>) = ready r" "ready (r\<lparr> r_resp := b \<rparr>) = ready r" "ready (r\<lparr> r_post := q \<rparr>) = ready r"
  "ready (r\<lparr> r_check := q \<rparr>) = ready r" "ready (r\<lparr> r_data := w \<rparr>) = ready r" "ready (r\<lparr> r_value := w \<rparr>) = ready r"
  "ready (r\<lparr> r_count := n \<rparr>) = ready r"
  by (simp_all add: ready_def)

text \<open>What a request leaves alone, and its success.\<close>

definition stepped :: "'t run \<Rightarrow> 't run \<Rightarrow> bool" where
  "stepped r r' \<longleftrightarrow> ready r' \<and> r_value r' = 1 \<and> r_count r' = r_count r"

lemma read_step:
  assumes "ready r" and "reg_ok (Read_Reg rq)" and "get (ucast rq) (run_regs r) = (v, d)"
  shows "\<exists>r'. read_request xfer req (ucast rq) r = Some (True, r') \<and> stepped r r' \<and> r_pos r' = r_pos r
    \<and> owed r' = owed r @ bytes32 v \<and> run_regs r' = d \<and> dap_dd (r_dap r') = dap_dd (r_dap r)"
proof -
  note b = read_bits [OF assms(2)]
  show ?thesis
  proof (cases "rq AND 1 = 1")
    case ap: True
    then have rq: "(ucast rq :: u32) AND 3 = 3" "(ucast rq :: u32) AND 17 = 1" using b(3) by auto
    note a = access_ap [OF assms(1) rq(1)]
    show ?thesis
    proof (cases "r_post r")
      case True
      let ?r = "r_access xfer (ucast rq) True r"
      have "read_request xfer req (ucast rq) r = Some (True, (r_store ?r)\<lparr> r_check := False \<rparr>)"
        using True ap b rq accessedD [OF a(1) [of True]]
        by (simp add: read_request_def read_posted_def read_normal_def r_store_def request_masks Let_def)
      then show ?thesis
        using True accessedD [OF a(1) [of True]] a(2) [of True] a(3) [of True] assms(3)
        by (auto simp: stepped_def owed_def r_store_def)
    next
      case False
      let ?r = "r_access xfer (ucast rq) False r"
      have "read_request xfer req (ucast rq) r = Some (True, ?r\<lparr> r_post := True, r_check := False \<rparr>)"
        using False ap b rq accessedD [OF a(1) [of False]]
        by (simp add: read_request_def read_posted_def read_normal_def request_masks Let_def)
      then show ?thesis
        using False accessedD [OF a(1) [of False]] a(2) [of False] assms(3)
        by (auto simp: stepped_def owed_def)
    qed
  next
    case dp: False
    then have rq: "(ucast rq :: u32) AND 3 = 2" "(ucast rq :: u32) AND 17 = 0" "(ucast rq :: u32) AND 0xC \<noteq> 0xC"
      "rq AND 1 = 0" using b(3) dp request_eq by auto
    define r1 where "r1 = (if r_post r then r_store ((r_access xfer rdbuff_request True r)\<lparr> r_post := False \<rparr>) else r)"
    note c = access_rdbuff [OF assms(1), of True]
    have r1: "ready r1" "owed r1 = owed r" "r_post r1 = False" "run_regs r1 = run_regs r" "r_pos r1 = r_pos r"
      "r_count r1 = r_count r" "dap_dd (r_dap r1) = dap_dd (r_dap r)"
      using accessedD [OF c(1)] c(2,3) assms(1) by (auto simp: r1_def owed_def r_store_def)
    have posted: "read_posted xfer (ucast rq) r = (True, r1)"
      using accessedD [OF c(1)] rq by (auto simp: read_posted_def r1_def request_masks r_ok_def r_store_def Let_def)
    note a = access_dp [OF r1(1) rq(1,3)]
    let ?r = "r_access xfer (ucast rq) True r1"
    have "read_request xfer req (ucast rq) r = Some (True, (r_store ?r)\<lparr> r_check := False \<rparr>)"
      using rq b accessedD [OF a(1)]
      by (simp add: read_request_def posted read_normal_def request_masks r_store_def Let_def)
    then show ?thesis
      using r1 accessedD [OF a(1)] a(2) assms(3) by (auto simp: stepped_def owed_def r_store_def)
  qed
qed

lemma write_step:
  fixes rq :: u8
  assumes "ready r" and "rq AND 2 = 0" and "drop (r_pos r) req = bytes32 v @ rest"
  defines "mask_write \<equiv> rq AND 32 \<noteq> 0"
  shows "\<exists>r'. write_request xfer req (ucast rq) r = Some (True, r') \<and> stepped r r' \<and> r_pos r' = r_pos r + 4
    \<and> owed r' = owed r \<and> run_regs r' = (if mask_write then run_regs r else put (ucast rq) v (run_regs r))
    \<and> dap_dd (r_dap r') = (if mask_write then (dap_dd (r_dap r))\<lparr> match_mask := v \<rparr> else dap_dd (r_dap r))"
proof -
  define r1 where "r1 = (if r_post r then (r_store (r_access xfer rdbuff_request True r))\<lparr> r_post := False \<rparr> else r)"
  note c = access_rdbuff [OF assms(1), of True]
  have r1: "ready r1" "owed r1 = owed r" "r_post r1 = False" "run_regs r1 = run_regs r" "r_pos r1 = r_pos r"
    "r_count r1 = r_count r" "dap_dd (r_dap r1) = dap_dd (r_dap r)"
    using accessedD [OF c(1)] c(2,3) assms(1) by (auto simp: r1_def owed_def r_store_def)
  define r2 where "r2 = r1\<lparr> r_data := v, r_pos := r_pos r1 + 4 \<rparr>"
  have r2: "ready r2" "owed r2 = owed r" "r_post r2 = False" "run_regs r2 = run_regs r" "r_pos r2 = r_pos r + 4"
    "r_count r2 = r_count r" "dap_dd (r_dap r2) = dap_dd (r_dap r)" "r_data r2 = v"
    using r1 by (auto simp: r2_def owed_def)
  have rd: "rd32 req (r_pos r1) = Some v" using assms(3) r1(5) by (simp add: rd32_at)
  have w: "write_request xfer req (ucast rq) r =
      (if mask_write
       then Some (True, r2\<lparr> r_value := 1, r_dap := (r_dap r2)\<lparr> dap_dd := (dap_dd (r_dap r2))\<lparr> match_mask := v \<rparr> \<rparr> \<rparr>)
       else let r' = r_access xfer (ucast rq) True r2
            in Some (if r_ok r' then (True, r'\<lparr> r_check := True \<rparr>) else (False, r')))"
  proof -
    have posted: "(if r_post r
        then (let r = r_access xfer rdbuff_request True r
              in if r_ok r then (True, (r_store r)\<lparr> r_post := False \<rparr>) else (False, r))
        else (True, r)) = (True, r1)"
      using accessedD [OF c(1)] by (simp add: r1_def Let_def)
    have bit: "(ucast rq :: u32) AND DAP_TRANSFER_MATCH_MASK \<noteq> 0 \<longleftrightarrow> mask_write"
      by (simp only: mask_write_def DAP_TRANSFER_MATCH_MASK_def request_eq)
    show ?thesis
      unfolding write_request_def posted bit
      by (simp add: rd r2_def DAP_TRANSFER_OK_def Let_def)
  qed
  show ?thesis
  proof (cases mask_write)
    case True
    then show ?thesis using w r2 by (auto simp: stepped_def owed_def ready_def)
  next
    case False
    have "(ucast rq :: u32) AND 2 = 0" using assms(2) by simp
    note a = access_put [OF r2(1) this]
    show ?thesis
      using w False accessedD [OF a(1)] a(2) r2 by (auto simp: stepped_def owed_def Let_def)
  qed
qed

end

context posted_port
begin

lemma loop_runs:
  "list_all reg_ok ops \<Longrightarrow> ready r \<Longrightarrow> drop (r_pos r) req = concat (map reg_bytes ops) @ rest \<Longrightarrow>
   reg_run get put ops (match_mask (dap_dd (r_dap r)), run_regs r) = (vs, mk, d) \<Longrightarrow>
   \<exists>r'. transfer_loop xfer req (length ops) r = Some (0, r') \<and> ready r' \<and> r_count r' = r_count r + length ops
     \<and> r_pos r' = r_pos r + length (concat (map reg_bytes ops))
     \<and> owed r' = owed r @ concat (map bytes32 vs) \<and> run_regs r' = d
     \<and> dap_dd (r_dap r') = (dap_dd (r_dap r))\<lparr> match_mask := mk \<rparr>
     \<and> r_value r' = (if ops = [] then r_value r else 1)"
proof (induction ops arbitrary: r vs)
  case Nil
  then show ?case by simp
next
  case (Cons p ops)
  have oks: "reg_ok p" "list_all reg_ok ops" using Cons.prems(1) by simp_all
  define r0 where "r0 = r\<lparr> r_pos := r_pos r + 1 \<rparr>"
  have r0: "ready r0" "run_regs r0 = run_regs r" "owed r0 = owed r" "r_count r0 = r_count r"
    "dap_dd (r_dap r0) = dap_dd (r_dap r)" "r_pos r0 = r_pos r + 1"
    using Cons.prems(2) by (simp_all add: r0_def owed_def)
  have next_step: ?case
    if b: "rd req (r_pos r) = Some rq"
      and one: "(if (ucast rq :: u32) AND DAP_TRANSFER_RnW \<noteq> 0 then read_request xfer req (ucast rq) r0
                 else write_request xfer req (ucast rq) r0) = Some (True, r1)"
      and r1: "stepped r0 r1" "r_pos r1 = r_pos r + length (reg_bytes p)" "owed r1 = owed r @ concat (map bytes32 us)"
        "dap_dd (r_dap r1) = (dap_dd (r_dap r))\<lparr> match_mask := mk1 \<rparr>"
      and more: "reg_run get put ops (mk1, run_regs r1) = (ws, mk, d)" and vs: "vs = us @ ws" for rq r1 us mk1 ws
  proof -
    define r2 where "r2 = r1\<lparr> r_count := r_count r1 + 1 \<rparr>"
    have r2: "ready r2" "r_count r2 = r_count r + 1" "r_pos r2 = r_pos r + length (reg_bytes p)" "owed r2 = owed r1"
      "run_regs r2 = run_regs r1" "dap_dd (r_dap r2) = dap_dd (r_dap r1)" "r_value r2 = 1" "dap_abort (r_dap r2) = 0"
      using r1 r0(4) by (auto simp: r2_def owed_def stepped_def ready_def)
    have "drop (r_pos r2) req = concat (map reg_bytes ops) @ rest"
      using drop_plus [of "r_pos r" req "reg_bytes p" "concat (map reg_bytes ops) @ rest"] Cons.prems(3) r2(3) by simp
    from Cons.IH [OF oks(2) r2(1) this] more r1(4) r2
    obtain r' where r': "transfer_loop xfer req (length ops) r2 = Some (0, r')" "ready r'"
      "r_count r' = r_count r2 + length ops" "r_pos r' = r_pos r2 + length (concat (map reg_bytes ops))"
      "owed r' = owed r2 @ concat (map bytes32 ws)" "run_regs r' = d"
      "dap_dd (r_dap r') = (dap_dd (r_dap r2))\<lparr> match_mask := mk \<rparr>" "r_value r' = 1"
      by (auto split: if_splits)
    have "transfer_loop xfer req (length (p # ops)) r = transfer_loop xfer req (length ops) r2"
    proof -
      have r0': "r\<lparr> r_pos := Suc (r_pos r) \<rparr> = r0" by (simp add: r0_def)
      show ?thesis
        using one r2(8)
        by (cases "(ucast rq :: u32) AND DAP_TRANSFER_RnW \<noteq> 0") (simp_all add: b r0' r2_def Let_def)
    qed
    then show ?thesis using r' r2 r1 vs by (auto simp: algebra_simps)
  qed
  show ?case
  proof (cases p)
    case (Read_Reg rq)
    obtain v d1 where g: "get (ucast rq) (run_regs r0) = (v, d1)" by fastforce
    from read_step [OF r0(1) oks(1) [unfolded Read_Reg] g, of req]
    obtain r1 where r1: "read_request xfer req (ucast rq) r0 = Some (True, r1)" "stepped r0 r1" "r_pos r1 = r_pos r0"
      "owed r1 = owed r0 @ bytes32 v" "run_regs r1 = d1" "dap_dd (r_dap r1) = dap_dd (r_dap r0)" by blast
    obtain ws where ws: "reg_run get put ops (match_mask (dap_dd (r_dap r)), d1) = (ws, mk, d)" "vs = [v] @ ws"
      using Cons.prems(4) g r0(2) by (auto simp: Read_Reg split: prod.splits)
    have rq: "(ucast rq :: u32) AND DAP_TRANSFER_RnW \<noteq> 0"
      using read_bits(1) [OF oks(1) [unfolded Read_Reg]] by (simp add: DAP_TRANSFER_RnW_def)
    have "rd req (r_pos r) = Some rq" using Cons.prems(3) by (auto simp: Read_Reg intro: rd_at)
    then show ?thesis
      using next_step [of rq r1 "[v]" "match_mask (dap_dd (r_dap r))" ws] r1 r0 ws rq by (simp add: Read_Reg)
  next
    case (Write_Reg rq v)
    note wb = write_bits(1,2) [OF oks(1) [unfolded Write_Reg]]
    have "drop (r_pos r0) req = bytes32 v @ concat (map reg_bytes ops) @ rest"
      using drop_plus [of "r_pos r" req "[rq]"] Cons.prems(3) by (simp add: r0(6) Write_Reg)
    from write_step [OF r0(1) wb(1) this] wb(2)
    obtain r1 where r1: "write_request xfer req (ucast rq) r0 = Some (True, r1)" "stepped r0 r1"
      "r_pos r1 = r_pos r0 + 4" "owed r1 = owed r0" "run_regs r1 = put (ucast rq) v (run_regs r0)"
      "dap_dd (r_dap r1) = dap_dd (r_dap r0)" by auto
    have "rd req (r_pos r) = Some rq" using Cons.prems(3) by (auto simp: Write_Reg intro: rd_at)
    then show ?thesis
      using next_step [of rq r1 "[]" "match_mask (dap_dd (r_dap r))" vs] r1 r0 wb Cons.prems(4)
      by (simp add: Write_Reg DAP_TRANSFER_RnW_def)
  next
    case (Set_Mask rq v)
    note wb = write_bits(3,4) [OF oks(1) [unfolded Set_Mask]]
    have "drop (r_pos r0) req = bytes32 v @ concat (map reg_bytes ops) @ rest"
      using drop_plus [of "r_pos r" req "[rq]"] Cons.prems(3) by (simp add: r0(6) Set_Mask)
    from write_step [OF r0(1) wb(1) this] wb(2)
    obtain r1 where r1: "write_request xfer req (ucast rq) r0 = Some (True, r1)" "stepped r0 r1"
      "r_pos r1 = r_pos r0 + 4" "owed r1 = owed r0" "run_regs r1 = run_regs r0"
      "dap_dd (r_dap r1) = (dap_dd (r_dap r0))\<lparr> match_mask := v \<rparr>" by auto
    have "rd req (r_pos r) = Some rq" using Cons.prems(3) by (auto simp: Set_Mask intro: rd_at)
    then show ?thesis
      using next_step [of rq r1 "[]" v vs] r1 r0 wb Cons.prems(4) by (simp add: Set_Mask DAP_TRANSFER_RnW_def)
  qed
qed

text \<open>After the loop the owed value is fetched, or the last write checked.\<close>

lemma tail_runs:
  assumes "ready r" and "r_value r = 1"
  shows "ready (transfer_tail xfer r)" "r_value (transfer_tail xfer r) = 1" "r_resp (transfer_tail xfer r) = owed r"
    "run_regs (transfer_tail xfer r) = run_regs r" "r_count (transfer_tail xfer r) = r_count r"
    "dap_dd (r_dap (transfer_tail xfer r)) = dap_dd (r_dap r)"
proof -
  note c = access_rdbuff [OF assms(1), of True] and k = access_rdbuff [OF assms(1), of False]
  show "ready (transfer_tail xfer r)" "r_value (transfer_tail xfer r) = 1" "r_resp (transfer_tail xfer r) = owed r"
    "run_regs (transfer_tail xfer r) = run_regs r" "r_count (transfer_tail xfer r) = r_count r"
    "dap_dd (r_dap (transfer_tail xfer r)) = dap_dd (r_dap r)"
    using accessedD [OF c(1)] accessedD [OF k(1)] c(2,3) k(2) assms
    by (simp_all add: transfer_tail_def owed_def r_store_def r_ok_def DAP_TRANSFER_OK_def Let_def)
qed

theorem transfer_runs:
  assumes "list_all reg_ok ops" and "ops \<noteq> []" and "length ops < 256"
    and "up (dap_swd st)" and "limit \<le> unat (retry_count (dap_dd st))"
    and "reg_run get put ops (match_mask (dap_dd st), regs (dap_swd st)) = (vs, mk, d)"
  shows "\<exists>st'. DAP_SWD_Transfer xfer junk (idx # of_nat (length ops) # concat (map reg_bytes ops) @ rest) st
      = Some (of_nat (length ops) # 1 # concat (map bytes32 vs),
              halves (2 + length (concat (map reg_bytes ops))) (2 + 4 * length vs), st')
    \<and> regs (dap_swd st') = d \<and> up (dap_swd st') \<and> dap_dd st' = (dap_dd st)\<lparr> match_mask := mk \<rparr>"
proof -
  define req where "req = idx # of_nat (length ops) # concat (map reg_bytes ops) @ rest"
  define r where "r = \<lparr> r_pos = 2, r_resp = [], r_post = False, r_check = False, r_data = junk (st\<lparr> dap_abort := 0 \<rparr>),
    r_value = 0, r_count = 0, r_dap = st\<lparr> dap_abort := 0 \<rparr> \<rparr>"
  have r: "ready r" "owed r = []" "run_regs r = regs (dap_swd st)" "dap_dd (r_dap r) = dap_dd st" "r_count r = 0"
    "r_pos r = 2" using assms(4,5) by (simp_all add: r_def ready_def owed_def)
  have "drop (r_pos r) req = concat (map reg_bytes ops) @ rest" by (simp add: req_def r(6))
  from loop_runs [OF assms(1) r(1) this] assms(6,2) r
  obtain r' where r': "transfer_loop xfer req (length ops) r = Some (0, r')" "ready r'" "r_count r' = length ops"
    "r_pos r' = 2 + length (concat (map reg_bytes ops))" "owed r' = concat (map bytes32 vs)" "run_regs r' = d"
    "dap_dd (r_dap r') = (dap_dd st)\<lparr> match_mask := mk \<rparr>" "r_value r' = 1" by auto
  note t = tail_runs [OF r'(2,8)]
  have len: "length (concat (map bytes32 vs)) = 4 * length vs"
    by (induction vs) simp_all
  have "unat (of_nat (length ops) :: u8) = length ops" using assms(3) by (rule unat_of_nat_u8)
  have "DAP_SWD_Transfer xfer junk req st = Some (of_nat (length ops) # 1 # concat (map bytes32 vs),
              halves (2 + length (concat (map reg_bytes ops))) (2 + 4 * length vs), r_dap (transfer_tail xfer r'))"
  proof -
    have "rd req 1 = Some (of_nat (length ops))" by (simp add: req_def rd_def)
    with \<open>unat (of_nat (length ops) :: u8) = length ops\<close> show ?thesis
      using r' t len by (simp add: DAP_SWD_Transfer_def r_def [symmetric])
  qed
  then show ?thesis using t r' unfolding req_def ready_def by auto
qed

end

context posted_port
begin

text \<open>Blocks: with a value posted, \<open>n\<close> more reads and the fetch of the last value.\<close>

lemma block_read_ap:
  "ready r \<Longrightarrow> (ucast (rq :: u8) :: u32) AND 3 = 3 \<Longrightarrow>
   reg_run get put (replicate n (Read_Reg rq)) (mk, run_regs r) = (vs, mk', d) \<Longrightarrow>
   \<exists>r'. block_read xfer (Suc n) (ucast rq) r = r' \<and> ready r' \<and> r_value r' = 1 \<and> r_count r' = r_count r + Suc n
     \<and> r_resp r' = r_resp r @ bytes32 (run_rbuf r) @ concat (map bytes32 vs) \<and> run_regs r' = d
     \<and> dap_dd (r_dap r') = dap_dd (r_dap r)"
proof (induction n arbitrary: r vs)
  case 0
  note a = access_rdbuff [OF 0(1), of True]
  have "(ucast rq :: u32) AND 1 = ((ucast rq :: u32) AND 3) AND 1" by (simp add: and.assoc del: request_and)
  then have "(ucast rq :: u32) AND 1 \<noteq> 0" unfolding 0(2) by simp
  then show ?case
    using 0(3) accessedD [OF a(1)] a(2,3)
    by (simp add: r_store_def DAP_TRANSFER_APnDP_def Let_def del: request_and)
next
  case (Suc n)
  note a = access_ap [OF Suc.prems(1,2), of True]
  define r1 where "r1 = (r_store (r_access xfer (ucast rq) True r))\<lparr> r_count := r_count r + 1 \<rparr>"
  have r1: "ready r1" "r_count r1 = r_count r + 1" "r_resp r1 = r_resp r @ bytes32 (run_rbuf r)"
    "run_rbuf r1 = fst (get (ucast rq) (run_regs r))" "run_regs r1 = snd (get (ucast rq) (run_regs r))"
    "dap_dd (r_dap r1) = dap_dd (r_dap r)"
    using accessedD [OF a(1)] a(2) [symmetric] a(3) by (simp_all add: r1_def r_store_def)
  obtain ws where ws: "reg_run get put (replicate n (Read_Reg rq)) (mk, run_regs r1) = (ws, mk', d)"
    "vs = run_rbuf r1 # ws"
    using Suc.prems(3) r1(4,5) by (auto split: prod.splits)
  have "block_read xfer (Suc (Suc n)) (ucast rq) r = block_read xfer (Suc n) (ucast rq) r1"
    using accessedD [OF a(1)] by (simp add: r1_def Let_def r_store_def)
  with Suc.IH [OF r1(1) Suc.prems(2) ws(1)] r1 ws(2) show ?case by auto
qed

lemma block_read_dp:
  "ready r \<Longrightarrow> (ucast (rq :: u8) :: u32) AND 3 = 2 \<Longrightarrow> (ucast rq :: u32) AND 0xC \<noteq> 0xC \<Longrightarrow>
   reg_run get put (replicate n (Read_Reg rq)) (mk, run_regs r) = (vs, mk', d) \<Longrightarrow> r_value r = 1 \<or> 0 < n \<Longrightarrow>
   \<exists>r'. block_read xfer n (ucast rq) r = r' \<and> ready r' \<and> r_value r' = 1 \<and> r_count r' = r_count r + n
     \<and> r_resp r' = r_resp r @ concat (map bytes32 vs) \<and> run_regs r' = d \<and> dap_dd (r_dap r') = dap_dd (r_dap r)"
proof (induction n arbitrary: r vs)
  case (Suc n)
  have "(ucast rq :: u32) AND 1 = ((ucast rq :: u32) AND 3) AND 1" by (simp add: and.assoc del: request_and)
  then have dp: "(ucast rq :: u32) AND DAP_TRANSFER_APnDP = 0"
    unfolding Suc.prems(2) DAP_TRANSFER_APnDP_def by simp
  note a = access_dp [OF Suc.prems(1-3)]
  define r1 where "r1 = (r_store (r_access xfer (ucast rq) True r))\<lparr> r_count := r_count r + 1 \<rparr>"
  have r1: "ready r1" "r_count r1 = r_count r + 1" "r_resp r1 = r_resp r @ bytes32 (fst (get (ucast rq) (run_regs r)))"
    "run_regs r1 = snd (get (ucast rq) (run_regs r))" "dap_dd (r_dap r1) = dap_dd (r_dap r)" "r_value r1 = 1"
    using accessedD [OF a(1)] a(2) [symmetric] by (simp_all add: r1_def r_store_def)
  obtain ws where ws: "reg_run get put (replicate n (Read_Reg rq)) (mk, run_regs r1) = (ws, mk', d)"
    "vs = fst (get (ucast rq) (run_regs r)) # ws"
    using Suc.prems(4) r1(4) by (auto split: prod.splits)
  have "block_read xfer (Suc n) (ucast rq) r = block_read xfer n (ucast rq) r1"
    using accessedD [OF a(1)] dp by (simp add: r1_def Let_def r_store_def)
  with Suc.IH [OF r1(1) Suc.prems(2,3) ws(1)] r1 ws(2) show ?case by auto
qed simp

lemma block_writes:
  "ready r \<Longrightarrow> (ucast (rq :: u8) :: u32) AND 2 = 0 \<Longrightarrow> drop (r_pos r) req = concat (map bytes32 ws) @ rest \<Longrightarrow>
   reg_run get put (map (Write_Reg rq) ws) (mk, run_regs r) = (vs, mk', d) \<Longrightarrow>
   \<exists>r'. block_write xfer req (length ws) (ucast rq) r = Some (True, r') \<and> ready r' \<and> r_count r' = r_count r + length ws
     \<and> r_resp r' = r_resp r \<and> run_regs r' = d \<and> dap_dd (r_dap r') = dap_dd (r_dap r)"
proof (induction ws arbitrary: r)
  case (Cons w ws)
  define r0 where "r0 = r\<lparr> r_data := w, r_pos := r_pos r + 4 \<rparr>"
  have r0: "ready r0" "run_regs r0 = run_regs r" "r_data r0 = w" "r_pos r0 = r_pos r + 4" "r_count r0 = r_count r"
    "r_resp r0 = r_resp r" "dap_dd (r_dap r0) = dap_dd (r_dap r)"
    using Cons.prems(1) by (simp_all add: r0_def)
  note a = access_put [OF r0(1) Cons.prems(2)]
  define r1 where "r1 = (r_access xfer (ucast rq) True r0)\<lparr> r_count := r_count r0 + 1 \<rparr>"
  have r1: "ready r1" "r_count r1 = r_count r + 1" "r_resp r1 = r_resp r" "run_regs r1 = put (ucast rq) w (run_regs r)"
    "dap_dd (r_dap r1) = dap_dd (r_dap r)" "r_pos r1 = r_pos r + 4"
    using accessedD [OF a(1)] a(2) r0 by (simp_all add: r1_def)
  have rd: "rd32 req (r_pos r) = Some w" using Cons.prems(3) by (simp add: rd32_at)
  have d: "drop (r_pos r1) req = concat (map bytes32 ws) @ rest"
    using drop_plus [of "r_pos r" req "bytes32 w"] Cons.prems(3) r1(6) by simp
  have "block_write xfer req (length (w # ws)) (ucast rq) r = block_write xfer req (length ws) (ucast rq) r1"
    using accessedD [OF a(1)] r0(5) by (simp add: rd r0_def [symmetric] r1_def Let_def)
  with Cons.IH [OF r1(1) Cons.prems(2) d] Cons.prems(4) r1 show ?case by auto
qed simp

end

lemma length_reg_run:
  "reg_run get put ops (mk, d) = (vs, mk', d') \<Longrightarrow>
   length vs = length (filter (\<lambda>p. case p of Read_Reg rq \<Rightarrow> True | _ \<Rightarrow> False) ops)"
  by (induction ops arbitrary: mk d vs rule: list.induct)
    (auto split: prod.splits reg_op.splits elim!: reg_run.elims)

lemma reg_run_writes:
  "reg_run get put (map (Write_Reg rq) ws) (mk, d) = ([], mk, fold (put (ucast rq)) ws d)"
  by (induction ws arbitrary: d) simp_all

context posted_port
begin

lemma block_runs_read:
  assumes "reg_ok (Read_Reg rq)" and n: "0 < n" "n < 65536"
    and "up (dap_swd st)" and "limit \<le> unat (retry_count (dap_dd st))"
    and run: "reg_run get put (replicate n (Read_Reg rq)) (mk, regs (dap_swd st)) = (vs, mk', d)"
  shows "\<exists>st'. DAP_SWD_TransferBlock xfer junk (idx # lo8 (of_nat n) # hi8 (of_nat n) # rq # rest) st
      = Some ([of_nat n, of_nat (n div 256), 1] @ concat (map bytes32 vs), of_nat (3 + 4 * n), st')
    \<and> regs (dap_swd st') = d \<and> up (dap_swd st') \<and> dap_dd st' = dap_dd st"
proof -
  define r where "r = \<lparr> r_pos = 4, r_resp = [], r_post = False, r_check = False, r_data = junk (st\<lparr> dap_abort := 0 \<rparr>),
    r_value = 0, r_count = 0, r_dap = st\<lparr> dap_abort := 0 \<rparr> \<rparr>"
  have r: "ready r" "run_regs r = regs (dap_swd st)" "dap_dd (r_dap r) = dap_dd st" "r_count r = 0" "r_resp r = []"
    using assms(4,5) by (simp_all add: r_def ready_def)
  note b = read_bits [OF assms(1)]
  define ap where "ap \<longleftrightarrow> (ucast rq :: u32) AND DAP_TRANSFER_APnDP \<noteq> 0"
  define p where "p = (if ap then r_access xfer (ucast rq) False r else r)"
  have "(ap \<longrightarrow> r_ok p) \<and> (\<exists>r'. block_read xfer n (ucast rq) p = r' \<and> ready r' \<and> r_value r' = 1 \<and> r_count r' = n
     \<and> r_resp r' = concat (map bytes32 vs) \<and> run_regs r' = d \<and> dap_dd (r_dap r') = dap_dd st)"
  proof (cases "rq AND 1 = 1")
    case True
    then have rq: "(ucast rq :: u32) AND 3 = 3" and ap using b(3) by (auto simp: ap_def DAP_TRANSFER_APnDP_def)
    obtain m where m: "n = Suc m" using n(1) by (cases n) auto
    note a = access_ap [OF r(1) rq, of False]
    obtain ws where "reg_run get put (replicate m (Read_Reg rq)) (mk, run_regs p) = (ws, mk', d)"
      "vs = run_rbuf p # ws"
      using run \<open>ap\<close> a(2) [symmetric] r(2) by (auto simp: m p_def split: prod.splits)
    then show ?thesis
      using block_read_ap [of p rq m mk ws mk' d] accessedD [OF a(1)] r \<open>ap\<close> rq m by (auto simp: p_def)
  next
    case False
    then have rq: "(ucast rq :: u32) AND 3 = 2" "(ucast rq :: u32) AND 0xC \<noteq> 0xC" and nap: "\<not> ap"
      using b(3) request_eq by (auto simp: ap_def DAP_TRANSFER_APnDP_def)
    have "r = p" using nap by (simp add: p_def)
    then show ?thesis
      using block_read_dp [OF r(1) rq, of n mk vs mk' d] run r n nap by auto
  qed
  then obtain r' where r': "ap \<longrightarrow> r_ok p" "block_read xfer n (ucast rq) p = r'" "ready r'" "r_value r' = 1"
    "r_count r' = n" "r_resp r' = concat (map bytes32 vs)" "run_regs r' = d" "dap_dd (r_dap r') = dap_dd st" by blast
  have len: "length (concat (map bytes32 vs)) = 4 * n"
  proof -
    have "length vs = n" using length_reg_run [OF run] by simp
    moreover have "length (concat (map bytes32 vs)) = 4 * length vs" by (induction vs) simp_all
    ultimately show ?thesis by simp
  qed
  have rn: "(ucast rq :: u32) AND DAP_TRANSFER_RnW \<noteq> 0" using b(1) by (simp add: DAP_TRANSFER_RnW_def)
  have n16: "(of_nat n :: u16) \<noteq> 0" "unat (of_nat n :: u16) = n"
    using n unat_of_nat_u16 [of n] by (auto simp: word_unat_eq_iff)
  have "DAP_SWD_TransferBlock xfer junk (idx # lo8 (of_nat n) # hi8 (of_nat n) # rq # rest) st
      = Some ([of_nat n, of_nat (n div 256), 1] @ concat (map bytes32 vs), of_nat (3 + 4 * n), r_dap r')"
    using rn n16 r' len
    by (auto simp: DAP_SWD_TransferBlock_def rd16_def rd_def r_def [symmetric] ap_def [symmetric] p_def [symmetric])
  then show ?thesis using r' by (auto simp: ready_def)
qed

lemma block_runs_write:
  assumes "reg_ok (Write_Reg rq v)" and n: "0 < length ws" "length ws < 65536"
    and "up (dap_swd st)" and "limit \<le> unat (retry_count (dap_dd st))"
  shows "\<exists>st'. DAP_SWD_TransferBlock xfer junk
        (idx # lo8 (of_nat (length ws)) # hi8 (of_nat (length ws)) # rq # concat (map bytes32 ws) @ rest) st
      = Some ([of_nat (length ws), of_nat (length ws div 256), 1], 3, st')
    \<and> regs (dap_swd st') = fold (put (ucast rq)) ws (regs (dap_swd st)) \<and> up (dap_swd st') \<and> dap_dd st' = dap_dd st"
proof -
  let ?req = "idx # lo8 (of_nat (length ws)) # hi8 (of_nat (length ws)) # rq # concat (map bytes32 ws) @ rest"
  define r where "r = \<lparr> r_pos = 4, r_resp = [], r_post = False, r_check = False, r_data = junk (st\<lparr> dap_abort := 0 \<rparr>),
    r_value = 0, r_count = 0, r_dap = st\<lparr> dap_abort := 0 \<rparr> \<rparr>"
  have r: "ready r" "run_regs r = regs (dap_swd st)" "dap_dd (r_dap r) = dap_dd st" "r_count r = 0" "r_resp r = []"
    "drop (r_pos r) ?req = concat (map bytes32 ws) @ rest"
    using assms(4,5) by (simp_all add: r_def ready_def numeral_nat)
  have w: "(ucast rq :: u32) AND 2 = 0" using write_bits(1) [OF assms(1)] by simp
  obtain r1 where r1: "block_write xfer ?req (length ws) (ucast rq) r = Some (True, r1)" "ready r1"
    "r_count r1 = length ws" "r_resp r1 = []" "run_regs r1 = fold (put (ucast rq)) ws (regs (dap_swd st))"
    "dap_dd (r_dap r1) = dap_dd st"
    using block_writes [OF r(1) w r(6) reg_run_writes] r by auto
  note a = access_rdbuff [OF r1(2), of False]
  have n16: "(of_nat (length ws) :: u16) \<noteq> 0" "unat (of_nat (length ws) :: u16) = length ws"
    using n unat_of_nat_u16 [of "length ws"] by (auto simp: word_unat_eq_iff)
  have "DAP_SWD_TransferBlock xfer junk ?req st
      = Some ([of_nat (length ws), of_nat (length ws div 256), 1], 3, r_dap (r_access xfer rdbuff_request False r1))"
    using w n16 r1 accessedD [OF a(1)]
    by (simp add: DAP_SWD_TransferBlock_def rd16_def rd_def r_def [symmetric] DAP_TRANSFER_RnW_def del: request_and)
  then show ?thesis using r1 a(2) accessedD [OF a(1)] by (auto simp: ready_def)
qed

end

section \<open>Reads with a value match\<close>

text \<open>The registers after \<open>k\<close> reads of one register, and the value of the next read.\<close>

fun after_reads :: "(u32 \<Rightarrow> 'd \<Rightarrow> u32 \<times> 'd) \<Rightarrow> u32 \<Rightarrow> nat \<Rightarrow> 'd \<Rightarrow> 'd" where
  "after_reads get rq 0 d = d"
| "after_reads get rq (Suc k) d = after_reads get rq k (snd (get rq d))"

definition nth_read :: "(u32 \<Rightarrow> 'd \<Rightarrow> u32 \<times> 'd) \<Rightarrow> u32 \<Rightarrow> 'd \<Rightarrow> nat \<Rightarrow> u32" where
  "nth_read get rq d k = fst (get rq (after_reads get rq k d))"

lemma nth_read_simps [simp]:
  "nth_read get rq d 0 = fst (get rq d)" "nth_read get rq d (Suc k) = nth_read get rq (snd (get rq d)) k"
  by (simp_all add: nth_read_def)

context posted_port
begin

lemma accessed_trans:
  assumes "accessed r r1" and "accessed r1 r2"
  shows "accessed r r2"
proof -
  from assms obtain d s d' s' where "r1 = r\<lparr> r_value := 1, r_data := d, r_dap := (r_dap r)\<lparr> dap_swd := s \<rparr> \<rparr>"
    "r2 = r1\<lparr> r_value := 1, r_data := d', r_dap := (r_dap r1)\<lparr> dap_swd := s' \<rparr> \<rparr>"
    by (auto simp: accessed_def)
  then have "r2 = r\<lparr> r_value := 1, r_data := d', r_dap := (r_dap r)\<lparr> dap_swd := s' \<rparr> \<rparr>" by simp
  then show ?thesis using assms(2) unfolding accessed_def by blast
qed

text \<open>
  The values a polling loop sees, one for each access from \<open>r\<close> on: those of a debug-port register at once,
  those of an access-port register one access later, first what was posted before.
\<close>

definition polled :: "u32 \<Rightarrow> 't run \<Rightarrow> nat \<Rightarrow> u32" where
  "polled rq r k =
    (if rq AND 1 = 0 then nth_read get rq (run_regs r) k
     else case k of 0 \<Rightarrow> run_rbuf r | Suc k \<Rightarrow> nth_read get rq (run_regs r) k)"

definition pollable :: "u32 \<Rightarrow> bool" where
  "pollable rq \<longleftrightarrow> rq AND 3 = 3 \<and> rq AND 1 = 1 \<or> rq AND 3 = 2 \<and> rq AND 1 = 0 \<and> rq AND 0xC \<noteq> 0xC"

lemma polled_access:
  assumes "ready r" and "pollable rq"
  shows "accessed r (r_access xfer rq True r)"
    and "run_regs (r_access xfer rq True r) = snd (get rq (run_regs r))"
    and "r_data (r_access xfer rq True r) = polled rq r 0"
    and "polled rq (r_access xfer rq True r) k = polled rq r (Suc k)"
proof -
  let ?r = "r_access xfer rq True r"
  have "accessed r ?r \<and> run_regs ?r = snd (get rq (run_regs r)) \<and> r_data ?r = polled rq r 0
    \<and> polled rq ?r k = polled rq r (Suc k)"
  proof (cases "rq AND 1 = 0")
    case True
    then have b: "rq AND 3 = 2" "rq AND 0xC \<noteq> 0xC" using assms(2) by (auto simp: pollable_def)
    note a = access_dp [OF assms(1) b]
    show ?thesis using a(1) a(2) [symmetric] True by (simp add: polled_def)
  next
    case False
    then have b: "rq AND 3 = 3" using assms(2) by (auto simp: pollable_def)
    note a = access_ap [OF assms(1) b, of True]
    show ?thesis using a(1) a(2) [symmetric] a(3) False by (cases k) (simp_all add: polled_def)
  qed
  then show "accessed r ?r" and "run_regs ?r = snd (get rq (run_regs r))" and "r_data ?r = polled rq r 0"
    and "polled rq ?r k = polled rq r (Suc k)" by simp_all
qed

lemma match_loop_polls:
  assumes "ready r" and rq: "pollable rq"
  shows "\<exists>k \<le> tries. let r' = match_loop xfer tries rq mv r; mk = match_mask (dap_dd (r_dap r)) in
     accessed r r' \<and> r_data r' = polled rq r k
     \<and> run_regs r' = after_reads get rq (Suc k) (run_regs r)
     \<and> (\<forall>j < k. polled rq r j AND mk \<noteq> mv)
     \<and> (k < tries \<longrightarrow> polled rq r k AND mk = mv)"
  using assms(1)
proof (induction tries arbitrary: r)
  case 0
  note a = polled_access [OF 0 rq]
  have "match_loop xfer 0 rq mv r = r_access xfer rq True r"
    by (subst match_loop.simps) (simp add: Let_def)
  then show ?case using a(1-3) by simp
next
  case (Suc tries)
  note a = polled_access [OF Suc.prems rq]
  let ?r = "r_access xfer rq True r"
  show ?case
  proof (cases "r_data ?r AND match_mask (dap_dd (r_dap r)) = mv")
    case True
    then have "match_loop xfer (Suc tries) rq mv r = ?r"
      using accessedD [OF a(1)] by (subst match_loop.simps) (simp add: Let_def)
    then show ?thesis
      using True a(1-3) by (intro exI [of _ 0]) simp
  next
    case False
    then have step: "match_loop xfer (Suc tries) rq mv r = match_loop xfer tries rq mv ?r"
      using accessedD [OF a(1)] by (subst match_loop.simps) (simp add: Let_def)
    obtain k where k: "k \<le> tries" "accessed ?r (match_loop xfer tries rq mv ?r)"
      "r_data (match_loop xfer tries rq mv ?r) = polled rq ?r k"
      "run_regs (match_loop xfer tries rq mv ?r) = after_reads get rq (Suc k) (run_regs ?r)"
      "\<forall>j < k. polled rq ?r j AND match_mask (dap_dd (r_dap r)) \<noteq> mv"
      "k < tries \<longrightarrow> polled rq ?r k AND match_mask (dap_dd (r_dap r)) = mv"
      using Suc.IH [of ?r] accessedD [OF a(1)] by (auto simp: Let_def)
    have "accessed r (match_loop xfer tries rq mv ?r)"
      using a(1) k(2) by (rule accessed_trans)
    moreover have "polled rq r j AND match_mask (dap_dd (r_dap r)) \<noteq> mv" if "j < Suc k" for j
      using that k(5) False a(3,4) by (cases j) simp_all
    ultimately show ?thesis
      unfolding step Let_def using k a(2,4)
      by (intro exI [of _ "Suc k"]) simp
  qed
qed

end

text \<open>
  The requests of a match read, by exhaustion: a debug-port register other than RDBUFF, or an access-port
  register.
\<close>

definition match_request :: "u8 \<Rightarrow> bool" where
  "match_request rq \<longleftrightarrow> rq AND 0x12 = 0x12 \<and> (rq AND 1 = 0 \<longrightarrow> rq AND 0xC \<noteq> 0xC)"

lemma match_request_bits:
  assumes "match_request rq"
  shows "rq AND 2 = 2" "rq AND 16 = 16" "rq AND 17 \<noteq> 1"
    "rq AND 1 = 1 \<and> rq AND 3 = 3 \<or> rq AND 1 = 0 \<and> rq AND 3 = 2 \<and> rq AND 0xC \<noteq> 0xC"
proof -
  have "match_request rq \<longrightarrow> rq AND 2 = 2 \<and> rq AND 16 = 16 \<and> rq AND 17 \<noteq> 1
    \<and> (rq AND 1 = 1 \<and> rq AND 3 = 3 \<or> rq AND 1 = 0 \<and> rq AND 3 = 2 \<and> rq AND 0xC \<noteq> 0xC)"
    by (rule all_u8 [where b = rq]) code_simp
  then show "rq AND 2 = 2" "rq AND 16 = 16" "rq AND 17 \<noteq> 1"
    "rq AND 1 = 1 \<and> rq AND 3 = 3 \<or> rq AND 1 = 0 \<and> rq AND 3 = 2 \<and> rq AND 0xC \<noteq> 0xC"
    using assms by simp_all
qed

context posted_port
begin

text \<open>The match read with the post before it, if there is one: the values are those of successive reads.\<close>

lemma read_match_polls:
  assumes "ready r" and "match_request rq"
  defines "tries \<equiv> unat (match_retry (dap_dd (r_dap r)))" and "mk \<equiv> match_mask (dap_dd (r_dap r))"
  shows "\<exists>k \<le> tries. \<exists>r'. accessed r r' \<and> r_data r' = nth_read get (ucast rq) (run_regs r) k
     \<and> run_regs r' = after_reads get (ucast rq) (if rq AND 1 = 0 then Suc k else Suc (Suc k)) (run_regs r)
     \<and> (\<forall>j < k. nth_read get (ucast rq) (run_regs r) j AND mk \<noteq> mv)
     \<and> (k < tries \<longrightarrow> nth_read get (ucast rq) (run_regs r) k AND mk = mv)
     \<and> read_match xfer (ucast rq) mv r =
        (r_data r' AND mk = mv, if r_data r' AND mk = mv then r' else r'\<lparr> r_value := 0x11 \<rparr>)"
proof -
  let ?rq = "ucast rq :: u32"
  note b = match_request_bits [OF assms(2)]
  define r1 where "r1 = (if rq AND 1 = 0 then r else r_access xfer ?rq False r)"
  have p: "pollable ?rq" using b(4) request_eq(1) [of rq] by (auto simp: pollable_def)
  have r1: "ready r1" "dap_dd (r_dap r1) = dap_dd (r_dap r)" "rq AND 1 \<noteq> 0 \<Longrightarrow> accessed r r1"
    and seen: "polled ?rq r1 k = nth_read get ?rq (run_regs r) k"
    and regs: "run_regs r1 = (if rq AND 1 = 0 then run_regs r else snd (get ?rq (run_regs r)))" for k
  proof -
    have "ready r1 \<and> dap_dd (r_dap r1) = dap_dd (r_dap r) \<and> (rq AND 1 \<noteq> 0 \<longrightarrow> accessed r r1)
      \<and> polled ?rq r1 k = nth_read get ?rq (run_regs r) k
      \<and> run_regs r1 = (if rq AND 1 = 0 then run_regs r else snd (get ?rq (run_regs r)))" for k
    proof (cases "rq AND 1 = 0")
      case True
      then show ?thesis using assms(1) by (simp add: r1_def polled_def)
    next
      case False
      then have "?rq AND 3 = 3" using b(4) by auto
      note a = access_ap [OF assms(1) this, of False]
      show ?thesis
        using a(1) a(2) [symmetric] accessedD [OF a(1)] False b(4) by (cases k) (auto simp: r1_def polled_def)
    qed
    then show "ready r1" "dap_dd (r_dap r1) = dap_dd (r_dap r)" "rq AND 1 \<noteq> 0 \<Longrightarrow> accessed r r1"
      "polled ?rq r1 k = nth_read get ?rq (run_regs r) k"
      "run_regs r1 = (if rq AND 1 = 0 then run_regs r else snd (get ?rq (run_regs r)))" for k by blast+
  qed
  define r' where "r' = match_loop xfer tries ?rq mv r1"
  obtain k where k: "k \<le> tries" "accessed r1 r'" "r_data r' = nth_read get ?rq (run_regs r) k"
    "run_regs r' = after_reads get ?rq (Suc k) (run_regs r1)"
    "\<forall>j < k. nth_read get ?rq (run_regs r) j AND mk \<noteq> mv"
    "k < tries \<longrightarrow> nth_read get ?rq (run_regs r) k AND mk = mv"
    using match_loop_polls [OF r1(1) p, of tries mv] r1(2) seen by (auto simp: r'_def mk_def Let_def)
  note a = accessedD [OF k(2)]
  have acc: "accessed r r'" using k(2) r1(3) accessed_trans by (cases "rq AND 1 = 0") (auto simp: r1_def)
  have ok: "rq AND 1 \<noteq> 0 \<Longrightarrow> r_ok r1" using accessedD(2) [OF r1(3)] .
  have run: "read_match xfer ?rq mv r =
      (r_data r' AND mk = mv, if r_data r' AND mk = mv then r' else r'\<lparr> r_value := 0x11 \<rparr>)"
  proof -
    have post: "(if ?rq AND DAP_TRANSFER_APnDP \<noteq> 0 then r_access xfer ?rq False r else r) = r1"
      using b(4) by (auto simp: r1_def DAP_TRANSFER_APnDP_def)
    have fine: "(?rq AND DAP_TRANSFER_APnDP \<noteq> 0 \<and> \<not> r_ok r1) = False"
      using b(4) ok by (auto simp: DAP_TRANSFER_APnDP_def)
    have loop: "match_loop xfer (unat (match_retry (dap_dd (r_dap r1)))) ?rq mv r1 = r'"
      by (simp add: r'_def tries_def r1(2))
    have mask: "match_mask (dap_dd (r_dap r')) = mk" by (simp add: mk_def a(9) r1(2))
    show ?thesis
      unfolding read_match_def post Let_def fine loop mask
      using a(2,3) by (simp add: r_ok_def DAP_TRANSFER_OK_def DAP_TRANSFER_MISMATCH_def)
  qed
  show ?thesis
    using k(1,3,5,6) acc run regs k(4) by (intro exI [of _ k] exI [of _ r'] conjI) auto
qed

lemma match_runs:
  assumes rq: "match_request rq"
    and "up (dap_swd st)" and "limit \<le> unat (retry_count (dap_dd st))"
  defines "read \<equiv> nth_read get (ucast rq) (regs (dap_swd st))"
  shows "\<exists>k \<le> unat (match_retry (dap_dd st)). \<exists>num st'.
     (\<forall>j < k. read j AND match_mask (dap_dd st) \<noteq> mv)
     \<and> (k < unat (match_retry (dap_dd st)) \<longrightarrow> read k AND match_mask (dap_dd st) = mv)
     \<and> DAP_SWD_Transfer xfer junk (idx # 1 # rq # bytes32 mv @ b # rest) st
       = Some (if read k AND match_mask (dap_dd st) = mv then [1, 1] else [0, 0x11], num, st')
     \<and> regs (dap_swd st') = after_reads get (ucast rq) (if rq AND 1 = 0 then Suc k else Suc (Suc k)) (regs (dap_swd st))"
proof -
  let ?req = "idx # 1 # rq # bytes32 mv @ b # rest"
  define r where "r = \<lparr> r_pos = 7, r_resp = [], r_post = False, r_check = False, r_data = junk (st\<lparr> dap_abort := 0 \<rparr>),
    r_value = 0, r_count = 0, r_dap = st\<lparr> dap_abort := 0 \<rparr> \<rparr>"
  have r: "ready r" "run_regs r = regs (dap_swd st)" "dap_dd (r_dap r) = dap_dd st" "r_count r = 0" "r_resp r = []"
    "r_post r = False" "r_check r = False" "r_pos r = 7"
    using assms(2,3) by (simp_all add: r_def ready_def)
  note bits = match_request_bits [OF rq]
  obtain k r' where k: "k \<le> unat (match_retry (dap_dd st))" "accessed r r'" "r_data r' = read k"
     "run_regs r' = after_reads get (ucast rq) (if rq AND 1 = 0 then Suc k else Suc (Suc k)) (regs (dap_swd st))"
     "\<forall>j < k. read j AND match_mask (dap_dd st) \<noteq> mv"
     "k < unat (match_retry (dap_dd st)) \<longrightarrow> read k AND match_mask (dap_dd st) = mv"
     "read_match xfer (ucast rq) mv r =
        (r_data r' AND match_mask (dap_dd st) = mv, if r_data r' AND match_mask (dap_dd st) = mv then r' else r'\<lparr> r_value := 0x11 \<rparr>)"
    using read_match_polls [OF r(1) rq, of mv] unfolding read_def r(2,3) by blast
  note a = accessedD [OF k(2)]
  define hit where "hit \<longleftrightarrow> read k AND match_mask (dap_dd st) = mv"
  let ?r0 = "r\<lparr> r_pos := 3 \<rparr>"
  have rd: "rd32 ?req 3 = Some mv" by (rule rd32_at [where bs = "b # rest"]) (simp add: numeral_nat)
  have one: "read_request xfer ?req (ucast rq) ?r0 =
      Some (hit, if hit then r'\<lparr> r_check := False \<rparr> else r'\<lparr> r_value := 0x11 \<rparr>)"
  proof -
    have "?r0\<lparr> r_pos := 7 \<rparr> = r" by (simp add: r_def)
    then show ?thesis
      using rd bits(2) r(6) k(3,7)
      by (simp add: read_request_def read_posted_def request_masks hit_def)
  qed
  have loop: "transfer_loop xfer ?req 1 (r\<lparr> r_pos := 2 \<rparr>) =
      (if hit then Some (0, r'\<lparr> r_check := False, r_count := 1 \<rparr>) else Some (1, r'\<lparr> r_value := 0x11 \<rparr>))"
  proof -
    have "rd ?req 2 = Some rq" by (simp add: rd_def)
    moreover have "?r0 = r\<lparr> r_pos := 2 \<rparr>\<lparr> r_pos := r_pos (r\<lparr> r_pos := 2 \<rparr>) + 1 \<rparr>" by simp
    ultimately show ?thesis using one bits(1) a r by (simp add: DAP_TRANSFER_RnW_def Let_def)
  qed
  have "r\<lparr> r_pos := 2 \<rparr> = \<lparr> r_pos = 2, r_resp = [], r_post = False, r_check = False,
    r_data = junk (st\<lparr> dap_abort := 0 \<rparr>), r_value = 0, r_count = 0, r_dap = st\<lparr> dap_abort := 0 \<rparr> \<rparr>"
    by (simp add: r_def)
  note loop' = loop [unfolded this]
  have "\<exists>num. DAP_SWD_Transfer xfer junk ?req st = Some (if hit then [1, 1] else [0, 0x11], num, r_dap r')"
  proof (cases hit)
    case True
    then show ?thesis
      using loop' a r
      by (simp add: DAP_SWD_Transfer_def rd_def transfer_tail_def r_ok_def DAP_TRANSFER_OK_def del: transfer_loop.simps)
  next
    case False
    obtain pos where "cancel_loop ?req 1 7 = Some pos" by (simp add: rd_def bytes32_def Let_def)
    then show ?thesis
      using False loop' a r
      by (simp add: DAP_SWD_Transfer_def rd_def transfer_tail_def r_ok_def DAP_TRANSFER_OK_def
          del: transfer_loop.simps cancel_loop.simps)
  qed
  then show ?thesis
    using k unfolding hit_def by blast
qed

end

end
