(* ===== verification/Swd_Target.thy ===== *)
theory Swd_Target
  imports Dap_Transfer
begin

text \<open>
  A target at the other end of the wire, clock by clock, as ADIv5 documents one: a serial-wire debug
  port with SELECT, RDBUFF and one memory access port whose address increments, answering WAIT a
  number of times after each access.  \<open>SWD_Transfer\<close> connected to it is a \<open>posted_port\<close>, so the
  transfer commands of the debug unit, down to the bits on the wire, read and write its registers in
  program order.
\<close>

section \<open>Registers\<close>

record port =
  pt_select :: u32
  pt_dp :: "u32 \<Rightarrow> u32"
  pt_ap :: "u32 \<Rightarrow> u32"
  pt_mem :: "u32 \<Rightarrow> u32"

definition ap_addr :: "u32 \<Rightarrow> port \<Rightarrow> u32" where
  "ap_addr rq p = (pt_select p AND 0xF0) OR (rq AND 0xC)"

definition next_word :: "port \<Rightarrow> port" where
  "next_word p = p\<lparr> pt_ap := (pt_ap p)(4 := pt_ap p 4 + 4) \<rparr>"

text \<open>
  A write to CTRL/STAT acknowledges the power-up requests in it; a write to ABORT clears sticky flags,
  which this port does not raise.
\<close>

definition port_get :: "u32 \<Rightarrow> port \<Rightarrow> u32 \<times> port" where
  "port_get rq p =
    (if rq AND 1 = 0 then (pt_dp p (rq AND 0xC), p)
     else if ap_addr rq p = 0xC then (pt_mem p (pt_ap p 4), next_word p)
     else (pt_ap p (ap_addr rq p), p))"

definition port_put :: "u32 \<Rightarrow> u32 \<Rightarrow> port \<Rightarrow> port" where
  "port_put rq v p =
    (if rq AND 1 = 0
     then (if rq AND 0xC = 8 then p\<lparr> pt_select := v \<rparr>
           else if rq AND 0xC = 4 then p\<lparr> pt_dp := (pt_dp p)(4 := v OR push_bit 1 (v AND 0x50000000)) \<rparr>
           else p)
     else if ap_addr rq p = 0xC then next_word (p\<lparr> pt_mem := (pt_mem p)(pt_ap p 4 := v) \<rparr>)
     else p\<lparr> pt_ap := (pt_ap p)(ap_addr rq p := v) \<rparr>)"

section \<open>Packets\<close>

text \<open>
  Bits heard of the current packet, bits to be driven, the request of a write whose data is on its
  way, the number of WAIT answers left, RDBUFF and the registers.
\<close>

record target =
  tg_heard :: "bool list"
  tg_say :: "bool list"
  tg_write :: "u32 option"
  tg_wait :: nat
  tg_rdbuf :: u32
  tg_port :: port

definition say_ack :: "nat \<Rightarrow> bool list" where
  "say_ack k = [True, k = 1, k = 2, k = 4]"

definition tg_read :: "u32 \<Rightarrow> target \<Rightarrow> u32 \<times> target" where
  "tg_read rq t =
    (if rq AND 1 \<noteq> 0
     then (case port_get rq (tg_port t) of (v, p) \<Rightarrow> (tg_rdbuf t, t\<lparr> tg_rdbuf := v, tg_port := p \<rparr>))
     else if rq AND 0xC = 0xC then (tg_rdbuf t, t)
     else (case port_get rq (tg_port t) of (v, p) \<Rightarrow> (v, t\<lparr> tg_port := p \<rparr>)))"

definition tg_request :: "nat \<Rightarrow> u32 \<Rightarrow> target \<Rightarrow> target" where
  "tg_request lat rq t =
    (let t = t\<lparr> tg_heard := [] \<rparr> in
     if 0 < tg_wait t then t\<lparr> tg_wait := tg_wait t - 1, tg_say := say_ack 2 @ [True] \<rparr>
     else if rq AND 2 \<noteq> 0
     then (case tg_read rq t of (v, t) \<Rightarrow>
       t\<lparr> tg_wait := lat, tg_say := say_ack 1 @ word_bits 32 v @ [parity_bits (word_bits 32 v), True] \<rparr>)
     else t\<lparr> tg_wait := lat, tg_write := Some rq, tg_say := say_ack 1 @ [True] \<rparr>)"

definition tg_hear :: "nat \<Rightarrow> bool \<Rightarrow> target \<Rightarrow> target" where
  "tg_hear lat b t =
    (let bits = tg_heard t @ [b] in
     case tg_write t of
       Some rq \<Rightarrow>
         if length bits < 33 then t\<lparr> tg_heard := bits \<rparr>
         else t\<lparr> tg_heard := [], tg_write := None,
                tg_port := (if parity_bits (take 32 bits) = b then port_put rq (bits_word (take 32 bits)) (tg_port t)
                            else tg_port t) \<rparr>
     | None \<Rightarrow>
         if \<not> hd bits then t
         else if length bits < 8 then t\<lparr> tg_heard := bits \<rparr>
         else if bits = request_bits (bits_word (take 4 (drop 1 bits)))
         then tg_request lat (bits_word (take 4 (drop 1 bits))) t
         else t\<lparr> tg_heard := [] \<rparr>)"

definition tg_speak :: "target \<Rightarrow> bool \<times> target" where
  "tg_speak t = (case tg_say t of [] \<Rightarrow> (True, t) | b # bs \<Rightarrow> (b, t\<lparr> tg_say := bs \<rparr>))"

definition target_wire :: "nat \<Rightarrow> target wire" where
  "target_wire lat = \<lparr> w_out = tg_hear lat, w_in = (\<lambda>edge. tg_speak), w_pin = (\<lambda>n t. True), w_act = (\<lambda>a t. t),
     w_spi_hz = 80000000 \<rparr>"

section \<open>One packet\<close>

lemma speak_bits:
  "n \<le> length (tg_say t) \<Longrightarrow>
   in_bits (target_wire lat) e n t = (take n (tg_say t), t\<lparr> tg_say := drop n (tg_say t) \<rparr>)"
proof (induction n arbitrary: t)
  case (Suc n)
  then obtain b bs where "tg_say t = b # bs" by (cases "tg_say t") auto
  then show ?case using Suc by (simp add: target_wire_def tg_speak_def)
qed simp

lemma hear_data:
  "tg_write t = Some rq \<Longrightarrow> length (tg_heard t) + length bs < 33 \<Longrightarrow>
   out_bits (target_wire lat) bs t = t\<lparr> tg_heard := tg_heard t @ bs \<rparr>"
proof (induction bs arbitrary: t)
  case (Cons b bs)
  have "w_out (target_wire lat) b t = t\<lparr> tg_heard := tg_heard t @ [b] \<rparr>"
    using Cons.prems by (simp add: target_wire_def tg_hear_def Let_def)
  then show ?case using Cons by (simp add: out_bits_def)
qed (simp add: out_bits_def)

lemma hear_word:
  assumes "tg_write t = Some rq" and "tg_heard t = []"
  shows "out_bits (target_wire lat) (word_bits 32 v @ [parity_bits (word_bits 32 v)]) t
    = t\<lparr> tg_write := None, tg_port := port_put rq v (tg_port t) \<rparr>"
proof -
  have "out_bits (target_wire lat) (word_bits 32 v) t = t\<lparr> tg_heard := word_bits 32 v \<rparr>"
    using hear_data [of t rq "word_bits 32 v" lat] assms by simp
  moreover have "bits_word (word_bits 32 v) = v"
    by (simp add: bits_word_bits take_bit_length_eq [of "v :: u32", simplified])
  ultimately show ?thesis
    using assms by (simp add: out_bits_def target_wire_def tg_hear_def Let_def)
qed

lemma nibble:
  "bits_word [bit rq 0, bit rq 1, bit rq 2, bit rq 3] = rq AND 0xF"
  by (rule bit_word_eqI) (auto simp: bit_bits_word bit_and_iff nth_Cons' bit_numeral_rec less_Suc_eq numeral_eq_Suc)

lemma hear_start:
  "tg_write t = None \<Longrightarrow> hd (tg_heard t @ bs) \<Longrightarrow> length (tg_heard t) + length bs < 8 \<Longrightarrow>
   out_bits (target_wire lat) bs t = t\<lparr> tg_heard := tg_heard t @ bs \<rparr>"
proof (induction bs arbitrary: t)
  case (Cons b bs)
  have "hd (tg_heard t @ [b])" using Cons.prems(2) by (cases "tg_heard t") auto
  then have "w_out (target_wire lat) b t = t\<lparr> tg_heard := tg_heard t @ [b] \<rparr>"
    using Cons.prems by (simp add: target_wire_def tg_hear_def Let_def)
  then show ?case using Cons by (simp add: out_bits_def)
qed (simp add: out_bits_def)

lemma tg_request_heard: "tg_request lat rq (t\<lparr> tg_heard := bs \<rparr>) = tg_request lat rq t"
  by (simp add: tg_request_def)

lemma hear_last:
  assumes "tg_write t = None" and "tg_heard t @ [b] = request_bits n"
    and "bits_word (take 4 (drop 1 (tg_heard t @ [b]))) = n"
  shows "tg_hear lat b t = tg_request lat n t"
  using assms by (simp add: tg_hear_def Let_def) (simp add: request_bits_def)

lemma hear_request:
  assumes "tg_write t = None" and "tg_heard t = []"
  shows "out_bits (target_wire lat) (request_bits rq) t = tg_request lat (rq AND 0xF) t"
proof -
  define bs where "bs = butlast (request_bits rq)"
  have bs: "request_bits rq = bs @ [True]" "length bs = 7" "hd bs" "take 4 (drop 1 (bs @ [True])) = [bit rq 0, bit rq 1, bit rq 2, bit rq 3]"
    by (simp_all add: bs_def request_bits_def)
  have "out_bits (target_wire lat) bs t = t\<lparr> tg_heard := bs \<rparr>"
    using hear_start [of t bs lat] assms bs by simp
  then have "out_bits (target_wire lat) (request_bits rq) t = tg_hear lat True (t\<lparr> tg_heard := bs \<rparr>)"
    unfolding bs(1) out_bits_append by (simp add: out_bits_def target_wire_def)
  note step = this
  have "bs @ [True] = request_bits (rq AND 0xF)"
  proof -
    have "bit (rq AND 0xF) k = bit rq k" if "k < 4" for k
    proof -
      have "rq AND 0xF = take_bit 4 rq" by (simp add: take_bit_eq_mask mask_eq_exp_minus_1)
      then show ?thesis using that by (simp add: bit_take_bit_iff)
    qed
    then show ?thesis by (simp add: bs(1) [symmetric] request_bits_def)
  qed
  then have "tg_hear lat True (t\<lparr> tg_heard := bs \<rparr>) = tg_request lat (rq AND 0xF) (t\<lparr> tg_heard := bs \<rparr>)"
    using bs(4) nibble [of rq] assms(1) by (intro hear_last) simp_all
  with step show ?thesis by (simp only: tg_request_heard)
qed

text \<open>The whole transfer, on a target between packets.\<close>

definition between :: "target \<Rightarrow> bool" where
  "between t \<longleftrightarrow> tg_heard t = [] \<and> tg_say t = [] \<and> tg_write t = None"

definition tg_transfer :: "nat \<Rightarrow> u32 \<Rightarrow> u32 \<Rightarrow> target \<Rightarrow> u8 \<times> u32 \<times> target" where
  "tg_transfer lat rq d t =
    (if 0 < tg_wait t then (2, d, t\<lparr> tg_wait := tg_wait t - 1 \<rparr>)
     else if rq AND 2 \<noteq> 0
     then (case tg_read (rq AND 0xF) t of (v, t) \<Rightarrow> (1, v, t\<lparr> tg_wait := lat \<rparr>))
     else (1, d, t\<lparr> tg_wait := lat, tg_port := port_put (rq AND 0xF) d (tg_port t) \<rparr>))"

lemma target_transfer:
  assumes "between t"
  shows "wire_transfer (target_wire lat) 1 rq d t = tg_transfer lat rq d t"
proof -
  have b: "tg_write t = None" "tg_heard t = []" "tg_say t = []" using assms by (simp_all add: between_def)
  have t: "t\<lparr> tg_heard := [] \<rparr> = t" using b by simp
  define t1 where "t1 = tg_request lat (rq AND 0xF) t"
  have hear: "out_bits (target_wire lat) (request_bits rq) t = t1"
    unfolding t1_def using b(1,2) by (rule hear_request)
  have two: "(rq AND 0xF) AND 2 = rq AND 2" by (simp add: and.assoc)
  have bit1: "bit rq 1 \<longleftrightarrow> rq AND 2 \<noteq> 0"
    using and_exp_eq_0_iff_not_bit [of rq 1] by simp
  show ?thesis
  proof (cases "0 < tg_wait t")
    case True
    then have "t1 = t\<lparr> tg_wait := tg_wait t - 1, tg_say := [True, False, True, False, True] \<rparr>"
      by (simp add: t1_def tg_request_def t say_ack_def)
    then show ?thesis
      using True hear b by (simp add: wire_transfer_def speak_bits tg_transfer_def bits_word_def del: in_bits.simps)
  next
    case idle: False
    show ?thesis
    proof (cases "rq AND 2 \<noteq> 0")
      case True
      obtain v u where r: "tg_read (rq AND 0xF) t = (v, u)" by fastforce
      have "tg_say u = []" using r b(3) by (auto simp: tg_read_def split: if_splits prod.splits)
      then have u: "u\<lparr> tg_wait := w, tg_say := [] \<rparr> = u\<lparr> tg_wait := w \<rparr>" for w by (cases u) simp
      have t1: "t1 = u\<lparr> tg_wait := lat, tg_say := [True, True, False, False] @ word_bits 32 v @ [parity_bits (word_bits 32 v), True] \<rparr>"
        using True idle r two by (simp add: t1_def tg_request_def t say_ack_def)
      have "bits_word (word_bits 32 v) = v"
        by (simp add: bits_word_bits take_bit_length_eq [of "v :: u32", simplified])
      then show ?thesis
        using True idle hear r t1 bit1 u
        by (simp add: wire_transfer_def speak_bits tg_transfer_def del: in_bits.simps)
    next
      case False
      have t1: "t1 = t\<lparr> tg_wait := lat, tg_write := Some (rq AND 0xF), tg_say := [True, True, False, False, True] \<rparr>"
        using False idle two by (simp add: t1_def tg_request_def t say_ack_def)
      then show ?thesis
        using False idle hear bit1 b
        by (simp add: wire_transfer_def speak_bits tg_transfer_def hear_word del: in_bits.simps)
    qed
  qed
qed

section \<open>The target is a posted port\<close>

lemma swd_transfer_null:
  "SWD_Transfer W rq None s = (case SWD_Transfer W rq (Some 0) s of (ack, d, s) \<Rightarrow> (ack, None, s))"
  by (simp add: SWD_Transfer_def Let_def split: prod.splits)

text \<open>A transfer leaves the SELECT cache alone.\<close>

lemma write_bits_sel: "s_sel_cache (swd_write_bits W v n s) = s_sel_cache s"
  by (simp add: swd_write_bits_def spi_send_units_def spi_set_data_bits_def spi_set_drive_def Let_def)

lemma read_bits_sel: "swd_read_bits W n s = (v, s') \<Longrightarrow> s_sel_cache s' = s_sel_cache s"
  by (auto simp: swd_read_bits_def spi_receive_unit_def spi_set_data_bits_def spi_set_drive_def Let_def split: prod.splits if_splits)

lemma turnaround_sel: "s_sel_cache (swd_turnaround W s) = s_sel_cache s"
  using read_bits_sel by (metis prod.collapse swd_turnaround_def)

lemma transfer_sel: "SWD_Transfer W rq d s = (ack, d', s') \<Longrightarrow> s_sel_cache s' = s_sel_cache s"
  by (auto simp: SWD_Transfer_def Let_def write_bits_sel turnaround_sel dest!: read_bits_sel split: prod.splits if_splits)

lemma retry_sel: "swd_retry_loop (SWD_Transfer W) n rq d s = (ack, d', s') \<Longrightarrow> s_sel_cache s' = s_sel_cache s"
proof (induction n arbitrary: d s)
  case 0
  then show ?case using transfer_sel by (auto split: prod.splits if_splits)
next
  case (Suc n)
  then show ?case by (auto split: prod.splits if_splits dest!: transfer_sel)
qed

text \<open>With fewer WAIT answers than tries the retry loop ends with an acknowledged transfer.\<close>

context posted_port
begin

lemma retry_loop_succeeds:
  "up s \<Longrightarrow> busy s < n \<Longrightarrow>
   \<exists>s1 d' s'. swd_retry_loop xfer n rq d s = (1, d', s') \<and> xfer rq d s1 = (1, d', s')
     \<and> up s1 \<and> regs s1 = regs s \<and> rbuf s1 = rbuf s"
proof (induction n arbitrary: s)
  case (Suc n)
  obtain rv d' s' where x: "xfer rq d s = (rv, d', s')" by (metis prod_cases3)
  show ?case
  proof (cases "rv = 1")
    case True
    then show ?thesis using x Suc.prems by (auto simp: DAP_TRANSFER_WAIT_def)
  next
    case False
    note w = not_ok [OF Suc.prems(1) x False]
    then have "busy s' < n" using Suc.prems(2) by simp
    with Suc.IH [of s'] w x show ?thesis by (auto simp: DAP_TRANSFER_WAIT_def)
  qed
qed simp

end

lemma tg_transfer_between:
  "between t \<Longrightarrow> tg_wait t \<le> lat \<Longrightarrow> tg_transfer lat rq d t = (a, v, t') \<Longrightarrow> between t' \<and> tg_wait t' \<le> lat"
  by (auto simp: tg_transfer_def between_def tg_read_def split: if_splits prod.splits)

lemma low_nibble: "(rq AND 0xF) AND 1 = rq AND 1" "(rq AND 0xF) AND 0xC = rq AND 0xC" for rq :: u32
  by (simp_all add: and.assoc)

lemma port_nibble [simp]: "port_get (rq AND 0xF) = port_get rq" "port_put (rq AND 0xF) = port_put rq"
  by (rule ext | simp add: port_get_def port_put_def ap_addr_def low_nibble)+

text \<open>
  A wire with the target somewhere behind it: while it is \<open>live\<close> every packet on the wire is one transfer
  of the target \<open>tgt\<close>.
\<close>

locale sw_target =
  fixes W :: "'t wire" and live :: "'t \<Rightarrow> bool" and tgt :: "'t \<Rightarrow> target" and lat :: nat
  assumes packet: "live x \<Longrightarrow> wire_transfer W 1 rq d x = (ack, v, x') \<Longrightarrow>
      live x' \<and> tg_transfer lat rq d (tgt x) = (ack, v, tgt x')"
    and waits_left: "live x \<Longrightarrow> tg_wait (tgt x) \<le> lat"

text \<open>The probe samples on the standard edge with a turnaround of one clock, and the target is live.\<close>

definition line_up :: "('t \<Rightarrow> bool) \<Rightarrow> 't swd \<Rightarrow> bool" where
  "line_up live s \<longleftrightarrow> std_edge s \<and> s_trn s = 1 \<and> live (on_wire s)"

lemma line_up_cache [simp]: "line_up live (s\<lparr> s_sel_cache := c \<rparr>) = line_up live s"
  by (simp add: line_up_def std_edge_def)

context sw_target
begin

lemma one_transfer:
  assumes "line_up live s" and x: "SWD_Transfer W rq d s = (rv, d', s')"
  shows "line_up live s'"
    and "(rv, case d' of Some v \<Rightarrow> v | None \<Rightarrow> v0, tgt (on_wire s')) =
      (case tg_transfer lat rq (case d of Some v \<Rightarrow> v | None \<Rightarrow> 0) (tgt (on_wire s)) of
        (rv, v, t) \<Rightarrow> (rv, if d = None then v0 else v, t))"
    and "(d' = None) = (d = None)"
proof -
  have s: "std_edge s" "trn_clocks s = 1" "live (on_wire s)" "s_trn s = 1"
    using assms(1) by (simp_all add: line_up_def trn_clocks_def)
  let ?v = "case d of Some v \<Rightarrow> v | None \<Rightarrow> 0"
  obtain ack e s2 where y: "SWD_Transfer W rq (Some ?v) s = (ack, e, s2)" by (metis prod_cases3)
  have one: "trn_clocks s \<le> 32" using s(2) by simp
  have eff: "wire_transfer W 1 rq ?v (on_wire s) = (ack, the e, on_wire s2)" "e \<noteq> None" "std_edge s2" "s_trn s2 = s_trn s"
    using swd_transfer_wire [OF s(1) one, of W rq ?v] y s(2) by simp_all
  have r: "rv = ack" "s' = s2" "d' = (if d = None then None else e)"
    using x y swd_transfer_null [of W rq s] by (cases d; auto)+
  note p = packet [OF s(3) eff(1)]
  then show "line_up live s'" using eff(3,4) s(4) r(2) by (simp add: line_up_def)
  show "(rv, case d' of Some v \<Rightarrow> v | None \<Rightarrow> v0, tgt (on_wire s')) =
      (case tg_transfer lat rq ?v (tgt (on_wire s)) of (rv, v, t) \<Rightarrow> (rv, if d = None then v0 else v, t))"
    using p eff(2) r by (cases d) auto
  show "(d' = None) = (d = None)" using r(3) eff(2) by auto
qed

text \<open>The same for a word, as a transfer of the target.\<close>

lemma word_transfer:
  assumes "line_up live s" and "SWD_Transfer W rq (Some v) s = (rv, d', s')"
  obtains w where "d' = Some w" "tg_transfer lat rq v (tgt (on_wire s)) = (rv, w, tgt (on_wire s'))"
  using one_transfer(2,3) [OF assms] by (cases d') (auto split: prod.splits)

end

sublocale sw_target \<subseteq> posted: posted_port "SWD_Transfer W" "line_up live"
  "\<lambda>s. tg_port (tgt (on_wire s))" "\<lambda>s. tg_rdbuf (tgt (on_wire s))" port_get port_put "\<lambda>s. tg_wait (tgt (on_wire s))" lat
proof
  fix s rq d rv d' s'
  assume u: "line_up live s" and x: "SWD_Transfer W rq d s = (rv, d', s')" and "rv \<noteq> 1"
  note t = one_transfer [OF u x]
  show "rv = 2 \<and> d' = d \<and> line_up live s' \<and> tg_port (tgt (on_wire s')) = tg_port (tgt (on_wire s))
      \<and> tg_rdbuf (tgt (on_wire s')) = tg_rdbuf (tgt (on_wire s)) \<and> tg_wait (tgt (on_wire s')) < tg_wait (tgt (on_wire s))"
    using t(1) t(2) [of 0] t(3) \<open>rv \<noteq> 1\<close>
    by (cases d; cases d') (auto simp: tg_transfer_def split: if_splits prod.splits)
next
  fix s
  assume "line_up live s"
  then show "tg_wait (tgt (on_wire s)) \<le> lat" using waits_left by (simp add: line_up_def)
next
  fix s rq d d' s'
  assume u: "line_up live s" and x: "SWD_Transfer W rq d s = (1, d', s')"
  then show "line_up live s'" by (rule one_transfer(1))
next
  fix s rq d d' s'
  assume u: "line_up live s" and x: "SWD_Transfer W rq d s = (1, d', s')" and rq: "rq AND 3 = 3"
  have b: "rq AND 1 = 1" "rq AND 2 = 2"
    using arg_cong [OF rq, of "\<lambda>w. w AND 1"] arg_cong [OF rq, of "\<lambda>w. w AND 2"] by (simp_all add: and.assoc)
  note t = one_transfer [OF u x]
  show "d' = map_option (\<lambda>_. tg_rdbuf (tgt (on_wire s))) d \<and>
      (tg_rdbuf (tgt (on_wire s')), tg_port (tgt (on_wire s'))) = port_get rq (tg_port (tgt (on_wire s)))"
    using t(2) [of 0] t(3) b
    by (cases d; cases d') (auto simp: tg_transfer_def tg_read_def low_nibble split: if_splits prod.splits)
next
  fix s rq d d' s'
  assume u: "line_up live s" and x: "SWD_Transfer W rq d s = (1, d', s')"
    and rq: "rq AND 3 = 2" "rq AND 0xC \<noteq> 0xC"
  have b: "rq AND 1 = 0" "rq AND 2 = 2"
    using arg_cong [OF rq(1), of "\<lambda>w. w AND 1"] arg_cong [OF rq(1), of "\<lambda>w. w AND 2"] by (simp_all add: and.assoc)
  note t = one_transfer [OF u x]
  show "d' = map_option (\<lambda>_. fst (port_get rq (tg_port (tgt (on_wire s))))) d \<and>
      tg_port (tgt (on_wire s')) = snd (port_get rq (tg_port (tgt (on_wire s))))"
    using t(2) [of 0] t(3) b rq(2)
    by (cases d; cases d') (auto simp: tg_transfer_def tg_read_def low_nibble split: if_splits prod.splits)
next
  fix s d d' s'
  assume u: "line_up live s" and x: "SWD_Transfer W 0xE d s = (1, d', s')"
  note t = one_transfer [OF u x]
  show "d' = map_option (\<lambda>_. tg_rdbuf (tgt (on_wire s))) d \<and> tg_port (tgt (on_wire s')) = tg_port (tgt (on_wire s))"
    using t(2) [of 0] t(3)
    by (cases d; cases d') (auto simp: tg_transfer_def tg_read_def split: if_splits prod.splits)
next
  fix s rq v d' s'
  assume u: "line_up live s" and x: "SWD_Transfer W rq (Some v) s = (1, d', s')" and rq: "rq AND 2 = 0"
  note t = one_transfer [OF u x]
  show "tg_port (tgt (on_wire s')) = port_put rq v (tg_port (tgt (on_wire s)))"
    using t(2) [of 0] rq by (auto simp: tg_transfer_def split: if_splits prod.splits)
qed

text \<open>The target also keeps the contract of the register layer.\<close>

lemma port_select:
  "pt_select (port_put 8 b p) = b" "pt_select p = b \<Longrightarrow> port_put 8 b p = p"
  "rq AND 3 = 1 \<Longrightarrow> pt_select (port_put rq v p) = pt_select p"
  "rq AND 3 = 3 \<Longrightarrow> pt_select (snd (port_get rq p)) = pt_select p"
proof -
  show "pt_select (port_put 8 b p) = b" "pt_select p = b \<Longrightarrow> port_put 8 b p = p"
    by (auto simp: port_put_def)
  have "rq AND 1 \<noteq> 0" if "rq AND 3 = 1 \<or> rq AND 3 = 3"
  proof -
    have "rq AND 1 = (rq AND 3) AND 1" by (simp add: and.assoc)
    then show ?thesis using that by auto
  qed
  then show "rq AND 3 = 1 \<Longrightarrow> pt_select (port_put rq v p) = pt_select p"
    "rq AND 3 = 3 \<Longrightarrow> pt_select (snd (port_get rq p)) = pt_select p"
    by (simp_all add: port_put_def port_get_def next_word_def)
qed

lemma tg_transfer_ack:
  "tg_transfer lat rq d t = (ack, w, t') \<Longrightarrow>
   ack = 1 \<or> ack = 2 \<and> w = d \<and> tg_port t' = tg_port t \<and> tg_rdbuf t' = tg_rdbuf t"
  by (auto simp: tg_transfer_def split: if_splits prod.splits)

sublocale sw_target \<subseteq> debug: register_port "SWD_Transfer W" "line_up live" "\<lambda>t. tg_port (tgt t)" "\<lambda>t. tg_rdbuf (tgt t)"
  port_get port_put pt_select
proof
  fix s rq d ack d' s'
  assume u: "line_up live s" and x: "SWD_Transfer W rq (Some d) s = (ack, d', s')"
  obtain w where w: "d' = Some w" "tg_transfer lat rq d (tgt (on_wire s)) = (ack, w, tgt (on_wire s'))"
    by (rule word_transfer [OF u x])
  note a = tg_transfer_ack [OF w(2)]
  show "line_up live s' \<and> s_sel_cache s' = s_sel_cache s \<and> (\<exists>w. d' = Some w)"
    using one_transfer(1) [OF u x] transfer_sel [OF x] w(1) by blast
  show "d' = Some d" if "rq AND 2 = 0"
    using w that by (auto simp: tg_transfer_def split: if_splits)
  show "tg_port (tgt (on_wire s')) = tg_port (tgt (on_wire s)) \<and> tg_rdbuf (tgt (on_wire s')) = tg_rdbuf (tgt (on_wire s))"
    if "ack AND 7 \<noteq> 1" using a that by auto
  show "(tg_rdbuf (tgt (on_wire s')), tg_port (tgt (on_wire s'))) = port_get rq (tg_port (tgt (on_wire s)))"
    if "ack AND 7 = 1" "rq AND 3 = 3"
  proof -
    have "ack = 1" using a that(1) by auto
    then show ?thesis using posted.ap_get [OF u x [unfolded \<open>ack = 1\<close>] that(2)] by simp
  qed
  show "tg_port (tgt (on_wire s')) = port_put rq d (tg_port (tgt (on_wire s)))" if "ack AND 7 = 1" "rq AND 2 = 0"
  proof -
    have "ack = 1" using a that(1) by auto
    then show ?thesis using posted.put_reg [OF u x [unfolded \<open>ack = 1\<close>] that(2)] by simp
  qed
next
  fix s d ack d' s'
  assume u: "line_up live s" and x: "SWD_Transfer W 0xE (Some d) s = (ack, d', s')" and ok: "ack AND 7 = 1"
  obtain w where w: "d' = Some w" "tg_transfer lat 0xE d (tgt (on_wire s)) = (ack, w, tgt (on_wire s'))"
    by (rule word_transfer [OF u x])
  have "ack = 1" using tg_transfer_ack [OF w(2)] ok by auto
  then show "tg_port (tgt (on_wire s')) = tg_port (tgt (on_wire s)) \<and> (ack = 1 \<longrightarrow> d' = Some (tg_rdbuf (tgt (on_wire s))))"
    using posted.rdbuff_get [OF u x [unfolded \<open>ack = 1\<close>]] by simp
qed (use port_select in simp_all)

text \<open>One access of the register layer to the target, by kind of request.\<close>

context sw_target
begin

lemma register_access:
  assumes "line_up live s" and "lat < SWD_WAIT_RETRIES"
  obtains d' s' where "swd_xfer_retry (SWD_Transfer W) rq (Some d) s = (1, d', s')"
    "line_up live s'" "s_sel_cache s' = s_sel_cache s"
    "rq AND 3 = 3 \<Longrightarrow> (tg_rdbuf (tgt (on_wire s')), tg_port (tgt (on_wire s'))) = port_get rq (tg_port (tgt (on_wire s)))"
    "rq AND 3 = 2 \<Longrightarrow> rq AND 0xC \<noteq> 0xC \<Longrightarrow>
       d' = Some (fst (port_get rq (tg_port (tgt (on_wire s))))) \<and> tg_port (tgt (on_wire s')) = snd (port_get rq (tg_port (tgt (on_wire s))))"
    "rq = 0xE \<Longrightarrow> d' = Some (tg_rdbuf (tgt (on_wire s))) \<and> tg_port (tgt (on_wire s')) = tg_port (tgt (on_wire s))"
    "rq AND 2 = 0 \<Longrightarrow> tg_port (tgt (on_wire s')) = port_put rq d (tg_port (tgt (on_wire s)))"
proof -
  have "tg_wait (tgt (on_wire s)) < SWD_WAIT_RETRIES" using assms using waits_left [of "on_wire s"] by (simp add: line_up_def)
  from posted.retry_loop_succeeds [OF assms(1) this, of rq "Some d"]
  obtain s1 d' s' where r: "swd_retry_loop (SWD_Transfer W) SWD_WAIT_RETRIES rq (Some d) s = (1, d', s')"
    and x: "SWD_Transfer W rq (Some d) s1 = (1, d', s')"
    and s1: "line_up live s1" "tg_port (tgt (on_wire s1)) = tg_port (tgt (on_wire s))" "tg_rdbuf (tgt (on_wire s1)) = tg_rdbuf (tgt (on_wire s))"
    by blast
  show thesis
  proof (rule that)
    show "swd_xfer_retry (SWD_Transfer W) rq (Some d) s = (1, d', s')"
      by (simp add: swd_xfer_retry_def r)
    show "line_up live s'" by (rule posted.still_up [OF s1(1) x])
    show "s_sel_cache s' = s_sel_cache s" by (rule retry_sel [OF r])
    show "(tg_rdbuf (tgt (on_wire s')), tg_port (tgt (on_wire s'))) = port_get rq (tg_port (tgt (on_wire s)))" if "rq AND 3 = 3"
      using posted.ap_get [OF s1(1) x that] s1(2) by simp
    show "d' = Some (fst (port_get rq (tg_port (tgt (on_wire s))))) \<and> tg_port (tgt (on_wire s')) = snd (port_get rq (tg_port (tgt (on_wire s))))"
      if "rq AND 3 = 2" "rq AND 0xC \<noteq> 0xC"
      using posted.dp_get [OF s1(1) x that] s1(2) by simp
    show "d' = Some (tg_rdbuf (tgt (on_wire s))) \<and> tg_port (tgt (on_wire s')) = tg_port (tgt (on_wire s))" if "rq = 0xE"
      using posted.rdbuff_get [OF s1(1) x [unfolded that]] s1(2,3) by simp
    show "tg_port (tgt (on_wire s')) = port_put rq d (tg_port (tgt (on_wire s)))" if "rq AND 2 = 0"
      using posted.put_reg [OF s1(1) x that] s1(2) by simp
  qed
qed

end

text \<open>With fewer WAIT answers than tries the register layer is always acknowledged.\<close>

context sw_target
begin

lemma select_acknowledged:
  assumes "line_up live s" and "lat < SWD_WAIT_RETRIES" and "swd_select_ap (SWD_Transfer W) apreg s = (ack, s')"
  shows "ack = 1 \<and> line_up live s'"
proof (cases "ucast (apreg AND 0xF0) = s_sel_cache s")
  case True
  then show ?thesis using assms(1,3) by (simp add: swd_select_ap_def ack_ok)
next
  case False
  obtain d s1 where "swd_xfer_retry (SWD_Transfer W) 8 (Some (ucast (apreg AND 0xF0))) s = (1, d, s1)" "line_up live s1"
    by (rule register_access [OF assms(1,2)])
  then show ?thesis using assms(3) False by (auto simp: swd_select_ap_def DP_SELECT_def ack_ok)
qed

lemma ap_acknowledged:
  assumes "line_up live s" and "lat < SWD_WAIT_RETRIES"
  shows "ap_write (SWD_Transfer W) apreg v s = (ack, s') \<Longrightarrow> ack = 1"
    and "ap_read (SWD_Transfer W) apreg out s = (ack, d', s') \<Longrightarrow> ack = 1"
proof -
  obtain s1 where sel: "swd_select_ap (SWD_Transfer W) apreg s = (1, s1)" "line_up live s1"
    using select_acknowledged [OF assms] by (metis surj_pair)
  show "ack = 1" if "ap_write (SWD_Transfer W) apreg v s = (ack, s')"
  proof -
    obtain d s2 where "swd_xfer_retry (SWD_Transfer W) (DAP_TRANSFER_APnDP OR ucast (apreg AND 0x0C)) (Some v) s1 = (1, d, s2)"
      by (rule register_access [OF sel(2) assms(2)])
    then show ?thesis using that sel(1) by (simp add: ap_write_def ack_ok)
  qed
  show "ack = 1" if "ap_read (SWD_Transfer W) apreg out s = (ack, d', s')"
  proof -
    obtain d s2 where a: "swd_xfer_retry (SWD_Transfer W) (DAP_TRANSFER_APnDP OR DAP_TRANSFER_RnW OR ucast (apreg AND 0x0C)) (Some 0) s1
        = (1, d, s2)" "line_up live s2"
      by (rule register_access [OF sel(2) assms(2)])
    obtain e s3 where "swd_xfer_retry (SWD_Transfer W) (DAP_TRANSFER_RnW OR ucast (DP_RDBUFF AND 0x0C)) (Some out) s2 = (1, e, s3)"
      by (rule register_access [OF a(2) assms(2)])
    then show ?thesis using that sel(1) a(1) by (simp add: ap_read_def ack_ok)
  qed
qed

end

text \<open>The target at the end of the wire.\<close>

definition target_up :: "nat \<Rightarrow> target swd \<Rightarrow> bool" where
  "target_up lat s \<longleftrightarrow> std_edge s \<and> s_trn s = 1 \<and> between (on_wire s) \<and> tg_wait (on_wire s) \<le> lat"

interpretation direct: sw_target "target_wire lat" "\<lambda>t. between t \<and> tg_wait t \<le> lat" "\<lambda>t. t" lat for lat
proof
  fix x rq d ack v x'
  assume x: "between x \<and> tg_wait x \<le> lat" and "wire_transfer (target_wire lat) 1 rq d x = (ack, v, x')"
  then have "tg_transfer lat rq d x = (ack, v, x')" using target_transfer by metis
  then show "(between x' \<and> tg_wait x' \<le> lat) \<and> tg_transfer lat rq d x = (ack, v, x')"
    using x tg_transfer_between by blast
qed simp

lemma target_up_line: "target_up lat = line_up (\<lambda>t. between t \<and> tg_wait t \<le> lat)"
  by (rule ext) (simp add: target_up_def line_up_def)

interpretation target_port: posted_port "SWD_Transfer (target_wire lat)" "target_up lat"
  "\<lambda>s. tg_port (on_wire s)" "\<lambda>s. tg_rdbuf (on_wire s)" port_get port_put "\<lambda>s. tg_wait (on_wire s)" lat
  for lat
  unfolding target_up_line by (rule direct.posted.posted_port_axioms)

interpretation target_debug: register_port "SWD_Transfer (target_wire lat)" "target_up lat" tg_port tg_rdbuf
  port_get port_put pt_select for lat
  unfolding target_up_line by (rule direct.debug.register_port_axioms)

section \<open>Properties\<close>

lemma u8_u32_u8 [simp]: "ucast (ucast (b :: u8) :: u32) = b"
  by (rule bit_word_eqI) (simp add: bit_simps)

text \<open>
  C4. A transfer command carries out its register operations in program order: with a debug port that
  behaves as documented, the answer holds the number of requests, OK and the values of the reads in
  order, the registers end as if every operation had taken effect before the next one, although
  access-port reads are posted and fetched one access later, and exactly the bytes of the requests are
  consumed.
\<close>

theorem transfer_in_program_order:
  assumes "posted_port xfer up regs rbuf get put busy limit"
    and "list_all reg_ok ops" and "ops \<noteq> []" and "length ops < 256"
    and "up (dap_swd st)" and "limit \<le> unat (retry_count (dap_dd st))" and "debug_port (dap_dd st) = 1"
    and "reg_run get put ops (match_mask (dap_dd st), regs (dap_swd st)) = (vs, mk, d)"
  shows "\<exists>st'. DAP_Transfer xfer junk (idx # of_nat (length ops) # concat (map reg_bytes ops) @ rest) st
      = Some (of_nat (length ops) # 1 # concat (map bytes32 vs),
              halves (2 + length (concat (map reg_bytes ops))) (2 + 4 * length vs), st')
    \<and> regs (dap_swd st') = d \<and> up (dap_swd st') \<and> dap_dd st' = (dap_dd st)\<lparr> match_mask := mk \<rparr>"
  using posted_port.transfer_runs [OF assms(1-6,8)] assms(7)
  by (simp add: DAP_Transfer_def DAP_PORT_SWD_def)

text \<open>A target with registers at 0, memory that holds its addresses, two WAIT answers after each access.\<close>

definition demo_port :: port where
  "demo_port = \<lparr> pt_select = 0, pt_dp = (\<lambda>a. if a = 0 then 0x0BC11477 else 0), pt_ap = (\<lambda>a. 0), pt_mem = (\<lambda>a. a) \<rparr>"

definition demo_dap :: "target dap" where
  "demo_dap =
    \<lparr> dap_dd = \<lparr> debug_port = 1, fast_clock = 0, clock_delay = 1, timestamp = 0, idle_cycles = 0, retry_count = 100,
        match_retry = 3, match_mask = 0xFF, swd_turnaround_clk = 1, swd_data_phase = 0 \<rparr>,
      dap_abort = 0,
      dap_swd = \<lparr> s_read_even = False, s_trn = 1, s_drive = True, s_sel_cache = 0xFFFFFFFF, spi_drive = True,
        spi_even = False, spi_bits = 8,
        on_wire = \<lparr> tg_heard = [], tg_say = [], tg_write = None, tg_wait = 0, tg_rdbuf = 7, tg_port = demo_port \<rparr> \<rparr> \<rparr>"

lemma demo_up: "target_up 2 (dap_swd demo_dap)" "(2 :: nat) \<le> unat (retry_count (dap_dd demo_dap))"
  "debug_port (dap_dd demo_dap) = 1" "tg_port (on_wire (dap_swd demo_dap)) = demo_port"
  "match_mask (dap_dd demo_dap) = 0xFF" "match_retry (dap_dd demo_dap) = 3"
  by (simp_all add: demo_dap_def target_up_def std_edge_def between_def)

text \<open>Write TAR, read the memory through DRW twice, read DPIDR, all over the wire.\<close>

lemma transfer_in_program_order_witness:
  "\<exists>num st'. DAP_Transfer (SWD_Transfer (target_wire 2)) (\<lambda>_. 0)
      ([0, 4, 0x05, 0x00, 0x10, 0, 0, 0x0F, 0x0F, 0x02]) demo_dap
    = Some ([4, 1, 0x00, 0x10, 0, 0, 0x04, 0x10, 0, 0, 0x77, 0x14, 0xC1, 0x0B], num, st')"
proof -
  let ?ops = "[Write_Reg 0x05 0x1000, Read_Reg 0x0F, Read_Reg 0x0F, Read_Reg 0x02]"
  have ok: "list_all reg_ok ?ops" "?ops \<noteq> []" "length ?ops < 256" by simp_all
  have run: "reg_run port_get port_put ?ops (match_mask (dap_dd demo_dap), tg_port (on_wire (dap_swd demo_dap)))
      = ([0x1000, 0x1004, 0x0BC11477], 0xFF, snd (snd (reg_run port_get port_put ?ops (0xFF, demo_port))))"
    by (simp add: demo_up demo_port_def port_get_def port_put_def ap_addr_def next_word_def)
  have "concat (map reg_bytes ?ops) = [0x05, 0x00, 0x10, 0, 0, 0x0F, 0x0F, 0x02]"
    "of_nat (length ?ops) # 1 # concat (map bytes32 [0x1000, 0x1004, 0x0BC11477])
      = ([4, 1, 0x00, 0x10, 0, 0, 0x04, 0x10, 0, 0, 0x77, 0x14, 0xC1, 0x0B] :: u8 list)"
    by code_simp+
  with transfer_in_program_order [OF target_port.posted_port_axioms ok demo_up(1,2,3) run, of "\<lambda>_. 0" 0 "[]"]
  show ?thesis by auto
qed

lemma block_in_order:
  assumes port: "posted_port xfer up regs rbuf get put busy limit"
    and ready: "up (dap_swd st)" "limit \<le> unat (retry_count (dap_dd st))" "debug_port (dap_dd st) = 1"
  shows "reg_ok (Read_Reg rq) \<Longrightarrow> 0 < n \<Longrightarrow> n < 65536 \<Longrightarrow>
     reg_run get put (replicate n (Read_Reg rq)) (mk, regs (dap_swd st)) = (vs, mk', d) \<Longrightarrow>
     \<exists>st'. DAP_TransferBlock xfer junk (idx # lo8 (of_nat n) # hi8 (of_nat n) # rq # rest) st
       = Some ([of_nat n, of_nat (n div 256), 1] @ concat (map bytes32 vs), halves 4 (3 + 4 * n), st')
     \<and> regs (dap_swd st') = d \<and> up (dap_swd st')"
   and "reg_ok (Write_Reg rq v) \<Longrightarrow> 0 < length ws \<Longrightarrow> length ws < 65536 \<Longrightarrow>
     \<exists>st'. DAP_TransferBlock xfer junk
         (idx # lo8 (of_nat (length ws)) # hi8 (of_nat (length ws)) # rq # concat (map bytes32 ws) @ rest) st
       = Some ([of_nat (length ws), of_nat (length ws div 256), 1], halves (4 + 4 * length ws) 3, st')
     \<and> regs (dap_swd st') = fold (put (ucast rq)) ws (regs (dap_swd st)) \<and> up (dap_swd st')"
proof -
  assume r: "reg_ok (Read_Reg rq)" "0 < n" "n < 65536"
    "reg_run get put (replicate n (Read_Reg rq)) (mk, regs (dap_swd st)) = (vs, mk', d)"
  have "(ucast rq :: u32) AND DAP_TRANSFER_RnW \<noteq> 0"
    using read_bits(1) [OF r(1)] by (simp add: DAP_TRANSFER_RnW_def)
  then show "\<exists>st'. DAP_TransferBlock xfer junk (idx # lo8 (of_nat n) # hi8 (of_nat n) # rq # rest) st
       = Some ([of_nat n, of_nat (n div 256), 1] @ concat (map bytes32 vs), halves 4 (3 + 4 * n), st')
     \<and> regs (dap_swd st') = d \<and> up (dap_swd st')"
    using posted_port.block_runs_read [OF port r(1-3) ready(1,2) r(4), of junk idx rest] ready(3)
    by (auto simp: DAP_TransferBlock_def DAP_PORT_SWD_def rd_def halves_def or.commute)
next
  assume w: "reg_ok (Write_Reg rq v)" "0 < length ws" "length ws < 65536"
  have rq: "(ucast rq :: u32) AND DAP_TRANSFER_RnW = 0"
    using write_bits(1) [OF w(1)] by (simp add: DAP_TRANSFER_RnW_def)
  have "(ucast (of_nat (length ws) :: u16) :: u32) = of_nat (length ws)"
    using w(3) by (simp add: unsigned_of_nat take_bit_nat_eq_self)
  then show "\<exists>st'. DAP_TransferBlock xfer junk
         (idx # lo8 (of_nat (length ws)) # hi8 (of_nat (length ws)) # rq # concat (map bytes32 ws) @ rest) st
       = Some ([of_nat (length ws), of_nat (length ws div 256), 1], halves (4 + 4 * length ws) 3, st')
     \<and> regs (dap_swd st') = fold (put (ucast rq)) ws (regs (dap_swd st)) \<and> up (dap_swd st')"
    using posted_port.block_runs_write [OF port w ready(1,2), of junk idx rest] ready(3) rq
    by (auto simp: DAP_TransferBlock_def DAP_PORT_SWD_def rd_def rd16_def halves_def or.commute mult.commute)
qed

text \<open>The operations of a block: \<open>n\<close> reads, or the writes of the words \<open>ws\<close>.\<close>

definition block_ops :: "u8 \<Rightarrow> nat \<Rightarrow> u32 list \<Rightarrow> reg_op list" where
  "block_ops rq n ws = (if rq AND 2 \<noteq> 0 then replicate n (Read_Reg rq) else map (Write_Reg rq) ws)"

definition block_ok :: "u8 \<Rightarrow> nat \<Rightarrow> u32 list \<Rightarrow> bool" where
  "block_ok rq n ws \<longleftrightarrow> 0 < n \<and> n < 65536
     \<and> (if rq AND 2 \<noteq> 0 then reg_ok (Read_Reg rq) \<and> ws = [] else reg_ok (Write_Reg rq 0) \<and> length ws = n)"

lemma block_runs:
  assumes "posted_port xfer up regs rbuf get put busy limit"
    and "up (dap_swd st)" "limit \<le> unat (retry_count (dap_dd st))" "debug_port (dap_dd st) = 1"
    and "block_ok rq n ws"
    and "reg_run get put (block_ops rq n ws) (mk, regs (dap_swd st)) = (vs, mk', d)"
  shows "\<exists>st'. DAP_TransferBlock xfer junk (idx # lo8 (of_nat n) # hi8 (of_nat n) # rq # concat (map bytes32 ws) @ rest) st
       = Some ([of_nat n, of_nat (n div 256), 1] @ concat (map bytes32 vs), halves (4 + 4 * length ws) (3 + 4 * length vs), st')
     \<and> regs (dap_swd st') = d \<and> up (dap_swd st')"
proof (cases "rq AND 2 \<noteq> 0")
  case True
  then have r: "reg_ok (Read_Reg rq)" "0 < n" "n < 65536" "ws = []" and
    run: "reg_run get put (replicate n (Read_Reg rq)) (mk, regs (dap_swd st)) = (vs, mk', d)"
    using assms(5,6) by (simp_all add: block_ok_def block_ops_def)
  have "length vs = n" using length_reg_run [OF run] by simp
  then show ?thesis using block_in_order(1) [OF assms(1-4) r(1-3) run, of junk idx rest] r(4) by simp
next
  case False
  then have w: "reg_ok (Write_Reg rq 0)" "0 < length ws" "length ws < 65536" "n = length ws" and
    run: "reg_run get put (map (Write_Reg rq) ws) (mk, regs (dap_swd st)) = (vs, mk', d)"
    using assms(5,6) by (simp_all add: block_ok_def block_ops_def)
  then show ?thesis using block_in_order(2) [OF assms(1-4) w(1-3), of junk idx rest] by (simp add: reg_run_writes)
qed

text \<open>
  C8. A block transfer reads or writes one register a number of times in program order: a block read
  answers the count, OK and the values of that many successive reads; a block write performs the writes
  in order and answers the count and OK; the request bytes of both are counted exactly.
\<close>

theorem block_in_program_order:
  assumes "posted_port xfer up regs rbuf get put busy limit"
    and "up (dap_swd st)" "limit \<le> unat (retry_count (dap_dd st))" "debug_port (dap_dd st) = 1"
    and "block_ok rq n ws"
    and "reg_run get put (block_ops rq n ws) (mk, regs (dap_swd st)) = (vs, mk', d)"
  shows "\<exists>st'. DAP_TransferBlock xfer junk (idx # lo8 (of_nat n) # hi8 (of_nat n) # rq # concat (map bytes32 ws) @ rest) st
       = Some ([of_nat n, of_nat (n div 256), 1] @ concat (map bytes32 vs), halves (4 + 4 * length ws) (3 + 4 * length vs), st')
     \<and> regs (dap_swd st') = d \<and> up (dap_swd st')"
  by (rule block_runs [OF assms])

lemma block_in_program_order_witness:
  "\<exists>num st'. DAP_TransferBlock (SWD_Transfer (target_wire 2)) (\<lambda>_. 0) [0, 3, 0, 0x0F] demo_dap
    = Some ([3, 0, 1, 0, 0, 0, 0, 4, 0, 0, 0, 8, 0, 0, 0], num, st')"
proof -
  have three: "replicate 3 (Read_Reg 0x0F) = [Read_Reg 0x0F, Read_Reg 0x0F, Read_Reg 0x0F]"
    by (simp add: numeral_3_eq_3)
  have run: "reg_run port_get port_put (replicate 3 (Read_Reg 0x0F)) (0, tg_port (on_wire (dap_swd demo_dap)))
      = ([0, 4, 8], 0, snd (snd (reg_run port_get port_put (replicate 3 (Read_Reg 0x0F)) (0, demo_port))))"
    unfolding three by (simp add: demo_up demo_port_def port_get_def port_put_def ap_addr_def next_word_def)
  have "lo8 (of_nat 3) = 3" "hi8 (of_nat 3) = 0"
    "[of_nat 3, of_nat (3 div 256), 1] @ concat (map bytes32 [0, 4, 8]) = ([3, 0, 1, 0, 0, 0, 0, 4, 0, 0, 0, 8, 0, 0, 0] :: u8 list)"
    by code_simp+
  moreover have "block_ok 0x0F 3 []" by (simp add: block_ok_def)
  moreover have "block_ops 0x0F 3 [] = replicate 3 (Read_Reg 0x0F)" by (simp add: block_ops_def)
  ultimately show ?thesis
    using block_in_program_order [OF target_port.posted_port_axioms demo_up(1,2,3), of "0x0F" 3 "[]"
        0 "[0, 4, 8]" 0 "snd (snd (reg_run port_get port_put (replicate 3 (Read_Reg 0x0F)) (0, demo_port)))" "\<lambda>_. 0" 0 "[]"] run
    by auto
qed

text \<open>
  C25. An access-port write of the register layer, whatever the target answers: acknowledged with OK it has
  put the value into the register of that number, bank through SELECT and offset in the request, whether or
  not the bank had to be selected first; not acknowledged it has at most selected the bank.  The cache of
  SELECT stays coherent with the register either way.
\<close>

theorem ap_write_sets_register:
  assumes "register_port xfer up regs rbuf get put sel"
    and "up s" and "sel_coherent (sel (regs (on_wire s))) s"
    and "ap_write xfer apreg v s = (ack, s')"
  shows "up s' \<and> sel_coherent (sel (regs (on_wire s'))) s'
    \<and> (if ack AND 7 = 1 then regs (on_wire s') = ap_put_reg put apreg v (regs (on_wire s))
       else regs (on_wire s') \<in> {regs (on_wire s), put 8 (ucast apreg AND 0xF0) (regs (on_wire s))})"
  using register_port.ap_write_effect [OF assms] by simp

text \<open>
  C24. An access-port read of the register layer: acknowledged with OK it delivers the value of the register
  of that number and has the effect of one read of it, although the access is posted, comes with a read of
  RDBUFF, and the bank may have to be selected first; with OK and a parity error only the word is
  arbitrary; not acknowledged it has at most selected the bank and read the register.  The cache of SELECT
  stays coherent with the register either way.
\<close>

theorem ap_read_gets_register:
  assumes "register_port xfer up regs rbuf get put sel"
    and "up s" and "sel_coherent (sel (regs (on_wire s))) s"
    and "ap_read xfer apreg out s = (ack, d', s')"
  shows "up s' \<and> sel_coherent (sel (regs (on_wire s'))) s'
    \<and> (ack = 1 \<longrightarrow> d' = Some (fst (ap_get_reg get put apreg (regs (on_wire s)))))
    \<and> (if ack AND 7 = 1 then regs (on_wire s') = snd (ap_get_reg get put apreg (regs (on_wire s)))
       else regs (on_wire s') \<in> {regs (on_wire s), put 8 (ucast apreg AND 0xF0) (regs (on_wire s)),
         snd (ap_get_reg get put apreg (regs (on_wire s)))})"
  using register_port.ap_read_effect [OF assms] by simp

text \<open>
  Both on the SPI transport with the target at the end of the wire, whose access port has an identification
  register in the last bank.
\<close>

definition demo_ap :: "target swd" where
  "demo_ap = (dap_swd demo_dap)\<lparr> on_wire := (on_wire (dap_swd demo_dap))\<lparr>
     tg_port := demo_port\<lparr> pt_ap := (\<lambda>a. 0)(0xFC := 0x04770041) \<rparr> \<rparr> \<rparr>"

lemma demo_ap: "target_up 2 demo_ap" "(2 :: nat) < SWD_WAIT_RETRIES" "sel_coherent (pt_select (tg_port (on_wire demo_ap))) demo_ap"
  "tg_port (on_wire demo_ap) = demo_port\<lparr> pt_ap := (\<lambda>a. 0)(0xFC := 0x04770041) \<rparr>"
  by (simp_all add: demo_ap_def demo_dap_def target_up_def std_edge_def between_def sel_coherent_def SWD_WAIT_RETRIES_def)

lemma ap_write_sets_register_witness:
  "\<exists>s'. ap_write (SWD_Transfer (target_wire 2)) 0xF4 7 demo_ap = (1, s')
    \<and> pt_ap (tg_port (on_wire s')) = (\<lambda>a. 0)(0xFC := 0x04770041, 0xF4 := 7) \<and> pt_select (tg_port (on_wire s')) = 0xF0"
proof -
  obtain ack s' where r: "ap_write (SWD_Transfer (target_wire 2)) 0xF4 7 demo_ap = (ack, s')" by fastforce
  have "ack = 1" using direct.ap_acknowledged(1) [OF demo_ap(1) [unfolded target_up_line] demo_ap(2) r] .
  then have "tg_port (on_wire s') = ap_put_reg port_put 0xF4 7 (tg_port (on_wire demo_ap))"
    using ap_write_sets_register [OF target_debug.register_port_axioms demo_ap(1,3) r] by simp
  with r \<open>ack = 1\<close> show ?thesis by (simp add: demo_ap(4) ap_put_reg_def port_put_def ap_addr_def)
qed

lemma ap_read_gets_register_witness:
  "\<exists>s'. ap_read (SWD_Transfer (target_wire 2)) 0xFC 0 demo_ap = (1, Some 0x04770041, s')"
proof -
  obtain ack d' s' where r: "ap_read (SWD_Transfer (target_wire 2)) 0xFC 0 demo_ap = (ack, d', s')" by (metis prod_cases3)
  have "ack = 1" using direct.ap_acknowledged(2) [OF demo_ap(1) [unfolded target_up_line] demo_ap(2) r] .
  then have "d' = Some (fst (ap_get_reg port_get port_put 0xFC (tg_port (on_wire demo_ap))))"
    using ap_read_gets_register [OF target_debug.register_port_axioms demo_ap(1,3) r] by simp
  with r \<open>ack = 1\<close> show ?thesis by (simp add: demo_ap(4) ap_get_reg_def port_put_def port_get_def ap_addr_def)
qed

text \<open>
  C26. A command of one read with value match, of a debug-port register but RDBUFF or of an access-port
  register, reads until the masked value matches or the match retries are used up: it answers OK and a
  count of 1 if the last value looked at matched, VALUE MISMATCH and a count of 0 otherwise, and looks at
  no more values than needed.  The values are those of successive reads of the register also on the access
  port, where reads are posted; there the register is read once more than values are looked at.
\<close>

theorem match_read_polls:
  assumes "posted_port xfer up regs rbuf get put busy limit"
    and "match_request rq"
    and "up (dap_swd st)" "limit \<le> unat (retry_count (dap_dd st))" "debug_port (dap_dd st) = 1"
  shows "\<exists>k \<le> unat (match_retry (dap_dd st)). \<exists>num st'.
     (\<forall>j < k. nth_read get (ucast rq) (regs (dap_swd st)) j AND match_mask (dap_dd st) \<noteq> mv)
     \<and> (k < unat (match_retry (dap_dd st)) \<longrightarrow>
          nth_read get (ucast rq) (regs (dap_swd st)) k AND match_mask (dap_dd st) = mv)
     \<and> DAP_Transfer xfer junk (idx # 1 # rq # bytes32 mv @ b # rest) st
       = Some (if nth_read get (ucast rq) (regs (dap_swd st)) k AND match_mask (dap_dd st) = mv
               then [1, 1] else [0, 0x11], num, st')
     \<and> regs (dap_swd st') = after_reads get (ucast rq) (if rq AND 1 = 0 then Suc k else Suc (Suc k)) (regs (dap_swd st))"
  using posted_port.match_runs [OF assms(1-4), of mv junk idx b rest] assms(5)
  by (simp add: DAP_Transfer_def DAP_PORT_SWD_def)

text \<open>
  The memory behind DRW holds its addresses: polling it for 8 looks at 0, 4 and 8 and leaves the
  transfer address at 16, one word further than the value that matched.
\<close>

lemma match_read_polls_witness:
  "\<exists>num st'. DAP_Transfer (SWD_Transfer (target_wire 2)) (\<lambda>_. 0) [0, 1, 0x1F, 8, 0, 0, 0, 0] demo_dap
    = Some ([1, 1], num, st') \<and> pt_ap (tg_port (on_wire (dap_swd st'))) 4 = 16"
proof -
  let ?get = "nth_read port_get 0x1F demo_port"
  have seen: "?get 0 = 0" "?get 1 = 4" "?get 2 = 8"
    by (simp_all add: nth_read_def numeral_2_eq_2 port_get_def ap_addr_def demo_port_def next_word_def)
  have last: "pt_ap (after_reads port_get 0x1F (Suc (Suc 2)) demo_port) 4 = 16"
    by (simp add: numeral_2_eq_2 port_get_def ap_addr_def demo_port_def next_word_def)
  have req: "match_request 0x1F" by (simp add: match_request_def)
  have "0 # 1 # 0x1F # bytes32 8 @ 0 # [] = ([0, 1, 0x1F, 8, 0, 0, 0, 0] :: u8 list)" by code_simp
  with match_read_polls [OF target_port.posted_port_axioms req demo_up(1,2,3), of 8 "\<lambda>_. 0" 0 0 "[]"]
  obtain k num st' where k: "k \<le> 3" "\<forall>j < k. ?get j AND 0xFF \<noteq> 8" "k < 3 \<longrightarrow> ?get k AND 0xFF = 8"
    "DAP_Transfer (SWD_Transfer (target_wire 2)) (\<lambda>_. 0) [0, 1, 0x1F, 8, 0, 0, 0, 0] demo_dap
      = Some (if ?get k AND 0xFF = 8 then [1, 1] else [0, 0x11], num, st')"
    "tg_port (on_wire (dap_swd st')) = after_reads port_get 0x1F (Suc (Suc k)) demo_port"
    by (auto simp: demo_up)
  have "k \<noteq> 0"
  proof
    assume z: "k = 0"
    from k(3) show False unfolding z seen(1) by simp
  qed
  moreover have "k \<noteq> 1"
  proof
    assume z: "k = 1"
    from k(3) show False unfolding z seen(2) by simp
  qed
  moreover have "\<not> 2 < k" using k(2) seen(3) by auto
  ultimately have "k = 2" using k(1) by linarith
  then show ?thesis using k(4,5) seen(3) last by auto
qed

text \<open>
  C27. When a write is not acknowledged the command answers a count of 0 and the acknowledge, but counts
  one request too many as consumed: the byte after the request is decoded as a further, canceled one,
  and when the request ends the buffer the read is out of bounds.
\<close>

theorem failed_write_overconsumes:
  assumes "rq AND 0xF2 = 0" and "debug_port (dap_dd st) = 1"
    and "xfer (ucast rq) (Some v) (dap_swd st) = (rv, d, s)" and "rv \<noteq> 1" and "rv \<noteq> 2"
  shows "\<exists>st'. DAP_Transfer xfer junk (idx # 1 # rq # bytes32 v @ b # rest) st
      = Some ([0, rv], halves (7 + (if b AND 2 \<noteq> 0 \<and> b AND 16 = 0 then 1 else 5)) 2, st')
    \<and> DAP_Transfer xfer junk (idx # 1 # rq # bytes32 v) st = None"
proof -
  define r where "r = \<lparr> r_pos = 2, r_resp = [], r_post = False, r_check = False, r_data = junk (st\<lparr> dap_abort := 0 \<rparr>),
    r_value = 0, r_count = 0, r_dap = st\<lparr> dap_abort := 0 \<rparr> \<rparr>"
  define r' where "r' = r\<lparr> r_pos := 7, r_data := (case d of Some w \<Rightarrow> w | None \<Rightarrow> v), r_value := ucast rv,
    r_dap := st\<lparr> dap_abort := 0, dap_swd := s \<rparr> \<rparr>"
  have w: "rq AND 2 = 0" "rq AND 32 = 0" using write_bits(1,2) [of rq v] assms(1) by simp_all
  have nok: "(ucast rv :: u32) \<noteq> 1" using ucast_u8_eq [of rv 1] assms(4) by simp
  have acc: "r_access xfer (ucast rq) True (r\<lparr> r_data := v, r_pos := 7 \<rparr>) = r'"
    using assms(3,5)
    by (cases "unat (retry_count (dap_dd st))"; cases d)
      (simp_all add: r_access_def r_def r'_def DAP_TRANSFER_WAIT_def Let_def)
  have loop: "transfer_loop xfer req 1 r = Some (1, r')"
    if "rd req 2 = Some rq" and "rd32 req 3 = Some v" for req
  proof -
    have pos: "r_pos r = 2" "r_post r = False" by (simp_all add: r_def)
    have "write_request xfer req (ucast rq) (r\<lparr> r_pos := 3 \<rparr>) = Some (False, r')"
      using that(2) w nok acc pos
      by (simp add: write_request_def r_ok_def request_masks r'_def Let_def)
    then show ?thesis using that(1) w pos by (simp add: DAP_TRANSFER_RnW_def Let_def)
  qed
  have r': "r_pos r' = 7" "r_value r' = ucast rv" "r_resp r' = []" "r_count r' = 0" by (simp_all add: r'_def r_def)
  have two: "halves x (Suc (Suc 0)) = halves x 2" for x by (simp add: numeral_2_eq_2)
  have main: "DAP_Transfer xfer junk req st =
      (case cancel_loop req 1 7 of None \<Rightarrow> None | Some pos \<Rightarrow> Some ([0, rv], halves pos 2, r_dap r'))"
    if "rd req 1 = Some 1" "rd req 2 = Some rq" "rd32 req 3 = Some v" for req
    using loop [OF that(2,3)] that(1) assms(2) r' nok
    by (simp add: DAP_Transfer_def DAP_PORT_SWD_def DAP_SWD_Transfer_def r_def [symmetric] transfer_tail_def r_ok_def
        DAP_TRANSFER_OK_def two del: transfer_loop.simps cancel_loop.simps split: option.split)
  have first: "rd (idx # 1 # rq # bytes32 v @ xs) 1 = Some 1" "rd (idx # 1 # rq # bytes32 v @ xs) 2 = Some rq"
    "rd32 (idx # 1 # rq # bytes32 v @ xs) 3 = Some v" for xs
    by (simp_all add: rd_def) (rule rd32_at [where bs = xs], simp)
  have cancel: "cancel_loop (idx # 1 # rq # bytes32 v @ b # rest) 1 7 =
      Some (7 + (if b AND 2 \<noteq> 0 \<and> b AND 16 = 0 then 1 else 5))"
  proof -
    have "rd (idx # 1 # rq # bytes32 v @ b # rest) 7 = Some b"
      by (rule rd_at [where bs = rest]) (simp add: bytes32_def)
    moreover have "(ucast b :: u32) AND 16 = 0 \<longleftrightarrow> b AND 16 = 0" "(ucast b :: u32) AND 2 = 0 \<longleftrightarrow> b AND 2 = 0"
      using ucast_u8_eq [of "b AND 16" 0] ucast_u8_eq [of "b AND 2" 0] by simp_all
    ultimately show ?thesis by (simp add: request_masks Let_def del: request_and)
  qed
  have over: "cancel_loop (idx # 1 # rq # bytes32 v) 1 7 = None" by (simp add: rd_def)
  show ?thesis
    using main [OF first, of "b # rest"] main [OF first, of "[]"] cancel over by simp
qed

lemma failed_write_overconsumes_witness:
  "\<exists>st'. DAP_Transfer (\<lambda>rq d s. (4, d, s)) (\<lambda>_. 0) [0, 1, 0x04, 1, 2, 3, 4, 0x02] (still_start True)
    = Some ([0, 4], halves 8 2, st')"
proof -
  have "0 # 1 # 0x04 # bytes32 0x04030201 @ 0x02 # [] = ([0, 1, 0x04, 1, 2, 3, 4, 0x02] :: u8 list)" by code_simp
  moreover have "debug_port (dap_dd (still_start True)) = 1" by (simp add: still_start_def)
  ultimately show ?thesis
    using failed_write_overconsumes [where xfer = "\<lambda>rq d s. (4, d, s)" and rq = "0x04" and st = "still_start True"
        and v = "0x04030201" and idx = 0 and b = "0x02" and rest = "[]" and junk = "\<lambda>_. 0"]
    by auto
qed

end
