(* ===== verification/Dap_Command.thy ===== *)
theory Dap_Command
  imports Swd_Target
begin

text \<open>
  The command processor of the debug unit: the vendor commands (\<^verbatim>\<open>cmsis-dap/arm/DAP_vendor.c\<close>), the
  command table and the execution of one or several commands of a request
  (\<^verbatim>\<open>DAP_ProcessCommand\<close> and \<^verbatim>\<open>DAP_ExecuteCommand\<close> in \<^verbatim>\<open>cmsis-dap/arm/DAP.c\<close>).
\<close>

section \<open>Command numbers\<close>

definition ID_DAP_Info :: u8 where "ID_DAP_Info = 0x00"
definition ID_DAP_HostStatus :: u8 where "ID_DAP_HostStatus = 0x01"
definition ID_DAP_Connect :: u8 where "ID_DAP_Connect = 0x02"
definition ID_DAP_Disconnect :: u8 where "ID_DAP_Disconnect = 0x03"
definition ID_DAP_TransferConfigure :: u8 where "ID_DAP_TransferConfigure = 0x04"
definition ID_DAP_Transfer :: u8 where "ID_DAP_Transfer = 0x05"
definition ID_DAP_TransferBlock :: u8 where "ID_DAP_TransferBlock = 0x06"
definition ID_DAP_TransferAbort :: u8 where "ID_DAP_TransferAbort = 0x07"
definition ID_DAP_WriteABORT :: u8 where "ID_DAP_WriteABORT = 0x08"
definition ID_DAP_Delay :: u8 where "ID_DAP_Delay = 0x09"
definition ID_DAP_ResetTarget :: u8 where "ID_DAP_ResetTarget = 0x0A"
definition ID_DAP_SWJ_Pins :: u8 where "ID_DAP_SWJ_Pins = 0x10"
definition ID_DAP_SWJ_Clock :: u8 where "ID_DAP_SWJ_Clock = 0x11"
definition ID_DAP_SWJ_Sequence :: u8 where "ID_DAP_SWJ_Sequence = 0x12"
definition ID_DAP_SWD_Configure :: u8 where "ID_DAP_SWD_Configure = 0x13"
definition ID_DAP_SWD_Sequence :: u8 where "ID_DAP_SWD_Sequence = 0x1D"
definition ID_DAP_JTAG_Sequence :: u8 where "ID_DAP_JTAG_Sequence = 0x14"
definition ID_DAP_JTAG_Configure :: u8 where "ID_DAP_JTAG_Configure = 0x15"
definition ID_DAP_JTAG_IDCODE :: u8 where "ID_DAP_JTAG_IDCODE = 0x16"
definition ID_DAP_QueueCommands :: u8 where "ID_DAP_QueueCommands = 0x7E"
definition ID_DAP_ExecuteCommands :: u8 where "ID_DAP_ExecuteCommands = 0x7F"
definition ID_DAP_Vendor0 :: u8 where "ID_DAP_Vendor0 = 0x80"
definition ID_DAP_Vendor31 :: u8 where "ID_DAP_Vendor31 = 0x9F"
definition ID_DAP_Invalid :: u8 where "ID_DAP_Invalid = 0xFF"

lemmas command_ids =
  ID_DAP_Info_def ID_DAP_HostStatus_def ID_DAP_Connect_def ID_DAP_Disconnect_def ID_DAP_TransferConfigure_def
  ID_DAP_Transfer_def ID_DAP_TransferBlock_def ID_DAP_WriteABORT_def ID_DAP_Delay_def ID_DAP_ResetTarget_def
  ID_DAP_SWJ_Pins_def ID_DAP_SWJ_Clock_def ID_DAP_SWJ_Sequence_def ID_DAP_SWD_Configure_def ID_DAP_SWD_Sequence_def
  ID_DAP_JTAG_Sequence_def ID_DAP_JTAG_Configure_def ID_DAP_JTAG_IDCODE_def ID_DAP_ExecuteCommands_def
  ID_DAP_Vendor0_def ID_DAP_Vendor31_def ID_DAP_Invalid_def

section \<open>One command\<close>

text \<open>Every vendor command is accepted and does nothing.\<close>

definition DAP_ProcessVendorCommand :: "u8 list \<Rightarrow> 't dap \<Rightarrow> 't handled" where
  "DAP_ProcessVendorCommand req st = do { b \<leftarrow> rd req 0; Some ([b], push_bit 16 1 OR 1, st) }"

text \<open>The handler of a command, \<open>None\<close> for a number the switch does not list.\<close>

definition dap_handler ::
  "'t wire \<Rightarrow> ('t dap \<Rightarrow> u32) \<Rightarrow> u8 \<Rightarrow> (u8 list \<Rightarrow> 't dap \<Rightarrow> 't handled) option" where
  "dap_handler W junk ident =
    (if ident = ID_DAP_HostStatus then Some DAP_HostStatus
     else if ident = ID_DAP_Connect then Some (DAP_Connect W)
     else if ident = ID_DAP_Disconnect then Some (\<lambda>req st. Some (DAP_Disconnect st))
     else if ident = ID_DAP_Delay then Some (DAP_Delay W)
     else if ident = ID_DAP_ResetTarget then Some (\<lambda>req st. Some (DAP_ResetTarget W st))
     else if ident = ID_DAP_SWJ_Pins then Some (DAP_SWJ_Pins W)
     else if ident = ID_DAP_SWJ_Clock then Some (DAP_SWJ_Clock W)
     else if ident = ID_DAP_SWJ_Sequence then Some (DAP_SWJ_Sequence W)
     else if ident = ID_DAP_SWD_Configure then Some DAP_SWD_Configure
     else if ident = ID_DAP_SWD_Sequence then Some (DAP_SWD_Sequence W)
     else if ident = ID_DAP_JTAG_Sequence then Some DAP_JTAG_Sequence
     else if ident = ID_DAP_JTAG_Configure then Some DAP_JTAG_Configure
     else if ident = ID_DAP_JTAG_IDCODE then Some (\<lambda>req st. Some (DAP_JTAG_IDCode st))
     else if ident = ID_DAP_TransferConfigure then Some DAP_TransferConfigure
     else if ident = ID_DAP_Transfer then Some (DAP_Transfer (SWD_Transfer W) junk)
     else if ident = ID_DAP_TransferBlock then Some (DAP_TransferBlock (SWD_Transfer W) junk)
     else if ident = ID_DAP_WriteABORT then Some (DAP_WriteAbort (SWD_Transfer W))
     else None)"

definition DAP_ProcessCommand :: "'t wire \<Rightarrow> ('t dap \<Rightarrow> u32) \<Rightarrow> u8 list \<Rightarrow> 't dap \<Rightarrow> 't handled" where
  "DAP_ProcessCommand W junk req st = do {
    ident \<leftarrow> rd req 0;
    if ID_DAP_Vendor0 \<le> ident \<and> ident \<le> ID_DAP_Vendor31 then DAP_ProcessVendorCommand req st
    else if ident = ID_DAP_Info
    then do {
      i \<leftarrow> rd req 1;
      let info = DAP_Info i;
      Some (ident # of_nat (length info) # info, push_bit 16 2 + 2 + of_nat (length info), st) }
    else (case dap_handler W junk ident of
        None \<Rightarrow> Some ([ID_DAP_Invalid], push_bit 16 1 OR 1, st)
      | Some handler \<Rightarrow> do {
          (resp, num, st) \<leftarrow> handler (drop 1 req) st;
          Some (ident # resp, push_bit 16 1 + 1 + num, st) }) }"

section \<open>One request\<close>

text \<open>
  The loop over the commands of one request, \<open>n\<close> to go, into a response buffer of \<open>cap\<close> bytes; the
  pointers advance by the halves of the return value.  A response that does not fit is an overrun.
\<close>

fun execute_commands :: "'t wire \<Rightarrow> ('t dap \<Rightarrow> u32) \<Rightarrow> nat \<Rightarrow> nat \<Rightarrow> u8 list \<Rightarrow> u8 list \<Rightarrow> u32 \<Rightarrow> 't dap \<Rightarrow> 't handled"
  where
  "execute_commands W junk cap 0 req resp num st = Some (resp, num, st)"
| "execute_commands W junk cap (Suc n) req resp num st = do {
    (r, k, st) \<leftarrow> DAP_ProcessCommand W junk req st;
    if cap < length resp + length r then None
    else execute_commands W junk cap n (drop (unat (ucast (drop_bit 16 k) :: u16)) req)
           (resp @ take (unat (ucast k :: u16)) r) (num + k) st }"

definition DAP_ExecuteCommand :: "'t wire \<Rightarrow> ('t dap \<Rightarrow> u32) \<Rightarrow> nat \<Rightarrow> u8 list \<Rightarrow> 't dap \<Rightarrow> 't handled" where
  "DAP_ExecuteCommand W junk cap req st = do {
    ident \<leftarrow> rd req 0;
    if ident = ID_DAP_ExecuteCommands
    then do {
      cnt \<leftarrow> rd req 1;
      execute_commands W junk cap (unat cnt) (drop 2 req) [ident, cnt] (push_bit 16 2 OR 2) st }
    else do {
      (r, k, st) \<leftarrow> DAP_ProcessCommand W junk req st;
      if cap < length r then None else Some (r, k, st) } }"

section \<open>Counting bytes\<close>

lemma halves_eq:
  assumes "b < 65536"
  shows "halves a b = of_nat (a * 65536 + b)"
proof -
  have "push_bit 16 (of_nat a :: u32) AND of_nat b = 0"
  proof (rule bit_word_eqI)
    fix k assume "k < LENGTH(32)"
    have "\<not> bit (of_nat b :: u32) k" if "16 \<le> k"
    proof -
      have "b < 2 ^ k" using assms power_increasing [OF that, of "2 :: nat"] by simp
      then have "\<not> bit b k" by (simp add: bit_iff_odd)
      then show ?thesis by (simp add: bit_of_nat_iff)
    qed
    then show "bit (push_bit 16 (of_nat a :: u32) AND of_nat b) k = bit (0 :: u32) k"
      by (auto simp: bit_and_iff bit_push_bit_iff)
  qed
  then have "push_bit 16 (of_nat a :: u32) OR of_nat b = push_bit 16 (of_nat a) + of_nat b"
    by (rule disjunctive_add_eq_or [symmetric])
  then show ?thesis by (simp add: halves_def push_bit_eq_mult)
qed

lemma halves_add: "b + d < 65536 \<Longrightarrow> halves a b + halves c d = halves (a + c) (b + d)"
  by (simp add: halves_eq algebra_simps)

lemma unat_u16_u32: "unat (ucast (w :: u32) :: u16) = unat w mod 65536"
  by (simp add: unsigned_ucast_eq take_bit_eq_mod)

lemma halves_low: "b < 65536 \<Longrightarrow> unat (ucast (halves a b) :: u16) = b"
  by (simp only: halves_eq unat_u16_u32 unat_of_nat) (simp add: take_bit_eq_mod mod_mod_cancel mod_mult_self3)

lemma halves_high:
  assumes "a < 65536" and "b < 65536"
  shows "unat (ucast (drop_bit 16 (halves a b)) :: u16) = a"
proof -
  have "a * 65536 + b < 4294967296" using assms by simp
  then have "unat (halves a b) = a * 65536 + b"
    unfolding halves_eq [OF assms(2)] by (rule unat_of_nat_u32)
  moreover have "unat (drop_bit 16 (halves a b)) = unat (halves a b) div 65536"
    by (simp add: drop_bit_eq_div unat_div)
  ultimately show ?thesis using assms by (simp add: unat_u16_u32)
qed

lemma one_one: "push_bit 16 1 OR (1 :: u32) = halves 1 1" "push_bit 16 1 + (1 :: u32) = halves 1 1"
  "push_bit 16 2 OR (2 :: u32) = halves 2 2" "push_bit 16 2 + (2 :: u32) = halves 2 2"
  by (simp_all add: halves_eq)

text \<open>The low half of a return value is the number of response bytes.\<close>

definition counted :: "u8 list \<Rightarrow> u32 \<Rightarrow> bool" where
  "counted resp num \<longleftrightarrow> take_bit 16 num = take_bit 16 (of_nat (length resp))"

lemmas counting = counted_def halves_def take_bit_push_bit

lemma counted_unat: "counted resp num \<Longrightarrow> length resp < 65536 \<Longrightarrow> unat (ucast num :: u16) = length resp"
proof -
  assume c: "counted resp num" and l: "length resp < 65536"
  have "unat (take_bit 16 num) = take_bit 16 (unat (of_nat (length resp) :: u32))"
    using c by (simp only: counted_def unsigned_take_bit_eq)
  then show ?thesis using l by (simp add: unat_u16_u32 unsigned_take_bit_eq take_bit_eq_mod unat_of_nat_u32 unat_mod)
qed

lemma length_seq_in [simp]: "length (fst (swd_seq_in W n s)) = (n + 7) div 8"
proof (induction W n s rule: swd_seq_in.induct)
  case (1 W n s)
  show ?case
  proof (cases "0 < n")
    case True
    define m where "m = (if 32 \<le> n then 32 else n)"
    obtain got s1 where got: "swd_read_bits W (of_nat m) s = (got, s1)" by fastforce
    have "swd_seq_in W n s = (seq_bytes m got @ fst (swd_seq_in W (n - m) s1), snd (swd_seq_in W (n - m) s1))"
      using True got by (subst swd_seq_in.simps) (simp add: m_def [symmetric] case_prod_beta Let_def)
    moreover have "length (fst (swd_seq_in W (n - m) s1)) = (n - m + 7) div 8"
      using "1.IH" [OF True m_def] got by simp
    moreover have "(m + 7) div 8 + (n - m + 7) div 8 = (n + 7) div 8"
      by (auto simp: m_def)
    ultimately show ?thesis by (simp add: seq_bytes_def)
  qed (simp add: swd_seq_in.simps)
qed

lemma swd_sequences_counted:
  "swd_sequences W n req resp rqc rsc st = Some (resp', rqc', rsc', st') \<Longrightarrow> rsc = length resp \<Longrightarrow> rsc' = length resp'"
proof (induction n arbitrary: req resp rqc rsc st)
  case (Suc n)
  obtain i where i: "rd req 0 = Some i" using Suc.prems(1) by (cases "rd req 0") auto
  define info :: u32 where "info = ucast i"
  define din where "din \<longleftrightarrow> info AND 0x80 \<noteq> 0"
  define count where "count = (sequence_clocks info + 7) div 8"
  define st0 where "st0 = dap_act W (if din then Gpio_Input SWDIO_PIN else Gpio_Output SWDIO_PIN) st"
  obtain swdi swd where seq: "SWD_Sequence W info (drop 1 req) (dap_swd st0) = (swdi, swd)" by fastforce
  define st1 where "st1 = (if n = 0 then dap_act W (Gpio_Output SWDIO_PIN) (st0\<lparr> dap_swd := swd \<rparr>) else st0\<lparr> dap_swd := swd \<rparr>)"
  have step: "swd_sequences W (Suc n) req resp rqc rsc st =
      (if \<not> din \<and> length (drop 1 req) < count then None
       else if din then swd_sequences W n (drop 1 req) (resp @ swdi) (rqc + 1) (rsc + count) st1
       else swd_sequences W n (drop count (drop 1 req)) resp (rqc + count + 1) rsc st1)"
    using i seq
    by (simp only: swd_sequences.simps Option.bind.simps Let_def info_def [symmetric] din_def [symmetric] count_def [symmetric]
        st0_def [symmetric] seq prod.case st1_def [symmetric] split: if_splits)
  have len: "length swdi = count" if din
  proof -
    have "swd_seq_in W (sequence_clocks info) (dap_swd st0) = (swdi, swd)"
      using that seq by (simp add: SWD_Sequence_def din_def Let_def)
    then show ?thesis unfolding count_def by (metis fst_conv length_seq_in)
  qed
  show ?case
  proof (cases din)
    case True
    then show ?thesis
      using Suc.prems(1) [unfolded step] Suc.prems(2) Suc.IH [of "drop 1 req" "resp @ swdi" "rqc + 1" "rsc + count" st1] len
      by simp
  next
    case False
    then show ?thesis
      using Suc.prems(1) [unfolded step] Suc.prems(2) Suc.IH [of "drop count (drop 1 req)" resp "rqc + count + 1" rsc st1]
      by (simp split: if_splits)
  qed
qed simp

text \<open>Every handler counts its response.\<close>

lemma transfer_counted:
  "DAP_Transfer xfer junk req st = Some (resp, num, st') \<Longrightarrow> counted resp num"
  by (auto simp: DAP_Transfer_def DAP_SWD_Transfer_def DAP_Dummy_Transfer_def Let_def counting
      split: if_splits bind_splits prod.splits)

lemma block_counted:
  "DAP_TransferBlock xfer junk req st = Some (resp, num, st') \<Longrightarrow> counted resp num"
  by (auto simp: DAP_TransferBlock_def DAP_SWD_TransferBlock_def Let_def counting split: if_splits bind_splits prod.splits)

lemma abort_counted:
  "DAP_WriteAbort xfer req st = Some (resp, num, st') \<Longrightarrow> counted resp num"
  by (auto simp: DAP_WriteAbort_def DAP_SWD_WriteAbort_def counting split: if_splits bind_splits prod.splits)

lemma simple_counted:
  "DAP_HostStatus req st = Some (resp, num, st') \<Longrightarrow> counted resp num"
  "DAP_Connect W req st = Some (resp, num, st') \<Longrightarrow> counted resp num"
  "DAP_Disconnect st = (resp, num, st') \<Longrightarrow> counted resp num"
  "DAP_Delay W req st = Some (resp, num, st') \<Longrightarrow> counted resp num"
  "DAP_ResetTarget W st = (resp, num, st') \<Longrightarrow> counted resp num"
  "DAP_SWJ_Clock W req st = Some (resp, num, st') \<Longrightarrow> counted resp num"
  "DAP_SWJ_Pins W req st = Some (resp, num, st') \<Longrightarrow> counted resp num"
  "DAP_SWJ_Sequence W req st = Some (resp, num, st') \<Longrightarrow> counted resp num"
  "DAP_SWD_Configure req st = Some (resp, num, st') \<Longrightarrow> counted resp num"
  "DAP_JTAG_Sequence req st = Some (resp, num, st') \<Longrightarrow> counted resp num"
  "DAP_JTAG_Configure req st = Some (resp, num, st') \<Longrightarrow> counted resp num"
  "DAP_JTAG_IDCode st = (resp, num, st') \<Longrightarrow> counted resp num"
  "DAP_TransferConfigure req st = Some (resp, num, st') \<Longrightarrow> counted resp num"
  by (auto simp: DAP_HostStatus_def DAP_Connect_def DAP_Disconnect_def DAP_Delay_def DAP_ResetTarget_def
      DAP_SWJ_Clock_def DAP_SWJ_Pins_def DAP_SWJ_Sequence_def DAP_SWD_Configure_def DAP_JTAG_Sequence_def
      DAP_JTAG_Configure_def DAP_JTAG_IDCode_def DAP_TransferConfigure_def Let_def counting
      split: if_splits bind_splits prod.splits)


lemma sequence_counted: "DAP_SWD_Sequence W req st = Some (resp, num, st') \<Longrightarrow> counted resp num"
  by (auto simp: DAP_SWD_Sequence_def counting split: bind_splits prod.splits dest: swd_sequences_counted)

lemma handler_counted:
  assumes "dap_handler W junk ident = Some h" and "h req st = Some (resp, num, st')"
  shows "counted resp num"
  using assms
  by (auto simp: dap_handler_def split: if_splits
      dest: simple_counted sequence_counted transfer_counted block_counted abort_counted)

lemma take_bit_add_cong:
  fixes a b c d :: u32
  assumes "take_bit 16 a = take_bit 16 b" and "take_bit 16 c = take_bit 16 d"
  shows "take_bit 16 (a + c) = take_bit 16 (b + d)"
proof -
  have u: "take_bit 16 x = take_bit 16 y \<longleftrightarrow> unat x mod 65536 = unat y mod 65536" for x y :: u32
    by (simp only: word_unat_eq_iff unsigned_take_bit_eq) (simp add: take_bit_eq_mod)
  have "unat (x + y) mod 65536 = (unat x + unat y) mod 65536" for x y :: u32
    by (simp add: unat_word_ariths mod_mod_cancel)
  moreover have "(unat a + unat c) mod 65536 = (unat b + unat d) mod 65536"
    using assms unfolding u by (rule mod_add_cong)
  ultimately show ?thesis unfolding u by simp
qed

lemma counted_Cons:
  assumes "counted resp num"
  shows "counted (b # resp) (push_bit 16 w + 1 + num)"
proof -
  have "take_bit 16 (push_bit 16 w + (1 + num)) = take_bit 16 (0 + (1 + of_nat (length resp)))"
    using assms by (intro take_bit_add_cong) (simp_all add: counted_def take_bit_push_bit)
  then show ?thesis by (simp add: counted_def add.assoc)
qed

lemma DAP_Info_length: "length (DAP_Info i) < 256"
  by (simp add: DAP_Info_def exlink_dap_copy_str_def DAP_VENDOR_def DAP_PRODUCT_def DAP_SER_NUM_def DAP_FW_Ver_def
      DAP_capabilities_def)

lemma process_counted:
  assumes "DAP_ProcessCommand W junk req st = Some (resp, num, st')"
  shows "counted resp num"
proof -
  obtain ident where i: "rd req 0 = Some ident" using assms by (cases "rd req 0") (auto simp: DAP_ProcessCommand_def)
  show ?thesis
  proof (cases "(ID_DAP_Vendor0 \<le> ident \<and> ident \<le> ID_DAP_Vendor31) \<or> ident = ID_DAP_Info")
    case True
    have "take_bit 16 (push_bit 16 2 + 2 + of_nat n :: u32) = take_bit 16 (2 + of_nat n)" for n
      by (intro take_bit_add_cong) simp_all
    then show ?thesis
      using True assms i by (auto simp: DAP_ProcessCommand_def DAP_ProcessVendorCommand_def counting Let_def
          split: bind_splits if_splits)
  next
    case False
    show ?thesis
    proof (cases "dap_handler W junk ident")
      case None
      then show ?thesis using assms i False by (auto simp: DAP_ProcessCommand_def counting)
    next
      case (Some h)
      then show ?thesis
        using assms i False handler_counted [OF Some, of "drop 1 req" st]
          counted_Cons [where w = 1, simplified]
        by (auto simp: DAP_ProcessCommand_def split: bind_splits)
    qed
  qed
qed

section \<open>Several commands in one request\<close>

text \<open>
  A command that consumes exactly its bytes, whatever follows them, and what running commands one after
  the other gives: the list holds each command with its response and the state after it.
\<close>

definition runs_as :: "'t wire \<Rightarrow> ('t dap \<Rightarrow> u32) \<Rightarrow> 't dap \<Rightarrow> u8 list \<Rightarrow> u8 list \<Rightarrow> 't dap \<Rightarrow> bool" where
  "runs_as W junk st c r st' \<longleftrightarrow> length c < 65536
     \<and> (\<forall>rest. DAP_ProcessCommand W junk (c @ rest) st = Some (r, halves (length c) (length r), st'))"

fun command_chain :: "'t wire \<Rightarrow> ('t dap \<Rightarrow> u32) \<Rightarrow> 't dap \<Rightarrow> (u8 list \<times> u8 list \<times> 't dap) list \<Rightarrow> bool" where
  "command_chain W junk st [] \<longleftrightarrow> True"
| "command_chain W junk st ((c, r, st') # xs) \<longleftrightarrow> runs_as W junk st c r st' \<and> command_chain W junk st' xs"

definition chain_end :: "'t dap \<Rightarrow> (u8 list \<times> u8 list \<times> 't dap) list \<Rightarrow> 't dap" where
  "chain_end st xs = last (st # map (snd \<circ> snd) xs)"

definition requests :: "(u8 list \<times> u8 list \<times> 't dap) list \<Rightarrow> u8 list" where
  "requests xs = concat (map fst xs)"

definition responses :: "(u8 list \<times> u8 list \<times> 't dap) list \<Rightarrow> u8 list" where
  "responses xs = concat (map (fst \<circ> snd) xs)"

lemma execute_chain:
  "command_chain W junk st xs \<Longrightarrow> length resp + length (responses xs) \<le> cap \<Longrightarrow> cap < 65536 \<Longrightarrow>
   execute_commands W junk cap (length xs) (requests xs @ rest) resp (halves a (length resp)) st
   = Some (resp @ responses xs, halves (a + length (requests xs)) (length resp + length (responses xs)), chain_end st xs)"
proof (induction xs arbitrary: st resp a)
  case Nil
  then show ?case by (simp add: requests_def responses_def chain_end_def)
next
  case (Cons x xs)
  obtain c r st' where x: "x = (c, r, st')" by (metis prod_cases3)
  have run: "DAP_ProcessCommand W junk (c @ requests xs @ rest) st = Some (r, halves (length c) (length r), st')"
    "length c < 65536" and chain: "command_chain W junk st' xs"
    using Cons.prems(1) by (auto simp: x runs_as_def)
  have split: "requests (x # xs) = c @ requests xs" "responses (x # xs) = r @ responses xs"
    "chain_end st (x # xs) = chain_end st' xs"
    by (simp_all add: x requests_def responses_def chain_end_def)
  have len: "length resp + length r \<le> cap" "length r < 65536" "length resp + length r < 65536"
    using Cons.prems(2,3) by (simp_all add: split)
  have "execute_commands W junk cap (length (x # xs)) (requests (x # xs) @ rest) resp (halves a (length resp)) st
      = execute_commands W junk cap (length xs) (requests xs @ rest) (resp @ r) (halves (a + length c) (length (resp @ r))) st'"
    using run len by (simp add: split halves_low halves_high halves_add)
  then show ?case
    using Cons.IH [OF chain, of "resp @ r" "a + length c"] Cons.prems(2,3) by (simp add: split algebra_simps)
qed

section \<open>Properties\<close>

text \<open>
  C38. The low half of the return value of a processed command is the number of bytes of its response,
  for every command and every outcome.
\<close>

theorem reply_is_counted:
  assumes "DAP_ProcessCommand W junk req st = Some (resp, num, st')" and "length resp < 65536"
  shows "unat (ucast num :: u16) = length resp"
  using process_counted [OF assms(1)] assms(2) by (rule counted_unat)

lemma reply_is_counted_witness:
  "\<exists>num st'. DAP_ProcessCommand still_wire (\<lambda>_. 0) [0x00, 0xFE] (still_start True) = Some ([0, 1, 2], num, st')
    \<and> unat (ucast num :: u16) = 3"
proof -
  have r: "DAP_ProcessCommand still_wire (\<lambda>_. 0) [0x00, 0xFE] (still_start True)
      = Some ([0, 1, 2], push_bit 16 2 + 2 + 1, still_start True)"
    by (simp add: DAP_ProcessCommand_def rd_def command_ids DAP_Info_def DAP_PACKET_COUNT_def Let_def)
  from reply_is_counted [OF r] r show ?thesis by simp
qed

text \<open>
  C12. A request that executes several commands runs them in order, each on the state the one before
  left, answers their responses one after the other behind the command number and the count, and counts
  the bytes of both, provided the responses fit the buffer.
\<close>

theorem commands_run_in_order:
  assumes "command_chain W junk st xs" and "length xs < 256"
    and "2 + length (responses xs) \<le> cap" and "cap < 65536"
  shows "DAP_ExecuteCommand W junk cap (0x7F # of_nat (length xs) # requests xs @ rest) st
    = Some (0x7F # of_nat (length xs) # responses xs,
            halves (2 + length (requests xs)) (2 + length (responses xs)), chain_end st xs)"
proof -
  have "unat (of_nat (length xs) :: u8) = length xs" using assms(2) by (rule unat_of_nat_u8)
  moreover have "push_bit 16 2 OR 2 = halves 2 (length [0x7F :: u8, of_nat (length xs)])"
    unfolding one_one by (simp add: numeral_2_eq_2)
  ultimately show ?thesis
    using execute_chain [OF assms(1), of "[0x7F, of_nat (length xs)]" cap rest 2] assms(3,4)
    by (simp add: DAP_ExecuteCommand_def rd_def ID_DAP_ExecuteCommands_def del: push_bit_numeral)
qed

lemma commands_run_in_order_witness:
  "\<exists>num st'. DAP_ExecuteCommand still_wire (\<lambda>_. 0) 512 [0x7F, 2, 0x11, 0, 0, 0, 0, 0x80] (still_start True)
    = Some ([0x7F, 2, 0x11, 0xFF, 0x80], num, st')"
proof -
  let ?xs = "[([0x11, 0, 0, 0, 0], [0x11, 0xFF], still_start True), ([0x80], [0x80], still_start True)]"
  have "command_chain still_wire (\<lambda>_. 0) (still_start True) ?xs"
    by (simp add: runs_as_def DAP_ProcessCommand_def rd_def rd32_def le32_def command_ids dap_handler_def DAP_SWJ_Clock_def
        DAP_ERROR_def DAP_ProcessVendorCommand_def halves_eq)
  from commands_run_in_order [OF this, of 512 "[]"] show ?thesis by (simp add: requests_def responses_def)
qed

text \<open>
  C17. A block read that the protocol allows overruns the response buffer: with a debug port that answers,
  a read of n words runs without writing out of bounds of the 512-byte buffer only if n is at most 127.
\<close>

theorem block_read_overruns:
  assumes "posted_port (SWD_Transfer W) up regs rbuf get put busy limit"
    and "up (dap_swd st)" "limit \<le> unat (retry_count (dap_dd st))" "debug_port (dap_dd st) = 1"
    and "reg_ok (Read_Reg rq)" "0 < n" "n < 65536"
  shows "DAP_ExecuteCommand W junk DAP_PACKET_SIZE (0x06 # idx # lo8 (of_nat n) # hi8 (of_nat n) # rq # rest) st = None
    \<longleftrightarrow> 127 < n"
proof -
  obtain vs mk d where run: "reg_run get put (replicate n (Read_Reg rq)) (0, regs (dap_swd st)) = (vs, mk, d)"
    by (metis prod_cases3)
  obtain st' where b: "DAP_TransferBlock (SWD_Transfer W) junk (idx # lo8 (of_nat n) # hi8 (of_nat n) # rq # rest) st
      = Some ([of_nat n, of_nat (n div 256), 1] @ concat (map bytes32 vs), halves 4 (3 + 4 * n), st')"
    using block_in_order(1) [OF assms(1-4) assms(5-7) run] by blast
  have "length vs = n" using length_reg_run [OF run] by simp
  moreover have "length (concat (map bytes32 vs)) = 4 * length vs" by (induction vs) simp_all
  ultimately have len: "length (concat (map bytes32 vs)) = 4 * n" by simp
  show ?thesis
    using b len by (simp add: DAP_ExecuteCommand_def DAP_ProcessCommand_def rd_def command_ids dap_handler_def
        DAP_PACKET_SIZE_def)
qed

lemma block_read_overruns_witness:
  "DAP_ExecuteCommand (target_wire 2) (\<lambda>_. 0) DAP_PACKET_SIZE [0x06, 0, 128, 0, 0x0F] demo_dap = None"
proof -
  have b: "lo8 128 = 128" "hi8 128 = 0" by code_simp+
  show ?thesis
    using block_read_overruns [OF target_port.posted_port_axioms demo_up(1,2,3), of "0x0F" 128 "\<lambda>_. 0" 0 "[]"]
    by (simp add: b)
qed

text \<open>
  Every request whose command number the unit does not implement, the abort and queue commands of
  the protocol among them, is answered with the single byte 0xFF and consumes one byte; nothing changes.
\<close>

theorem unknown_command_invalid:
  assumes "ident \<notin> {0, 1, 2, 3, 4, 5, 6, 8, 9, 0xA, 0x10, 0x11, 0x12, 0x13, 0x14, 0x15, 0x16, 0x1D, 0x7F}"
    and "\<not> (0x80 \<le> ident \<and> ident \<le> 0x9F)" and "0 < cap"
  shows "DAP_ExecuteCommand W junk cap (ident # rest) st = Some ([0xFF], halves 1 1, st)"
proof -
  have "(if 0x80 \<le> ident \<and> ident \<le> 0x9F then x else y) = y" for x y :: "'a handled"
    using assms(2) by (rule if_not_P)
  then show ?thesis
    using assms(1,3) one_one(1)
    by (simp add: DAP_ExecuteCommand_def DAP_ProcessCommand_def rd_def command_ids dap_handler_def)
qed

lemma unknown_command_invalid_witness:
  "DAP_ExecuteCommand still_wire (\<lambda>_. 0) 512 [ID_DAP_TransferAbort] (still_start True) = Some ([0xFF], halves 1 1, still_start True)
   \<and> DAP_ExecuteCommand still_wire (\<lambda>_. 0) 512 [ID_DAP_QueueCommands, 1] (still_start True) = Some ([0xFF], halves 1 1, still_start True)"
  using unknown_command_invalid [of 7 512 still_wire "\<lambda>_. 0" "[]" "still_start True"] unknown_command_invalid [of "0x7E" 512 still_wire "\<lambda>_. 0" "[1]" "still_start True"]
  by (simp add: ID_DAP_TransferAbort_def ID_DAP_QueueCommands_def)

end
