(* ===== verification/Dap_Thread.thy ===== *)
theory Dap_Thread
  imports Usb_Dap Dap_Command
begin

text \<open>
  The engine thread (\<^verbatim>\<open>dap_engine_entry\<close> in \<^verbatim>\<open>applications/dap_engine.c\<close>): it takes the requests of the
  ring in order, executes each with the command processor and sends the response over interface 1.
  What is proved is the way from the OUT packets of the host to the responses it reads.
\<close>

section \<open>The thread\<close>

text \<open>
  The statics of \<^verbatim>\<open>usb_if_dap.c\<close> and \<^verbatim>\<open>dap_engine.c\<close>, and the debug unit.  The first element of the
  script is what interrupts the execution of the command, the elements behind it what interrupts the
  delays of the send; \<open>wr\<close> is the verdict of \<^verbatim>\<open>usbd_ep_start_write\<close>.  A command that never returns
  or that leaves its buffers is \<open>None\<close>.
\<close>

record 't dap_unit =
  du_usb :: usb_if_dap
  du_dap :: "'t dap"

definition on_engine :: "(dap_engine \<Rightarrow> dap_engine) \<Rightarrow> usb_if_dap \<Rightarrow> usb_if_dap" where
  "on_engine f s = s\<lparr> dap_eng := f (dap_eng s) \<rparr>"

definition dap_engine_step ::
  "'t wire \<Rightarrow> ('t dap \<Rightarrow> u32) \<Rightarrow> nat \<Rightarrow> (u8 list \<Rightarrow> int) \<Rightarrow> 't dap_unit \<Rightarrow> dap_event list list
    \<Rightarrow> ('t dap_unit \<times> dap_event list list) option" where
  "dap_engine_step W junk mps wr u script =
    (let s = du_usb u; e = dap_eng s; slot = s_req e (unat (s_req_tail e)) in
     case DAP_ExecuteCommand W junk DAP_PACKET_SIZE (slot_buf slot) (du_dap u) of
       None \<Rightarrow> None
     | Some (resp, r, st) \<Rightarrow>
         (let s = fold (dap_isr mps) (case script of [] \<Rightarrow> [] | es # _ \<Rightarrow> es) s;
              s = on_engine (\<lambda>e. e\<lparr> s_resp := resp @ drop (length resp) (s_resp e) \<rparr>) s;
              resp_len = unat (r AND 0xFFFF);
              (s, script) =
                (if 0 < resp_len
                 then (case usb_if_dap_send mps (wr (take resp_len (s_resp (dap_eng s))))
                          (Some (s_resp (dap_eng s))) resp_len s (tl script) of
                        (ret, s, script) \<Rightarrow> (on_engine (\<lambda>e. e\<lparr> s_last_send_ret := ret \<rparr>) s, script))
                 else (s, tl script));
              s = on_engine (\<lambda>e. req_release (e\<lparr> s_req_processed := s_req_processed e + 1 \<rparr>)) s
          in Some (u\<lparr> du_usb := s, du_dap := st \<rparr>, script)))"

text \<open>\<^verbatim>\<open>while (s_req_tail != s_req_head) ...\<close>\<close>

partial_function (option) dap_engine_drain ::
  "'t wire \<Rightarrow> ('t dap \<Rightarrow> u32) \<Rightarrow> nat \<Rightarrow> (u8 list \<Rightarrow> int) \<Rightarrow> 't dap_unit \<Rightarrow> dap_event list list
    \<Rightarrow> ('t dap_unit \<times> dap_event list list) option" where
  "dap_engine_drain W junk mps wr u script =
    (if s_req_tail (dap_eng (du_usb u)) = s_req_head (dap_eng (du_usb u)) then Some (u, script)
     else (case dap_engine_step W junk mps wr u script of
         None \<Rightarrow> None
       | Some (u, script) \<Rightarrow> dap_engine_drain W junk mps wr u script))"

text \<open>One round of the outer loop, when the semaphore is up; else the thread goes on waiting.\<close>

definition dap_engine_entry ::
  "'t wire \<Rightarrow> ('t dap \<Rightarrow> u32) \<Rightarrow> nat \<Rightarrow> (u8 list \<Rightarrow> int) \<Rightarrow> 't dap_unit \<Rightarrow> dap_event list list
    \<Rightarrow> ('t dap_unit \<times> dap_event list list) option" where
  "dap_engine_entry W junk mps wr u script =
    (if s_dap_sem (dap_eng (du_usb u)) = 0 then Some (u, script)
     else dap_engine_drain W junk mps wr
            (u\<lparr> du_usb := on_engine (\<lambda>e. e\<lparr> s_dap_sem := s_dap_sem e - 1 \<rparr>) (du_usb u) \<rparr>) script)"

section \<open>What a request is answered with\<close>

lemma execute_commands_counted:
  "execute_commands W junk cap n req resp num st = Some (resp', num', st') \<Longrightarrow> counted resp num \<Longrightarrow>
   length resp \<le> cap \<Longrightarrow> cap < 65536 \<Longrightarrow> counted resp' num' \<and> length resp' \<le> cap"
proof (induction n arbitrary: req resp num st)
  case (Suc n)
  obtain r k st1 where p: "DAP_ProcessCommand W junk req st = Some (r, k, st1)"
    and fit: "\<not> cap < length resp + length r"
    and go: "execute_commands W junk cap n (drop (unat (ucast (drop_bit 16 k) :: u16)) req)
      (resp @ take (unat (ucast k :: u16)) r) (num + k) st1 = Some (resp', num', st')"
    using Suc.prems(1) by (auto split: bind_splits if_splits)
  have k: "counted r k" by (rule process_counted [OF p])
  have "unat (ucast k :: u16) = length r" using counted_unat [OF k] fit Suc.prems(4) by simp
  then have all: "take (unat (ucast k :: u16)) r = r" by simp
  have "counted (resp @ r) (num + k)"
    using take_bit_add_cong [of num "of_nat (length resp)" k "of_nat (length r)"] k Suc.prems(2)
    by (simp add: counted_def)
  then show ?case using Suc.IH [OF go [unfolded all]] fit Suc.prems(4) by simp
qed simp

lemma execute_counted:
  assumes "DAP_ExecuteCommand W junk DAP_PACKET_SIZE req st = Some (resp, num, st')"
  shows "unat (num AND 0xFFFF) = length resp" and "length resp \<le> DAP_PACKET_SIZE"
proof -
  have c: "counted resp num \<and> length resp \<le> DAP_PACKET_SIZE"
  proof -
    obtain ident where i: "rd req 0 = Some ident" using assms by (cases "rd req 0") (auto simp: DAP_ExecuteCommand_def)
    show ?thesis
    proof (cases "ident = ID_DAP_ExecuteCommands")
      case True
      then obtain cnt where "execute_commands W junk DAP_PACKET_SIZE (unat cnt) (drop 2 req) [ident, cnt] (push_bit 16 2 OR 2) st
          = Some (resp, num, st')"
        using assms i by (auto simp: DAP_ExecuteCommand_def split: bind_splits)
      moreover have "counted [ident, cnt] (push_bit 16 2 OR 2)" for cnt :: u8 by (simp add: counted_def)
      ultimately show ?thesis using execute_commands_counted by (fastforce simp: DAP_PACKET_SIZE_def)
    next
      case False
      then show ?thesis
        using assms i process_counted [of W junk req st resp num st']
        by (auto simp: DAP_ExecuteCommand_def split: bind_splits if_splits)
    qed
  qed
  then show "length resp \<le> DAP_PACKET_SIZE" by simp
  have "unat (take_bit 16 num) = take_bit 16 (unat (of_nat (length resp) :: u32))"
    using c by (simp only: counted_def unsigned_take_bit_eq)
  moreover have "num AND 0xFFFF = take_bit 16 num" by (simp add: take_bit_eq_mask mask_eq_exp_minus_1)
  ultimately show "unat (num AND 0xFFFF) = length resp"
    using c by (simp add: DAP_PACKET_SIZE_def unat_of_nat_u32 take_bit_nat_eq_self_iff)
qed

text \<open>
  A request that the unit answers in a state, whatever earlier requests have left in the rest of the
  slot.
\<close>

definition serves :: "'t wire \<Rightarrow> ('t dap \<Rightarrow> u32) \<Rightarrow> 't dap \<Rightarrow> u8 list \<Rightarrow> u8 list \<Rightarrow> 't dap \<Rightarrow> bool" where
  "serves W junk st req resp st' \<longleftrightarrow> 0 < length req \<and> length req \<le> DAP_PACKET_SIZE \<and> 0 < length resp
     \<and> (\<forall>old. length (req @ old) = DAP_PACKET_SIZE \<longrightarrow>
          (\<exists>num. DAP_ExecuteCommand W junk DAP_PACKET_SIZE (req @ old) st = Some (resp, num, st')))"

text \<open>
  An exchange: a request, its response, the state of the unit after it, and the packets the host
  writes while the command runs and while the response is on its way.
\<close>

record 't exchange =
  x_req :: "u8 list"
  x_resp :: "u8 list"
  x_dap :: "'t dap"
  x_during :: "u8 list list"
  x_after :: "u8 list list"

fun exchange_chain :: "'t wire \<Rightarrow> ('t dap \<Rightarrow> u32) \<Rightarrow> 't dap \<Rightarrow> 't exchange list \<Rightarrow> bool" where
  "exchange_chain W junk st [] \<longleftrightarrow> True"
| "exchange_chain W junk st (x # xs) \<longleftrightarrow>
     serves W junk st (x_req x) (x_resp x) (x_dap x) \<and> exchange_chain W junk (x_dap x) xs"

text \<open>
  The host never has more than two requests in the ring, the one whose response it is taking counted.
\<close>

fun paced :: "nat \<Rightarrow> 't exchange list \<Rightarrow> bool" where
  "paced q [] \<longleftrightarrow> q = 0"
| "paced q (x # xs) \<longleftrightarrow> 0 < q \<and> q + length (x_during x @ x_after x) \<le> DAP_PACKET_COUNT
     \<and> paced (q - 1 + length (x_during x @ x_after x)) xs"

definition exchange_script :: "nat \<Rightarrow> 't exchange list \<Rightarrow> dap_event list list" where
  "exchange_script mps xs = concat (map (\<lambda>x. map Dap_Out (x_during x) #
     dap_host_takes mps (length (x_resp x)) (x_after x)) xs)"

definition arrivals :: "'t exchange list \<Rightarrow> u8 list list" where
  "arrivals xs = concat (map (\<lambda>x. x_during x @ x_after x) xs)"

definition response_writes :: "nat \<Rightarrow> 't exchange list \<Rightarrow> u8 list list" where
  "response_writes mps xs = concat (map (\<lambda>x. x_resp x # (if length (x_resp x) mod mps = 0 then [[]] else [])) xs)"

lemma on_engine_fields [simp]:
  "dap_tx_busy (on_engine f s) = dap_tx_busy s" "dap_busid (on_engine f s) = dap_busid s"
  "dap_eng (on_engine f s) = f (dap_eng s)" "dap_writes (on_engine f s) = dap_writes s"
  "dap_out_buf (on_engine f s) = dap_out_buf s" "dap_in_buf (on_engine f s) = dap_in_buf s"
  by (simp_all add: on_engine_def dap_writes_def)

lemma on_engine_ok:
  assumes "\<And>e. s_req (f e) = s_req e \<and> s_req_head (f e) = s_req_head e \<and> s_req_tail (f e) = s_req_tail e"
  shows "usb_dap_ok (on_engine f s) = usb_dap_ok s" and "pending (on_engine f s) = pending s"
  using req_slots_cong [of "f (dap_eng s)" "dap_eng s"] assms by (simp_all add: usb_dap_ok_def pending_def)

lemma on_engine_comp: "on_engine f (on_engine g s) = on_engine (\<lambda>e. f (g e)) s"
  by (simp add: on_engine_def)

lemma dap_release_pending:
  assumes "usb_dap_ok s" and "pending s = r # q"
  shows "usb_dap_ok (on_engine req_release s) \<and> pending (on_engine req_release s) = q"
proof -
  have inv: "engine_inv (dap_eng s)" "req_slots (dap_eng s) \<noteq> []"
    using assms by (auto simp: usb_dap_ok_def engine_ok_def pending_def)
  have "\<forall>i. length (slot_buf (s_req (req_release (dap_eng s)) i)) = DAP_PACKET_SIZE"
    using assms(1) by (simp add: usb_dap_ok_def engine_ok_def req_release_def)
  then show ?thesis
    using req_release_slots [OF inv] assms by (auto simp: usb_dap_ok_def engine_ok_def pending_def)
qed

lemma dap_front:
  assumes "usb_dap_ok s" and "pending s = r # q"
  shows "slot_buf (s_req (dap_eng s) (unat (s_req_tail (dap_eng s)))) = r
      @ drop (length r) (slot_buf (s_req (dap_eng s) (unat (s_req_tail (dap_eng s)))))"
    and "length (slot_buf (s_req (dap_eng s) (unat (s_req_tail (dap_eng s))))) = DAP_PACKET_SIZE"
    and "s_req_tail (dap_eng s) \<noteq> s_req_head (dap_eng s)"
proof -
  have inv: "engine_inv (dap_eng s)" "req_slots (dap_eng s) \<noteq> []"
    using assms by (auto simp: usb_dap_ok_def engine_ok_def pending_def)
  have "slot_request (s_req (dap_eng s) (unat (s_req_tail (dap_eng s)))) = r"
    using req_release_slots(1) [OF inv] assms(2) by (auto simp: pending_def)
  then show "slot_buf (s_req (dap_eng s) (unat (s_req_tail (dap_eng s)))) = r
      @ drop (length r) (slot_buf (s_req (dap_eng s) (unat (s_req_tail (dap_eng s)))))"
    by (auto simp: slot_request_def min_def)
  show "length (slot_buf (s_req (dap_eng s) (unat (s_req_tail (dap_eng s))))) = DAP_PACKET_SIZE"
    using assms(1) by (simp add: usb_dap_ok_def engine_ok_def)
  show "s_req_tail (dap_eng s) \<noteq> s_req_head (dap_eng s)" using req_empty_iff inv by blast
qed

text \<open>
  One pass of the loop body over a request that is served, while the packets \<open>ds\<close> come during the
  command and the packets \<open>es\<close> with the response; whether they find room is left open.
\<close>

definition after_command :: "u8 list \<Rightarrow> nat \<Rightarrow> u8 list list \<Rightarrow> usb_if_dap \<Rightarrow> usb_if_dap" where
  "after_command resp mps ds s =
    on_engine (\<lambda>e. e\<lparr> s_resp := resp @ drop (length resp) (s_resp e) \<rparr>) (fold (dap_isr mps) (map Dap_Out ds) s)"

definition after_send :: "usb_if_dap \<Rightarrow> usb_if_dap" where
  "after_send s = on_engine req_release
     (on_engine (\<lambda>e. e\<lparr> s_last_send_ret := 0, s_req_processed := s_req_processed e + 1 \<rparr>) s)"

lemma after_command_fields:
  "usb_dap_ok (after_command resp mps ds s) = usb_dap_ok (fold (dap_isr mps) (map Dap_Out ds) s)"
  "pending (after_command resp mps ds s) = pending (fold (dap_isr mps) (map Dap_Out ds) s)"
  "dap_tx_busy (after_command resp mps ds s) = dap_tx_busy s"
  "dap_writes (after_command resp mps ds s) = dap_writes (fold (dap_isr mps) (map Dap_Out ds) s)"
  "s_req_dropped (dap_eng (after_command resp mps ds s)) = s_req_dropped (dap_eng (fold (dap_isr mps) (map Dap_Out ds) s))"
  "take (length resp) (s_resp (dap_eng (after_command resp mps ds s))) = resp"
  "length resp \<le> length (s_resp (dap_eng (after_command resp mps ds s)))"
  by (simp_all add: after_command_def on_engine_ok dap_out_busy)

lemma after_send_fields:
  assumes "usb_dap_ok s" and "pending s = r # q"
  shows "usb_dap_ok (after_send s) \<and> pending (after_send s) = q \<and> dap_tx_busy (after_send s) = dap_tx_busy s
    \<and> dap_writes (after_send s) = dap_writes s \<and> s_req_dropped (dap_eng (after_send s)) = s_req_dropped (dap_eng s)"
proof -
  let ?s = "on_engine (\<lambda>e. e\<lparr> s_last_send_ret := 0, s_req_processed := s_req_processed e + 1 \<rparr>) s"
  have "usb_dap_ok ?s" "pending ?s = r # q" using assms by (simp_all add: on_engine_ok)
  from dap_release_pending [OF this] show ?thesis by (simp add: after_send_def req_release_def)
qed

lemma serves_length: "serves W junk st req resp st' \<Longrightarrow> 0 < length resp \<and> length resp \<le> EXLINK_BULK_MPS"
proof -
  assume s: "serves W junk st req resp st'"
  then have "length (req @ replicate (DAP_PACKET_SIZE - length req) 0) = DAP_PACKET_SIZE" by (simp add: serves_def)
  then show ?thesis
    using s execute_counted(2) unfolding serves_def by (fastforce simp: EXLINK_BULK_MPS_def DAP_PACKET_SIZE_def)
qed

lemma dap_engine_step_served:
  fixes u :: "'t dap_unit"
  defines "s \<equiv> \<lambda>resp mps ds. after_command resp mps ds (du_usb u)"
  assumes "usb_dap_ok (du_usb u)" and "\<not> dap_tx_busy (du_usb u)" and "pending (du_usb u) = req # q"
    and "serves W junk (du_dap u) req resp st" and "\<forall>d. 0 \<le> wr d"
  shows "dap_engine_step W junk mps wr u (map Dap_Out ds # dap_host_takes mps (length resp) es @ rest) =
    Some (u\<lparr> du_usb := after_send (dap_taken mps (s_resp (dap_eng (s resp mps ds))) (length resp) es (s resp mps ds)),
             du_dap := st \<rparr>, rest)"
proof -
  let ?slot = "s_req (dap_eng (du_usb u)) (unat (s_req_tail (dap_eng (du_usb u))))"
  obtain num where ex: "DAP_ExecuteCommand W junk DAP_PACKET_SIZE (slot_buf ?slot) (du_dap u) = Some (resp, num, st)"
    using dap_front [OF assms(2,4)] assms(5) unfolding serves_def by metis
  define s2 where "s2 = s resp mps ds"
  have all: "take (length resp) (s_resp (dap_eng s2)) = resp" by (simp add: s2_def s_def after_command_fields)
  have "usb_if_dap_send mps (wr resp) (Some (s_resp (dap_eng s2))) (length resp) s2
      (dap_host_takes mps (length resp) es @ rest) = (0, dap_taken mps (s_resp (dap_eng s2)) (length resp) es s2, rest)"
    using assms(3,6) serves_length [OF assms(5)]
    by (intro dap_send_taken) (simp_all add: s2_def s_def after_command_fields)
  moreover have "s2 = on_engine (\<lambda>e. e\<lparr> s_resp := resp @ drop (length resp) (s_resp e) \<rparr>) (fold (dap_isr mps) (map Dap_Out ds) (du_usb u))"
    by (simp add: s2_def s_def after_command_def)
  ultimately show ?thesis
    unfolding dap_engine_step_def s2_def [symmetric]
    using ex execute_counted(1) [OF ex] all serves_length [OF assms(5)]
    by (simp add: Let_def after_send_def on_engine_comp)
qed

text \<open>One exchange is one pass of the loop body.\<close>

lemma dap_engine_step_exchange:
  assumes "usb_dap_ok (du_usb u)" and "\<not> dap_tx_busy (du_usb u)" and "pending (du_usb u) = x_req x # q"
    and "serves W junk (du_dap u) (x_req x) (x_resp x) (x_dap x)"
    and "Suc (length q) + length (x_during x @ x_after x) \<le> DAP_PACKET_COUNT"
    and "\<forall>d \<in> set (x_during x @ x_after x). 0 < length d \<and> length d \<le> EXLINK_BULK_MPS"
    and "\<forall>d. 0 \<le> wr d"
  shows "\<exists>u'. dap_engine_step W junk mps wr u (exchange_script mps (x # xs) @ rest) = Some (u', exchange_script mps xs @ rest)
    \<and> usb_dap_ok (du_usb u') \<and> \<not> dap_tx_busy (du_usb u') \<and> pending (du_usb u') = q @ x_during x @ x_after x
    \<and> du_dap u' = x_dap x \<and> s_req_dropped (dap_eng (du_usb u')) = s_req_dropped (dap_eng (du_usb u))
    \<and> dap_writes (du_usb u') = dap_writes (du_usb u) @ response_writes mps [x]"
proof -
  define s2 where "s2 = after_command (x_resp x) mps (x_during x) (du_usb u)"
  define s3 where "s3 = dap_taken mps (s_resp (dap_eng s2)) (length (x_resp x)) (x_after x) s2"
  note f = after_command_fields [where s = "du_usb u" and resp = "x_resp x" and mps = mps and ds = "x_during x", folded s2_def]
  note len = serves_length [OF assms(4)]
  have s2: "usb_dap_ok s2" "pending s2 = x_req x # q @ x_during x" "dap_writes s2 = dap_writes (du_usb u)"
    "s_req_dropped (dap_eng s2) = s_req_dropped (dap_eng (du_usb u))"
    using dap_outs_accepted [OF assms(1), of "x_during x" mps] assms(3,5,6) f by simp_all
  have s3: "usb_dap_ok s3" "pending s3 = x_req x # q @ x_during x @ x_after x" "\<not> dap_tx_busy s3"
    "dap_writes s3 = dap_writes s2 @ response_writes mps [x]" "s_req_dropped (dap_eng s3) = s_req_dropped (dap_eng s2)"
    using dap_taken_result [OF s2(1), of "length (x_resp x)" "s_resp (dap_eng s2)" "x_after x" mps] len f(6,7) s2(2) assms(5,6)
    by (simp_all add: s3_def response_writes_def)
  have script: "exchange_script mps (x # xs) @ rest = map Dap_Out (x_during x) #
      dap_host_takes mps (length (x_resp x)) (x_after x) @ exchange_script mps xs @ rest"
    by (simp add: exchange_script_def)
  show ?thesis
    unfolding script dap_engine_step_served [OF assms(1-4,7)]
    using after_send_fields [OF s3(1,2)] s2 s3 by (simp add: s3_def s2_def)
qed

lemma dap_engine_drain_exchanges:
  assumes "usb_dap_ok (du_usb u)" and "\<not> dap_tx_busy (du_usb u)"
    and "pending (du_usb u) @ arrivals xs = map x_req xs" and "paced (length (pending (du_usb u))) xs"
    and "exchange_chain W junk (du_dap u) xs" and "\<forall>d. 0 \<le> wr d"
  shows "\<exists>u'. dap_engine_drain W junk mps wr u (exchange_script mps xs @ rest) = Some (u', rest)
    \<and> usb_dap_ok (du_usb u') \<and> \<not> dap_tx_busy (du_usb u') \<and> pending (du_usb u') = []
    \<and> du_dap u' = last (du_dap u # map x_dap xs)
    \<and> s_req_dropped (dap_eng (du_usb u')) = s_req_dropped (dap_eng (du_usb u))
    \<and> dap_writes (du_usb u') = dap_writes (du_usb u) @ response_writes mps xs"
  using assms
proof (induction xs arbitrary: u)
  case Nil
  then have "pending (du_usb u) = []" by simp
  then have "s_req_tail (dap_eng (du_usb u)) = s_req_head (dap_eng (du_usb u))"
    using Nil.prems(1) req_empty_iff by (auto simp: usb_dap_ok_def engine_ok_def pending_def)
  with Nil.prems show ?case
    by (subst dap_engine_drain.simps) (simp add: exchange_script_def response_writes_def)
next
  case (Cons x xs)
  obtain q where q: "pending (du_usb u) = x_req x # q"
    using Cons.prems(3,4) by (cases "pending (du_usb u)") auto
  have reqs: "q @ x_during x @ x_after x @ arrivals xs = map x_req xs"
    using Cons.prems(3) q by (simp add: arrivals_def)
  have sizes: "0 < length d \<and> length d \<le> EXLINK_BULK_MPS" if "d \<in> x_req ` set ys" "exchange_chain W junk st ys" for d ys st
    using that by (induction ys arbitrary: st) (auto simp: serves_def EXLINK_BULK_MPS_def DAP_PACKET_SIZE_def)
  have "set (x_during x @ x_after x) \<subseteq> x_req ` set xs" using arg_cong [OF reqs, of set] by auto
  then have "\<forall>d \<in> set (x_during x @ x_after x). 0 < length d \<and> length d \<le> EXLINK_BULK_MPS"
    using sizes [of _ xs "x_dap x"] Cons.prems(5) by (simp only: exchange_chain.simps) blast
  moreover have "serves W junk (du_dap u) (x_req x) (x_resp x) (x_dap x)"
    "Suc (length q) + length (x_during x @ x_after x) \<le> DAP_PACKET_COUNT"
    using Cons.prems(4,5) q by simp_all
  ultimately obtain u1 where step: "dap_engine_step W junk mps wr u (exchange_script mps (x # xs) @ rest) = Some (u1, exchange_script mps xs @ rest)"
    and u1: "usb_dap_ok (du_usb u1)" "\<not> dap_tx_busy (du_usb u1)" "pending (du_usb u1) = q @ x_during x @ x_after x"
      "du_dap u1 = x_dap x" "s_req_dropped (dap_eng (du_usb u1)) = s_req_dropped (dap_eng (du_usb u))"
      "dap_writes (du_usb u1) = dap_writes (du_usb u) @ response_writes mps [x]"
    using dap_engine_step_exchange [OF Cons.prems(1,2) q _ _ _ Cons.prems(6)] by blast
  have drain: "dap_engine_drain W junk mps wr u (exchange_script mps (x # xs) @ rest)
      = dap_engine_drain W junk mps wr u1 (exchange_script mps xs @ rest)"
    using dap_front(3) [OF Cons.prems(1) q] step by (subst dap_engine_drain.simps) simp
  show ?case
    unfolding drain using Cons.IH [of u1] u1 reqs Cons.prems(4-6) q by (simp add: response_writes_def)
qed

section \<open>What the host reads\<close>

lemma host_transfers_responses:
  assumes "0 < mps" and "\<forall>x \<in> set xs. 0 < length (x_resp x)"
  shows "host_transfers mps 0 (concat (map (usb_packets mps \<circ> length) (response_writes mps xs))) = map (length \<circ> x_resp) xs"
  using assms(2)
proof (induction xs)
  case (Cons x xs)
  let ?n = "length (x_resp x)"
  have calc: "concat (map (usb_packets mps \<circ> length) (response_writes mps (x # xs))) =
      replicate (?n div mps) mps @ (?n mod mps) # concat (map (usb_packets mps \<circ> length) (response_writes mps xs))"
    using Cons.prems by (simp add: response_writes_def usb_packets_def)
  have "?n mod mps < mps" using assms(1) by simp
  then show ?case using Cons unfolding calc by (simp add: host_transfers_full comp_def)
qed (simp add: response_writes_def)

lemma response_writes_filter:
  "\<forall>x \<in> set xs. 0 < length (x_resp x) \<Longrightarrow> filter (\<lambda>w. w \<noteq> []) (response_writes mps xs) = map x_resp xs"
  by (induction xs) (auto simp: response_writes_def)

lemma exchange_chain_responses: "exchange_chain W junk st xs \<Longrightarrow> \<forall>x \<in> set xs. 0 < length (x_resp x)"
  by (induction xs arbitrary: st) (auto simp: serves_def)

text \<open>A packet that finds the ring full is counted and forgotten.\<close>

lemma dap_out_dropped:
  assumes "usb_dap_ok s" and "length (pending s) = DAP_PACKET_COUNT" and "0 < length d" and "length d \<le> EXLINK_BULK_MPS"
  shows "usb_dap_ok (dap_isr mps (Dap_Out d) s) \<and> pending (dap_isr mps (Dap_Out d) s) = pending s
    \<and> s_req_dropped (dap_eng (dap_isr mps (Dap_Out d) s)) = s_req_dropped (dap_eng s) + 1
    \<and> dap_writes (dap_isr mps (Dap_Out d) s) = dap_writes s"
proof -
  have "engine_inv (dap_eng s)" "length (req_slots (dap_eng s)) = DAP_PACKET_COUNT"
    using assms(1,2) by (simp_all add: usb_dap_ok_def engine_ok_def pending_def)
  note full = submit_full [OF this]
  let ?e = "(dap_eng s)\<lparr> s_req_dropped := s_req_dropped (dap_eng s) + 1 \<rparr>"
  have e: "req_slots ?e = req_slots (dap_eng s)" "engine_ok ?e = engine_ok (dap_eng s)"
    using req_slots_cong [of ?e "dap_eng s"] by simp_all
  show ?thesis
    using assms(1,3,4) e by (simp add: dap_out_cb_def full dap_call_def usb_dap_ok_def pending_def dap_writes_def Let_def)
qed

text \<open>A round of the thread over exchanges.\<close>

lemma entry_exchanges:
  assumes "usb_dap_ok (du_usb u)" and "\<not> dap_tx_busy (du_usb u)" and "0 < s_dap_sem (dap_eng (du_usb u))"
    and "pending (du_usb u) @ arrivals xs = map x_req xs" and "paced (length (pending (du_usb u))) xs"
    and "exchange_chain W junk (du_dap u) xs" and "\<forall>d. 0 \<le> wr d"
  obtains u' where "dap_engine_entry W junk mps wr u (exchange_script mps xs @ rest) = Some (u', rest)"
    "pending (du_usb u') = []" "du_dap u' = last (du_dap u # map x_dap xs)"
    "s_req_dropped (dap_eng (du_usb u')) = s_req_dropped (dap_eng (du_usb u))"
    "dap_writes (du_usb u') = dap_writes (du_usb u) @ response_writes mps xs"
proof -
  let ?u = "u\<lparr> du_usb := on_engine (\<lambda>e. e\<lparr> s_dap_sem := s_dap_sem e - 1 \<rparr>) (du_usb u) \<rparr>"
  have "usb_dap_ok (du_usb ?u)" "pending (du_usb ?u) = pending (du_usb u)" using assms(1) by (simp_all add: on_engine_ok)
  then show thesis
    using that dap_engine_drain_exchanges [of ?u xs W junk wr mps rest] assms(2-7) by (auto simp: dap_engine_entry_def)
qed

section \<open>Properties\<close>

text \<open>
  C2. A host that never has more than two requests in the ring, the one whose response it is taking
  counted, gets every one of them answered: the thread's loop ends with the ring empty, no request is
  dropped, the unit is in the state after the last request, and what the host reads is one transfer per
  request, in the order of the requests, holding exactly its response, whatever packets come while a
  command runs or while a response is on its way.
\<close>

theorem requests_served_in_order:
  assumes "usb_dap_ok (du_usb u)" and "\<not> dap_tx_busy (du_usb u)" and "0 < s_dap_sem (dap_eng (du_usb u))"
    and "pending (du_usb u) @ arrivals xs = map x_req xs" and "paced (length (pending (du_usb u))) xs"
    and "exchange_chain W junk (du_dap u) xs" and "\<forall>d. 0 \<le> wr d" and "0 < mps"
  shows "\<exists>u' ws. dap_engine_entry W junk mps wr u (exchange_script mps xs @ rest) = Some (u', rest)
    \<and> pending (du_usb u') = [] \<and> du_dap u' = last (du_dap u # map x_dap xs)
    \<and> s_req_dropped (dap_eng (du_usb u')) = s_req_dropped (dap_eng (du_usb u))
    \<and> dap_writes (du_usb u') = dap_writes (du_usb u) @ ws \<and> filter (\<lambda>w. w \<noteq> []) ws = map x_resp xs
    \<and> host_transfers mps 0 (concat (map (usb_packets mps \<circ> length) ws)) = map (length \<circ> x_resp) xs"
  using entry_exchanges [OF assms(1-7)] exchange_chain_responses [OF assms(6)] response_writes_filter
    host_transfers_responses [OF assms(8)] by metis

text \<open>The unit at power up, and an exchange of a vendor command and of the packet count.\<close>

definition still_unit :: "bool dap_unit" where
  "still_unit = (case usb_if_dap_add still_wire 0 (static_usb_dap, still_start True) of
     (s, st) \<Rightarrow> \<lparr> du_usb = usb_if_dap_on_configured 0 s, du_dap = st \<rparr>)"

lemma still_unit_ok:
  "usb_dap_ok (du_usb still_unit)" "pending (du_usb still_unit) = []" "\<not> dap_tx_busy (du_usb still_unit)"
  using start_engine_ok
  by (simp_all add: still_unit_def usb_if_dap_add_def usb_if_dap_on_configured_def static_usb_dap_def
      dap_call_def usb_dap_ok_def pending_def Let_def EXLINK_BULK_MPS_def)

lemma serves_simple:
  "serves W junk st [0x80] [0x80] st" "serves W junk st [0x00, 0xFE] [0x00, 1, 2] st"
  by (auto simp: serves_def DAP_PACKET_SIZE_def DAP_ExecuteCommand_def DAP_ProcessCommand_def rd_def command_ids
      DAP_ProcessVendorCommand_def DAP_Info_def DAP_PACKET_COUNT_def Let_def)

text \<open>The unit at power up after the host has written the packets \<open>ds\<close>.\<close>

definition written :: "u8 list list \<Rightarrow> bool dap_unit" where
  "written ds = still_unit\<lparr> du_usb := fold (dap_isr 512) (map Dap_Out ds) (du_usb still_unit) \<rparr>"

lemma written_ok:
  assumes "length ds \<le> DAP_PACKET_COUNT" and "\<forall>d \<in> set ds. 0 < length d \<and> length d \<le> EXLINK_BULK_MPS"
  shows "usb_dap_ok (du_usb (written ds))" "\<not> dap_tx_busy (du_usb (written ds))" "pending (du_usb (written ds)) = ds"
    "length ds \<le> s_dap_sem (dap_eng (du_usb (written ds)))"
  using dap_outs_accepted [OF still_unit_ok(1), of ds 512] assms still_unit_ok(2,3) dap_out_busy
  by (simp_all add: written_def)

lemma requests_served_in_order_witness:
  "\<exists>u' ws. dap_engine_entry still_wire (\<lambda>_. 0) 512 (\<lambda>_. 0) (written [[0x80], [0x00, 0xFE]])
      [[], [Dap_In 1], [], [Dap_In 3, Dap_Out [0x80]], [], [Dap_In 1]] = Some (u', [])
    \<and> filter (\<lambda>w. w \<noteq> []) ws = [[0x80], [0x00, 1, 2], [0x80]]
    \<and> dap_writes (du_usb u') = dap_writes (du_usb (written [[0x80], [0x00, 0xFE]])) @ ws"
proof -
  let ?u = "written [[0x80], [0x00, 0xFE]]" let ?st = "du_dap ?u"
  let ?xs = "[\<lparr> x_req = [0x80], x_resp = [0x80], x_dap = ?st, x_during = [], x_after = [] \<rparr>,
    \<lparr> x_req = [0x00, 0xFE], x_resp = [0x00, 1, 2], x_dap = ?st, x_during = [], x_after = [[0x80]] \<rparr>,
    \<lparr> x_req = [0x80], x_resp = [0x80], x_dap = ?st, x_during = [], x_after = [] \<rparr>]"
  note ok = written_ok [of "[[0x80], [0x00, 0xFE]]"]
  have "exchange_chain still_wire (\<lambda>_. 0) ?st ?xs" by (simp add: serves_simple)
  moreover have "exchange_script 512 ?xs @ [] = [[], [Dap_In 1], [], [Dap_In 3, Dap_Out [0x80]], [], [Dap_In 1]]"
    by (simp add: exchange_script_def dap_host_takes_def)
  moreover have "pending (du_usb ?u) @ arrivals ?xs = map x_req ?xs" "paced (length (pending (du_usb ?u))) ?xs"
    using ok by (simp_all add: arrivals_def DAP_PACKET_COUNT_def EXLINK_BULK_MPS_def)
  ultimately show ?thesis
    using requests_served_in_order [of ?u ?xs still_wire "\<lambda>_. 0" "\<lambda>_. 0" 512 "[]"] ok
    by (auto simp: DAP_PACKET_COUNT_def EXLINK_BULK_MPS_def)
qed

text \<open>
  C11. A host that keeps two requests outstanding, the packet count the unit reports, and writes the
  third when it has the response to the first loses it: the slot of the first request is given back only
  after the send has noticed its completion, so the ring is still full, the third request is dropped and
  only the second is left to answer.
\<close>

theorem pipelined_request_dropped:
  assumes "usb_dap_ok (du_usb u)" and "\<not> dap_tx_busy (du_usb u)" and "pending (du_usb u) = [r1, r2]"
    and "serves W junk (du_dap u) r1 resp st" and "0 < length r3" and "length r3 \<le> EXLINK_BULK_MPS"
    and "\<forall>d. 0 \<le> wr d"
  shows "DAP_Info 0xFE = [of_nat (length (pending (du_usb u)))]
    \<and> (\<exists>u'. dap_engine_step W junk mps wr u ([] # dap_host_takes mps (length resp) [r3] @ rest) = Some (u', rest)
      \<and> pending (du_usb u') = [r2]
      \<and> s_req_dropped (dap_eng (du_usb u')) = s_req_dropped (dap_eng (du_usb u)) + 1
      \<and> (\<exists>zlp. dap_writes (du_usb u') = dap_writes (du_usb u) @ resp # zlp))"
proof -
  define s2 where "s2 = after_command resp mps [] (du_usb u)"
  define s3 where "s3 = dap_taken mps (s_resp (dap_eng s2)) (length resp) [] s2"
  define s4 where "s4 = dap_taken mps (s_resp (dap_eng s2)) (length resp) [r3] s2"
  note f = after_command_fields [where s = "du_usb u" and resp = resp and mps = mps and ds = "[]", folded s2_def]
  have s3: "usb_dap_ok s3" "pending s3 = [r1, r2]" "s_req_dropped (dap_eng s3) = s_req_dropped (dap_eng (du_usb u))"
    "\<exists>zlp. dap_writes s3 = dap_writes (du_usb u) @ resp # zlp"
    using dap_taken_result [of s2 "length resp" "s_resp (dap_eng s2)" "[]" mps] serves_length [OF assms(4)] f assms(1,3)
    by (simp_all add: s3_def DAP_PACKET_COUNT_def)
  have s4: "s4 = dap_isr mps (Dap_Out r3) s3" by (simp add: s4_def s3_def dap_taken_def)
  have "length (pending s3) = DAP_PACKET_COUNT" using s3(2) by (simp add: DAP_PACKET_COUNT_def)
  note drop = dap_out_dropped [OF s3(1) this assms(5,6), of mps, folded s4]
  then have s4: "usb_dap_ok s4" "pending s4 = [r1, r2]" using s3 by simp_all
  have "\<exists>zlp. dap_writes (after_send s4) = dap_writes (du_usb u) @ resp # zlp"
    using after_send_fields [OF s4] drop s3(4) by simp
  moreover have "DAP_Info 0xFE = [of_nat (length (pending (du_usb u)))]"
    using assms(3) by (simp add: DAP_Info_def DAP_PACKET_COUNT_def)
  ultimately show ?thesis
    using dap_engine_step_served [OF assms(1-4,7), of mps "[]" "[r3]" rest] after_send_fields [OF s4] drop s3(3)
    by (simp add: s4_def s2_def)
qed

lemma pipelined_request_dropped_witness:
  "\<exists>u'. dap_engine_step still_wire (\<lambda>_. 0) 512 (\<lambda>_. 0) (written [[0x80], [0x00, 0xFE]]) [[], [Dap_In 1, Dap_Out [0x80]]]
      = Some (u', []) \<and> pending (du_usb u') = [[0x00, 0xFE]]"
  using pipelined_request_dropped [of "written [[0x80], [0x00, 0xFE]]" "[0x80]" "[0x00, 0xFE]" still_wire "\<lambda>_. 0"
      "[0x80]" "du_dap (written [[0x80], [0x00, 0xFE]])" "[0x80]" "\<lambda>_. 0" 512 "[]"]
    written_ok [of "[[0x80], [0x00, 0xFE]]"]
  by (auto simp: serves_simple DAP_PACKET_COUNT_def EXLINK_BULK_MPS_def dap_host_takes_def)

end
