(* ===== verification/Dap_Session.thy ===== *)
theory Dap_Session
  imports Dap_Thread Swd_Target
begin

text \<open>
  A debug session from end to end: a host writes transfer commands over USB, the OUT callback queues them,
  the engine thread executes them on the wire against a target, and the host reads the responses.  What is
  composed: the thread and its ring (\<open>Dap_Thread\<close>), the command processor (\<open>Dap_Command\<close>), posted
  transfers (\<open>Dap_Transfer\<close>), the SWD wire and the target (\<open>Swd_Target\<close>).
\<close>

section \<open>A command reads its own bytes only\<close>

text \<open>The rest of a ring slot holds bytes of earlier requests; what follows a command does not matter to it.\<close>

lemma rd_more: "rd req i = Some b \<Longrightarrow> rd (req @ junk_bytes) i = Some b"
  by (simp add: rd_def nth_append split: if_splits)

lemma rd32_more: "rd32 req i = Some w \<Longrightarrow> rd32 (req @ junk_bytes) i = Some w"
  by (auto simp: rd32_def rd_more split: bind_splits)

lemma read_request_more:
  "read_request xfer req rqv r = Some x \<Longrightarrow> read_request xfer (req @ junk_bytes) rqv r = Some x"
  by (auto simp: read_request_def rd32_more split: bind_splits prod.splits if_splits)

lemma write_request_more:
  "write_request xfer req rqv r = Some x \<Longrightarrow> write_request xfer (req @ junk_bytes) rqv r = Some x"
  by (auto simp: write_request_def rd32_more Let_def split: bind_splits prod.splits if_splits)

lemma transfer_loop_more:
  "transfer_loop xfer req n r = Some x \<Longrightarrow> transfer_loop xfer (req @ junk_bytes) n r = Some x"
proof (induction n arbitrary: r)
  case (Suc n)
  then show ?case
    by (auto simp: rd_more read_request_more write_request_more Let_def split: bind_splits if_splits)
qed simp

lemma cancel_loop_more: "cancel_loop req n pos = Some p \<Longrightarrow> cancel_loop (req @ junk_bytes) n pos = Some p"
  by (induction n arbitrary: pos) (auto simp: rd_more Let_def split: bind_splits)

lemma transfer_more:
  assumes "DAP_SWD_Transfer xfer junk req st = Some x"
  shows "DAP_SWD_Transfer xfer junk (req @ junk_bytes) st = Some x"
  using assms
  by (auto simp: DAP_SWD_Transfer_def rd_more transfer_loop_more cancel_loop_more Let_def split: bind_splits prod.splits)

lemma rd16_more: "rd16 req i = Some w \<Longrightarrow> rd16 (req @ junk_bytes) i = Some w"
  by (auto simp: rd16_def rd_more split: bind_splits)

lemma block_write_more:
  "block_write xfer req n rqv r = Some x \<Longrightarrow> block_write xfer (req @ junk_bytes) n rqv r = Some x"
  by (induction n arbitrary: r) (auto simp: rd32_more Let_def split: bind_splits if_splits)

lemma block_more:
  assumes "DAP_TransferBlock xfer junk req st = Some x"
  shows "DAP_TransferBlock xfer junk (req @ junk_bytes) st = Some x"
proof -
  have "DAP_SWD_TransferBlock xfer junk (req @ junk_bytes) st = Some y" if "DAP_SWD_TransferBlock xfer junk req st = Some y" for y
    using that
    by (auto simp: DAP_SWD_TransferBlock_def rd_more rd16_more block_write_more Let_def split: bind_splits prod.splits if_splits)
  then show ?thesis
    using assms by (auto simp: DAP_TransferBlock_def rd_more rd16_more split: bind_splits if_splits)
qed

text \<open>A block transfer leaves the settings of the unit alone.\<close>

lemma access_dd [simp]: "dap_dd (r_dap (r_access xfer rqv keep r)) = dap_dd (r_dap r)"
  by (simp add: r_access_def Let_def split: prod.splits)

lemma block_read_dd: "dap_dd (r_dap (block_read xfer n rqv r)) = dap_dd (r_dap r)"
  by (induction n arbitrary: rqv r) (simp_all add: Let_def r_store_def)

lemma block_write_dd: "block_write xfer req n rqv r = Some (go, r') \<Longrightarrow> dap_dd (r_dap r') = dap_dd (r_dap r)"
  by (induction n arbitrary: r) (auto simp: Let_def split: bind_splits if_splits)

lemma block_dd:
  assumes "DAP_TransferBlock xfer junk req st = Some (resp, num, st')"
  shows "dap_dd st' = dap_dd st"
proof -
  have "dap_dd st1 = dap_dd st" if "DAP_SWD_TransferBlock xfer junk req st = Some (resp1, num1, st1)" for resp1 num1 st1
    using that
    by (auto simp: DAP_SWD_TransferBlock_def Let_def block_read_dd dest!: block_write_dd split: bind_splits prod.splits if_splits)
  then show ?thesis using assms by (auto simp: DAP_TransferBlock_def split: bind_splits if_splits)
qed

section \<open>One command\<close>

text \<open>What a host asks for: a list of register operations, or one register a number of times.\<close>

datatype debug_request = Transfer "reg_op list" | Block u8 nat "u32 list"

fun request_bytes :: "debug_request \<Rightarrow> u8 list" where
  "request_bytes (Transfer ops) = [ID_DAP_Transfer, 0, of_nat (length ops)] @ concat (map reg_bytes ops)"
| "request_bytes (Block rq n ws) = [ID_DAP_TransferBlock, 0, lo8 (of_nat n), hi8 (of_nat n), rq] @ concat (map bytes32 ws)"

fun request_ops :: "debug_request \<Rightarrow> reg_op list" where
  "request_ops (Transfer ops) = ops"
| "request_ops (Block rq n ws) = block_ops rq n ws"

text \<open>The response to a request all of whose operations succeed, with the values of its reads.\<close>

fun response_bytes :: "debug_request \<Rightarrow> u32 list \<Rightarrow> u8 list" where
  "response_bytes (Transfer ops) vs = [ID_DAP_Transfer, of_nat (length ops), 1] @ concat (map bytes32 vs)"
| "response_bytes (Block rq n ws) vs = [ID_DAP_TransferBlock, of_nat n, of_nat (n div 256), 1] @ concat (map bytes32 vs)"

fun is_read :: "reg_op \<Rightarrow> bool" where
  "is_read (Read_Reg rq) \<longleftrightarrow> True"
| "is_read (Write_Reg rq v) \<longleftrightarrow> False"
| "is_read (Set_Mask rq v) \<longleftrightarrow> False"

fun request_wf :: "debug_request \<Rightarrow> bool" where
  "request_wf (Transfer ops) \<longleftrightarrow> ops \<noteq> [] \<and> length ops < 256 \<and> list_all reg_ok ops"
| "request_wf (Block rq n ws) \<longleftrightarrow> block_ok rq n ws"

text \<open>Request and response fit into a packet each.\<close>

definition request_ok :: "debug_request \<Rightarrow> bool" where
  "request_ok q \<longleftrightarrow> request_wf q \<and> length (request_bytes q) \<le> DAP_PACKET_SIZE
     \<and> 4 + 4 * length (filter is_read (request_ops q)) \<le> DAP_PACKET_SIZE"

lemma reg_run_values: "reg_run get put ops (mk, d) = (vs, mk', d') \<Longrightarrow> length vs = length (filter is_read ops)"
proof (induction get put ops "(mk, d)" arbitrary: mk d vs rule: reg_run.induct)
qed (auto split: prod.splits)

lemma response_fits:
  assumes "request_ok q" and "length vs = length (filter is_read (request_ops q))"
  shows "length (response_bytes q vs) \<le> DAP_PACKET_SIZE" "0 < length (response_bytes q vs)"
  using assms by (cases q; simp add: request_ok_def length_concat comp_def sum_list_triv)+

text \<open>The unit connected to a target that is up, and the state that the operations work on.\<close>

definition unit_ready :: "nat \<Rightarrow> target dap \<Rightarrow> bool" where
  "unit_ready lat st \<longleftrightarrow> target_up lat (dap_swd st) \<and> lat \<le> unat (retry_count (dap_dd st)) \<and> debug_port (dap_dd st) = 1"

definition unit_regs :: "target dap \<Rightarrow> u32 \<times> port" where
  "unit_regs st = (match_mask (dap_dd st), tg_port (on_wire (dap_swd st)))"

text \<open>Reads and writes leave the match mask alone.\<close>

fun sets_mask :: "reg_op \<Rightarrow> bool" where
  "sets_mask (Set_Mask rq v) \<longleftrightarrow> True"
| "sets_mask _ \<longleftrightarrow> False"

lemma mask_kept: "reg_run get put ops (mk, d) = (vs, mk', d') \<Longrightarrow> \<forall>op \<in> set ops. \<not> sets_mask op \<Longrightarrow> mk' = mk"
proof (induction get put ops "(mk, d)" arbitrary: mk d vs rule: reg_run.induct)
qed (auto split: prod.splits)

lemma block_mask:
  assumes "reg_run get put (block_ops rq n ws) (mk, d) = (vs, mk', d')"
  shows "mk' = mk"
  using mask_kept [OF assms] by (auto simp: block_ops_def)

lemma handler_runs:
  assumes "unit_ready lat st" and "request_wf q" and "reg_run port_get port_put (request_ops q) (unit_regs st) = (vs, mk, p)"
  obtains num st' h where "dap_handler (target_wire lat) junk (hd (request_bytes q)) = Some h"
    "\<And>old. h (tl (request_bytes q) @ old) st = Some (tl (response_bytes q vs), num, st')"
    "unit_ready lat st'" "unit_regs st' = (mk, p)"
proof -
  have up: "target_up lat (dap_swd st)" "lat \<le> unat (retry_count (dap_dd st))" "debug_port (dap_dd st) = 1"
    using assms(1) by (simp_all add: unit_ready_def)
  show thesis
  proof (cases q)
    case (Transfer ops)
    then have ops: "list_all reg_ok ops" "ops \<noteq> []" "length ops < 256" and
      run: "reg_run port_get port_put ops (match_mask (dap_dd st), tg_port (on_wire (dap_swd st))) = (vs, mk, p)"
      using assms(2,3) by (simp_all add: unit_regs_def)
    obtain num st' where h: "DAP_SWD_Transfer (SWD_Transfer (target_wire lat)) junk (0 # of_nat (length ops) # concat (map reg_bytes ops)) st
        = Some (of_nat (length ops) # 1 # concat (map bytes32 vs), num, st')"
      and st': "tg_port (on_wire (dap_swd st')) = p" "target_up lat (dap_swd st')" "dap_dd st' = (dap_dd st)\<lparr> match_mask := mk \<rparr>"
      using target_port.transfer_runs [OF ops up(1,2) run, of junk 0 "[]"] by auto
    show thesis
    proof (rule that)
      show "dap_handler (target_wire lat) junk (hd (request_bytes q)) = Some (DAP_Transfer (SWD_Transfer (target_wire lat)) junk)"
        by (simp add: Transfer command_ids dap_handler_def)
      show "DAP_Transfer (SWD_Transfer (target_wire lat)) junk (tl (request_bytes q) @ old) st
          = Some (tl (response_bytes q vs), num, st')" for old
        using transfer_more [OF h, of old] up(3) by (simp add: Transfer DAP_Transfer_def DAP_PORT_SWD_def)
    qed (use st' up in \<open>simp_all add: unit_ready_def unit_regs_def\<close>)
  next
    case (Block rq n ws)
    then have b: "block_ok rq n ws" and
      run: "reg_run port_get port_put (block_ops rq n ws) (match_mask (dap_dd st), tg_port (on_wire (dap_swd st))) = (vs, mk, p)"
      using assms(2,3) by (simp_all add: unit_regs_def)
    have mk: "mk = match_mask (dap_dd st)" using run by (rule block_mask)
    obtain num st' where h: "DAP_TransferBlock (SWD_Transfer (target_wire lat)) junk
        (0 # lo8 (of_nat n) # hi8 (of_nat n) # rq # concat (map bytes32 ws)) st
        = Some ([of_nat n, of_nat (n div 256), 1] @ concat (map bytes32 vs), num, st')"
      and st': "tg_port (on_wire (dap_swd st')) = p" "target_up lat (dap_swd st')"
      using block_runs [OF target_port.posted_port_axioms up b run, of junk 0 "[]"] by auto
    show thesis
    proof (rule that)
      show "dap_handler (target_wire lat) junk (hd (request_bytes q)) = Some (DAP_TransferBlock (SWD_Transfer (target_wire lat)) junk)"
        by (simp add: Block command_ids dap_handler_def)
      show "DAP_TransferBlock (SWD_Transfer (target_wire lat)) junk (tl (request_bytes q) @ old) st
          = Some (tl (response_bytes q vs), num, st')" for old
        using block_more [OF h, of old] by (simp add: Block)
    qed (use st' up mk block_dd [OF h] in \<open>simp_all add: unit_ready_def unit_regs_def\<close>)
  qed
qed

lemma request_served:
  assumes "unit_ready lat st" and "request_ok q" and "reg_run port_get port_put (request_ops q) (unit_regs st) = (vs, mk, p)"
  obtains st' where "serves (target_wire lat) junk st (request_bytes q) (response_bytes q vs) st'"
    "unit_ready lat st'" "unit_regs st' = (mk, p)"
proof -
  have wf: "request_wf q" using assms(2) by (simp add: request_ok_def)
  obtain num st' h where h: "dap_handler (target_wire lat) junk (hd (request_bytes q)) = Some h"
    and run: "\<And>old. h (tl (request_bytes q) @ old) st = Some (tl (response_bytes q vs), num, st')"
    and st': "unit_ready lat st'" "unit_regs st' = (mk, p)"
    using handler_runs [OF assms(1) wf assms(3)] by metis
  have "length vs = length (filter is_read (request_ops q))" using reg_run_values assms(3) by (metis surj_pair)
  note fits = response_fits [OF assms(2) this]
  obtain k ks ys where q: "request_bytes q = k # ks" "response_bytes q vs = k # ys" "k = ID_DAP_Transfer \<or> k = ID_DAP_TransferBlock"
    by (cases q) auto
  have "DAP_ExecuteCommand (target_wire lat) junk DAP_PACKET_SIZE (request_bytes q @ old) st
      = Some (response_bytes q vs, push_bit 16 1 + 1 + num, st')" for old
    using h run [of old] q fits by (auto simp: DAP_ExecuteCommand_def DAP_ProcessCommand_def rd_def command_ids)
  then have "serves (target_wire lat) junk st (request_bytes q) (response_bytes q vs) st'"
    using assms(2) fits q(1) by (simp add: serves_def request_ok_def)
  then show thesis using that st' by blast
qed

section \<open>A session\<close>

text \<open>
  One request of the host, and the packets it writes while the unit works on it and when it has the
  response.
\<close>

record host_step =
  hs_request :: debug_request
  hs_during :: "u8 list list"
  hs_after :: "u8 list list"

text \<open>
  The specification: the operations of all requests, one after the other, on the registers of the
  target; what each request reads.
\<close>

fun session_run :: "host_step list \<Rightarrow> u32 \<times> port \<Rightarrow> u32 list list \<times> u32 \<times> port" where
  "session_run [] s = ([], s)"
| "session_run (h # hs) s =
    (case reg_run port_get port_put (request_ops (hs_request h)) s of (vs, s) \<Rightarrow>
      case session_run hs s of (vss, s) \<Rightarrow> (vs # vss, s))"

text \<open>The requests run as one program.\<close>

lemma reg_run_append:
  "reg_run get put (xs @ ys) s =
    (case reg_run get put xs s of (vs, s) \<Rightarrow> case reg_run get put ys s of (ws, s) \<Rightarrow> (vs @ ws, s))"
proof (induction get put xs s rule: reg_run.induct)
qed (auto split: prod.splits)

lemma session_is_program:
  "session_run hs s = (vss, s') \<Longrightarrow>
   reg_run port_get port_put (concat (map (request_ops \<circ> hs_request) hs)) s = (concat vss, s')"
proof (induction hs arbitrary: s vss)
  case Nil
  then show ?case by (cases s) auto
qed (auto simp: reg_run_append split: prod.splits)

text \<open>The exchanges of a session; the state of the unit in them is filled in by the run.\<close>

definition exchange_of :: "target dap \<Rightarrow> host_step \<Rightarrow> u32 list \<Rightarrow> target exchange" where
  "exchange_of st h vs = \<lparr> x_req = request_bytes (hs_request h), x_resp = response_bytes (hs_request h) vs, x_dap = st,
     x_during = hs_during h, x_after = hs_after h \<rparr>"

definition session_exchanges :: "target dap \<Rightarrow> host_step list \<Rightarrow> u32 list list \<Rightarrow> target exchange list" where
  "session_exchanges st hs vss = map2 (exchange_of st) hs vss"

lemma session_chain:
  assumes "unit_ready lat st" and "list_all (request_ok \<circ> hs_request) hs" and "session_run hs (unit_regs st) = (vss, s')"
  shows "\<exists>xs. exchange_chain (target_wire lat) junk st xs \<and> map (\<lambda>x. x\<lparr> x_dap := st0 \<rparr>) xs = session_exchanges st0 hs vss
    \<and> unit_ready lat (last (st # map x_dap xs)) \<and> unit_regs (last (st # map x_dap xs)) = s'"
  using assms
proof (induction hs arbitrary: st vss)
  case Nil
  then show ?case by (auto simp: session_exchanges_def)
next
  case (Cons h hs)
  let ?q = "hs_request h"
  obtain vs mk p where run: "reg_run port_get port_put (request_ops ?q) (unit_regs st) = (vs, mk, p)" by (metis prod_cases3)
  obtain vss' where rest: "session_run hs (mk, p) = (vss', s')" and vss: "vss = vs # vss'"
    using Cons.prems(3) run by (auto split: prod.splits)
  obtain st' where st': "serves (target_wire lat) junk st (request_bytes ?q) (response_bytes ?q vs) st'"
    "unit_ready lat st'" "unit_regs st' = (mk, p)"
    using request_served [OF Cons.prems(1) _ run] Cons.prems(2) by auto
  obtain xs where xs: "exchange_chain (target_wire lat) junk st' xs" "map (\<lambda>x. x\<lparr> x_dap := st0 \<rparr>) xs = session_exchanges st0 hs vss'"
    "unit_ready lat (last (st' # map x_dap xs))" "unit_regs (last (st' # map x_dap xs)) = s'"
    using Cons.IH [OF st'(2), unfolded st'(3), OF _ rest] Cons.prems(2) by auto
  let ?x = "exchange_of st' h vs"
  have x: "x_req ?x = request_bytes ?q" "x_resp ?x = response_bytes ?q vs" "x_dap ?x = st'" "?x\<lparr> x_dap := st0 \<rparr> = exchange_of st0 h vs"
    by (simp_all add: exchange_of_def)
  have "exchange_chain (target_wire lat) junk st (?x # xs)" using st'(1) xs(1) x by simp
  moreover have "map (\<lambda>x. x\<lparr> x_dap := st0 \<rparr>) (?x # xs) = session_exchanges st0 (h # hs) vss"
    using xs(2) x(4) by (simp add: vss session_exchanges_def)
  ultimately show ?case using xs(3,4) x(3) by (intro exI [of _ "?x # xs"]) simp
qed

text \<open>What the host and the thread see of exchanges does not depend on the state of the unit in them.\<close>

lemma exchanges_cong:
  assumes "map (\<lambda>x. x\<lparr> x_dap := st0 \<rparr>) xs = ys"
  shows "map x_req ys = map x_req xs" "map x_resp ys = map x_resp xs" "arrivals ys = arrivals xs" "paced q ys = paced q xs"
    "exchange_script mps ys = exchange_script mps xs" "response_writes mps ys = response_writes mps xs"
proof -
  show "map x_req ys = map x_req xs" "map x_resp ys = map x_resp xs" "arrivals ys = arrivals xs"
    "exchange_script mps ys = exchange_script mps xs" "response_writes mps ys = response_writes mps xs"
    unfolding assms [symmetric] by (simp_all add: arrivals_def exchange_script_def response_writes_def comp_def)
  show "paced q ys = paced q xs" unfolding assms [symmetric] by (induction xs arbitrary: q) simp_all
qed

section \<open>Properties\<close>

text \<open>
  C1. A debug session works end to end.  A host that is connected to a target sends any sequence of transfer
  and block transfer commands over USB, pipelined as deep as the ring allows.  Whatever target and
  packet sizes, the engine thread takes them all from the ring and comes to rest, none is dropped, and the
  host reads one response per command, in order, which reports success with the values that the reads of
  its operations give when all operations of the session are executed one after the other on the
  registers and the memory of the target; those are left as that execution leaves them.
\<close>

theorem debug_session_runs:
  assumes "usb_dap_ok (du_usb u)" and "\<not> dap_tx_busy (du_usb u)" and "0 < s_dap_sem (dap_eng (du_usb u))"
    and "unit_ready lat (du_dap u)" and "list_all (request_ok \<circ> hs_request) hs"
    and "session_run hs (unit_regs (du_dap u)) = (vss, s')" and "xs = session_exchanges (du_dap u) hs vss"
    and "pending (du_usb u) @ arrivals xs = map x_req xs" and "paced (length (pending (du_usb u))) xs"
    and "\<forall>d. 0 \<le> wr d" and "0 < mps"
  shows "\<exists>u' ws. dap_engine_entry (target_wire lat) junk mps wr u (exchange_script mps xs @ rest) = Some (u', rest)
    \<and> pending (du_usb u') = [] \<and> s_req_dropped (dap_eng (du_usb u')) = s_req_dropped (dap_eng (du_usb u))
    \<and> dap_writes (du_usb u') = dap_writes (du_usb u) @ ws
    \<and> filter (\<lambda>w. w \<noteq> []) ws = map2 response_bytes (map hs_request hs) vss
    \<and> host_transfers mps 0 (concat (map (usb_packets mps \<circ> length) ws)) = map length (map2 response_bytes (map hs_request hs) vss)
    \<and> reg_run port_get port_put (concat (map (request_ops \<circ> hs_request) hs)) (unit_regs (du_dap u)) = (concat vss, s')
    \<and> unit_regs (du_dap u') = s' \<and> unit_ready lat (du_dap u')"
proof -
  obtain ys where ys: "exchange_chain (target_wire lat) junk (du_dap u) ys" "map (\<lambda>x. x\<lparr> x_dap := du_dap u \<rparr>) ys = xs"
    "unit_ready lat (last (du_dap u # map x_dap ys))" "unit_regs (last (du_dap u # map x_dap ys)) = s'"
    using session_chain [OF assms(4-6)] assms(7) by blast
  note cong = exchanges_cong [OF ys(2)]
  obtain u' where "dap_engine_entry (target_wire lat) junk mps wr u (exchange_script mps ys @ rest) = Some (u', rest)"
    "pending (du_usb u') = []" "du_dap u' = last (du_dap u # map x_dap ys)"
    "s_req_dropped (dap_eng (du_usb u')) = s_req_dropped (dap_eng (du_usb u))"
    "dap_writes (du_usb u') = dap_writes (du_usb u) @ response_writes mps ys"
    using entry_exchanges [OF assms(1-3) _ _ ys(1) assms(10)] assms(8,9) cong by auto
  moreover note resp = exchange_chain_responses [OF ys(1)]
  moreover have "map x_resp ys = map2 response_bytes (map hs_request hs) vss"
    unfolding cong(2) [symmetric] assms(7) by (simp add: session_exchanges_def exchange_of_def comp_def map_zip_map split_def)
  moreover from this have "map (length \<circ> x_resp) ys = map length (map2 response_bytes (map hs_request hs) vss)"
    by (metis map_map)
  ultimately show ?thesis
    using response_writes_filter [OF resp] host_transfers_responses [OF assms(11) resp] session_is_program [OF assms(6)] ys(3,4) cong(5)
    by auto
qed

text \<open>The host writes TAR in one packet and reads two words of memory with a block transfer in the next.\<close>

lemma debug_session_runs_witness:
  "\<exists>u' ws. dap_engine_entry (target_wire 2) (\<lambda>_. 0) 512 (\<lambda>_. 0)
      \<lparr> du_usb = du_usb (written [[0x05, 0, 1, 0x05, 0x00, 0x10, 0, 0], [0x06, 0, 2, 0, 0x0F]]), du_dap = demo_dap \<rparr>
      [[], [Dap_In 3], [], [Dap_In 12]] = Some (u', [])
    \<and> filter (\<lambda>w. w \<noteq> []) ws = [[0x05, 1, 1], [0x06, 2, 0, 1, 0x00, 0x10, 0, 0, 0x04, 0x10, 0, 0]]
    \<and> dap_writes (du_usb u') = dap_writes (du_usb (written [[0x05, 0, 1, 0x05, 0x00, 0x10, 0, 0], [0x06, 0, 2, 0, 0x0F]])) @ ws"
proof -
  let ?ds = "[[0x05, 0, 1, 0x05, 0x00, 0x10, 0, 0], [0x06, 0, 2, 0, 0x0F]] :: u8 list list"
  let ?u = "\<lparr> du_usb = du_usb (written ?ds), du_dap = demo_dap \<rparr>"
  let ?hs = "[\<lparr> hs_request = Transfer [Write_Reg 0x05 0x1000], hs_during = [], hs_after = [] \<rparr>,
    \<lparr> hs_request = Block 0x0F 2 [], hs_during = [], hs_after = [] \<rparr>]"
  let ?vss = "[[], [0x1000, 0x1004]] :: u32 list list"
  let ?xs = "session_exchanges demo_dap ?hs ?vss"
  have bytes: "request_bytes (Transfer [Write_Reg 0x05 0x1000]) = [0x05, 0, 1, 0x05, 0x00, 0x10, 0, 0]"
    "request_bytes (Block 0x0F 2 []) = [0x06, 0, 2, 0, 0x0F]"
    "response_bytes (Transfer [Write_Reg 0x05 0x1000]) [] = [0x05, 1, 1]"
    "response_bytes (Block 0x0F 2 []) [0x1000, 0x1004] = [0x06, 2, 0, 1, 0x00, 0x10, 0, 0, 0x04, 0x10, 0, 0]"
    by code_simp+
  have ops: "block_ops 0x0F 2 [] = [Read_Reg 0x0F, Read_Reg 0x0F]"
    by (simp add: block_ops_def numeral_2_eq_2)
  have regs: "unit_regs demo_dap = (0xFF, demo_port)" by (simp add: unit_regs_def demo_up)
  obtain s' where run: "session_run ?hs (unit_regs demo_dap) = (?vss, s')"
    by (simp add: regs ops demo_port_def port_get_def port_put_def ap_addr_def next_word_def)
  have ok: "list_all (request_ok \<circ> hs_request) ?hs"
    by (simp add: request_ok_def block_ok_def DAP_PACKET_SIZE_def bytes ops del: request_bytes.simps)
  have ready: "unit_ready 2 (du_dap ?u)" using demo_up by (simp add: unit_ready_def)
  note w = written_ok [of ?ds]
  have xs: "map x_req ?xs = ?ds" "arrivals ?xs = []" "paced 2 ?xs" "exchange_script 512 ?xs = [[], [Dap_In 3], [], [Dap_In 12]]"
    by (simp_all add: session_exchanges_def exchange_of_def bytes arrivals_def DAP_PACKET_COUNT_def exchange_script_def dap_host_takes_def
        del: request_bytes.simps response_bytes.simps)
  have usb: "usb_dap_ok (du_usb ?u)" "\<not> dap_tx_busy (du_usb ?u)" "pending (du_usb ?u) = ?ds" "0 < s_dap_sem (dap_eng (du_usb ?u))"
    using w by (simp_all add: DAP_PACKET_COUNT_def EXLINK_BULK_MPS_def)
  have len: "length (pending (du_usb ?u)) = 2" by (simp only: usb(3)) simp
  have pend: "pending (du_usb ?u) @ arrivals ?xs = map x_req ?xs" by (simp only: xs usb(3) append_Nil2)
  have pace: "paced (length (pending (du_usb ?u))) ?xs" unfolding len by (rule xs(3))
  have run: "session_run ?hs (unit_regs (du_dap ?u)) = (?vss, s')" and xs_def: "?xs = session_exchanges (du_dap ?u) ?hs ?vss"
    using run by simp_all
  have served: "map2 response_bytes (map hs_request ?hs) ?vss = [[0x05, 1, 1], [0x06, 2, 0, 1, 0x00, 0x10, 0, 0, 0x04, 0x10, 0, 0]]"
    by (simp add: bytes del: response_bytes.simps)
  note all = debug_session_runs [OF usb(1,2,4) ready ok run xs_def pend pace, where wr = "\<lambda>_. 0" and mps = 512 and
      junk = "\<lambda>_. 0" and rest = "[]", unfolded xs(4) append_Nil2 served]
  have pos: "\<forall>d :: u8 list. (0 :: int) \<le> 0" "(0 :: nat) < 512" by simp_all
  from all [OF pos] show ?thesis unfolding dap_unit.simps by blast
qed

end
