(* ===== verification/Frame_Codec.thy ===== *)
theory Frame_Codec
  imports Prelude
begin

text \<open>
  The command-frame codec of \<^verbatim>\<open>applications/frame_proto.h\<close> and
  \<^verbatim>\<open>applications/frame_parser.c\<close>: CRC-16/CCITT-FALSE, frame assembly and the
  byte-at-a-time parser.  A C buffer with its length is the list of its bytes and a NULL pointer
  is \<open>None\<close>.  A write outside the payload array would be undefined behaviour in C; the parser
  step returns \<open>None\<close> there, and the safety theorem shows that it never happens.
\<close>

section \<open>Protocol constants\<close>

definition EXLINK_MAGIC0 :: u8 where [simp]: "EXLINK_MAGIC0 = 0x4C"
definition EXLINK_MAGIC1 :: u8 where [simp]: "EXLINK_MAGIC1 = 0x4B"

definition EXLINK_MAX_PAYLOAD :: nat where [simp]: "EXLINK_MAX_PAYLOAD = 4096"
definition EXLINK_HEADER_LEN :: nat where [simp]: "EXLINK_HEADER_LEN = 5"
definition EXLINK_CRC_LEN :: nat where [simp]: "EXLINK_CRC_LEN = 2"
definition EXLINK_FRAME_OVERHEAD :: nat where
  [simp]: "EXLINK_FRAME_OVERHEAD = EXLINK_HEADER_LEN + EXLINK_CRC_LEN"
definition EXLINK_MAX_FRAME :: nat where
  [simp]: "EXLINK_MAX_FRAME = EXLINK_FRAME_OVERHEAD + EXLINK_MAX_PAYLOAD"

definition EXLINK_CRC16_POLY :: u16 where "EXLINK_CRC16_POLY = 0x1021"
definition EXLINK_CRC16_INIT :: u16 where "EXLINK_CRC16_INIT = 0xFFFF"

section \<open>CRC-16\<close>

text \<open>One iteration of the inner loop, then eight of them after folding a byte in.\<close>

definition crc16_shift :: "u16 \<Rightarrow> u16" where
  "crc16_shift crc =
     (if crc AND 0x8000 \<noteq> 0 then push_bit 1 crc XOR EXLINK_CRC16_POLY else push_bit 1 crc)"

definition crc16_byte :: "u16 \<Rightarrow> u8 \<Rightarrow> u16" where
  "crc16_byte crc b = (crc16_shift ^^ 8) (crc XOR push_bit 8 (ucast b))"

fun exlink_crc16_update :: "u16 \<Rightarrow> u8 list option \<Rightarrow> u16" where
  "exlink_crc16_update crc None = crc"
| "exlink_crc16_update crc (Some bs) = foldl crc16_byte crc bs"

definition exlink_crc16 :: "u8 list option \<Rightarrow> u16" where
  "exlink_crc16 buf = exlink_crc16_update EXLINK_CRC16_INIT buf"

section \<open>Frame assembly\<close>

text \<open>
  \<open>payload\<close> may be NULL (the payload is then zero bytes), \<open>out\<close> may be NULL.  The result is
  the returned size and the output buffer after the call.
\<close>

definition frame_header :: "u8 \<Rightarrow> u16 \<Rightarrow> u8 list" where
  "frame_header op plen = [EXLINK_MAGIC0, EXLINK_MAGIC1, op, lo8 plen, hi8 plen]"

definition payload_bytes :: "u8 list option \<Rightarrow> u16 \<Rightarrow> u8 list" where
  "payload_bytes payload plen =
     map (\<lambda>i. case payload of Some p \<Rightarrow> p ! i | None \<Rightarrow> 0) [0..<unat plen]"

definition exlink_frame_build ::
  "u8 \<Rightarrow> u8 list option \<Rightarrow> u16 \<Rightarrow> u8 list option \<Rightarrow> nat \<Rightarrow> nat \<times> u8 list option" where
  "exlink_frame_build op payload plen out out_cap =
     (case out of
        None \<Rightarrow> (0, None)
      | Some buf \<Rightarrow>
          if unat plen > EXLINK_MAX_PAYLOAD then (0, out)
          else let total = EXLINK_FRAME_OVERHEAD + unat plen in
            if out_cap < total then (0, out)
            else let covered = frame_header op plen @ payload_bytes payload plen;
                     crc = exlink_crc16 (Some covered)
                 in (total, Some (covered @ [lo8 crc, hi8 crc] @ drop total buf)))"

section \<open>Parser\<close>

datatype exlink_parse_state =
  EXLINK_PS_MAGIC0 | EXLINK_PS_MAGIC1 | EXLINK_PS_OP | EXLINK_PS_LEN_LO | EXLINK_PS_LEN_HI
| EXLINK_PS_PAYLOAD | EXLINK_PS_CRC_LO | EXLINK_PS_CRC_HI

record exlink_parser =
  ps_state :: exlink_parse_state
  ps_op :: u8
  ps_len :: u16
  ps_idx :: u16
  ps_crc_calc :: u16
  ps_crc_rx :: u16
  ps_payload :: "u8 list"

datatype exlink_frame_result =
  EXLINK_FR_NONE | EXLINK_FR_OK | EXLINK_FR_BAD_CRC | EXLINK_FR_BAD_LEN

text \<open>The payload array is left as it was, as in the C code.\<close>

definition exlink_parser_init :: "exlink_parser \<Rightarrow> exlink_parser" where
  "exlink_parser_init p =
     p\<lparr>ps_state := EXLINK_PS_MAGIC0, ps_op := 0, ps_len := 0, ps_idx := 0,
       ps_crc_calc := EXLINK_CRC16_INIT, ps_crc_rx := 0\<rparr>"

definition exlink_parser_step ::
  "exlink_parser \<Rightarrow> u8 \<Rightarrow> (exlink_parser \<times> exlink_frame_result) option" where
  "exlink_parser_step p b =
     (case ps_state p of
        EXLINK_PS_MAGIC0 \<Rightarrow>
          if b = EXLINK_MAGIC0
          then Some (p\<lparr>ps_crc_calc := exlink_crc16_update EXLINK_CRC16_INIT (Some [b]),
                       ps_state := EXLINK_PS_MAGIC1\<rparr>, EXLINK_FR_NONE)
          else Some (p, EXLINK_FR_NONE)
      | EXLINK_PS_MAGIC1 \<Rightarrow>
          if b = EXLINK_MAGIC1
          then Some (p\<lparr>ps_crc_calc := exlink_crc16_update (ps_crc_calc p) (Some [b]),
                       ps_state := EXLINK_PS_OP\<rparr>, EXLINK_FR_NONE)
          else if b = EXLINK_MAGIC0
          then Some (p\<lparr>ps_crc_calc := exlink_crc16_update EXLINK_CRC16_INIT (Some [b])\<rparr>,
                     EXLINK_FR_NONE)
          else Some (p\<lparr>ps_state := EXLINK_PS_MAGIC0\<rparr>, EXLINK_FR_NONE)
      | EXLINK_PS_OP \<Rightarrow>
          Some (p\<lparr>ps_op := b, ps_crc_calc := exlink_crc16_update (ps_crc_calc p) (Some [b]),
                  ps_state := EXLINK_PS_LEN_LO\<rparr>, EXLINK_FR_NONE)
      | EXLINK_PS_LEN_LO \<Rightarrow>
          Some (p\<lparr>ps_len := ucast b, ps_crc_calc := exlink_crc16_update (ps_crc_calc p) (Some [b]),
                  ps_state := EXLINK_PS_LEN_HI\<rparr>, EXLINK_FR_NONE)
      | EXLINK_PS_LEN_HI \<Rightarrow>
          let p1 = p\<lparr>ps_len := ps_len p OR push_bit 8 (ucast b),
                     ps_crc_calc := exlink_crc16_update (ps_crc_calc p) (Some [b])\<rparr> in
          if unat (ps_len p1) > EXLINK_MAX_PAYLOAD
          then Some (exlink_parser_init p1, EXLINK_FR_BAD_LEN)
          else Some (p1\<lparr>ps_idx := 0,
                        ps_state := if ps_len p1 = 0 then EXLINK_PS_CRC_LO else EXLINK_PS_PAYLOAD\<rparr>,
                     EXLINK_FR_NONE)
      | EXLINK_PS_PAYLOAD \<Rightarrow>
          if unat (ps_idx p) < length (ps_payload p)
          then let p1 = p\<lparr>ps_payload := (ps_payload p)[unat (ps_idx p) := b],
                          ps_idx := ps_idx p + 1,
                          ps_crc_calc := exlink_crc16_update (ps_crc_calc p) (Some [b])\<rparr> in
               Some (if ps_idx p1 \<ge> ps_len p1 then p1\<lparr>ps_state := EXLINK_PS_CRC_LO\<rparr> else p1,
                     EXLINK_FR_NONE)
          else None
      | EXLINK_PS_CRC_LO \<Rightarrow>
          Some (p\<lparr>ps_crc_rx := ucast b, ps_state := EXLINK_PS_CRC_HI\<rparr>, EXLINK_FR_NONE)
      | EXLINK_PS_CRC_HI \<Rightarrow>
          let rx = ps_crc_rx p OR push_bit 8 (ucast b) in
          Some (p\<lparr>ps_crc_rx := rx, ps_state := EXLINK_PS_MAGIC0,
                  ps_crc_calc := EXLINK_CRC16_INIT\<rparr>,
                if rx = ps_crc_calc p then EXLINK_FR_OK else EXLINK_FR_BAD_CRC))"

text \<open>The exported operation: the NULL guard in front of the step.\<close>

fun exlink_parser_feed ::
  "exlink_parser option \<Rightarrow> u8 \<Rightarrow> (exlink_parser option \<times> exlink_frame_result) option" where
  "exlink_parser_feed None b = Some (None, EXLINK_FR_NONE)"
| "exlink_parser_feed (Some p) b =
     map_option (\<lambda>(p', r). (Some p', r)) (exlink_parser_step p b)"

text \<open>Feeding a sequence of bytes; the results of the single steps in order.\<close>

fun feed_bytes ::
  "exlink_parser \<Rightarrow> u8 list \<Rightarrow> (exlink_parser \<times> exlink_frame_result list) option" where
  "feed_bytes p [] = Some (p, [])"
| "feed_bytes p (b # bs) =
     (case exlink_parser_step p b of
        None \<Rightarrow> None
      | Some (p1, r) \<Rightarrow>
          (case feed_bytes p1 bs of None \<Rightarrow> None | Some (p2, rs) \<Rightarrow> Some (p2, r # rs)))"

section \<open>The CRC detects every change confined to one byte\<close>

lemma msb_test: "(x :: u16) AND 0x8000 \<noteq> 0 \<longleftrightarrow> bit x 15"
  using and_exp_eq_0_iff_not_bit [of x 15] by simp

lemma crc16_shift_alt:
  "crc16_shift x = push_bit 1 x XOR (if bit x 15 then EXLINK_CRC16_POLY else 0)"
  by (simp add: crc16_shift_def msb_test)

lemma bit_crc16_shift:
  "bit (crc16_shift x) n \<longleftrightarrow>
     n < 16 \<and> ((1 \<le> n \<and> bit x (n - 1)) \<noteq> (bit x 15 \<and> bit EXLINK_CRC16_POLY n))"
  unfolding crc16_shift_alt bit_xor_iff bit_push_bit_iff
  by (auto dest: bit_imp_le_length)

lemma bit0_poly: "bit EXLINK_CRC16_POLY 0"
  by (simp add: EXLINK_CRC16_POLY_def)

lemma bit0_crc16_shift: "bit (crc16_shift x) 0 \<longleftrightarrow> bit x 15"
  using bit0_poly by (simp add: bit_crc16_shift)

lemma inj_crc16_shift: "inj crc16_shift"
proof (rule injI)
  fix x y :: u16
  assume eq: "crc16_shift x = crc16_shift y"
  then have top: "bit x 15 \<longleftrightarrow> bit y 15"
    using bit0_crc16_shift by metis
  show "x = y"
  proof (rule bit_word_eqI)
    fix n assume "n < LENGTH(16)"
    then consider "n = 15" | "Suc n < 16" by fastforce
    then show "bit x n = bit y n"
    proof cases
      case 1 then show ?thesis using top by simp
    next
      case 2
      then show ?thesis
        using arg_cong [OF eq, of "\<lambda>w. bit w (Suc n)"] top by (auto simp: bit_crc16_shift)
    qed
  qed
qed

lemma inj_crc16_shift_pow: "inj (crc16_shift ^^ n)"
  by (rule inj_fn [OF inj_crc16_shift])

lemma crc16_byte_inject:
  "crc16_byte c a = crc16_byte d b \<longleftrightarrow> c XOR push_bit 8 (ucast a) = d XOR push_bit 8 (ucast b)"
  unfolding crc16_byte_def by (rule inj_eq [OF inj_crc16_shift_pow])

lemma crc16_byte_inj_crc: "crc16_byte c b = crc16_byte d b \<longleftrightarrow> c = d"
  unfolding crc16_byte_inject by (metis bit.xor_left_self xor.commute)

lemma hi8_push: "hi8 (push_bit 8 (ucast b)) = b"
  by (rule bit_word_eqI) (auto simp: hi8_alt bit_simps)

lemma crc16_byte_inj_byte: "crc16_byte c a = crc16_byte c b \<longleftrightarrow> a = b"
  unfolding crc16_byte_inject by (metis bit.xor_left_self hi8_push)

lemma foldl_crc_inj: "foldl crc16_byte c bs = foldl crc16_byte d bs \<longleftrightarrow> c = d"
  by (induction bs arbitrary: c d) (auto simp: crc16_byte_inj_crc)

lemma exlink_crc16_update_append:
  "exlink_crc16_update c (Some (xs @ ys)) =
   exlink_crc16_update (exlink_crc16_update c (Some xs)) (Some ys)"
  by simp

lemma crc_detects_byte_change:
  "a \<noteq> b \<Longrightarrow> exlink_crc16 (Some (xs @ a # ys)) \<noteq> exlink_crc16 (Some (xs @ b # ys))"
  by (simp add: exlink_crc16_def foldl_crc_inj crc16_byte_inj_byte)

section \<open>Parser invariant: the payload write stays inside the array\<close>

definition parser_ok :: "exlink_parser \<Rightarrow> bool" where
  "parser_ok p \<longleftrightarrow>
     length (ps_payload p) = EXLINK_MAX_PAYLOAD \<and>
     (ps_state p = EXLINK_PS_LEN_HI \<longrightarrow> unat (ps_len p) < 256) \<and>
     (ps_state p = EXLINK_PS_PAYLOAD \<longrightarrow>
        ps_idx p < ps_len p \<and> unat (ps_len p) \<le> EXLINK_MAX_PAYLOAD) \<and>
     (ps_state p \<in> {EXLINK_PS_CRC_LO, EXLINK_PS_CRC_HI} \<longrightarrow>
        unat (ps_len p) \<le> EXLINK_MAX_PAYLOAD)"

lemma parser_ok_init: "length (ps_payload p) = EXLINK_MAX_PAYLOAD \<Longrightarrow> parser_ok (exlink_parser_init p)"
  by (simp add: parser_ok_def exlink_parser_init_def)

lemma parser_step_safe:
  assumes "parser_ok p"
  shows "\<exists>p' r. exlink_parser_step p b = Some (p', r) \<and> parser_ok p'"
proof (cases "ps_state p")
  case EXLINK_PS_LEN_LO
  have "unat (ucast b :: u16) < 256"
    using unat_u8 [of b] by simp
  with EXLINK_PS_LEN_LO assms show ?thesis
    by (simp add: exlink_parser_step_def parser_ok_def)
next
  case EXLINK_PS_LEN_HI
  with assms show ?thesis
    by (auto simp: exlink_parser_step_def parser_ok_def Let_def exlink_parser_init_def word_gt_0)
next
  case EXLINK_PS_PAYLOAD
  with assms have "unat (ps_idx p) < 4096" "ps_idx p < ps_len p"
    by (auto simp: parser_ok_def word_less_nat_alt)
  with EXLINK_PS_PAYLOAD assms show ?thesis
    by (auto simp: exlink_parser_step_def parser_ok_def Let_def not_le)
qed (use assms in \<open>auto simp: exlink_parser_step_def parser_ok_def Let_def\<close>)

lemma feed_bytes_safe:
  "parser_ok p \<Longrightarrow> \<exists>p' rs. feed_bytes p bs = Some (p', rs) \<and> parser_ok p' \<and> length rs = length bs"
proof (induction bs arbitrary: p)
  case (Cons b bs)
  then obtain p1 r where "exlink_parser_step p b = Some (p1, r)" "parser_ok p1"
    using parser_step_safe by blast
  with Cons.IH [of p1] show ?case by auto
qed simp

lemma feed_bytes_append:
  "feed_bytes p (xs @ ys) =
     (case feed_bytes p xs of None \<Rightarrow> None
      | Some (p1, rs) \<Rightarrow>
          (case feed_bytes p1 ys of None \<Rightarrow> None | Some (p2, ss) \<Rightarrow> Some (p2, rs @ ss)))"
  by (induction xs arbitrary: p) (auto split: option.splits)

section \<open>Parsing a frame\<close>

lemma step_header:
  assumes "ps_state p = EXLINK_PS_MAGIC0" and "unat plen \<le> EXLINK_MAX_PAYLOAD"
  shows "feed_bytes p (frame_header op plen) =
     Some (p\<lparr>ps_state := (if plen = 0 then EXLINK_PS_CRC_LO else EXLINK_PS_PAYLOAD), ps_op := op,
             ps_len := plen, ps_idx := 0,
             ps_crc_calc := exlink_crc16 (Some (frame_header op plen))\<rparr>,
           replicate 5 EXLINK_FR_NONE)"
proof -
  have "ucast (lo8 plen) OR push_bit 8 (ucast (hi8 plen)) = plen"
    using join16_lo8_hi8 [of plen] by (simp add: join16_def)
  then show ?thesis
    using assms
    by (simp add: frame_header_def exlink_parser_step_def Let_def exlink_crc16_def
        eval_nat_numeral)
qed

lemma step_payload:
  assumes "ps_state p = EXLINK_PS_PAYLOAD" and "unat (ps_idx p) + length bs = unat (ps_len p)"
    and "bs \<noteq> []" and "unat (ps_len p) \<le> length (ps_payload p)"
  shows "feed_bytes p bs =
     Some (p\<lparr>ps_state := EXLINK_PS_CRC_LO, ps_idx := ps_len p,
             ps_crc_calc := exlink_crc16_update (ps_crc_calc p) (Some bs),
             ps_payload := take (unat (ps_idx p)) (ps_payload p) @ bs
                           @ drop (unat (ps_len p)) (ps_payload p)\<rparr>,
           replicate (length bs) EXLINK_FR_NONE)"
  using assms
proof (induction bs arbitrary: p)
  case (Cons b bs)
  let ?i = "unat (ps_idx p)"
  have i: "?i < unat (ps_len p)" using Cons.prems(2) by simp
  then have suc: "unat (ps_idx p + 1) = Suc ?i"
    by (rule unat_Suc_less)
  show ?case
  proof (cases bs)
    case Nil
    have l: "ps_idx p + 1 = ps_len p"
      using Cons.prems(2) suc Nil by (simp add: word_unat_eq_iff)
    have "(ps_payload p)[?i := b] = take ?i (ps_payload p) @ b # drop (Suc ?i) (ps_payload p)"
      using Cons.prems(4) i by (intro upd_conv_take_nth_drop) simp
    then show ?thesis
      using Nil Cons.prems(1,4) i by (simp add: exlink_parser_step_def Let_def l suc [unfolded l] del: list_update.simps)
  next
    case (Cons c cs)
    let ?p1 = "p\<lparr>ps_payload := (ps_payload p)[?i := b], ps_idx := ps_idx p + 1,
                ps_crc_calc := exlink_crc16_update (ps_crc_calc p) (Some [b])\<rparr>"
    have lt: "\<not> ps_len p \<le> ps_idx p + 1"
      using Cons.prems(2) suc Cons by (simp add: word_le_nat_alt)
    have "exlink_parser_step p b = Some (?p1, EXLINK_FR_NONE)"
      using Cons.prems i lt by (simp add: exlink_parser_step_def Let_def)
    moreover have "feed_bytes ?p1 bs = Some (?p1\<lparr>ps_state := EXLINK_PS_CRC_LO, ps_idx := ps_len p,
             ps_crc_calc := exlink_crc16_update (ps_crc_calc ?p1) (Some bs),
             ps_payload := take (Suc ?i) ((ps_payload p)[?i := b]) @ bs
                           @ drop (unat (ps_len p)) (ps_payload p)\<rparr>,
           replicate (length bs) EXLINK_FR_NONE)"
      using Cons.IH [of ?p1] Cons.prems Cons suc i by simp
    ultimately show ?thesis
      using Cons.prems i by (simp add: take_Suc_update)
  qed
qed simp

lemma length_payload_bytes [simp]: "length (payload_bytes payload plen) = unat plen"
  by (simp add: payload_bytes_def)

lemma payload_bytes_Some:
  "unat plen = length bs \<Longrightarrow> payload_bytes (Some bs) plen = bs"
  by (simp add: payload_bytes_def map_nth)

lemma payload_bytes_0 [simp]: "payload_bytes payload 0 = []"
  by (simp add: payload_bytes_def)

text \<open>The bytes the CRC covers.\<close>

definition covered_bytes :: "u8 \<Rightarrow> u8 list \<Rightarrow> u8 list" where
  "covered_bytes op bs = frame_header op (of_nat (length bs)) @ bs"

text \<open>The bytes of a whole frame, as \<open>exlink_frame_build\<close> writes them.\<close>

definition frame_bytes :: "u8 \<Rightarrow> u8 list \<Rightarrow> u8 list" where
  "frame_bytes op bs =
     (let crc = exlink_crc16 (Some (covered_bytes op bs))
      in covered_bytes op bs @ [lo8 crc, hi8 crc])"

lemma length_covered_bytes [simp]: "length (covered_bytes op bs) = 5 + length bs"
  by (simp add: covered_bytes_def frame_header_def)


lemma length_frame_header [simp]: "length (frame_header op plen) = 5"
  by (simp add: frame_header_def)

lemma length_frame_bytes [simp]: "length (frame_bytes op bs) = 7 + length bs"
  by (simp add: frame_bytes_def Let_def)

lemma unat_of_nat_payload: "n \<le> EXLINK_MAX_PAYLOAD \<Longrightarrow> unat (of_nat n :: u16) = n"
  by (simp add: unat_of_nat take_bit_nat_eq_self_iff)

lemma frame_build_bytes:
  assumes "length bs \<le> EXLINK_MAX_PAYLOAD" and "EXLINK_FRAME_OVERHEAD + length bs \<le> cap"
  shows "exlink_frame_build op (Some bs) (of_nat (length bs)) (Some buf) cap =
     (7 + length bs, Some (frame_bytes op bs @ drop (7 + length bs) buf))"
proof -
  have u: "unat (of_nat (length bs) :: u16) = length bs"
    using assms(1) by (rule unat_of_nat_payload)
  then have "payload_bytes (Some bs) (of_nat (length bs)) = bs"
    by (rule payload_bytes_Some)
  with u assms show ?thesis
    by (simp add: exlink_frame_build_def frame_bytes_def covered_bytes_def Let_def)
qed

text \<open>Everything up to the CRC, from the waiting state: no result, parser ready for the CRC.\<close>

lemma feed_covered:
  assumes "parser_ok p" and "ps_state p = EXLINK_PS_MAGIC0" and "length bs \<le> EXLINK_MAX_PAYLOAD"
  shows "\<exists>i. feed_bytes p (covered_bytes op bs) =
     Some (p\<lparr>ps_state := EXLINK_PS_CRC_LO, ps_op := op, ps_len := of_nat (length bs), ps_idx := i,
             ps_crc_calc := exlink_crc16 (Some (covered_bytes op bs)),
             ps_payload := bs @ drop (length bs) (ps_payload p)\<rparr>,
           replicate (length (covered_bytes op bs)) EXLINK_FR_NONE)"
proof -
  let ?n = "of_nat (length bs) :: u16"
  have n: "unat ?n = length bs" using assms(3) by (rule unat_of_nat_payload)
  have len: "length (ps_payload p) = 4096" using assms(1) by (simp add: parser_ok_def)
  have z: "?n = 0 \<longleftrightarrow> bs = []" using n by (metis length_0_conv unat_eq_zero)
  have hd: "feed_bytes p (frame_header op ?n) = Some (p\<lparr>
      ps_state := (if ?n = 0 then EXLINK_PS_CRC_LO else EXLINK_PS_PAYLOAD), ps_op := op,
      ps_len := ?n, ps_idx := 0, ps_crc_calc := exlink_crc16 (Some (frame_header op ?n))\<rparr>,
      replicate 5 EXLINK_FR_NONE)"
    using assms(2,3) n by (intro step_header) simp_all
  show ?thesis
  proof (cases "bs = []")
    case True
    with hd show ?thesis by (auto simp: covered_bytes_def intro!: exI [of _ 0])
  next
    case False
    define q where "q = p\<lparr>ps_state := EXLINK_PS_PAYLOAD, ps_op := op, ps_len := ?n, ps_idx := 0,
      ps_crc_calc := exlink_crc16 (Some (frame_header op ?n))\<rparr>"
    have "feed_bytes q bs = Some (q\<lparr>ps_state := EXLINK_PS_CRC_LO, ps_idx := ps_len q,
             ps_crc_calc := exlink_crc16_update (ps_crc_calc q) (Some bs),
             ps_payload := take (unat (ps_idx q)) (ps_payload q) @ bs
                           @ drop (unat (ps_len q)) (ps_payload q)\<rparr>,
           replicate (length bs) EXLINK_FR_NONE)"
      using False n len assms(3) by (intro step_payload) (simp_all add: q_def)
    moreover have "feed_bytes p (covered_bytes op bs) = (case feed_bytes q bs of None \<Rightarrow> None
      | Some (p2, ss) \<Rightarrow> Some (p2, replicate 5 EXLINK_FR_NONE @ ss))"
      using hd False z by (simp add: covered_bytes_def feed_bytes_append q_def)
    ultimately show ?thesis
      using n by (auto simp: covered_bytes_def q_def exlink_crc16_def replicate_add
          intro!: exI [of _ ?n])
  qed
qed

lemma feed_crc:
  assumes "ps_state p = EXLINK_PS_CRC_LO"
  shows "feed_bytes p [a, b] =
     Some (p\<lparr>ps_state := EXLINK_PS_MAGIC0, ps_crc_rx := join16 a b, ps_crc_calc := EXLINK_CRC16_INIT\<rparr>,
           [EXLINK_FR_NONE,
            if join16 a b = ps_crc_calc p then EXLINK_FR_OK else EXLINK_FR_BAD_CRC])"
  using assms by (simp add: exlink_parser_step_def Let_def join16_def)

text \<open>A frame with any two trailing bytes: accepted exactly when they are the CRC.\<close>

lemma feed_frame:
  assumes "parser_ok p" and "ps_state p = EXLINK_PS_MAGIC0" and "length bs \<le> EXLINK_MAX_PAYLOAD"
  shows "\<exists>q. feed_bytes p (covered_bytes op bs @ [a, b]) =
       Some (q, replicate (6 + length bs) EXLINK_FR_NONE
                @ [if join16 a b = exlink_crc16 (Some (covered_bytes op bs)) then EXLINK_FR_OK else EXLINK_FR_BAD_CRC])
     \<and> parser_ok q \<and> ps_state q = EXLINK_PS_MAGIC0 \<and> ps_op q = op
     \<and> ps_len q = of_nat (length bs) \<and> take (length bs) (ps_payload q) = bs"
proof -
  obtain i where f: "feed_bytes p (covered_bytes op bs) =
     Some (p\<lparr>ps_state := EXLINK_PS_CRC_LO, ps_op := op, ps_len := of_nat (length bs), ps_idx := i,
             ps_crc_calc := exlink_crc16 (Some (covered_bytes op bs)),
             ps_payload := bs @ drop (length bs) (ps_payload p)\<rparr>,
           replicate (length (covered_bytes op bs)) EXLINK_FR_NONE)"
    using feed_covered [OF assms(1,2,3), of op] by blast
  have rep: "replicate (5 + length bs) EXLINK_FR_NONE @ [EXLINK_FR_NONE] =
        replicate (6 + length bs) EXLINK_FR_NONE"
    using replicate_snoc [of "5 + length bs" EXLINK_FR_NONE] by (simp add: eval_nat_numeral)
  from assms(1,3) show ?thesis
    unfolding feed_bytes_append f
    by (simp add: feed_crc rep parser_ok_def del: feed_bytes.simps)
qed

section \<open>Streams: noise, frames, results\<close>

text \<open>
  What a consumer of the parser sees on a byte stream: for every \<open>EXLINK_FR_OK\<close> the operation
  and the payload held by the parser at that moment, for the errors their code.
\<close>

datatype frame_event = Frame u8 "u8 list" | Bad_Crc | Bad_Len

definition parser_event :: "exlink_parser \<Rightarrow> exlink_frame_result \<Rightarrow> frame_event list" where
  "parser_event p r =
     (case r of
        EXLINK_FR_NONE \<Rightarrow> []
      | EXLINK_FR_OK \<Rightarrow> [Frame (ps_op p) (take (unat (ps_len p)) (ps_payload p))]
      | EXLINK_FR_BAD_CRC \<Rightarrow> [Bad_Crc]
      | EXLINK_FR_BAD_LEN \<Rightarrow> [Bad_Len])"

fun parse_events :: "exlink_parser \<Rightarrow> u8 list \<Rightarrow> (exlink_parser \<times> frame_event list) option" where
  "parse_events p [] = Some (p, [])"
| "parse_events p (b # bs) =
     (case exlink_parser_step p b of
        None \<Rightarrow> None
      | Some (p1, r) \<Rightarrow>
          (case parse_events p1 bs of
             None \<Rightarrow> None
           | Some (p2, es) \<Rightarrow> Some (p2, parser_event p1 r @ es)))"

lemma parse_events_append:
  "parse_events p (xs @ ys) =
     (case parse_events p xs of None \<Rightarrow> None
      | Some (p1, es) \<Rightarrow>
          (case parse_events p1 ys of None \<Rightarrow> None | Some (p2, fs) \<Rightarrow> Some (p2, es @ fs)))"
  by (induction xs arbitrary: p) (auto split: option.splits)

lemma parse_events_silent:
  "feed_bytes p bs = Some (q, replicate n EXLINK_FR_NONE) \<Longrightarrow> parse_events p bs = Some (q, [])"
proof (induction bs arbitrary: p n)
  case (Cons b bs)
  from Cons.prems obtain p1 r rs where st: "exlink_parser_step p b = Some (p1, r)"
    and fd: "feed_bytes p1 bs = Some (q, rs)" and rep: "r # rs = replicate n EXLINK_FR_NONE"
    by (auto split: option.splits)
  from rep have "r = EXLINK_FR_NONE" "rs = replicate (n - 1) EXLINK_FR_NONE"
    by (cases n; simp)+
  with Cons.IH fd st show ?case by (simp add: parser_event_def)
qed simp

lemma parse_events_last:
  assumes "feed_bytes p (bs @ [b]) = Some (q, replicate (length bs) EXLINK_FR_NONE @ [r])"
  shows "parse_events p (bs @ [b]) = Some (q, parser_event q r)"
proof -
  from assms obtain p1 rs r1 where fd: "feed_bytes p bs = Some (p1, rs)"
    and st: "exlink_parser_step p1 b = Some (q, r1)"
    and eq: "rs @ [r1] = replicate (length bs) EXLINK_FR_NONE @ [r]"
    by (auto simp: feed_bytes_append split: option.splits)
  then have "rs = replicate (length bs) EXLINK_FR_NONE" "r1 = r" by simp_all
  with parse_events_silent fd have "parse_events p bs = Some (p1, [])" by blast
  with st \<open>r1 = r\<close> show ?thesis by (simp add: parse_events_append)
qed

text \<open>The parser is between frames: waiting for either byte of the magic.\<close>

definition parser_idle :: "exlink_parser \<Rightarrow> bool" where
  "parser_idle p \<longleftrightarrow> parser_ok p \<and> ps_state p \<in> {EXLINK_PS_MAGIC0, EXLINK_PS_MAGIC1}"

lemma step_magic0_idle:
  assumes "parser_idle p"
  shows "\<exists>q. parser_ok q \<and> ps_state q = EXLINK_PS_MAGIC0
    \<and> exlink_parser_step p EXLINK_MAGIC0 = exlink_parser_step q EXLINK_MAGIC0"
proof (cases "ps_state p")
  case EXLINK_PS_MAGIC0
  with assms show ?thesis by (auto simp: parser_idle_def)
next
  case EXLINK_PS_MAGIC1
  let ?q = "p\<lparr>ps_state := EXLINK_PS_MAGIC0\<rparr>"
  have "exlink_parser_step p EXLINK_MAGIC0 = exlink_parser_step ?q EXLINK_MAGIC0"
    using EXLINK_PS_MAGIC1 by (simp add: exlink_parser_step_def)
  with assms show ?thesis
    by (intro exI [of _ ?q]) (simp add: parser_idle_def parser_ok_def)
qed (use assms in \<open>simp_all add: parser_idle_def\<close>)

lemma feed_frame_idle:
  assumes "parser_idle p" and "length bs \<le> EXLINK_MAX_PAYLOAD"
  shows "\<exists>q. feed_bytes p (covered_bytes op bs @ [a, b]) =
       Some (q, replicate (6 + length bs) EXLINK_FR_NONE
                @ [if join16 a b = exlink_crc16 (Some (covered_bytes op bs)) then EXLINK_FR_OK
                   else EXLINK_FR_BAD_CRC])
     \<and> parser_ok q \<and> ps_state q = EXLINK_PS_MAGIC0 \<and> ps_op q = op
     \<and> ps_len q = of_nat (length bs) \<and> take (length bs) (ps_payload q) = bs"
proof -
  obtain q0 where "parser_ok q0" "ps_state q0 = EXLINK_PS_MAGIC0"
    and eq: "exlink_parser_step p EXLINK_MAGIC0 = exlink_parser_step q0 EXLINK_MAGIC0"
    using step_magic0_idle [OF assms(1)] by blast
  moreover have "feed_bytes p (covered_bytes op bs @ [a, b]) =
      feed_bytes q0 (covered_bytes op bs @ [a, b])"
    using eq by (simp add: covered_bytes_def frame_header_def)
  ultimately show ?thesis
    using feed_frame [of q0 bs op a b] assms(2) by simp
qed

lemma parse_frame_idle:
  assumes "parser_idle p" and "length bs \<le> EXLINK_MAX_PAYLOAD"
  shows "\<exists>q. parse_events p (covered_bytes op bs @ [a, b]) =
       Some (q, [if join16 a b = exlink_crc16 (Some (covered_bytes op bs)) then Frame op bs
                 else Bad_Crc]) \<and> parser_idle q \<and> ps_state q = EXLINK_PS_MAGIC0"
proof -
  let ?r = "if join16 a b = exlink_crc16 (Some (covered_bytes op bs)) then EXLINK_FR_OK
    else EXLINK_FR_BAD_CRC"
  obtain q where fd: "feed_bytes p (covered_bytes op bs @ [a, b]) =
       Some (q, replicate (6 + length bs) EXLINK_FR_NONE @ [?r])"
    and q: "parser_ok q" "ps_state q = EXLINK_PS_MAGIC0" "ps_op q = op"
     "ps_len q = of_nat (length bs)" "take (length bs) (ps_payload q) = bs"
    using feed_frame_idle [OF assms] by blast
  have "parse_events p ((covered_bytes op bs @ [a]) @ [b]) = Some (q, parser_event q ?r)"
    by (rule parse_events_last) (simp add: fd)
  with q unat_of_nat_payload [OF assms(2)] show ?thesis
    by (auto simp: parser_event_def parser_idle_def)
qed

text \<open>Noise that nowhere holds the two magic bytes in a row is skipped silently.\<close>

fun no_magic :: "u8 list \<Rightarrow> bool" where
  "no_magic (a # b # bs) =
     (\<not> (a = EXLINK_MAGIC0 \<and> b = EXLINK_MAGIC1) \<and> no_magic (b # bs))"
| "no_magic _ = True"

lemma no_magic_tl: "no_magic (b # bs) \<Longrightarrow> no_magic bs"
  by (cases bs) simp_all

lemma idle_step:
  assumes "parser_idle p" and "\<not> (ps_state p = EXLINK_PS_MAGIC1 \<and> n = EXLINK_MAGIC1)"
  shows "\<exists>p1. exlink_parser_step p n = Some (p1, EXLINK_FR_NONE) \<and> parser_idle p1
    \<and> (ps_state p1 = EXLINK_PS_MAGIC1 \<longrightarrow> n = EXLINK_MAGIC0)"
proof -
  have "ps_state p = EXLINK_PS_MAGIC0 \<or> ps_state p = EXLINK_PS_MAGIC1"
    using assms(1) by (simp add: parser_idle_def)
  then show ?thesis
    using assms by (elim disjE) (simp_all add: parser_idle_def exlink_parser_step_def parser_ok_def)
qed

lemma parse_noise:
  assumes "parser_idle p" and "no_magic ns"
    and "ps_state p = EXLINK_PS_MAGIC1 \<longrightarrow> ns = [] \<or> hd ns \<noteq> EXLINK_MAGIC1"
  shows "\<exists>q. parse_events p ns = Some (q, []) \<and> parser_idle q"
  using assms
proof (induction ns arbitrary: p)
  case (Cons n ns)
  obtain p1 where st: "exlink_parser_step p n = Some (p1, EXLINK_FR_NONE)" and "parser_idle p1"
    and m: "ps_state p1 = EXLINK_PS_MAGIC1 \<longrightarrow> n = EXLINK_MAGIC0"
    using idle_step [of p n] Cons.prems by auto
  moreover from m Cons.prems(2)
  have "ps_state p1 = EXLINK_PS_MAGIC1 \<longrightarrow> ns = [] \<or> hd ns \<noteq> EXLINK_MAGIC1"
    by (cases ns) auto
  ultimately obtain q where "parse_events p1 ns = Some (q, [])" "parser_idle q"
    using Cons.IH [of p1] no_magic_tl [OF Cons.prems(2)] by auto
  with st show ?case by (simp add: parser_event_def)
qed (simp)

text \<open>A stream is a sequence of frames, each after some noise.\<close>

fun stream_bytes :: "(u8 list \<times> u8 \<times> u8 list) list \<Rightarrow> u8 list" where
  "stream_bytes [] = []"
| "stream_bytes ((ns, op, bs) # fs) = ns @ frame_bytes op bs @ stream_bytes fs"

lemma parse_stream:
  assumes "parser_idle p" and "ps_state p = EXLINK_PS_MAGIC0"
    and "\<forall>(ns, op, bs) \<in> set fs. no_magic ns \<and> length bs \<le> EXLINK_MAX_PAYLOAD"
  shows "\<exists>q. parse_events p (stream_bytes fs) = Some (q, map (\<lambda>(ns, op, bs). Frame op bs) fs)
    \<and> parser_idle q \<and> ps_state q = EXLINK_PS_MAGIC0"
  using assms
proof (induction fs arbitrary: p)
  case (Cons f fs)
  obtain ns op bs where f: "f = (ns, op, bs)" by (cases f)
  with Cons.prems have ok: "no_magic ns" "length bs \<le> EXLINK_MAX_PAYLOAD" by auto
  obtain p1 where p1: "parse_events p ns = Some (p1, [])" "parser_idle p1"
    using parse_noise [OF Cons.prems(1) ok(1)] Cons.prems(2) by auto
  obtain p2 where p2: "parse_events p1 (frame_bytes op bs) = Some (p2, [Frame op bs])"
    "parser_idle p2" "ps_state p2 = EXLINK_PS_MAGIC0"
    using parse_frame_idle [OF p1(2) ok(2), of op "lo8 (exlink_crc16 (Some (covered_bytes op bs)))"
        "hi8 (exlink_crc16 (Some (covered_bytes op bs)))"]
    by (auto simp: frame_bytes_def Let_def)
  obtain q where "parse_events p2 (stream_bytes fs) = Some (q, map (\<lambda>(ns, op, bs). Frame op bs) fs)"
    "parser_idle q" "ps_state q = EXLINK_PS_MAGIC0"
    using Cons.IH [OF p2(2,3)] Cons.prems(3) by auto
  with p1 p2 f show ?case by (auto simp: parse_events_append)
qed simp

section \<open>Properties of the codec\<close>

text \<open>The bytes that \<open>exlink_frame_build\<close> puts into a buffer of the maximal frame size.\<close>

definition built_frame :: "u8 \<Rightarrow> u8 list \<Rightarrow> u8 list" where
  "built_frame op bs =
     (case exlink_frame_build op (Some bs) (of_nat (length bs))
        (Some (replicate EXLINK_MAX_FRAME 0)) EXLINK_MAX_FRAME of
        (n, Some out) \<Rightarrow> take n out
      | (n, None) \<Rightarrow> [])"

lemma built_frame_eq: "length bs \<le> EXLINK_MAX_PAYLOAD \<Longrightarrow> built_frame op bs = frame_bytes op bs"
  by (simp add: built_frame_def frame_build_bytes)

lemma stream_bytes_concat: "stream_bytes fs = concat (map (\<lambda>(ns, op, bs). ns @ frame_bytes op bs) fs)"
  by (induction fs rule: stream_bytes.induct) simp_all

lemma idle_init:
  "length (ps_payload p) = EXLINK_MAX_PAYLOAD \<Longrightarrow> parser_idle (exlink_parser_init p)"
  by (simp add: parser_idle_def parser_ok_init, simp add: exlink_parser_init_def)

text \<open>
  C3. Round trip over a whole byte stream: from a freshly initialised parser, a sequence of frames
  assembled by \<open>exlink_frame_build\<close>, each after noise that does not hold the magic \<open>LK\<close>, is parsed
  into exactly these frames in order, with no error in between, and the parser ends waiting for
  the next magic.
\<close>

theorem frame_stream_roundtrip:
  assumes "length (ps_payload p) = EXLINK_MAX_PAYLOAD"
    and "\<forall>(ns, op, bs) \<in> set fs. no_magic ns \<and> length bs \<le> EXLINK_MAX_PAYLOAD"
  shows "\<exists>q. parse_events (exlink_parser_init p) (concat (map (\<lambda>(ns, op, bs). ns @ built_frame op bs) fs))
      = Some (q, map (\<lambda>(ns, op, bs). Frame op bs) fs) \<and> ps_state q = EXLINK_PS_MAGIC0"
proof -
  have "concat (map (\<lambda>(ns, op, bs). ns @ built_frame op bs) fs) = stream_bytes fs"
    unfolding stream_bytes_concat using assms(2)
    by (intro arg_cong [of _ _ concat] map_cong) (auto simp: built_frame_eq dest!: bspec)
  moreover have "ps_state (exlink_parser_init p) = EXLINK_PS_MAGIC0"
    by (simp add: exlink_parser_init_def)
  ultimately show ?thesis
    using parse_stream [OF idle_init [OF assms(1)] _ assms(2)] by auto
qed

definition static_parser :: exlink_parser where
  "static_parser = \<lparr>ps_state = EXLINK_PS_MAGIC0, ps_op = 0, ps_len = 0, ps_idx = 0,
     ps_crc_calc = 0, ps_crc_rx = 0, ps_payload = replicate EXLINK_MAX_PAYLOAD 0\<rparr>"

theorem frame_stream_roundtrip_witness:
  "\<exists>q. parse_events (exlink_parser_init static_parser)
      (concat (map (\<lambda>(ns, op, bs). ns @ built_frame op bs) [([0x4C, 0x00, 0x4C], 2, [1, 2, 3]), ([], 1, [])]))
      = Some (q, [Frame 2 [1, 2, 3], Frame 1 []]) \<and> ps_state q = EXLINK_PS_MAGIC0"
  using frame_stream_roundtrip [of static_parser "[([0x4C, 0x00, 0x4C], 2, [1, 2, 3]), ([], 1, [])]"]
  by (simp add: static_parser_def)

lemma covered_update_op: "(covered_bytes op bs)[2 := b] = covered_bytes b bs"
  by (simp add: covered_bytes_def frame_header_def eval_nat_numeral)

lemma covered_update_payload:
  "5 \<le> i \<Longrightarrow> (covered_bytes op bs)[i := b] = covered_bytes op (bs[i - 5 := b])"
  by (simp add: covered_bytes_def list_update_append)

lemma covered_crc_changes:
  assumes "i = 2 \<or> 5 \<le> i" and "i < length (covered_bytes op bs)" and "covered_bytes op bs ! i \<noteq> b"
  shows "exlink_crc16 (Some ((covered_bytes op bs)[i := b])) \<noteq> exlink_crc16 (Some (covered_bytes op bs))"
proof -
  let ?c = "covered_bytes op bs"
  have "?c = take i ?c @ (?c ! i) # drop (Suc i) ?c"
    using assms(2) by (rule id_take_nth_drop)
  moreover have "?c[i := b] = take i ?c @ b # drop (Suc i) ?c"
    using assms(2) by (rule upd_conv_take_nth_drop)
  ultimately show ?thesis
    using crc_detects_byte_change [OF assms(3)] by metis
qed

lemma parse_frame_bad_crc:
  assumes "length (ps_payload p) = EXLINK_MAX_PAYLOAD" and "length bs \<le> EXLINK_MAX_PAYLOAD"
    and "join16 a b \<noteq> exlink_crc16 (Some (covered_bytes op bs))"
  shows "\<exists>q. parse_events (exlink_parser_init p) (covered_bytes op bs @ [a, b]) = Some (q, [Bad_Crc])"
  using parse_frame_idle [OF idle_init [OF assms(1)] assms(2), of op a b] assms(3) by auto

text \<open>
  C39. A frame with one byte changed in its op-code, in its payload or in its CRC field is reported
  as \<open>EXLINK_FR_BAD_CRC\<close> and never as a good frame, whichever byte and whatever its new value.
\<close>

theorem corrupted_byte_rejected:
  assumes "length (ps_payload p) = EXLINK_MAX_PAYLOAD" and "length bs \<le> EXLINK_MAX_PAYLOAD"
    and "i = 2 \<or> 5 \<le> i" and "i < length (built_frame op bs)" and "built_frame op bs ! i \<noteq> b"
  shows "\<exists>q. parse_events (exlink_parser_init p) ((built_frame op bs)[i := b]) = Some (q, [Bad_Crc])"
proof -
  let ?c = "covered_bytes op bs"
  let ?crc = "exlink_crc16 (Some ?c)"
  have fb: "built_frame op bs = ?c @ [lo8 ?crc, hi8 ?crc]"
    using built_frame_eq [OF assms(2)] by (simp add: frame_bytes_def Let_def)
  consider "i < length ?c" | "i = length ?c" | "i = Suc (length ?c)"
    using assms(4) fb by (simp, linarith)
  then show ?thesis
  proof cases
    case 1
    then have "exlink_crc16 (Some (?c[i := b])) \<noteq> ?crc"
      using assms(3,5) fb by (intro covered_crc_changes) (auto simp: nth_append)
    moreover obtain op' bs' where "?c[i := b] = covered_bytes op' bs'" "length bs' = length bs"
      using assms(3) covered_update_op covered_update_payload by (metis length_list_update)
    moreover have "(built_frame op bs)[i := b] = ?c[i := b] @ [lo8 ?crc, hi8 ?crc]"
      using 1 fb by (simp add: list_update_append1)
    ultimately show ?thesis
      using parse_frame_bad_crc [OF assms(1), of bs' "lo8 ?crc" "hi8 ?crc" op'] assms(2) by simp
  next
    case 2
    then have upd: "(built_frame op bs)[i := b] = ?c @ [b, hi8 ?crc]"
      and "b \<noteq> lo8 ?crc" using assms(5) fb by (auto simp: list_update_append nth_append)
    then have "join16 b (hi8 ?crc) \<noteq> ?crc" by (metis lo8_join16)
    with upd show ?thesis using parse_frame_bad_crc [OF assms(1,2)] by simp
  next
    case 3
    then have upd: "(built_frame op bs)[i := b] = ?c @ [lo8 ?crc, b]"
      and "b \<noteq> hi8 ?crc" using assms(5) fb by (auto simp: list_update_append nth_append)
    then have "join16 (lo8 ?crc) b \<noteq> ?crc" by (metis hi8_join16)
    with upd show ?thesis using parse_frame_bad_crc [OF assms(1,2)] by simp
  qed
qed

theorem corrupted_byte_rejected_witness:
  "\<exists>q. parse_events (exlink_parser_init static_parser) ((built_frame 2 [7, 8])[5 := 9]) = Some (q, [Bad_Crc])"
proof -
  have "built_frame 2 [7, 8] = frame_bytes 2 [7, 8]" by (simp add: built_frame_eq)
  then have "built_frame 2 [7, 8] ! 5 = 7" "length (built_frame 2 [7, 8]) = 9"
    by (simp_all add: frame_bytes_def covered_bytes_def frame_header_def Let_def)
  then show ?thesis
    using corrupted_byte_rejected [of static_parser "[7, 8]" 5 2 9] by (simp add: static_parser_def)
qed

text \<open>
  C16. Memory safety of the parser: on any byte stream whatever, no step writes outside the payload
  array (the step would be \<open>None\<close>), every byte gives one result, and the index and length in the
  parser stay within the array.
\<close>

theorem parser_never_overruns:
  assumes "length (ps_payload p) = EXLINK_MAX_PAYLOAD"
  shows "\<exists>q rs. feed_bytes (exlink_parser_init p) bs = Some (q, rs) \<and> length rs = length bs
    \<and> length (ps_payload q) = EXLINK_MAX_PAYLOAD
    \<and> (ps_state q = EXLINK_PS_PAYLOAD \<longrightarrow>
         unat (ps_idx q) < unat (ps_len q) \<and> unat (ps_len q) \<le> EXLINK_MAX_PAYLOAD)"
  using feed_bytes_safe [OF parser_ok_init [OF assms], of bs]
  by (auto simp: parser_ok_def word_less_nat_alt)

theorem parser_never_overruns_witness:
  "\<exists>q rs. feed_bytes (exlink_parser_init static_parser) [0x4C, 0x4B, 2, 3, 0, 9] = Some (q, rs)
    \<and> length rs = length [0x4C, 0x4B, 2, 3, 0, 9 :: u8] \<and> length (ps_payload q) = EXLINK_MAX_PAYLOAD
    \<and> (ps_state q = EXLINK_PS_PAYLOAD \<longrightarrow>
         unat (ps_idx q) < unat (ps_len q) \<and> unat (ps_len q) \<le> EXLINK_MAX_PAYLOAD)"
  by (rule parser_never_overruns) (simp add: static_parser_def)

text \<open>
  An oversized length is refused at the fifth byte, before any payload byte is stored: the
  header of a frame that announces more than 4096 bytes gives \<open>EXLINK_FR_BAD_LEN\<close> and leaves the
  parser as \<open>exlink_parser_init\<close> leaves it.
\<close>

lemma oversized_length_refused:
  assumes "parser_idle p" and "unat plen > EXLINK_MAX_PAYLOAD"
  shows "feed_bytes p (frame_header op plen) =
     Some (exlink_parser_init p, replicate 4 EXLINK_FR_NONE @ [EXLINK_FR_BAD_LEN])"
proof -
  have "ucast (lo8 plen) OR push_bit 8 (ucast (hi8 plen)) = plen"
    using join16_lo8_hi8 [of plen] by (simp add: join16_def)
  moreover have "ps_state p = EXLINK_PS_MAGIC0 \<or> ps_state p = EXLINK_PS_MAGIC1"
    using assms(1) by (simp add: parser_idle_def)
  ultimately show ?thesis
    using assms(2) by (elim disjE)
      (simp_all add: frame_header_def exlink_parser_step_def exlink_parser_init_def Let_def eval_nat_numeral)
qed

text \<open>
  The frame builder on every branch: NULL output, oversized payload and too small a buffer give
  0 and leave the buffer alone; otherwise exactly \<open>7 + n\<close> bytes are written (header, payload, CRC
  over both) and the rest of the buffer keeps its content.
\<close>

lemma frame_build_branches:
  "exlink_frame_build op pl n None cap = (0, None)
   \<and> (unat n > 4096 \<longrightarrow> exlink_frame_build op pl n (Some buf) cap = (0, Some buf))
   \<and> (cap < 7 + unat n \<longrightarrow> exlink_frame_build op pl n (Some buf) cap = (0, Some buf))
   \<and> (unat n \<le> 4096 \<and> 7 + unat n \<le> cap \<and> cap \<le> length buf \<longrightarrow>
        (\<exists>out. exlink_frame_build op pl n (Some buf) cap = (7 + unat n, Some out)
          \<and> length out = length buf \<and> take 5 out = frame_header op n
          \<and> take (unat n) (drop 5 out) = payload_bytes pl n
          \<and> join16 (out ! (5 + unat n)) (out ! (6 + unat n)) = exlink_crc16 (Some (take (5 + unat n) out))
          \<and> drop (7 + unat n) out = drop (7 + unat n) buf))"
  by (auto simp: exlink_frame_build_def Let_def nth_append)

lemma frame_build_branches_witness:
  "exlink_frame_build 2 None 0 None 9 = (0, None) \<and> exlink_frame_build 2 None 0 (Some [1]) 1 = (0, Some [1])"
  using frame_build_branches [of 2 None 0 9 "[1]"] frame_build_branches [of 2 None 0 1 "[1]"] by simp

end
