(* ===== verification/Usb_Ctrl.thy ===== *)
theory Usb_Ctrl
  imports Ring_Buffer Usb_Channel Frame_Codec
begin

text \<open>
  The control channel, interface 0 (\<^verbatim>\<open>applications/usb_if_ctrl.c\<close>): the receive ring between the
  OUT callback and the frame thread, the IN callback, the bus events and the blocking send.
  The ring is interpreted as the locale \<open>spsc_ring\<close>, the IN callback as the locale \<open>bulk_in\<close>;
  the interleaving of the interrupt handlers with the three accesses of
  \<^verbatim>\<open>usb_if_ctrl_rx_getchar\<close> is a step relation.
\<close>

section \<open>State\<close>

text \<open>
  The statics of the file.  The semaphore is a number; the kernel's counter stays at 65535 when it gets there,
  which no consumer can tell, as the frame thread empties the ring whenever it is awake.
\<close>

definition EXLINK_RX_RING_SIZE :: nat where "EXLINK_RX_RING_SIZE = 8192"
definition EXLINK_RX_RING_MASK :: u16 where "EXLINK_RX_RING_MASK = 8191"

record usb_if_ctrl =
  ctrl_rx_ring :: "nat \<Rightarrow> u8"
  ctrl_rx_head :: u16
  ctrl_rx_tail :: u16
  ctrl_rx_dropped :: u32
  ctrl_rx_sem :: nat
  ctrl_ep_out_buf :: "u8 list"
  ctrl_ep_in_buf :: "u8 list"
  ctrl_configured :: bool
  ctrl_tx_busy :: bool
  ctrl_busid :: u8
  ctrl_calls :: "usb_call list"

section \<open>The receive ring\<close>

text \<open>One iteration of the producer's loop stores a byte; a full ring ends the loop.\<close>

definition rx_store :: "u8 \<Rightarrow> usb_if_ctrl \<Rightarrow> usb_if_ctrl" where
  "rx_store b s = s\<lparr> ctrl_rx_ring := (ctrl_rx_ring s)(unat (ctrl_rx_head s) := b),
                    ctrl_rx_head := (ctrl_rx_head s + 1) AND EXLINK_RX_RING_MASK \<rparr>"

fun rx_ring_put :: "u8 list \<Rightarrow> usb_if_ctrl \<Rightarrow> usb_if_ctrl" where
  "rx_ring_put [] s = s"
| "rx_ring_put (b # bs) s =
    (if (ctrl_rx_head s + 1) AND EXLINK_RX_RING_MASK = ctrl_rx_tail s
     then s\<lparr> ctrl_rx_dropped := ctrl_rx_dropped s + 1 \<rparr>
     else rx_ring_put bs (rx_store b s))"

definition rx_release :: "usb_if_ctrl \<Rightarrow> usb_if_ctrl" where
  "rx_release s = s\<lparr> ctrl_rx_tail := (ctrl_rx_tail s + 1) AND EXLINK_RX_RING_MASK \<rparr>"

text \<open>\<^verbatim>\<open>usb_if_ctrl_rx_getchar\<close>: \<open>None\<close> is the return value 0, the byte comes with the return value 1.\<close>

definition usb_if_ctrl_rx_getchar :: "usb_if_ctrl \<Rightarrow> u8 option \<times> usb_if_ctrl" where
  "usb_if_ctrl_rx_getchar s =
    (if ctrl_rx_tail s = ctrl_rx_head s then (None, s)
     else (Some (ctrl_rx_ring s (unat (ctrl_rx_tail s))), rx_release s))"

section \<open>Endpoint callbacks and bus events\<close>

definition ctrl_call :: "usb_call \<Rightarrow> usb_if_ctrl \<Rightarrow> usb_if_ctrl" where
  "ctrl_call c s = s\<lparr> ctrl_calls := ctrl_calls s @ [c] \<rparr>"

definition exlink_ctrl_out_cb :: "u8 \<Rightarrow> nat \<Rightarrow> usb_if_ctrl \<Rightarrow> usb_if_ctrl" where
  "exlink_ctrl_out_cb busid nbytes s =
    (let s = (if 0 < nbytes
              then (let s = rx_ring_put (take nbytes (ctrl_ep_out_buf s)) s
                    in s\<lparr> ctrl_rx_sem := ctrl_rx_sem s + 1 \<rparr>)
              else s)
     in ctrl_call (Ep_Start_Read busid EXLINK_EP_CMD_OUT EXLINK_BULK_MPS) s)"

text \<open>\<open>mps\<close> is what \<^verbatim>\<open>usbd_get_ep_mps\<close> reports for the endpoint.\<close>

definition exlink_ctrl_in_cb :: "nat \<Rightarrow> u8 \<Rightarrow> nat \<Rightarrow> usb_if_ctrl \<Rightarrow> usb_if_ctrl" where
  "exlink_ctrl_in_cb mps busid nbytes s =
    (if 0 < nbytes \<and> nbytes mod mps = 0
     then ctrl_call (Ep_Start_Write busid EXLINK_EP_CMD_IN []) s
     else s\<lparr> ctrl_tx_busy := False \<rparr>)"

definition usb_if_ctrl_add :: "u8 \<Rightarrow> usb_if_ctrl \<Rightarrow> usb_if_ctrl" where
  "usb_if_ctrl_add busid s =
    (let s = s\<lparr> ctrl_busid := busid, ctrl_rx_head := 0, ctrl_rx_tail := 0, ctrl_rx_dropped := 0,
                ctrl_configured := False, ctrl_tx_busy := False, ctrl_rx_sem := 0 \<rparr>
     in ctrl_call (Add_Endpoint busid EXLINK_EP_CMD_IN)
         (ctrl_call (Add_Endpoint busid EXLINK_EP_CMD_OUT)
           (ctrl_call (Add_Interface busid EXLINK_IFNUM_CMD) s)))"

definition usb_if_ctrl_on_configured :: "u8 \<Rightarrow> usb_if_ctrl \<Rightarrow> usb_if_ctrl" where
  "usb_if_ctrl_on_configured busid s =
    ctrl_call (Ep_Start_Read busid EXLINK_EP_CMD_OUT EXLINK_BULK_MPS)
      (s\<lparr> ctrl_configured := True, ctrl_tx_busy := False \<rparr>)"

definition usb_if_ctrl_on_reset :: "usb_if_ctrl \<Rightarrow> usb_if_ctrl" where
  "usb_if_ctrl_on_reset s = s\<lparr> ctrl_configured := False, ctrl_tx_busy := False \<rparr>"

text \<open>
  What interrupts the threads: the controller has written a packet into the OUT buffer, an IN
  transfer is complete, the bus is reset or configured.
\<close>

datatype ctrl_event =
    Ctrl_Out "u8 list"
  | Ctrl_In nat
  | Ctrl_Reset
  | Ctrl_Configured

fun ctrl_isr :: "nat \<Rightarrow> ctrl_event \<Rightarrow> usb_if_ctrl \<Rightarrow> usb_if_ctrl" where
  "ctrl_isr mps (Ctrl_Out d) s =
    exlink_ctrl_out_cb (ctrl_busid s) (length d)
      (s\<lparr> ctrl_ep_out_buf := d @ drop (length d) (ctrl_ep_out_buf s) \<rparr>)"
| "ctrl_isr mps (Ctrl_In n) s = exlink_ctrl_in_cb mps (ctrl_busid s) n s"
| "ctrl_isr mps Ctrl_Reset s = usb_if_ctrl_on_reset s"
| "ctrl_isr mps Ctrl_Configured s = usb_if_ctrl_on_configured (ctrl_busid s) s"

section \<open>The blocking send\<close>

definition TX_TIMEOUT_MS :: nat where "TX_TIMEOUT_MS = 500"

text \<open>
  \<open>data\<close> is \<open>None\<close> for a null pointer, \<open>ret\<close> is what \<^verbatim>\<open>usbd_ep_start_write\<close> returns, the script
  holds what interrupts the thread in each of its delays.
\<close>

definition ctrl_wait :: "nat \<Rightarrow> usb_if_ctrl \<Rightarrow> ctrl_event list list \<Rightarrow> bool \<times> usb_if_ctrl \<times> ctrl_event list list" where
  "ctrl_wait mps = wait_idle ctrl_tx_busy (fold (ctrl_isr mps)) TX_TIMEOUT_MS 0"

definition ctrl_start :: "u8 list \<Rightarrow> usb_if_ctrl \<Rightarrow> usb_if_ctrl" where
  "ctrl_start data s =
    ctrl_call (Ep_Start_Write (ctrl_busid s) EXLINK_EP_CMD_IN data)
      (s\<lparr> ctrl_ep_in_buf := data @ drop (length data) (ctrl_ep_in_buf s), ctrl_tx_busy := True \<rparr>)"

definition usb_if_ctrl_send ::
  "nat \<Rightarrow> int \<Rightarrow> u8 list option \<Rightarrow> usb_if_ctrl \<Rightarrow> ctrl_event list list
    \<Rightarrow> int \<times> usb_if_ctrl \<times> ctrl_event list list" where
  "usb_if_ctrl_send mps ret data s script =
    (case data of
       None \<Rightarrow> (- 1, s, script)
     | Some d \<Rightarrow>
        if length d = 0 then (- 1, s, script)
        else if \<not> ctrl_configured s then (- 2, s, script)
        else if EXLINK_MAX_FRAME < length d then (- 3, s, script)
        else (case ctrl_wait mps s script of
            (idle, s, script) \<Rightarrow>
              if \<not> idle then (- 4, s, script)
              else (let s = ctrl_start d s in
                if ret < 0 then (- 5, s\<lparr> ctrl_tx_busy := False \<rparr>, script)
                else (case ctrl_wait mps s script of
                    (idle, s, script) \<Rightarrow> (if idle then 0 else - 6, s, script)))))"

section \<open>The ring is a bounded FIFO queue\<close>

definition ctrl_ring_inv :: "usb_if_ctrl \<Rightarrow> bool" where
  "ctrl_ring_inv s \<longleftrightarrow> unat (ctrl_rx_head s) < EXLINK_RX_RING_SIZE \<and> unat (ctrl_rx_tail s) < EXLINK_RX_RING_SIZE"

lemma unat_ring_next:
  assumes "unat w < EXLINK_RX_RING_SIZE"
  shows "unat ((w + 1) AND EXLINK_RX_RING_MASK) = (unat w + 1) mod EXLINK_RX_RING_SIZE"
proof -
  have m: "(w + 1) AND EXLINK_RX_RING_MASK = take_bit 13 (w + 1)"
    by (simp add: EXLINK_RX_RING_MASK_def take_bit_eq_mask mask_eq_exp_minus_1)
  have "unat (w + 1) = unat w + 1"
    using assms by (simp add: EXLINK_RX_RING_SIZE_def unat_word_ariths(1))
  then show ?thesis
    by (simp add: m unsigned_take_bit_eq take_bit_nat_def EXLINK_RX_RING_SIZE_def)
qed

interpretation rx: spsc_ring EXLINK_RX_RING_SIZE
  "\<lambda>s. unat (ctrl_rx_head s)" "\<lambda>s. unat (ctrl_rx_tail s)" ctrl_rx_ring rx_store rx_release ctrl_ring_inv
  by unfold_locales
    (auto simp: ctrl_ring_inv_def rx_store_def rx_release_def unat_ring_next EXLINK_RX_RING_SIZE_def)

definition rx_queue :: "usb_if_ctrl \<Rightarrow> u8 list" where
  "rx_queue s = ring_list EXLINK_RX_RING_SIZE (unat (ctrl_rx_head s)) (unat (ctrl_rx_tail s)) (ctrl_rx_ring s)"

definition rx_free :: "usb_if_ctrl \<Rightarrow> nat" where
  "rx_free s = EXLINK_RX_RING_SIZE - 1 - length (rx_queue s)"

lemma rx_full_iff:
  assumes "ctrl_ring_inv s"
  shows "(ctrl_rx_head s + 1) AND EXLINK_RX_RING_MASK = ctrl_rx_tail s \<longleftrightarrow> rx_free s = 0"
proof -
  have "(ctrl_rx_head s + 1) AND EXLINK_RX_RING_MASK = ctrl_rx_tail s
      \<longleftrightarrow> (unat (ctrl_rx_head s) + 1) mod EXLINK_RX_RING_SIZE = unat (ctrl_rx_tail s)"
    using assms unat_ring_next by (metis ctrl_ring_inv_def unsigned_word_eqI)
  also have "\<dots> \<longleftrightarrow> rx_free s = 0"
    using rx.queue_full [OF assms] rx.queue_bound [OF assms] by (auto simp: rx_free_def rx_queue_def)
  finally show ?thesis .
qed

lemma rx_empty_iff:
  "ctrl_ring_inv s \<Longrightarrow> ctrl_rx_tail s = ctrl_rx_head s \<longleftrightarrow> rx_queue s = []"
  using rx.queue_empty [of s] by (metis rx_queue_def unsigned_word_eqI)

lemma rx_store_queue:
  assumes "ctrl_ring_inv s" and "0 < rx_free s"
  shows "rx_queue (rx_store b s) = rx_queue s @ [b]" and "ctrl_ring_inv (rx_store b s)"
proof -
  have "(unat (ctrl_rx_head s) + 1) mod EXLINK_RX_RING_SIZE \<noteq> unat (ctrl_rx_tail s)"
    using assms rx.queue_full [OF assms(1)] by (auto simp: rx_free_def rx_queue_def)
  then show "rx_queue (rx_store b s) = rx_queue s @ [b]" and "ctrl_ring_inv (rx_store b s)"
    using rx.queue_put [OF assms(1), of b] by (simp_all add: rx_queue_def)
qed

lemma rx_release_queue:
  assumes "ctrl_ring_inv s" and "rx_queue s \<noteq> []"
  shows "rx_queue s = ctrl_rx_ring s (unat (ctrl_rx_tail s)) # rx_queue (rx_release s)"
    and "ctrl_ring_inv (rx_release s)"
  using rx.queue_get [OF assms(1)] rx.queue_empty [OF assms(1)] assms(2) by (simp_all add: rx_queue_def)

text \<open>The producer appends what fits and counts one drop when something did not.\<close>

lemma rx_ring_put_queue:
  "ctrl_ring_inv s \<Longrightarrow>
   rx_queue (rx_ring_put bs s) = rx_queue s @ take (rx_free s) bs
   \<and> ctrl_rx_dropped (rx_ring_put bs s) = ctrl_rx_dropped s + (if rx_free s < length bs then 1 else 0)
   \<and> ctrl_ring_inv (rx_ring_put bs s)"
proof (induction bs arbitrary: s)
  case Nil
  then show ?case by simp
next
  case (Cons b bs)
  show ?case
  proof (cases "rx_free s = 0")
    case True
    with Cons.prems have full: "(ctrl_rx_head s + 1) AND EXLINK_RX_RING_MASK = ctrl_rx_tail s"
      by (simp only: rx_full_iff)
    then show ?thesis using Cons.prems True by (simp add: rx_queue_def ctrl_ring_inv_def)
  next
    case False
    then have room: "(ctrl_rx_head s + 1) AND EXLINK_RX_RING_MASK \<noteq> ctrl_rx_tail s"
      using Cons.prems by (simp only: rx_full_iff not_False_eq_True)
    have q: "rx_queue (rx_store b s) = rx_queue s @ [b]" "ctrl_ring_inv (rx_store b s)"
      using rx_store_queue [OF Cons.prems] False by simp_all
    then have "rx_free s = Suc (rx_free (rx_store b s))"
      using False by (simp add: rx_free_def)
    moreover have "ctrl_rx_dropped (rx_store b s) = ctrl_rx_dropped s" by (simp add: rx_store_def)
    ultimately show ?thesis using Cons.IH [OF q(2)] q(1) room by simp
  qed
qed

lemmas rx_put_queue = rx_ring_put_queue [THEN conjunct1]
lemmas rx_put_dropped = rx_ring_put_queue [THEN conjunct2, THEN conjunct1]
lemmas rx_put_inv = rx_ring_put_queue [THEN conjunct2, THEN conjunct2]

lemma rx_getchar_queue:
  assumes "ctrl_ring_inv s"
  shows "usb_if_ctrl_rx_getchar s =
    (case rx_queue s of [] \<Rightarrow> (None, s) | b # _ \<Rightarrow> (Some b, rx_release s))"
  using rx_empty_iff [OF assms] rx_release_queue [OF assms]
  by (auto simp: usb_if_ctrl_rx_getchar_def split: list.split)


section \<open>Interrupts and the frame thread, interleaved\<close>

fun event_bytes :: "ctrl_event \<Rightarrow> u8 list" where
  "event_bytes (Ctrl_Out d) = d"
| "event_bytes _ = []"

text \<open>Fields a call, a callback or a bus event leaves alone.\<close>

lemma ctrl_call_fields [simp]:
  "ctrl_rx_ring (ctrl_call c s) = ctrl_rx_ring s" "ctrl_rx_head (ctrl_call c s) = ctrl_rx_head s"
  "ctrl_rx_tail (ctrl_call c s) = ctrl_rx_tail s" "ctrl_tx_busy (ctrl_call c s) = ctrl_tx_busy s"
  "ctrl_configured (ctrl_call c s) = ctrl_configured s" "ctrl_busid (ctrl_call c s) = ctrl_busid s"
  "ctrl_calls (ctrl_call c s) = ctrl_calls s @ [c]"
  by (simp_all add: ctrl_call_def)

lemma rx_queue_cong:
  "ctrl_rx_ring s' = ctrl_rx_ring s \<Longrightarrow> ctrl_rx_head s' = ctrl_rx_head s \<Longrightarrow> ctrl_rx_tail s' = ctrl_rx_tail s
   \<Longrightarrow> rx_queue s' = rx_queue s \<and> ctrl_ring_inv s' = ctrl_ring_inv s \<and> rx_free s' = rx_free s"
  by (simp add: rx_queue_def ctrl_ring_inv_def rx_free_def)

lemma ctrl_isr_queue:
  assumes "ctrl_ring_inv s"
  shows "rx_queue (ctrl_isr mps e s) = rx_queue s @ take (rx_free s) (event_bytes e)"
    and "ctrl_ring_inv (ctrl_isr mps e s)"
proof -
  have "rx_queue (ctrl_isr mps e s) = rx_queue s @ take (rx_free s) (event_bytes e)
      \<and> ctrl_ring_inv (ctrl_isr mps e s)"
  proof (cases e)
    case (Ctrl_Out d)
    let ?s = "s\<lparr> ctrl_ep_out_buf := d @ drop (length d) (ctrl_ep_out_buf s) \<rparr>"
    have s: "rx_queue ?s = rx_queue s" "ctrl_ring_inv ?s" "rx_free ?s = rx_free s"
      using rx_queue_cong [of ?s s] assms by simp_all
    show ?thesis
    proof (cases "d = []")
      case True
      then show ?thesis
        using rx_queue_cong [of "ctrl_isr mps e s" s] assms
        by (simp add: Ctrl_Out exlink_ctrl_out_cb_def)
    next
      case False
      then have "rx_queue (ctrl_isr mps e s) = rx_queue (rx_ring_put d ?s)"
        "ctrl_ring_inv (ctrl_isr mps e s) = ctrl_ring_inv (rx_ring_put d ?s)"
        using rx_queue_cong [of "ctrl_isr mps e s" "rx_ring_put d ?s"]
        by (simp_all add: Ctrl_Out exlink_ctrl_out_cb_def Let_def)
      then show ?thesis
        using rx_ring_put_queue [OF s(2), of d] s Ctrl_Out by (simp only: event_bytes.simps)
    qed
  next
    case (Ctrl_In n)
    then show ?thesis
      using rx_queue_cong [of "ctrl_isr mps e s" s] assms by (auto simp: exlink_ctrl_in_cb_def)
  next
    case Ctrl_Reset
    then show ?thesis
      using rx_queue_cong [of "ctrl_isr mps e s" s] assms by (auto simp: usb_if_ctrl_on_reset_def)
  next
    case Ctrl_Configured
    then show ?thesis
      using rx_queue_cong [of "ctrl_isr mps e s" s] assms by (auto simp: usb_if_ctrl_on_configured_def)
  qed
  then show "rx_queue (ctrl_isr mps e s) = rx_queue s @ take (rx_free s) (event_bytes e)"
    and "ctrl_ring_inv (ctrl_isr mps e s)" by simp_all
qed

lemma ctrl_isr_tail: "ctrl_rx_tail (ctrl_isr mps e s) = ctrl_rx_tail s"
proof -
  have put: "ctrl_rx_tail (rx_ring_put bs s) = ctrl_rx_tail s" for bs s
    by (induction bs arbitrary: s) (simp_all add: rx_store_def)
  show ?thesis
    by (cases e) (simp_all add: exlink_ctrl_out_cb_def exlink_ctrl_in_cb_def usb_if_ctrl_on_reset_def
      usb_if_ctrl_on_configured_def Let_def put)
qed

text \<open>
  \<^verbatim>\<open>usb_if_ctrl_rx_getchar\<close> reads both indices, then the slot, then writes the tail; interrupts
  come between any two of them.  The world also records the bytes the ring took and the bytes the
  thread got.
\<close>

datatype getchar_pc = Gc_Test | Gc_Read | Gc_Advance u8

record rx_world =
  rw_ctrl :: usb_if_ctrl
  rw_pc :: getchar_pc
  rw_got :: "u8 list"
  rw_accepted :: "u8 list"

inductive rx_step :: "nat \<Rightarrow> rx_world \<Rightarrow> rx_world \<Rightarrow> bool" for mps where
  interrupt: "rx_step mps w (w\<lparr> rw_ctrl := ctrl_isr mps e (rw_ctrl w),
      rw_accepted := rw_accepted w @ take (rx_free (rw_ctrl w)) (event_bytes e) \<rparr>)"
| test_empty: "rw_pc w = Gc_Test \<Longrightarrow> ctrl_rx_tail (rw_ctrl w) = ctrl_rx_head (rw_ctrl w) \<Longrightarrow> rx_step mps w w"
| test: "rw_pc w = Gc_Test \<Longrightarrow> ctrl_rx_tail (rw_ctrl w) \<noteq> ctrl_rx_head (rw_ctrl w) \<Longrightarrow>
    rx_step mps w (w\<lparr> rw_pc := Gc_Read \<rparr>)"
| read: "rw_pc w = Gc_Read \<Longrightarrow>
    rx_step mps w (w\<lparr> rw_pc := Gc_Advance (ctrl_rx_ring (rw_ctrl w) (unat (ctrl_rx_tail (rw_ctrl w)))) \<rparr>)"
| advance: "rw_pc w = Gc_Advance b \<Longrightarrow>
    rx_step mps w (w\<lparr> rw_pc := Gc_Test, rw_got := rw_got w @ [b], rw_ctrl := rx_release (rw_ctrl w) \<rparr>)"

inductive_cases rx_stepE: "rx_step mps w w'"

definition rx_start :: "u8 \<Rightarrow> usb_if_ctrl \<Rightarrow> rx_world" where
  "rx_start busid s = \<lparr> rw_ctrl = usb_if_ctrl_add busid s, rw_pc = Gc_Test, rw_got = [], rw_accepted = [] \<rparr>"

definition rx_world_inv :: "rx_world \<Rightarrow> bool" where
  "rx_world_inv w \<longleftrightarrow> ctrl_ring_inv (rw_ctrl w)
     \<and> rw_accepted w = rw_got w @ rx_queue (rw_ctrl w)
     \<and> (case rw_pc w of Gc_Test \<Rightarrow> True
         | Gc_Read \<Rightarrow> rx_queue (rw_ctrl w) \<noteq> []
         | Gc_Advance b \<Rightarrow> rx_queue (rw_ctrl w) \<noteq> [] \<and> hd (rx_queue (rw_ctrl w)) = b)"

lemma rx_start_inv: "rx_world_inv (rx_start busid s)"
  by (simp add: rx_world_inv_def rx_start_def usb_if_ctrl_add_def ctrl_ring_inv_def rx_queue_def
    ring_list_def EXLINK_RX_RING_SIZE_def Let_def)

lemma rx_step_inv: "rx_step mps w w' \<Longrightarrow> rx_world_inv w \<Longrightarrow> rx_world_inv w'"
proof (induction rule: rx_step.induct)
  case (interrupt w e)
  then show ?case
    using ctrl_isr_queue [of "rw_ctrl w" mps e]
    by (auto simp: rx_world_inv_def split: getchar_pc.splits)
next
  case (test w)
  then show ?case using rx_empty_iff [of "rw_ctrl w"] by (simp add: rx_world_inv_def)
next
  case (read w)
  then have "rx_queue (rw_ctrl w) = ctrl_rx_ring (rw_ctrl w) (unat (ctrl_rx_tail (rw_ctrl w))) # rx_queue (rx_release (rw_ctrl w))"
    by (intro rx_release_queue) (simp_all add: rx_world_inv_def)
  with read show ?case by (simp add: rx_world_inv_def)
next
  case (advance w b)
  then show ?case using rx_release_queue [of "rw_ctrl w"] by (auto simp: rx_world_inv_def)
qed simp

lemma rx_reach_inv: "(rx_step mps)\<^sup>*\<^sup>* w w' \<Longrightarrow> rx_world_inv w \<Longrightarrow> rx_world_inv w'"
  by (induction rule: rtranclp_induct) (auto dest: rx_step_inv)

text \<open>Without an interrupt, the three accesses are the function.\<close>

lemma getchar_steps:
  assumes "rw_pc w = Gc_Test" and "usb_if_ctrl_rx_getchar (rw_ctrl w) = (Some b, s)"
  shows "(rx_step mps)\<^sup>*\<^sup>* w (w\<lparr> rw_ctrl := s, rw_got := rw_got w @ [b] \<rparr>)"
proof -
  have c: "ctrl_rx_tail (rw_ctrl w) \<noteq> ctrl_rx_head (rw_ctrl w)"
    "b = ctrl_rx_ring (rw_ctrl w) (unat (ctrl_rx_tail (rw_ctrl w)))" "s = rx_release (rw_ctrl w)"
    using assms(2) by (auto simp: usb_if_ctrl_rx_getchar_def split: if_splits)
  let ?r = "w\<lparr> rw_pc := Gc_Read \<rparr>" and ?a = "w\<lparr> rw_pc := Gc_Advance b \<rparr>"
  have "rx_step mps w ?r" using rx_step.test [OF assms(1) c(1), of mps] .
  moreover have "rx_step mps ?r ?a" using rx_step.read [of ?r mps] c(2) by simp
  moreover have "rx_step mps ?a (w\<lparr> rw_ctrl := s, rw_got := rw_got w @ [b] \<rparr>)"
    using rx_step.advance [of ?a b mps] assms(1) c(3) by (cases w) simp
  ultimately show ?thesis by (meson converse_rtranclp_into_rtranclp rtranclp.rtrancl_refl)
qed


section \<open>What a send does\<close>

text \<open>The IN callback on the control channel ends transfers as \<open>bulk_in\<close> demands, at every packet size.\<close>

interpretation ctrl_in: bulk_in mps ctrl_tx_busy "\<lambda>s. writes_of EXLINK_EP_CMD_IN (ctrl_calls s)"
  "exlink_ctrl_in_cb mps busid" for mps :: nat and busid :: u8
  by unfold_locales (auto simp: exlink_ctrl_in_cb_def)

lemma in_cb_fields [simp]:
  "ctrl_busid (exlink_ctrl_in_cb mps busid n s) = ctrl_busid s"
  "ctrl_configured (exlink_ctrl_in_cb mps busid n s) = ctrl_configured s"
  "rx_queue (exlink_ctrl_in_cb mps busid n s) = rx_queue s"
  "ctrl_ring_inv (exlink_ctrl_in_cb mps busid n s) = ctrl_ring_inv s"
  by (auto simp: exlink_ctrl_in_cb_def rx_queue_def ctrl_ring_inv_def)

lemma ctrl_start_fields [simp]:
  "ctrl_busid (ctrl_start d s) = ctrl_busid s" "ctrl_configured (ctrl_start d s) = ctrl_configured s"
  "rx_queue (ctrl_start d s) = rx_queue s" "ctrl_ring_inv (ctrl_start d s) = ctrl_ring_inv s"
  "ctrl_tx_busy (ctrl_start d s)"
  "writes_of EXLINK_EP_CMD_IN (ctrl_calls (ctrl_start d s)) = writes_of EXLINK_EP_CMD_IN (ctrl_calls s) @ [d]"
  by (simp_all add: ctrl_start_def rx_queue_def ctrl_ring_inv_def)

text \<open>
  The script of a host that takes a transfer of \<open>n\<close> bytes: the controller reports each completion
  in a delay of its own.
\<close>

definition host_takes :: "nat \<Rightarrow> nat \<Rightarrow> ctrl_event list list" where
  "host_takes mps n = (if 0 < n \<and> n mod mps = 0 then [[Ctrl_In n], [Ctrl_In 0]] else [[Ctrl_In n]])"

definition ctrl_taken :: "nat \<Rightarrow> u8 list \<Rightarrow> usb_if_ctrl \<Rightarrow> usb_if_ctrl" where
  "ctrl_taken mps d s =
    fold (exlink_ctrl_in_cb mps (ctrl_busid s)) (ctrl_in.completions mps (length d)) (ctrl_start d s)"

lemma ctrl_wait_taken:
  "ctrl_wait mps (ctrl_start d s) (host_takes mps (length d) @ rest) = (True, ctrl_taken mps d s, rest)"
proof -
  have "host_takes mps n = ctrl_in.takes mps Ctrl_In n []" for n
    by (simp add: host_takes_def ctrl_in.takes_def)
  then show ?thesis
    unfolding ctrl_wait_def ctrl_taken_def
    using ctrl_in.wait_takes [where es = "[]" and more = "\<lambda>es. fold (ctrl_isr mps) es" and report = Ctrl_In
      and isr = "fold (ctrl_isr mps)" and s = "ctrl_start d s" and busid = "ctrl_busid s" and n = "length d"]
    by (simp add: TX_TIMEOUT_MS_def)
qed

lemma ctrl_taken_fields [simp]:
  "ctrl_busid (ctrl_taken mps d s) = ctrl_busid s"
  "ctrl_configured (ctrl_taken mps d s) = ctrl_configured s"
  "rx_queue (ctrl_taken mps d s) = rx_queue s"
  "ctrl_ring_inv (ctrl_taken mps d s) = ctrl_ring_inv s"
  "\<not> ctrl_tx_busy (ctrl_taken mps d s)"
  "writes_of EXLINK_EP_CMD_IN (ctrl_calls (ctrl_taken mps d s)) =
    writes_of EXLINK_EP_CMD_IN (ctrl_calls s) @ [d]
      @ (if 0 < length d \<and> length d mod mps = 0 then [[]] else [])"
proof -
  show "\<not> ctrl_tx_busy (ctrl_taken mps d s)"
    unfolding ctrl_taken_def by (rule ctrl_in.completions_idle)
  show "writes_of EXLINK_EP_CMD_IN (ctrl_calls (ctrl_taken mps d s)) =
    writes_of EXLINK_EP_CMD_IN (ctrl_calls s) @ [d]
      @ (if 0 < length d \<and> length d mod mps = 0 then [[]] else [])"
    unfolding ctrl_taken_def by (simp add: ctrl_in.completions_sent)
qed (simp_all add: ctrl_taken_def ctrl_in.completions_def)

lemma send_taken:
  assumes "ctrl_configured s" and "\<not> ctrl_tx_busy s" and "0 < length d" and "length d \<le> EXLINK_MAX_FRAME"
    and "0 \<le> ret"
  shows "usb_if_ctrl_send mps ret (Some d) s (host_takes mps (length d) @ rest)
       = (0, ctrl_taken mps d s, rest)"
proof -
  have "ctrl_wait mps s script = (True, s, script)" for script
    using assms(2) by (simp add: ctrl_wait_def)
  then show ?thesis using assms by (simp add: usb_if_ctrl_send_def ctrl_wait_taken)
qed

lemma ctrl_wait_result: "ctrl_wait mps s script = (ok, s', rest) \<Longrightarrow> ok = (\<not> ctrl_tx_busy s')"
  unfolding ctrl_wait_def by (rule wait_idle_result)

lemma ctrl_wait_script:
  "ctrl_wait mps s script = (ok, s', rest) \<Longrightarrow> \<exists>k \<le> TX_TIMEOUT_MS. rest = drop k script"
  unfolding ctrl_wait_def using wait_idle_script by force

lemma send_cases:
  assumes "usb_if_ctrl_send mps ret (Some d) s script = (rc, s', rest)"
  obtains
    (refused) "rc \<in> {- 1, - 2, - 3}" "s' = s" "rest = script"
      "d = [] \<or> \<not> ctrl_configured s \<or> EXLINK_MAX_FRAME < length d"
  | (busy) "rc = - 4" "ctrl_wait mps s script = (False, s', rest)"
  | (failed) s1 where "rc = - 5" "ctrl_wait mps s script = (True, s1, rest)" "ret < 0"
      "s' = (ctrl_start d s1)\<lparr> ctrl_tx_busy := False \<rparr>"
  | (stuck) s1 script1 where "rc = - 6" "ctrl_wait mps s script = (True, s1, script1)"
      "ctrl_wait mps (ctrl_start d s1) script1 = (False, s', rest)"
  | (delivered) s1 script1 where "rc = 0" "ctrl_wait mps s script = (True, s1, script1)"
      "ctrl_wait mps (ctrl_start d s1) script1 = (True, s', rest)"
  using assms unfolding usb_if_ctrl_send_def
  by (auto simp: Let_def split: if_splits prod.splits)


section \<open>Properties\<close>

text \<open>
  C10. However the endpoint and bus interrupts interleave with the three memory accesses of
  \<^verbatim>\<open>usb_if_ctrl_rx_getchar\<close>, the bytes the ring took are those the frame thread got followed by those
  still queued, in order: no byte is lost, repeated or reordered; and a byte the thread has read but
  not yet released is still the front of the ring, so the OUT callback has not overwritten it.
\<close>

theorem rx_handover_in_order:
  assumes "(rx_step mps)\<^sup>*\<^sup>* (rx_start busid s) w"
  shows "rw_accepted w = rw_got w @ rx_queue (rw_ctrl w)
    \<and> (\<forall>b. rw_pc w = Gc_Advance b \<longrightarrow> (\<exists>q. rx_queue (rw_ctrl w) = b # q))"
proof -
  have "rx_world_inv w" using rx_reach_inv [OF assms rx_start_inv] .
  then show ?thesis by (auto simp: rx_world_inv_def split: getchar_pc.splits) (metis list.collapse)
qed

lemma rx_handover_in_order_witness:
  "\<forall>s. \<exists>w. (rx_step 512)\<^sup>*\<^sup>* (rx_start 0 s) w \<and> rw_got w = [] \<and> rw_pc w = Gc_Advance 7
     \<and> rw_accepted w = [7, 9] \<and> (\<exists>q. rx_queue (rw_ctrl w) = 7 # q)"
proof
  fix s
  define irq where "irq = (\<lambda>d (w :: rx_world). w\<lparr> rw_ctrl := ctrl_isr 512 (Ctrl_Out d) (rw_ctrl w),
      rw_accepted := rw_accepted w @ take (rx_free (rw_ctrl w)) d \<rparr>)"
  define w0 where "w0 = rx_start 0 s"
  define w1 where "w1 = irq [7] w0"
  define w2 where "w2 = w1\<lparr> rw_pc := Gc_Read \<rparr>"
  define w3 where "w3 = w2\<lparr> rw_pc := Gc_Advance 7 \<rparr>"
  define w4 where "w4 = irq [9] w3"
  have w0: "ctrl_ring_inv (rw_ctrl w0)" "rx_queue (rw_ctrl w0) = []" "rw_pc w0 = Gc_Test"
    "rw_got w0 = []" "rw_accepted w0 = []"
    using rx_start_inv [of 0 s] by (simp_all add: rx_world_inv_def rx_start_def w0_def)
  have w1: "rx_queue (rw_ctrl w1) = [7]" "ctrl_ring_inv (rw_ctrl w1)" "rw_pc w1 = Gc_Test"
    "rw_got w1 = []" "rw_accepted w1 = [7]"
    using ctrl_isr_queue [OF w0(1), of 512 "Ctrl_Out [7]"] w0
    by (simp_all add: w1_def irq_def rx_free_def EXLINK_RX_RING_SIZE_def del: ctrl_isr.simps)
  have "ctrl_rx_tail (rw_ctrl w1) \<noteq> ctrl_rx_head (rw_ctrl w1)"
    using rx_empty_iff [OF w1(2)] w1(1) by simp
  then have "rx_step 512 w1 w2" unfolding w2_def by (intro rx_step.test w1)
  moreover have "rx_step 512 w0 w1"
    using rx_step.interrupt [of 512 w0 "Ctrl_Out [7]"] by (simp add: w1_def irq_def del: ctrl_isr.simps)
  moreover have "ctrl_rx_ring (rw_ctrl w2) (unat (ctrl_rx_tail (rw_ctrl w2))) = 7"
    using rx_release_queue(1) [OF w1(2)] w1(1) by (simp add: w2_def)
  then have "rx_step 512 w2 w3" using rx_step.read [of w2 512] by (simp add: w3_def w2_def)
  moreover have "rx_step 512 w3 w4"
    using rx_step.interrupt [of 512 w3 "Ctrl_Out [9]"] by (simp add: w4_def irq_def del: ctrl_isr.simps)
  ultimately have reach: "(rx_step 512)\<^sup>*\<^sup>* (rx_start 0 s) w4"
    unfolding w0_def [symmetric] by (meson converse_rtranclp_into_rtranclp rtranclp.rtrancl_refl)
  have "rw_got w4 = []" "rw_pc w4 = Gc_Advance 7" "rw_accepted w4 = [7, 9]"
    using w1 by (simp_all add: w4_def irq_def w3_def w2_def rx_free_def EXLINK_RX_RING_SIZE_def del: ctrl_isr.simps)
  then show "\<exists>w. (rx_step 512)\<^sup>*\<^sup>* (rx_start 0 s) w \<and> rw_got w = [] \<and> rw_pc w = Gc_Advance 7
     \<and> rw_accepted w = [7, 9] \<and> (\<exists>q. rx_queue (rw_ctrl w) = 7 # q)"
    using reach rx_handover_in_order [OF reach] by blast
qed

text \<open>
  C22. The OUT callback is a bounded enqueue: the ring keeps what it held followed by as many bytes of
  the packet as there is room for (8191 at most in all), the drop counter goes up by one when a byte
  was left out, the thread is signalled once, and a new read of one packet is posted in every case.
\<close>

theorem out_cb_enqueues:
  assumes "ctrl_ring_inv s" and "0 < length d" and "s' = ctrl_isr mps (Ctrl_Out d) s"
  shows "rx_queue s' = rx_queue s @ take (EXLINK_RX_RING_SIZE - 1 - length (rx_queue s)) d
    \<and> ctrl_rx_dropped s' = ctrl_rx_dropped s
        + (if EXLINK_RX_RING_SIZE - 1 - length (rx_queue s) < length d then 1 else 0)
    \<and> ctrl_rx_sem s' = ctrl_rx_sem s + 1 \<and> ctrl_ring_inv s'
    \<and> ctrl_calls s' = ctrl_calls s @ [Ep_Start_Read (ctrl_busid s) EXLINK_EP_CMD_OUT EXLINK_BULK_MPS]"
proof -
  let ?s = "s\<lparr> ctrl_ep_out_buf := d @ drop (length d) (ctrl_ep_out_buf s) \<rparr>"
  have s: "rx_queue ?s = rx_queue s" "ctrl_ring_inv ?s" "rx_free ?s = rx_free s"
    using rx_queue_cong [of ?s s] assms(1) by simp_all
  have put: "ctrl_calls (rx_ring_put bs t) = ctrl_calls t \<and> ctrl_rx_sem (rx_ring_put bs t) = ctrl_rx_sem t" for bs t
    by (induction bs arbitrary: t) (simp_all add: rx_store_def)
  have "ctrl_rx_dropped s' = ctrl_rx_dropped (rx_ring_put d ?s)"
    "ctrl_rx_sem s' = ctrl_rx_sem s + 1"
    "ctrl_calls s' = ctrl_calls s @ [Ep_Start_Read (ctrl_busid s) EXLINK_EP_CMD_OUT EXLINK_BULK_MPS]"
    using assms(2,3) by (simp_all add: exlink_ctrl_out_cb_def Let_def put ctrl_call_def)
  then show ?thesis
    using ctrl_isr_queue [OF assms(1), of mps "Ctrl_Out d"] rx_put_dropped [OF s(2), of d] s assms(3)
    by (simp add: rx_free_def)
qed

lemma out_cb_enqueues_witness:
  "\<forall>s. rx_queue (ctrl_isr 64 (Ctrl_Out [1, 2]) (usb_if_ctrl_add 0 s)) = [1, 2]"
proof
  fix s
  have i: "ctrl_ring_inv (usb_if_ctrl_add 0 s)" "rx_queue (usb_if_ctrl_add 0 s) = []"
    using rx_start_inv [of 0 s] by (simp_all add: rx_world_inv_def rx_start_def)
  show "rx_queue (ctrl_isr 64 (Ctrl_Out [1, 2]) (usb_if_ctrl_add 0 s)) = [1, 2]"
    using out_cb_enqueues [OF i(1), of "[1, 2]" _ 64] i(2) by (simp add: EXLINK_RX_RING_SIZE_def)
qed

text \<open>
  C23. Sending a frame on an idle, configured channel to a host that takes it: the call returns 0 with
  the transmit flag down, exactly the frame and, when its length is a multiple of the packet size, one
  empty transfer are handed to the controller, and the host sees one transfer of exactly the frame's
  length.
\<close>

theorem send_is_one_transfer:
  assumes "ctrl_configured s" and "\<not> ctrl_tx_busy s" and "0 < length d" and "length d \<le> EXLINK_MAX_FRAME"
    and "0 \<le> ret" and "0 < mps"
  shows "\<exists>s'. usb_if_ctrl_send mps ret (Some d) s (host_takes mps (length d) @ rest) = (0, s', rest)
    \<and> \<not> ctrl_tx_busy s'
    \<and> (\<exists>zlp. writes_of EXLINK_EP_CMD_IN (ctrl_calls s') = writes_of EXLINK_EP_CMD_IN (ctrl_calls s) @ d # zlp
        \<and> host_transfers mps 0 (concat (map (usb_packets mps) (length d # map length zlp))) = [length d])"
proof -
  let ?zlp = "if 0 < length d \<and> length d mod mps = 0 then [[]] else [] :: u8 list list"
  have "host_transfers mps 0 (concat (map (usb_packets mps) (length d # map length ?zlp))) = [length d]"
    by (rule ctrl_in.one_host_transfer [OF assms(6,3)]) (rule ctrl_in.completions_sent)
  then show ?thesis using send_taken [OF assms(1-5), of mps rest] by auto
qed

lemma send_is_one_transfer_witness:
  "\<forall>s. \<exists>s'. usb_if_ctrl_send 64 0 (Some (replicate 64 1)) (usb_if_ctrl_on_configured 0 s) (host_takes 64 64)
     = (0, s', []) \<and> \<not> ctrl_tx_busy s'"
proof
  fix s
  show "\<exists>s'. usb_if_ctrl_send 64 0 (Some (replicate 64 1)) (usb_if_ctrl_on_configured 0 s) (host_takes 64 64)
     = (0, s', []) \<and> \<not> ctrl_tx_busy s'"
    using send_is_one_transfer [of "usb_if_ctrl_on_configured 0 s" "replicate 64 1" 0 64 "[]"]
    by (auto simp: usb_if_ctrl_on_configured_def)
qed

text \<open>
  Every send returns, with one of seven codes, after at most 2 * 500 delays, whatever interrupts
  it: -1 no data, -2 not configured, -3 too long, each without any effect; -4 the flag stayed up
  before the frame could be started; -5 the controller refused; -6 started but not seen complete (the
  flag is left up); and 0 only with the flag down.
\<close>

theorem send_returns:
  "case usb_if_ctrl_send mps ret data s script of (rc, s', rest) \<Rightarrow>
     (\<exists>k \<le> 2 * TX_TIMEOUT_MS. rest = drop k script)
     \<and> (rc = - 1 \<or> rc = - 2 \<or> rc = - 3) = (data = None \<or> data = Some [] \<or> \<not> ctrl_configured s
          \<or> EXLINK_MAX_FRAME < length (the data))
     \<and> (rc = - 1 \<or> rc = - 2 \<or> rc = - 3 \<or> rc = - 4 \<or> rc = - 5 \<or> rc = - 6 \<or> rc = 0)
     \<and> (rc = - 1 \<or> rc = - 2 \<or> rc = - 3 \<longrightarrow> s' = s \<and> rest = script)
     \<and> (rc = - 4 \<or> rc = - 6 \<longrightarrow> ctrl_tx_busy s')
     \<and> (rc = - 5 \<or> rc = 0 \<longrightarrow> \<not> ctrl_tx_busy s') \<and> (rc = - 5 \<longrightarrow> ret < 0)"
proof (cases data)
  case None
  then show ?thesis by (auto simp: usb_if_ctrl_send_def intro: exI [of _ 0])
next
  case (Some d)
  obtain rc s' rest where r: "usb_if_ctrl_send mps ret (Some d) s script = (rc, s', rest)"
    by (metis prod_cases3)
  have ok: "rc \<notin> {- 1, - 2, - 3} \<Longrightarrow> d \<noteq> [] \<and> ctrl_configured s \<and> \<not> EXLINK_MAX_FRAME < length d"
    using r by (auto simp: usb_if_ctrl_send_def split: if_splits)
  have two: "\<exists>k \<le> 2 * TX_TIMEOUT_MS. rest = drop k script"
    if "ctrl_wait mps s script = (a, s1, script1)" "ctrl_wait mps s2 script1 = (b, s3, rest)"
    for a b s1 s2 s3 script1
  proof -
    from ctrl_wait_script [OF that(1)] ctrl_wait_script [OF that(2)]
    obtain k j where "k \<le> TX_TIMEOUT_MS" "j \<le> TX_TIMEOUT_MS" "rest = drop (j + k) script" by auto
    then show ?thesis by (intro exI [of _ "j + k"]) simp
  qed
  have one: "\<exists>k \<le> 2 * TX_TIMEOUT_MS. rest = drop k script"
    if "ctrl_wait mps s script = (a, s1, rest)" for a s1
    using ctrl_wait_script [OF that] by (metis le_add1 le_trans mult_2)
  from r show ?thesis
  proof (cases rule: send_cases)
    case refused
    then have "rest = drop 0 script" by simp
    with refused show ?thesis unfolding Some r by auto
  next
    case busy
    with one [OF busy(2)] ok ctrl_wait_result [OF busy(2)] show ?thesis unfolding Some r by auto
  next
    case failed
    with one [OF failed(2)] ok show ?thesis unfolding Some r by auto
  next
    case stuck
    with two [OF stuck(2,3)] ok ctrl_wait_result [OF stuck(3)] show ?thesis unfolding Some r by auto
  next
    case delivered
    with two [OF delivered(2,3)] ok ctrl_wait_result [OF delivered(3)] show ?thesis unfolding Some r by auto
  qed
qed

lemma send_returns_witness:
  "\<forall>s. \<exists>s'. usb_if_ctrl_send 64 (- 1) (Some [5]) (usb_if_ctrl_on_configured 0 s) [] = (- 5, s', []) \<and> \<not> ctrl_tx_busy s'"
proof
  fix s
  have "\<exists>s'. usb_if_ctrl_send 64 (- 1) (Some [5]) (usb_if_ctrl_on_configured 0 s) [] = (- 5, s', [])"
    by (simp add: usb_if_ctrl_send_def usb_if_ctrl_on_configured_def ctrl_wait_def Let_def)
  then show "\<exists>s'. usb_if_ctrl_send 64 (- 1) (Some [5]) (usb_if_ctrl_on_configured 0 s) [] = (- 5, s', []) \<and> \<not> ctrl_tx_busy s'"
    using send_returns [where mps = 64 and ret = "- 1" and data = "Some [5]"
        and s = "usb_if_ctrl_on_configured 0 s" and script = "[]"] by auto
qed

end
