(* ===== verification/Frame_Dispatch.thy ===== *)
theory Frame_Dispatch
  imports Usb_Ctrl
begin

text \<open>
  The dispatcher of the control channel (\<^verbatim>\<open>applications/frame_dispatch.c\<close>): the handlers of the
  operation codes of \<^verbatim>\<open>frame_proto.h\<close> and the thread that drains the receive ring through the parser
  and sends one response per frame.
\<close>

section \<open>Operation and error codes of frame_proto.h\<close>

definition EXLINK_PROTO_VERSION :: u16 where "EXLINK_PROTO_VERSION = 0x0100"
definition EXLINK_FW_VERSION_MAJOR :: u8 where "EXLINK_FW_VERSION_MAJOR = 0"
definition EXLINK_FW_VERSION_MINOR :: u8 where "EXLINK_FW_VERSION_MINOR = 1"

definition EXLINK_OP_PING :: u8 where "EXLINK_OP_PING = 0x01"
definition EXLINK_OP_ECHO :: u8 where "EXLINK_OP_ECHO = 0x02"
definition EXLINK_OP_UART_OPEN :: u8 where "EXLINK_OP_UART_OPEN = 0x10"
definition EXLINK_OP_UART_WRITE :: u8 where "EXLINK_OP_UART_WRITE = 0x11"
definition EXLINK_OP_SPI_XFER :: u8 where "EXLINK_OP_SPI_XFER = 0x20"
definition EXLINK_OP_SPI_SLAVE_TABLE :: u8 where "EXLINK_OP_SPI_SLAVE_TABLE = 0x21"
definition EXLINK_OP_I2C_XFER :: u8 where "EXLINK_OP_I2C_XFER = 0x30"
definition EXLINK_OP_I2C_SLAVE_TABLE :: u8 where "EXLINK_OP_I2C_SLAVE_TABLE = 0x31"
definition EXLINK_OP_CAN_SEND :: u8 where "EXLINK_OP_CAN_SEND = 0x40"
definition EXLINK_OP_DAP_PASSTHROUGH :: u8 where "EXLINK_OP_DAP_PASSTHROUGH = 0x80"
definition EXLINK_OP_ERROR :: u8 where "EXLINK_OP_ERROR = 0xFF"

definition EXLINK_ERR_BAD_CRC :: u8 where "EXLINK_ERR_BAD_CRC = 0x01"
definition EXLINK_ERR_BAD_LEN :: u8 where "EXLINK_ERR_BAD_LEN = 0x03"
definition EXLINK_ERR_UNKNOWN_OP :: u8 where "EXLINK_ERR_UNKNOWN_OP = 0x04"
definition EXLINK_ERR_NOT_IMPLEMENTED :: u8 where "EXLINK_ERR_NOT_IMPLEMENTED = 0x05"

lemmas op_defs =
  EXLINK_OP_PING_def EXLINK_OP_ECHO_def EXLINK_OP_UART_OPEN_def EXLINK_OP_UART_WRITE_def
  EXLINK_OP_SPI_XFER_def EXLINK_OP_SPI_SLAVE_TABLE_def EXLINK_OP_I2C_XFER_def
  EXLINK_OP_I2C_SLAVE_TABLE_def EXLINK_OP_CAN_SEND_def EXLINK_OP_DAP_PASSTHROUGH_def EXLINK_OP_ERROR_def

section \<open>Handlers\<close>

text \<open>A handler returns the length of the response and the response buffer.\<close>

definition build_error :: "u8 \<Rightarrow> u8 list option \<Rightarrow> nat \<Rightarrow> nat \<times> u8 list option" where
  "build_error err resp resp_cap = exlink_frame_build EXLINK_OP_ERROR (Some [err]) 1 resp resp_cap"

definition BOARD_NAME :: string where "BOARD_NAME = ''hpm5300evk''"

text \<open>The loop that copies the board name, up to its NUL or to the limit.\<close>

fun copy_name :: "nat \<Rightarrow> nat \<Rightarrow> string \<Rightarrow> u8 list" where
  "copy_name maxname i [] = []"
| "copy_name maxname i (c # cs) =
    (if c \<noteq> CHR 0x00 \<and> i < maxname then of_char c # copy_name maxname (Suc i) cs else [])"

definition pong_payload :: "u8 list" where
  "pong_payload =
    (let head = [lo8 EXLINK_PROTO_VERSION, hi8 EXLINK_PROTO_VERSION, EXLINK_FW_VERSION_MAJOR, EXLINK_FW_VERSION_MINOR];
         maxname = 36 - length head - 1
     in head @ copy_name maxname 0 BOARD_NAME @ [0])"

definition handle_ping :: "u8 list option \<Rightarrow> nat \<Rightarrow> nat \<times> u8 list option" where
  "handle_ping resp resp_cap =
    exlink_frame_build EXLINK_OP_PING (Some pong_payload) (of_nat (length pong_payload)) resp resp_cap"

definition handle_echo :: "u8 list option \<Rightarrow> u16 \<Rightarrow> u8 list option \<Rightarrow> nat \<Rightarrow> nat \<times> u8 list option" where
  "handle_echo payload plen resp resp_cap = exlink_frame_build EXLINK_OP_ECHO payload plen resp resp_cap"

definition exlink_dispatch ::
  "u8 \<Rightarrow> u8 list option \<Rightarrow> u16 \<Rightarrow> u8 list option \<Rightarrow> nat \<Rightarrow> nat \<times> u8 list option" where
  "exlink_dispatch op payload plen resp resp_cap =
    (if op = EXLINK_OP_PING then handle_ping resp resp_cap
     else if op = EXLINK_OP_ECHO then handle_echo payload plen resp resp_cap
     else if op \<in> {EXLINK_OP_UART_OPEN, EXLINK_OP_UART_WRITE, EXLINK_OP_SPI_XFER, EXLINK_OP_SPI_SLAVE_TABLE,
                   EXLINK_OP_I2C_XFER, EXLINK_OP_I2C_SLAVE_TABLE, EXLINK_OP_CAN_SEND, EXLINK_OP_DAP_PASSTHROUGH}
     then build_error EXLINK_ERR_NOT_IMPLEMENTED resp resp_cap
     else build_error EXLINK_ERR_UNKNOWN_OP resp resp_cap)"

section \<open>The frame thread\<close>

text \<open>
  The statics of the file and the state of the channel it works on.  \<open>wr\<close> is the verdict of
  \<^verbatim>\<open>usbd_ep_start_write\<close> on a transfer; a fault of the parser (a write outside its payload array)
  is \<open>None\<close>.
\<close>

record frame_thread =
  ft_parser :: exlink_parser
  ft_resp :: "u8 list"
  ft_ctrl :: usb_if_ctrl

definition frame_respond :: "frame_thread \<Rightarrow> exlink_frame_result \<Rightarrow> nat \<times> u8 list option" where
  "frame_respond t r =
    (let p = ft_parser t; resp = Some (ft_resp t) in
     case r of
       EXLINK_FR_OK \<Rightarrow> exlink_dispatch (ps_op p) (Some (ps_payload p)) (ps_len p) resp EXLINK_MAX_FRAME
     | EXLINK_FR_BAD_CRC \<Rightarrow> exlink_frame_build EXLINK_OP_ERROR (Some [EXLINK_ERR_BAD_CRC]) 1 resp EXLINK_MAX_FRAME
     | EXLINK_FR_BAD_LEN \<Rightarrow> exlink_frame_build EXLINK_OP_ERROR (Some [EXLINK_ERR_BAD_LEN]) 1 resp EXLINK_MAX_FRAME
     | EXLINK_FR_NONE \<Rightarrow> (0, resp))"

text \<open>The body of the inner loop, for the byte just taken from the ring.\<close>

definition frame_thread_byte ::
  "nat \<Rightarrow> (u8 list \<Rightarrow> int) \<Rightarrow> u8 \<Rightarrow> frame_thread \<Rightarrow> ctrl_event list list
    \<Rightarrow> (frame_thread \<times> ctrl_event list list) option" where
  "frame_thread_byte mps wr b t script =
    (case exlink_parser_feed (Some (ft_parser t)) b of
       Some (Some p, r) \<Rightarrow>
         (let t = t\<lparr> ft_parser := p \<rparr>;
              (resp_len, resp) = frame_respond t r;
              t = t\<lparr> ft_resp := the resp \<rparr>
          in if 0 < resp_len
             then (case usb_if_ctrl_send mps (wr (take resp_len (ft_resp t)))
                     (Some (take resp_len (ft_resp t))) (ft_ctrl t) script of
                   (_, c, script) \<Rightarrow> Some (t\<lparr> ft_ctrl := c \<rparr>, script))
             else Some (t, script))
     | _ \<Rightarrow> None)"

text \<open>\<^verbatim>\<open>while (usb_if_ctrl_rx_getchar(&b) == 1) ...\<close>; interrupts refill the ring while a send waits.\<close>

partial_function (option) frame_thread_drain ::
  "nat \<Rightarrow> (u8 list \<Rightarrow> int) \<Rightarrow> frame_thread \<Rightarrow> ctrl_event list list \<Rightarrow> (frame_thread \<times> ctrl_event list list) option" where
  "frame_thread_drain mps wr t script =
    (case usb_if_ctrl_rx_getchar (ft_ctrl t) of
       (None, c) \<Rightarrow> Some (t\<lparr> ft_ctrl := c \<rparr>, script)
     | (Some b, c) \<Rightarrow>
         (case frame_thread_byte mps wr b (t\<lparr> ft_ctrl := c \<rparr>) script of
            None \<Rightarrow> None
          | Some (t, script) \<Rightarrow> frame_thread_drain mps wr t script))"

text \<open>One round of the outer loop: take the semaphore (or time out), then drain.\<close>

definition frame_thread_round ::
  "nat \<Rightarrow> (u8 list \<Rightarrow> int) \<Rightarrow> frame_thread \<Rightarrow> ctrl_event list list \<Rightarrow> (frame_thread \<times> ctrl_event list list) option" where
  "frame_thread_round mps wr t script =
    (let c = ft_ctrl t;
         c = (if 0 < ctrl_rx_sem c then c\<lparr> ctrl_rx_sem := ctrl_rx_sem c - 1 \<rparr> else c)
     in frame_thread_drain mps wr (t\<lparr> ft_ctrl := c \<rparr>) script)"

definition exlink_frame_thread_entry :: "frame_thread \<Rightarrow> frame_thread" where
  "exlink_frame_thread_entry t = t\<lparr> ft_parser := exlink_parser_init (ft_parser t) \<rparr>"

section \<open>What the handlers answer\<close>

text \<open>The payload and operation code of the answer to each request.\<close>

definition answer :: "u8 \<Rightarrow> u8 list \<Rightarrow> u8 \<times> u8 list" where
  "answer op bs =
    (if op = EXLINK_OP_PING then (EXLINK_OP_PING, [0x00, 0x01, 0x00, 0x01] @ map of_char BOARD_NAME @ [0])
     else if op = EXLINK_OP_ECHO then (EXLINK_OP_ECHO, bs)
     else if op \<in> {0x10, 0x11, 0x20, 0x21, 0x30, 0x31, 0x40, 0x80} then (EXLINK_OP_ERROR, [5])
     else (EXLINK_OP_ERROR, [4]))"

fun event_answer :: "frame_event \<Rightarrow> u8 \<times> u8 list" where
  "event_answer (Frame op bs) = answer op bs"
| "event_answer Bad_Crc = (EXLINK_OP_ERROR, [1])"
| "event_answer Bad_Len = (EXLINK_OP_ERROR, [3])"

definition answer_frame :: "frame_event \<Rightarrow> u8 list" where
  "answer_frame e = (case event_answer e of (op, bs) \<Rightarrow> frame_bytes op bs)"

fun event_ok :: "frame_event \<Rightarrow> bool" where
  "event_ok (Frame op bs) = (length bs \<le> EXLINK_MAX_PAYLOAD)"
| "event_ok _ = True"

lemma pong_payload_eq: "pong_payload = [0x00, 0x01, 0x00, 0x01] @ map of_char BOARD_NAME @ [0]"
  by (simp add: pong_payload_def BOARD_NAME_def EXLINK_PROTO_VERSION_def EXLINK_FW_VERSION_MAJOR_def
    EXLINK_FW_VERSION_MINOR_def lo8_def hi8_def drop_bit_eq_div)

lemma answer_ping: "answer EXLINK_OP_PING bs = (EXLINK_OP_PING, pong_payload)"
  by (simp add: answer_def pong_payload_eq)

lemma length_event_answer: "event_ok e \<Longrightarrow> length (snd (event_answer e)) \<le> EXLINK_MAX_PAYLOAD"
  by (cases e) (auto simp: answer_def BOARD_NAME_def)

lemma frame_build_take:
  "unat n \<le> length buf \<Longrightarrow>
   exlink_frame_build op (Some buf) n out cap = exlink_frame_build op (Some (take (unat n) buf)) n out cap"
proof -
  assume "unat n \<le> length buf"
  then have "payload_bytes (Some buf) n = payload_bytes (Some (take (unat n) buf)) n"
    by (simp add: payload_bytes_def)
  then show ?thesis by (simp only: exlink_frame_build_def)
qed

lemma error_frame:
  assumes "length resp = EXLINK_MAX_FRAME"
  shows "exlink_frame_build EXLINK_OP_ERROR (Some [c]) 1 (Some resp) EXLINK_MAX_FRAME =
    (8, Some (frame_bytes EXLINK_OP_ERROR [c] @ drop 8 resp))"
  using frame_build_bytes [of "[c]" EXLINK_MAX_FRAME EXLINK_OP_ERROR resp] by simp

lemma unimplemented_ops:
  "{EXLINK_OP_UART_OPEN, EXLINK_OP_UART_WRITE, EXLINK_OP_SPI_XFER, EXLINK_OP_SPI_SLAVE_TABLE,
    EXLINK_OP_I2C_XFER, EXLINK_OP_I2C_SLAVE_TABLE, EXLINK_OP_CAN_SEND, EXLINK_OP_DAP_PASSTHROUGH}
   = {0x10, 0x11, 0x20, 0x21, 0x30, 0x31, 0x40, 0x80}"
  by (simp only: op_defs)

lemma dispatch_answer:
  assumes "length bs \<le> EXLINK_MAX_PAYLOAD" and "length resp = EXLINK_MAX_FRAME"
  shows "exlink_dispatch op (Some bs) (of_nat (length bs)) (Some resp) EXLINK_MAX_FRAME =
    (length (answer_frame (Frame op bs)),
     Some (answer_frame (Frame op bs) @ drop (length (answer_frame (Frame op bs))) resp))"
proof -
  have ping: "length pong_payload \<le> EXLINK_MAX_PAYLOAD" by (simp add: pong_payload_eq BOARD_NAME_def)
  consider "op = EXLINK_OP_PING" | "op = EXLINK_OP_ECHO" | "op \<noteq> EXLINK_OP_PING" "op \<noteq> EXLINK_OP_ECHO" by blast
  then show ?thesis
  proof cases
    case 1
    then show ?thesis
      using frame_build_bytes [OF ping, of EXLINK_MAX_FRAME EXLINK_OP_PING resp] ping
      by (simp add: exlink_dispatch_def handle_ping_def answer_frame_def answer_ping)
  next
    case 2
    then show ?thesis
      using frame_build_bytes [OF assms(1), of EXLINK_MAX_FRAME EXLINK_OP_ECHO resp] assms
      by (simp add: exlink_dispatch_def handle_echo_def answer_frame_def answer_def op_defs)
  next
    case 3
    have "exlink_dispatch op (Some bs) (of_nat (length bs)) (Some resp) EXLINK_MAX_FRAME =
        exlink_frame_build EXLINK_OP_ERROR
          (Some [if op \<in> {0x10, 0x11, 0x20, 0x21, 0x30, 0x31, 0x40, 0x80} then 5 else 4]) 1
          (Some resp) EXLINK_MAX_FRAME"
      using 3 by (simp only: exlink_dispatch_def build_error_def unimplemented_ops if_False
        EXLINK_ERR_NOT_IMPLEMENTED_def EXLINK_ERR_UNKNOWN_OP_def split: if_split) simp
    moreover have "answer op bs =
        (EXLINK_OP_ERROR, [if op \<in> {0x10, 0x11, 0x20, 0x21, 0x30, 0x31, 0x40, 0x80} then 5 else 4])"
      using 3 by (simp only: answer_def if_False split: if_split) simp
    ultimately show ?thesis
      by (simp only: error_frame [OF assms(2)] answer_frame_def event_answer.simps prod.case
        length_frame_bytes) simp
  qed
qed


section \<open>The thread loop\<close>

definition thread_ok :: "frame_thread \<Rightarrow> bool" where
  "thread_ok t \<longleftrightarrow> parser_ok (ft_parser t) \<and> length (ft_resp t) = EXLINK_MAX_FRAME \<and> ctrl_ring_inv (ft_ctrl t)"

lemma parser_step_event:
  assumes "parser_ok p" and "exlink_parser_step p b = Some (p', r)"
  shows "parser_ok p'" and "r = EXLINK_FR_OK \<Longrightarrow> unat (ps_len p') \<le> EXLINK_MAX_PAYLOAD"
proof -
  show ok: "parser_ok p'" using parser_step_safe [OF assms(1), of b] assms(2) by simp
  assume "r = EXLINK_FR_OK"
  then have "ps_state p = EXLINK_PS_CRC_HI \<and> ps_len p' = ps_len p"
    using assms(2) by (auto simp: exlink_parser_step_def Let_def
      split: exlink_parse_state.splits if_splits)
  then show "unat (ps_len p') \<le> EXLINK_MAX_PAYLOAD" using assms(1) by (simp add: parser_ok_def)
qed

text \<open>The response to the result of one parser step: the frame answering its event, or nothing.\<close>

lemma frame_respond_event:
  assumes "length (ft_resp t) = EXLINK_MAX_FRAME" and "length (ps_payload (ft_parser t)) = EXLINK_MAX_PAYLOAD"
    and "r = EXLINK_FR_OK \<Longrightarrow> unat (ps_len (ft_parser t)) \<le> EXLINK_MAX_PAYLOAD"
  shows "frame_respond t r =
    (case parser_event (ft_parser t) r of
       [] \<Rightarrow> (0, Some (ft_resp t))
     | e # _ \<Rightarrow> (length (answer_frame e), Some (answer_frame e @ drop (length (answer_frame e)) (ft_resp t))))
    \<and> (\<forall>e \<in> set (parser_event (ft_parser t) r). event_ok e)"
proof (cases r)
  case EXLINK_FR_OK
  let ?p = "ft_parser t" let ?bs = "take (unat (ps_len ?p)) (ps_payload ?p)"
  have len: "length ?bs = unat (ps_len ?p)" "length ?bs \<le> EXLINK_MAX_PAYLOAD"
    using assms EXLINK_FR_OK by simp_all
  have "exlink_dispatch (ps_op ?p) (Some (ps_payload ?p)) (ps_len ?p) (Some (ft_resp t)) EXLINK_MAX_FRAME =
      exlink_dispatch (ps_op ?p) (Some ?bs) (of_nat (length ?bs)) (Some (ft_resp t)) EXLINK_MAX_FRAME"
    using frame_build_take [of "ps_len ?p" "ps_payload ?p"] len assms
    by (simp add: exlink_dispatch_def handle_echo_def)
  also note dispatch_answer [OF len(2) assms(1), of "ps_op ?p"]
  finally show ?thesis using len(2) by (simp add: frame_respond_def Let_def EXLINK_FR_OK parser_event_def)
next
  case EXLINK_FR_BAD_CRC
  then show ?thesis
    using error_frame [OF assms(1), of EXLINK_ERR_BAD_CRC]
    by (simp add: frame_respond_def parser_event_def answer_frame_def EXLINK_ERR_BAD_CRC_def)
next
  case EXLINK_FR_BAD_LEN
  then show ?thesis
    using error_frame [OF assms(1), of EXLINK_ERR_BAD_LEN]
    by (simp add: frame_respond_def parser_event_def answer_frame_def EXLINK_ERR_BAD_LEN_def)
qed (simp add: frame_respond_def parser_event_def)

lemma length_answer_frame: "event_ok e \<Longrightarrow> length (answer_frame e) \<le> EXLINK_MAX_FRAME \<and> 0 < length (answer_frame e)"
  using length_event_answer [of e] length_frame_bytes [of "fst (event_answer e)" "snd (event_answer e)"]
  by (simp add: answer_frame_def case_prod_beta del: length_frame_bytes length_greater_0_conv)

lemma parser_event_cases: "parser_event p r = [] \<or> (\<exists>e. parser_event p r = [e])"
  by (simp add: parser_event_def split: exlink_frame_result.split)

text \<open>The loop body as one step of the parser and, for an event, one send.\<close>

lemma frame_thread_byte_step:
  assumes "thread_ok t" and "exlink_parser_step (ft_parser t) b = Some (p, r)"
  shows "parser_event p r = [] \<Longrightarrow>
      frame_thread_byte mps wr b t script = Some (t\<lparr> ft_parser := p \<rparr>, script)"
    and "parser_event p r = [e] \<Longrightarrow> event_ok e \<and>
      frame_thread_byte mps wr b t script =
        (case usb_if_ctrl_send mps (wr (answer_frame e)) (Some (answer_frame e)) (ft_ctrl t) script of
           (_, c, script) \<Rightarrow> Some (t\<lparr> ft_parser := p,
             ft_resp := answer_frame e @ drop (length (answer_frame e)) (ft_resp t), ft_ctrl := c \<rparr>, script))"
proof -
  let ?t = "t\<lparr> ft_parser := p \<rparr>"
  have ok: "length (ps_payload p) = EXLINK_MAX_PAYLOAD" "length (ft_resp ?t) = EXLINK_MAX_FRAME"
    "r = EXLINK_FR_OK \<Longrightarrow> unat (ps_len p) \<le> EXLINK_MAX_PAYLOAD"
    using parser_step_event [OF _ assms(2)] assms(1) by (simp_all add: thread_ok_def parser_ok_def)
  have resp: "frame_respond ?t r =
    (case parser_event p r of
       [] \<Rightarrow> (0, Some (ft_resp t))
     | e # _ \<Rightarrow> (length (answer_frame e), Some (answer_frame e @ drop (length (answer_frame e)) (ft_resp t))))
    \<and> (\<forall>e \<in> set (parser_event p r). event_ok e)"
    using frame_respond_event [of ?t r] ok by (simp cong: list.case_cong)
  show "parser_event p r = [] \<Longrightarrow> frame_thread_byte mps wr b t script = Some (?t, script)"
    using resp by (simp add: frame_thread_byte_def assms(2))
  show "parser_event p r = [e] \<Longrightarrow> event_ok e \<and>
      frame_thread_byte mps wr b t script =
        (case usb_if_ctrl_send mps (wr (answer_frame e)) (Some (answer_frame e)) (ft_ctrl t) script of
           (_, c, script) \<Rightarrow> Some (t\<lparr> ft_parser := p,
             ft_resp := answer_frame e @ drop (length (answer_frame e)) (ft_resp t), ft_ctrl := c \<rparr>, script))"
    using resp length_answer_frame [of e] by (simp add: frame_thread_byte_def assms(2))
qed

text \<open>
  A host that takes every answer: for each event of the parser the completions of its answer.
\<close>

definition host_script :: "nat \<Rightarrow> frame_event list \<Rightarrow> ctrl_event list list" where
  "host_script mps es = concat (map (\<lambda>e. host_takes mps (length (answer_frame e))) es)"

definition answer_writes :: "nat \<Rightarrow> frame_event list \<Rightarrow> u8 list list" where
  "answer_writes mps es = concat (map (\<lambda>e. answer_frame e #
     (if length (answer_frame e) mod mps = 0 then [[]] else [])) es)"

lemma concat_answer_writes: "concat (answer_writes mps es) = concat (map answer_frame es)"
  by (induction es) (auto simp: answer_writes_def)

lemma rx_release_fields [simp]:
  "ctrl_configured (rx_release s) = ctrl_configured s" "ctrl_tx_busy (rx_release s) = ctrl_tx_busy s"
  "ctrl_calls (rx_release s) = ctrl_calls s" "ctrl_busid (rx_release s) = ctrl_busid s"
  by (simp_all add: rx_release_def)

lemma frame_thread_drain_events:
  assumes "thread_ok t" and "rx_queue (ft_ctrl t) = bs" and "parse_events (ft_parser t) bs = Some (q, es)"
    and "ctrl_configured (ft_ctrl t)" and "\<not> ctrl_tx_busy (ft_ctrl t)" and "\<forall>d. 0 \<le> wr d"
  shows "\<exists>t'. frame_thread_drain mps wr t (host_script mps es @ rest) = Some (t', rest)
    \<and> ft_parser t' = q \<and> thread_ok t' \<and> rx_queue (ft_ctrl t') = []
    \<and> ctrl_configured (ft_ctrl t') \<and> \<not> ctrl_tx_busy (ft_ctrl t')
    \<and> writes_of EXLINK_EP_CMD_IN (ctrl_calls (ft_ctrl t')) =
        writes_of EXLINK_EP_CMD_IN (ctrl_calls (ft_ctrl t)) @ answer_writes mps es"
  using assms
proof (induction bs arbitrary: t es)
  case Nil
  have "usb_if_ctrl_rx_getchar (ft_ctrl t) = (None, ft_ctrl t)"
    using Nil.prems by (simp add: rx_getchar_queue thread_ok_def)
  with Nil.prems show ?case
    by (subst frame_thread_drain.simps) (simp add: host_script_def answer_writes_def)
next
  case (Cons b bs)
  let ?c = "rx_release (ft_ctrl t)" let ?t = "t\<lparr> ft_ctrl := ?c \<rparr>"
  have inv: "ctrl_ring_inv (ft_ctrl t)" using Cons.prems(1) by (simp add: thread_ok_def)
  have get: "usb_if_ctrl_rx_getchar (ft_ctrl t) = (Some b, ?c)" "rx_queue ?c = bs" "ctrl_ring_inv ?c"
    using rx_getchar_queue [OF inv] rx_release_queue [OF inv] Cons.prems(2) by simp_all
  obtain p r fs where step: "exlink_parser_step (ft_parser t) b = Some (p, r)"
    and more: "parse_events p bs = Some (q, fs)" and es: "es = parser_event p r @ fs"
    using Cons.prems(3) by (auto split: option.splits)
  have t: "thread_ok ?t" using Cons.prems(1) get(3) by (simp add: thread_ok_def)
  have p: "parser_ok p" using parser_step_event [OF _ step] Cons.prems(1) by (simp add: thread_ok_def)
  note byte = frame_thread_byte_step [OF t, of b p r]
  consider "parser_event p r = []" | e where "parser_event p r = [e]" using parser_event_cases by blast
  then show ?case
  proof cases
    case 1
    let ?t1 = "?t\<lparr> ft_parser := p \<rparr>"
    have "frame_thread_drain mps wr t (host_script mps es @ rest) =
        frame_thread_drain mps wr ?t1 (host_script mps fs @ rest)"
      using get(1) byte(1) 1 step es by (subst frame_thread_drain.simps) simp
    then show ?thesis
      using Cons.IH [of ?t1 fs] t p get(2) more Cons.prems(4-6) 1 es by (simp add: thread_ok_def)
  next
    case 2
    define c2 where "c2 = ctrl_taken mps (answer_frame e) ?c"
    let ?t1 = "?t\<lparr> ft_parser := p,
      ft_resp := answer_frame e @ drop (length (answer_frame e)) (ft_resp t), ft_ctrl := c2 \<rparr>"
    have e: "event_ok e" using byte(2) 2 step by simp
    have script: "host_script mps es @ rest =
        host_takes mps (length (answer_frame e)) @ host_script mps fs @ rest"
      using es 2 by (simp add: host_script_def)
    have "usb_if_ctrl_send mps (wr (answer_frame e)) (Some (answer_frame e)) ?c (host_script mps es @ rest)
        = (0, c2, host_script mps fs @ rest)"
      unfolding script c2_def using Cons.prems(4-6) length_answer_frame [OF e] by (intro send_taken) simp_all
    then have drain: "frame_thread_drain mps wr t (host_script mps es @ rest) =
        frame_thread_drain mps wr ?t1 (host_script mps fs @ rest)"
      using get(1) byte(2) 2 step by (subst frame_thread_drain.simps) simp
    have c2: "rx_queue c2 = bs" "ctrl_ring_inv c2" "ctrl_configured c2" "\<not> ctrl_tx_busy c2"
      using get Cons.prems(4) by (simp_all add: c2_def)
    have "writes_of EXLINK_EP_CMD_IN (ctrl_calls c2) = writes_of EXLINK_EP_CMD_IN (ctrl_calls (ft_ctrl t))
        @ answer_frame e # (if length (answer_frame e) mod mps = 0 then [[]] else [])"
      using length_answer_frame [OF e] by (simp add: c2_def)
    moreover have "thread_ok ?t1"
      using t p c2(2) length_answer_frame [OF e] by (simp add: thread_ok_def)
    ultimately show ?thesis
      unfolding drain using Cons.IH [of ?t1 fs] c2 more Cons.prems(6) 2 es
      by (simp add: answer_writes_def)
  qed
qed


section \<open>The loop ends\<close>

text \<open>The bytes a script can still put into the ring.\<close>

definition event_load :: "ctrl_event list \<Rightarrow> nat" where
  "event_load es = sum_list (map (length \<circ> event_bytes) es)"

lemma isrs_load:
  "ctrl_ring_inv s \<Longrightarrow> ctrl_ring_inv (fold (ctrl_isr mps) es s)
   \<and> length (rx_queue (fold (ctrl_isr mps) es s)) \<le> length (rx_queue s) + event_load es"
proof (induction es arbitrary: s)
  case (Cons e es)
  show ?case
    using Cons.IH [of "ctrl_isr mps e s"] ctrl_isr_queue [OF Cons.prems, of mps e]
    by (auto simp: event_load_def)
qed (simp add: event_load_def)

lemma ctrl_wait_load:
  assumes "ctrl_wait mps s script = (ok, s', rest)" and "ctrl_ring_inv s"
  shows "ctrl_ring_inv s' \<and> length (rx_queue s') + sum_list (map event_load rest)
    \<le> length (rx_queue s) + sum_list (map event_load script)"
  using assms unfolding ctrl_wait_def
  by (intro wait_idle_measure [where m = "\<lambda>s. length (rx_queue s)" and P = ctrl_ring_inv])
    (use isrs_load in \<open>auto simp: event_load_def\<close>)

lemma send_load:
  assumes "usb_if_ctrl_send mps ret (Some d) s script = (rc, s', rest)" and "ctrl_ring_inv s"
  shows "ctrl_ring_inv s' \<and> length (rx_queue s') + sum_list (map event_load rest)
    \<le> length (rx_queue s) + sum_list (map event_load script)"
  using assms(1)
proof (cases rule: send_cases)
  case (failed s1)
  then have "rx_queue s' = rx_queue (ctrl_start d s1)" "ctrl_ring_inv s' = ctrl_ring_inv (ctrl_start d s1)"
    using rx_queue_cong [of s' "ctrl_start d s1"] by simp_all
  then show ?thesis using ctrl_wait_load [OF failed(2) assms(2)] by simp
next
  case (stuck s1 script1)
  show ?thesis using ctrl_wait_load [OF stuck(2) assms(2)] ctrl_wait_load [OF stuck(3)] by auto
next
  case (delivered s1 script1)
  show ?thesis using ctrl_wait_load [OF delivered(2) assms(2)] ctrl_wait_load [OF delivered(3)] by auto
qed (use assms ctrl_wait_load in auto)

lemma frame_thread_byte_load:
  assumes "thread_ok t"
  obtains t' rest where "frame_thread_byte mps wr b t script = Some (t', rest)" "thread_ok t'"
    "length (rx_queue (ft_ctrl t')) + sum_list (map event_load rest)
      \<le> length (rx_queue (ft_ctrl t)) + sum_list (map event_load script)"
proof -
  have pok: "parser_ok (ft_parser t)" using assms by (simp add: thread_ok_def)
  obtain p r where step: "exlink_parser_step (ft_parser t) b = Some (p, r)"
    using parser_step_safe [OF pok] by blast
  have p: "parser_ok p" using parser_step_event [OF pok step] by simp
  consider "parser_event p r = []" | e where "parser_event p r = [e]" using parser_event_cases by blast
  then show thesis
  proof cases
    case 1
    then show thesis
      using that frame_thread_byte_step(1) [OF assms step 1] p assms by (simp add: thread_ok_def)
  next
    case 2
    obtain rc c rest where send: "usb_if_ctrl_send mps (wr (answer_frame e)) (Some (answer_frame e)) (ft_ctrl t) script = (rc, c, rest)"
      by (metis prod_cases3)
    have e: "event_ok e" using frame_thread_byte_step(2) [OF assms step 2] by simp
    show thesis
      using that frame_thread_byte_step(2) [OF assms step 2] send_load [OF send] send p assms
        length_answer_frame [OF e] by (simp add: thread_ok_def)
  qed
qed

lemma frame_thread_drain_ends:
  "thread_ok t \<Longrightarrow> \<exists>t' rest. frame_thread_drain mps wr t script = Some (t', rest) \<and> thread_ok t'
     \<and> rx_queue (ft_ctrl t') = []"
proof (induction "length (rx_queue (ft_ctrl t)) + sum_list (map event_load script)"
    arbitrary: t script rule: less_induct)
  case less
  have inv: "ctrl_ring_inv (ft_ctrl t)" using less.prems by (simp add: thread_ok_def)
  show ?case
  proof (cases "rx_queue (ft_ctrl t)")
    case Nil
    then show ?thesis
      using less.prems rx_getchar_queue [OF inv] by (subst frame_thread_drain.simps) simp
  next
    case (Cons b bs)
    let ?t = "t\<lparr> ft_ctrl := rx_release (ft_ctrl t) \<rparr>"
    have get: "usb_if_ctrl_rx_getchar (ft_ctrl t) = (Some b, rx_release (ft_ctrl t))"
      "rx_queue (rx_release (ft_ctrl t)) = bs" "thread_ok ?t"
      using rx_getchar_queue [OF inv] rx_release_queue [OF inv] Cons less.prems by (simp_all add: thread_ok_def)
    obtain t1 rest where byte: "frame_thread_byte mps wr b ?t script = Some (t1, rest)" "thread_ok t1"
      "length (rx_queue (ft_ctrl t1)) + sum_list (map event_load rest)
        \<le> length (rx_queue (ft_ctrl ?t)) + sum_list (map event_load script)"
      using frame_thread_byte_load [OF get(3)] by metis
    have "frame_thread_drain mps wr t script = frame_thread_drain mps wr t1 rest"
      using get(1) byte(1) by (subst frame_thread_drain.simps) simp
    then show ?thesis using less.hyps [OF _ byte(2)] byte(3) get(2) Cons by simp
  qed
qed

section \<open>Properties\<close>

lemma answers_parse:
  assumes "\<forall>e \<in> set es. event_ok e" and "parser_idle p" and "ps_state p = EXLINK_PS_MAGIC0"
  shows "\<exists>q. parse_events p (concat (map answer_frame es)) =
    Some (q, map (\<lambda>e. case event_answer e of (op, bs) \<Rightarrow> Frame op bs) es)"
proof -
  let ?fs = "map (\<lambda>e. ([], event_answer e)) es"
  have fs: "\<forall>(ns, op, bs) \<in> set ?fs. no_magic ns \<and> length bs \<le> EXLINK_MAX_PAYLOAD"
  proof -
    have "length bs \<le> EXLINK_MAX_PAYLOAD" if "e \<in> set es" "event_answer e = (op, bs)" for e op bs
      using that assms(1) length_event_answer [of e] by (metis snd_conv)
    then show ?thesis by auto
  qed
  have "stream_bytes ?fs = concat (map answer_frame es)"
    by (simp add: stream_bytes_concat answer_frame_def [abs_def] comp_def case_prod_beta)
  moreover have "map (\<lambda>(ns, op, bs). Frame op bs) ?fs = map (\<lambda>e. case event_answer e of (op, bs) \<Rightarrow> Frame op bs) es"
    by (simp add: comp_def case_prod_beta)
  ultimately show ?thesis using parse_stream [OF assms(2,3) fs] by metis
qed

lemma answer_frames:
  "(case answer op bs of (op, bs) \<Rightarrow> Frame op bs) =
    (if op = 1 then Frame 1 ([0x00, 0x01, 0x00, 0x01] @ map of_char ''hpm5300evk'' @ [0])
     else if op = 2 then Frame 2 bs
     else if op \<in> {0x10, 0x11, 0x20, 0x21, 0x30, 0x31, 0x40, 0x80} then Frame 0xFF [5]
     else Frame 0xFF [4])"
  unfolding answer_def EXLINK_OP_PING_def EXLINK_OP_ECHO_def EXLINK_OP_ERROR_def BOARD_NAME_def
  by (simp only: prod.case split: if_split) simp

text \<open>
  For a request of any operation code with at most 4096 bytes of payload, the dispatcher writes
  one well-formed frame into the 4103-byte response buffer and returns its length: a parser that
  reads those bytes sees the version and board name for PING, the request's own payload for ECHO, the
  error 5 (not implemented) for the eight reserved codes and the error 4 (unknown) for every other.
\<close>

lemma dispatch_answers:
  assumes "length bs \<le> EXLINK_MAX_PAYLOAD" and "length resp = EXLINK_MAX_FRAME"
    and "length (ps_payload p) = EXLINK_MAX_PAYLOAD"
  shows "\<exists>n out q. exlink_dispatch op (Some bs) (of_nat (length bs)) (Some resp) EXLINK_MAX_FRAME = (n, Some out)
    \<and> 0 < n \<and> length out = EXLINK_MAX_FRAME
    \<and> parse_events (exlink_parser_init p) (take n out) =
        Some (q, [if op = 1 then Frame 1 ([0x00, 0x01, 0x00, 0x01] @ map of_char ''hpm5300evk'' @ [0])
                  else if op = 2 then Frame 2 bs
                  else if op \<in> {0x10, 0x11, 0x20, 0x21, 0x30, 0x31, 0x40, 0x80} then Frame 0xFF [5]
                  else Frame 0xFF [4]])"
proof -
  let ?e = "Frame op bs"
  have e: "event_ok ?e" using assms(1) by simp
  have idle: "parser_idle (exlink_parser_init p)" "ps_state (exlink_parser_init p) = EXLINK_PS_MAGIC0"
    using idle_init [OF assms(3)] by (simp_all add: exlink_parser_init_def)
  obtain q where q: "parse_events (exlink_parser_init p) (answer_frame ?e) =
      Some (q, [case answer op bs of (op, bs) \<Rightarrow> Frame op bs])"
    using answers_parse [of "[?e]", OF _ idle] e by auto
  note answer_frames [of op bs]
  then show ?thesis
    using dispatch_answer [OF assms(1,2), of op] q length_answer_frame [OF e] assms(2) by simp
qed

text \<open>
  C18. The inner loop of the frame thread always ends, for every content of the ring, every sequence of
  interrupts while its sends wait and every verdict of the USB stack: it leaves the ring empty, no
  parser fault occurs, and the invariant of the parser, of the ring and of the response buffer holds.
\<close>

theorem frame_thread_round_ends:
  assumes "thread_ok t"
  shows "\<exists>t' rest. frame_thread_round mps wr t script = Some (t', rest) \<and> thread_ok t' \<and> rx_queue (ft_ctrl t') = []"
proof -
  let ?t = "t\<lparr> ft_ctrl := (if 0 < ctrl_rx_sem (ft_ctrl t)
    then (ft_ctrl t)\<lparr> ctrl_rx_sem := ctrl_rx_sem (ft_ctrl t) - 1 \<rparr> else ft_ctrl t) \<rparr>"
  have "thread_ok ?t" using assms by (simp add: thread_ok_def ctrl_ring_inv_def)
  from frame_thread_drain_ends [OF this] show ?thesis by (simp add: frame_thread_round_def Let_def)
qed

definition static_thread :: "usb_if_ctrl \<Rightarrow> frame_thread" where
  "static_thread c = exlink_frame_thread_entry
     \<lparr> ft_parser = static_parser, ft_resp = replicate EXLINK_MAX_FRAME 0, ft_ctrl = c \<rparr>"

lemma static_thread_ok: "ctrl_ring_inv c \<Longrightarrow> thread_ok (static_thread c)"
  by (simp add: thread_ok_def static_thread_def exlink_frame_thread_entry_def)
    (simp add: parser_ok_init static_parser_def)

lemma frame_thread_round_ends_witness:
  "\<forall>c. \<exists>t' rest. frame_thread_round 64 (\<lambda>d. - 1) (static_thread (usb_if_ctrl_add 0 c)) [[Ctrl_Out [1, 2]], []]
     = Some (t', rest) \<and> rx_queue (ft_ctrl t') = []"
proof
  fix c
  have "ctrl_ring_inv (usb_if_ctrl_add 0 c)"
    using rx_start_inv [of 0 c] by (simp add: rx_world_inv_def rx_start_def)
  from frame_thread_round_ends [OF static_thread_ok [OF this]]
  show "\<exists>t' rest. frame_thread_round 64 (\<lambda>d. - 1) (static_thread (usb_if_ctrl_add 0 c)) [[Ctrl_Out [1, 2]], []]
     = Some (t', rest) \<and> rx_queue (ft_ctrl t') = []" by blast
qed


text \<open>The packets of the OUT endpoint, one callback each.\<close>

definition host_writes :: "nat \<Rightarrow> u8 list list \<Rightarrow> usb_if_ctrl \<Rightarrow> usb_if_ctrl" where
  "host_writes mps pkts s = fold (ctrl_isr mps) (map Ctrl_Out pkts) s"

lemma rx_put_other:
  "ctrl_configured (rx_ring_put bs s) = ctrl_configured s \<and> ctrl_tx_busy (rx_ring_put bs s) = ctrl_tx_busy s
   \<and> ctrl_calls (rx_ring_put bs s) = ctrl_calls s"
  by (induction bs arbitrary: s) (simp_all add: rx_store_def)

lemma out_isr_other [simp]:
  "ctrl_configured (ctrl_isr mps (Ctrl_Out d) s) = ctrl_configured s"
  "ctrl_tx_busy (ctrl_isr mps (Ctrl_Out d) s) = ctrl_tx_busy s"
  "writes_of EXLINK_EP_CMD_IN (ctrl_calls (ctrl_isr mps (Ctrl_Out d) s)) = writes_of EXLINK_EP_CMD_IN (ctrl_calls s)"
  by (simp_all add: exlink_ctrl_out_cb_def rx_put_other Let_def)

lemma host_writes_queue:
  assumes "ctrl_ring_inv s" and "length (rx_queue s) + length (concat pkts) < EXLINK_RX_RING_SIZE"
  shows "rx_queue (host_writes mps pkts s) = rx_queue s @ concat pkts
    \<and> ctrl_ring_inv (host_writes mps pkts s)
    \<and> ctrl_configured (host_writes mps pkts s) = ctrl_configured s
    \<and> ctrl_tx_busy (host_writes mps pkts s) = ctrl_tx_busy s
    \<and> writes_of EXLINK_EP_CMD_IN (ctrl_calls (host_writes mps pkts s)) = writes_of EXLINK_EP_CMD_IN (ctrl_calls s)"
  using assms
proof (induction pkts arbitrary: s)
  case (Cons d ds)
  let ?s = "ctrl_isr mps (Ctrl_Out d) s"
  have q: "rx_queue ?s = rx_queue s @ d" "ctrl_ring_inv ?s"
    using ctrl_isr_queue [OF Cons.prems(1), of mps "Ctrl_Out d"] Cons.prems(2) by (simp_all add: rx_free_def)
  have "host_writes mps (d # ds) s = host_writes mps ds ?s" by (simp add: host_writes_def)
  then show ?case using Cons.IH [OF q(2)] Cons.prems(2) q(1) out_isr_other by simp
qed (simp add: host_writes_def)

text \<open>
  A host that writes in batches: the packets of a batch come before a round of the thread, and the host takes
  the answers to the frames that end in the batch.
\<close>

fun serve_batches :: "nat \<Rightarrow> (u8 list \<Rightarrow> int) \<Rightarrow> frame_thread \<Rightarrow> u8 list list list \<Rightarrow> frame_thread option" where
  "serve_batches mps wr t [] = Some t"
| "serve_batches mps wr t (pkts # later) =
    (let t = t\<lparr> ft_ctrl := host_writes mps pkts (ft_ctrl t) \<rparr>
     in case parse_events (ft_parser t) (concat pkts) of
          None \<Rightarrow> None
        | Some (_, es) \<Rightarrow>
            (case frame_thread_round mps wr t (host_script mps es) of
               Some (t, []) \<Rightarrow> serve_batches mps wr t later
             | _ \<Rightarrow> None))"

lemma answer_writes_append: "answer_writes mps (es @ fs) = answer_writes mps es @ answer_writes mps fs"
  by (simp add: answer_writes_def)

lemma round_events:
  assumes "thread_ok t" and "rx_queue (ft_ctrl t) = bs" and "parse_events (ft_parser t) bs = Some (q, es)"
    and "ctrl_configured (ft_ctrl t)" and "\<not> ctrl_tx_busy (ft_ctrl t)" and "\<forall>d. 0 \<le> wr d"
  shows "\<exists>t'. frame_thread_round mps wr t (host_script mps es) = Some (t', [])
    \<and> ft_parser t' = q \<and> thread_ok t' \<and> rx_queue (ft_ctrl t') = []
    \<and> ctrl_configured (ft_ctrl t') \<and> \<not> ctrl_tx_busy (ft_ctrl t')
    \<and> writes_of EXLINK_EP_CMD_IN (ctrl_calls (ft_ctrl t')) =
        writes_of EXLINK_EP_CMD_IN (ctrl_calls (ft_ctrl t)) @ answer_writes mps es"
proof -
  define c where "c = (if 0 < ctrl_rx_sem (ft_ctrl t)
    then (ft_ctrl t)\<lparr> ctrl_rx_sem := ctrl_rx_sem (ft_ctrl t) - 1 \<rparr> else ft_ctrl t)"
  let ?t = "t\<lparr> ft_ctrl := c \<rparr>"
  have c: "rx_queue c = rx_queue (ft_ctrl t)" "ctrl_configured c = ctrl_configured (ft_ctrl t)"
    "ctrl_tx_busy c = ctrl_tx_busy (ft_ctrl t)" "ctrl_calls c = ctrl_calls (ft_ctrl t)"
    using rx_queue_cong [of c "ft_ctrl t"] by (simp_all add: c_def)
  have ok: "thread_ok ?t" using assms(1) by (simp add: thread_ok_def ctrl_ring_inv_def c_def)
  have "frame_thread_round mps wr t (host_script mps es) = frame_thread_drain mps wr ?t (host_script mps es @ [])"
    by (simp add: frame_thread_round_def c_def Let_def)
  then show ?thesis
    using frame_thread_drain_events [OF ok, of bs q es wr mps "[]"] assms(2-6) c by simp
qed

lemma batches_served:
  assumes "\<forall>d. 0 \<le> wr d"
  shows "thread_ok t \<Longrightarrow> rx_queue (ft_ctrl t) = [] \<Longrightarrow> ctrl_configured (ft_ctrl t) \<Longrightarrow> \<not> ctrl_tx_busy (ft_ctrl t) \<Longrightarrow>
    \<forall>pkts \<in> set batches. length (concat pkts) < EXLINK_RX_RING_SIZE \<Longrightarrow>
    parse_events (ft_parser t) (concat (concat batches)) = Some (q, es) \<Longrightarrow>
    \<exists>t'. serve_batches mps wr t batches = Some t' \<and> rx_queue (ft_ctrl t') = [] \<and> \<not> ctrl_tx_busy (ft_ctrl t')
      \<and> writes_of EXLINK_EP_CMD_IN (ctrl_calls (ft_ctrl t')) =
          writes_of EXLINK_EP_CMD_IN (ctrl_calls (ft_ctrl t)) @ answer_writes mps es"
proof (induction batches arbitrary: t es)
  case Nil
  then show ?case by (simp add: answer_writes_def)
next
  case (Cons pkts later)
  obtain p es1 es2 where parts: "parse_events (ft_parser t) (concat pkts) = Some (p, es1)"
    "parse_events p (concat (concat later)) = Some (q, es2)" "es = es1 @ es2"
    using Cons.prems(6) by (auto simp: parse_events_append split: option.splits)
  define t1 where "t1 = t\<lparr> ft_ctrl := host_writes mps pkts (ft_ctrl t) \<rparr>"
  have ring: "ctrl_ring_inv (ft_ctrl t)" using Cons.prems(1) by (simp add: thread_ok_def)
  have t1: "thread_ok t1" "rx_queue (ft_ctrl t1) = concat pkts" "ctrl_configured (ft_ctrl t1)" "\<not> ctrl_tx_busy (ft_ctrl t1)"
    "parse_events (ft_parser t1) (concat pkts) = Some (p, es1)"
    "writes_of EXLINK_EP_CMD_IN (ctrl_calls (ft_ctrl t1)) = writes_of EXLINK_EP_CMD_IN (ctrl_calls (ft_ctrl t))"
    using host_writes_queue [OF ring, of pkts mps] Cons.prems(1-5) parts(1) by (simp_all add: t1_def thread_ok_def)
  obtain t2 where t2: "frame_thread_round mps wr t1 (host_script mps es1) = Some (t2, [])" "ft_parser t2 = p"
    "thread_ok t2" "rx_queue (ft_ctrl t2) = []" "ctrl_configured (ft_ctrl t2)" "\<not> ctrl_tx_busy (ft_ctrl t2)"
    "writes_of EXLINK_EP_CMD_IN (ctrl_calls (ft_ctrl t2)) =
      writes_of EXLINK_EP_CMD_IN (ctrl_calls (ft_ctrl t1)) @ answer_writes mps es1"
    using round_events [OF t1(1,2,5,3,4) assms, of mps] by blast
  have "serve_batches mps wr t (pkts # later) = serve_batches mps wr t2 later"
    using t1(5) t2(1) by (simp add: t1_def [symmetric] Let_def)
  then show ?case
    using Cons.IH [OF t2(3-6), of es2] Cons.prems(5) parts(2,3) t2(2,7) t1(6) by (simp add: answer_writes_append)
qed

text \<open>
  C5. End to end over the control channel: a host writes a sequence of request frames of any length, each
  possibly behind noise that holds no magic pair, cut into packets and the packets into batches in any way,
  frames across both, with at most 8191 bytes in a batch, each batch before a round of the frame thread; and
  it takes the answers.  Then no round faults, the ring is empty at the end, and what the host receives its
  own parser reads as exactly one answer per request, in order: the version and board name for PING, its own
  payload for ECHO, the error 5 (not implemented) for the eight reserved codes of requests, the error 4
  (unknown) for every other code, among them the four that the protocol defines for the direction to the
  host.
\<close>

theorem requests_answered_in_order:
  assumes "concat (concat batches) = concat (map (\<lambda>(ns, op, bs). ns @ built_frame op bs) fs)"
    and "\<forall>(ns, op, bs) \<in> set fs. no_magic ns \<and> length bs \<le> EXLINK_MAX_PAYLOAD"
    and "\<forall>pkts \<in> set batches. length (concat pkts) < EXLINK_RX_RING_SIZE" and "\<forall>d. 0 \<le> wr d"
    and "c = usb_if_ctrl_on_configured busid (usb_if_ctrl_add busid s)"
    and "length (ps_payload p) = EXLINK_MAX_PAYLOAD"
  shows "\<exists>t q. serve_batches mps wr (static_thread c) batches = Some t
    \<and> rx_queue (ft_ctrl t) = [] \<and> \<not> ctrl_tx_busy (ft_ctrl t)
    \<and> (\<exists>ws. writes_of EXLINK_EP_CMD_IN (ctrl_calls (ft_ctrl t)) = writes_of EXLINK_EP_CMD_IN (ctrl_calls c) @ ws
        \<and> parse_events (exlink_parser_init p) (concat ws) =
            Some (q, map (\<lambda>(ns, op, bs).
              if op = 1 then Frame 1 ([0x00, 0x01, 0x00, 0x01] @ map of_char ''hpm5300evk'' @ [0])
              else if op = 2 then Frame 2 bs
              else if op \<in> {0x10, 0x11, 0x20, 0x21, 0x30, 0x31, 0x40, 0x80} then Frame 0xFF [5]
              else Frame 0xFF [4]) fs))"
proof -
  let ?es = "map (\<lambda>(ns, op, bs). Frame op bs) fs"
  have c: "ctrl_ring_inv c" "rx_queue c = []" "ctrl_configured c" "\<not> ctrl_tx_busy c"
  proof -
    have "ctrl_ring_inv (usb_if_ctrl_add busid s)" "rx_queue (usb_if_ctrl_add busid s) = []"
      using rx_start_inv [of busid s] by (simp_all add: rx_world_inv_def rx_start_def)
    moreover have "rx_queue c = rx_queue (usb_if_ctrl_add busid s)
        \<and> ctrl_ring_inv c = ctrl_ring_inv (usb_if_ctrl_add busid s)"
      using rx_queue_cong [of c "usb_if_ctrl_add busid s"]
      by (simp add: assms(5) usb_if_ctrl_on_configured_def)
    ultimately show "ctrl_ring_inv c" "rx_queue c = []" by simp_all
    show "ctrl_configured c" "\<not> ctrl_tx_busy c"
      by (simp_all add: assms(5) usb_if_ctrl_on_configured_def)
  qed
  have frames: "concat (concat batches) = stream_bytes fs"
  proof -
    have "map (\<lambda>(ns, op, bs). ns @ built_frame op bs) fs = map (\<lambda>(ns, op, bs). ns @ frame_bytes op bs) fs"
      using assms(2) by (intro map_cong refl) (auto dest!: bspec intro: built_frame_eq)
    then show ?thesis by (simp only: assms(1) stream_bytes_concat)
  qed
  have idle: "parser_idle (exlink_parser_init x)" "ps_state (exlink_parser_init x) = EXLINK_PS_MAGIC0"
    if "length (ps_payload x) = EXLINK_MAX_PAYLOAD" for x
    using idle_init [OF that] by (simp_all add: exlink_parser_init_def)
  have static: "ft_parser (static_thread c) = exlink_parser_init static_parser" "ft_ctrl (static_thread c) = c"
    "length (ps_payload static_parser) = EXLINK_MAX_PAYLOAD"
    by (simp_all add: static_thread_def exlink_frame_thread_entry_def static_parser_def)
  obtain q where "parse_events (ft_parser (static_thread c)) (concat (concat batches)) = Some (q, ?es)"
    using parse_stream [OF idle [OF static(3)] assms(2)] frames static(1) by metis
  from batches_served [OF assms(4) static_thread_ok [OF c(1)] _ _ _ assms(3) this, of mps]
  obtain t where t: "serve_batches mps wr (static_thread c) batches = Some t"
    "rx_queue (ft_ctrl t) = []" "\<not> ctrl_tx_busy (ft_ctrl t)"
    "writes_of EXLINK_EP_CMD_IN (ctrl_calls (ft_ctrl t)) = writes_of EXLINK_EP_CMD_IN (ctrl_calls c) @ answer_writes mps ?es"
    using c static(2) by auto
  have "\<forall>e \<in> set ?es. event_ok e" using assms(2) by auto
  from answers_parse [OF this idle [OF assms(6)]]
  obtain q' where "parse_events (exlink_parser_init p) (concat (answer_writes mps ?es)) =
      Some (q', map (\<lambda>e. case event_answer e of (op, bs) \<Rightarrow> Frame op bs) ?es)"
    unfolding concat_answer_writes by metis
  moreover have "map (\<lambda>e. case event_answer e of (op, bs) \<Rightarrow> Frame op bs) ?es =
      map (\<lambda>(ns, op, bs). case answer op bs of (op, bs) \<Rightarrow> Frame op bs) fs"
    by (simp add: comp_def case_prod_beta)
  ultimately have "parse_events (exlink_parser_init p) (concat (answer_writes mps ?es)) =
      Some (q', map (\<lambda>(ns, op, bs). case answer op bs of (op, bs) \<Rightarrow> Frame op bs) fs)" by simp
  with t show ?thesis unfolding answer_frames by blast
qed

lemma requests_answered_in_order_witness:
  "\<forall>s. \<exists>t. serve_batches 512 (\<lambda>d. 0) (static_thread (usb_if_ctrl_on_configured 0 (usb_if_ctrl_add 0 s)))
      [[built_frame 2 [7], take 3 (built_frame 0x20 [])], [drop 3 (built_frame 0x20 [])]] = Some t"
proof
  fix s
  let ?fs = "[([], 2, [7]), ([], 0x20, [])] :: (u8 list \<times> u8 \<times> u8 list) list"
  let ?batches = "[[built_frame 2 [7], take 3 (built_frame 0x20 [])], [drop 3 (built_frame 0x20 [])]]"
  have "concat (concat ?batches) = concat (map (\<lambda>(ns, op, bs). ns @ built_frame op bs) ?fs)" by simp
  moreover have "\<forall>pkts \<in> set ?batches. length (concat pkts) < EXLINK_RX_RING_SIZE"
    by (simp add: built_frame_eq EXLINK_RX_RING_SIZE_def)
  ultimately show "\<exists>t. serve_batches 512 (\<lambda>d. 0) (static_thread (usb_if_ctrl_on_configured 0 (usb_if_ctrl_add 0 s))) ?batches = Some t"
    using requests_answered_in_order [of ?batches ?fs "\<lambda>d. 0" _ 0 s static_parser 512]
    by (auto simp: static_parser_def simp del: serve_batches.simps)
qed

end
