(* ===== verification/Usb_Dapv1.thy ===== *)
theory Usb_Dapv1
  imports Usb_Channel
begin

text \<open>
  The CMSIS-DAP v1 interface, interface 2 (\<^verbatim>\<open>applications/usb_if_dapv1.c\<close>): a HID interface that is
  enumerated and drained but answers nothing, and its report descriptor, with a reader of HID short
  items as the host applies it.
\<close>

section \<open>The report descriptor\<close>

definition s_dapv1_hid_report_desc :: "u8 list" where
  "s_dapv1_hid_report_desc =
    [0x06, 0x00, 0xFF,
     0x09, 0x01,
     0xA1, 0x01,
     0x15, 0x00,
     0x26, 0xFF, 0x00,
     0x75, 0x08,
     0x95, 0x40,
     0x09, 0x01,
     0x81, 0x02,
     0x95, 0x40,
     0x09, 0x01,
     0x91, 0x02,
     0x95, 0x01,
     0x09, 0x01,
     0xB1, 0x02,
     0xC0]"

text \<open>
  A short item is a prefix byte, whose two low bits code the number of data bytes (3 stands for 4), and
  its data.
\<close>

definition item_size :: "u8 \<Rightarrow> nat" where
  "item_size p = (if p AND 3 = 3 then 4 else unat (p AND 3))"

function hid_items :: "u8 list \<Rightarrow> (u8 \<times> u8 list) list option" where
  "hid_items [] = Some []"
| "hid_items (p # bs) =
    (if length bs < item_size p then None
     else map_option (\<lambda>is. (p AND 0xFC, take (item_size p) bs) # is) (hid_items (drop (item_size p) bs)))"
  by pat_completeness auto
termination by (relation "measure length") auto

text \<open>
  What the items declare: the reports of the main items \<open>0x80\<close> (input), \<open>0x90\<close> (output) and \<open>0xB0\<close>
  (feature), in bits, under the global items \<open>0x74\<close> (size) and \<open>0x94\<close> (count), and the depth of open
  collections (\<open>0xA0\<close> and \<open>0xC0\<close>); closing one that is not open is an error.
\<close>

record hid_state =
  hid_size :: nat
  hid_count :: nat
  hid_depth :: nat
  hid_reports :: "(u8 \<times> nat) list"

fun hid_item :: "u8 \<times> u8 list \<Rightarrow> hid_state \<Rightarrow> hid_state option" where
  "hid_item (tag, d) h =
    (let v = foldr (\<lambda>b n. unat b + 256 * n) d 0 in
     if tag = 0x74 then Some (h\<lparr> hid_size := v \<rparr>)
     else if tag = 0x94 then Some (h\<lparr> hid_count := v \<rparr>)
     else if tag \<in> {0x80, 0x90, 0xB0}
     then Some (h\<lparr> hid_reports := hid_reports h @ [(tag, hid_size h * hid_count h)] \<rparr>)
     else if tag = 0xA0 then Some (h\<lparr> hid_depth := hid_depth h + 1 \<rparr>)
     else if tag = 0xC0 then (if hid_depth h = 0 then None else Some (h\<lparr> hid_depth := hid_depth h - 1 \<rparr>))
     else Some h)"

fun hid_run :: "(u8 \<times> u8 list) list \<Rightarrow> hid_state \<Rightarrow> hid_state option" where
  "hid_run [] h = Some h"
| "hid_run (i # is) h = (case hid_item i h of None \<Rightarrow> None | Some h \<Rightarrow> hid_run is h)"

definition hid_reads :: "u8 list \<Rightarrow> hid_state option" where
  "hid_reads d = Option.bind (hid_items d)
     (\<lambda>is. hid_run is \<lparr> hid_size = 0, hid_count = 0, hid_depth = 0, hid_reports = [] \<rparr>)"

section \<open>Endpoint callbacks and bus events\<close>

record usb_if_dapv1 =
  s_hid_out_buf :: "u8 list"
  hid_calls :: "usb_call list"

definition static_usb_dapv1 :: usb_if_dapv1 where
  "static_usb_dapv1 = \<lparr> s_hid_out_buf = replicate EXLINK_HID_MPS 0, hid_calls = [] \<rparr>"

definition hid_call :: "usb_call \<Rightarrow> usb_if_dapv1 \<Rightarrow> usb_if_dapv1" where
  "hid_call c s = s\<lparr> hid_calls := hid_calls s @ [c] \<rparr>"

definition hid_out_cb :: "u8 \<Rightarrow> nat \<Rightarrow> usb_if_dapv1 \<Rightarrow> usb_if_dapv1" where
  "hid_out_cb busid nbytes s = hid_call (Ep_Start_Read busid EXLINK_EP_HID_OUT EXLINK_HID_MPS) s"

definition hid_in_cb :: "u8 \<Rightarrow> nat \<Rightarrow> usb_if_dapv1 \<Rightarrow> usb_if_dapv1" where
  "hid_in_cb busid nbytes s = s"

definition usb_if_dapv1_add :: "u8 \<Rightarrow> usb_if_dapv1 \<Rightarrow> usb_if_dapv1" where
  "usb_if_dapv1_add busid s =
    hid_call (Add_Endpoint busid EXLINK_EP_HID_IN)
      (hid_call (Add_Endpoint busid EXLINK_EP_HID_OUT)
        (hid_call (Add_Interface busid EXLINK_IFNUM_HID) s))"

definition usb_if_dapv1_on_configured :: "u8 \<Rightarrow> usb_if_dapv1 \<Rightarrow> usb_if_dapv1" where
  "usb_if_dapv1_on_configured busid s = hid_call (Ep_Start_Read busid EXLINK_EP_HID_OUT EXLINK_HID_MPS) s"

definition usb_if_dapv1_on_reset :: "usb_if_dapv1 \<Rightarrow> usb_if_dapv1" where
  "usb_if_dapv1_on_reset s = s"

text \<open>The descriptor reads as one collection with an input and an output report of 64 bytes.\<close>

lemma hid_report_items:
  "hid_items s_dapv1_hid_report_desc = Some
    [(0x04, [0x00, 0xFF]), (0x08, [0x01]), (0xA0, [0x01]), (0x14, [0x00]), (0x24, [0xFF, 0x00]), (0x74, [0x08]),
     (0x94, [0x40]), (0x08, [0x01]), (0x80, [0x02]), (0x94, [0x40]), (0x08, [0x01]), (0x90, [0x02]),
     (0x94, [0x01]), (0x08, [0x01]), (0xB0, [0x02]), (0xC0, [])]"
  by (simp add: s_dapv1_hid_report_desc_def item_size_def)

lemma hid_report_desc_reads:
  "length s_dapv1_hid_report_desc = EXLINK_HID_REPORT_DESC_SIZE"
  "hid_reads s_dapv1_hid_report_desc = Some \<lparr> hid_size = 8, hid_count = 1, hid_depth = 0,
     hid_reports = [(0x80, 8 * EXLINK_HID_MPS), (0x90, 8 * EXLINK_HID_MPS), (0xB0, 8)] \<rparr>"
  unfolding hid_reads_def hid_report_items
  by (simp_all add: s_dapv1_hid_report_desc_def EXLINK_HID_REPORT_DESC_SIZE_def EXLINK_HID_MPS_def Let_def)

end
