(* ===== verification/Usb_Uart.thy ===== *)
theory Usb_Uart
  imports Usb_Channel
begin

text \<open>
  The two CDC-ACM serial ports, interfaces 3 to 6 (\<^verbatim>\<open>applications/usb_if_uart.c\<close>): for now each echoes
  what the host writes.  The IN callback of each port is interpreted as the locale \<open>bulk_in\<close>.
\<close>

section \<open>State\<close>

record cdc_port =
  cdc_out_ep :: u8
  cdc_in_ep :: u8
  cdc_rx :: "u8 list"
  cdc_tx :: "u8 list"
  cdc_tx_busy :: bool

record usb_if_uart =
  s_cdc :: "cdc_port list"
  uart_calls :: "usb_call list"

definition static_usb_uart :: usb_if_uart where
  "static_usb_uart =
    (let buf = replicate EXLINK_BULK_MPS 0
     in \<lparr> s_cdc =
            [\<lparr> cdc_out_ep = EXLINK_EP_CDC1_OUT, cdc_in_ep = EXLINK_EP_CDC1_IN, cdc_rx = buf, cdc_tx = buf, cdc_tx_busy = False \<rparr>,
             \<lparr> cdc_out_ep = EXLINK_EP_CDC2_OUT, cdc_in_ep = EXLINK_EP_CDC2_IN, cdc_rx = buf, cdc_tx = buf, cdc_tx_busy = False \<rparr>],
          uart_calls = [] \<rparr>)"

definition uart_call :: "usb_call \<Rightarrow> usb_if_uart \<Rightarrow> usb_if_uart" where
  "uart_call c s = s\<lparr> uart_calls := uart_calls s @ [c] \<rparr>"

definition on_port :: "nat \<Rightarrow> (cdc_port \<Rightarrow> cdc_port) \<Rightarrow> usb_if_uart \<Rightarrow> usb_if_uart" where
  "on_port i f s = s\<lparr> s_cdc := (s_cdc s)[i := f (s_cdc s ! i)] \<rparr>"

section \<open>Endpoint callbacks and bus events\<close>

text \<open>
  The port is given by its index in \<open>s_cdc\<close>, 0 or 1; the verdict of \<^verbatim>\<open>usbd_ep_start_write\<close> is ignored.
\<close>

definition cdc_port_out :: "u8 \<Rightarrow> nat \<Rightarrow> nat \<Rightarrow> usb_if_uart \<Rightarrow> usb_if_uart" where
  "cdc_port_out busid i nbytes s =
    (let s = (if 0 < nbytes \<and> \<not> cdc_tx_busy (s_cdc s ! i)
              then (let s = on_port i (\<lambda>p. p\<lparr> cdc_tx := take nbytes (cdc_rx p) @ drop nbytes (cdc_tx p),
                                             cdc_tx_busy := True \<rparr>) s
                    in uart_call (Ep_Start_Write busid (cdc_in_ep (s_cdc s ! i)) (take nbytes (cdc_tx (s_cdc s ! i)))) s)
              else s)
     in uart_call (Ep_Start_Read busid (cdc_out_ep (s_cdc s ! i)) EXLINK_BULK_MPS) s)"

definition cdc_port_in :: "nat \<Rightarrow> u8 \<Rightarrow> nat \<Rightarrow> nat \<Rightarrow> usb_if_uart \<Rightarrow> usb_if_uart" where
  "cdc_port_in mps busid i nbytes s =
    (if 0 < nbytes \<and> nbytes mod mps = 0
     then uart_call (Ep_Start_Write busid (cdc_in_ep (s_cdc s ! i)) []) s
     else on_port i (\<lambda>p. p\<lparr> cdc_tx_busy := False \<rparr>) s)"

definition usb_if_uart_add :: "u8 \<Rightarrow> usb_if_uart \<Rightarrow> usb_if_uart" where
  "usb_if_uart_add busid s =
    fold uart_call
      [Add_Interface busid EXLINK_IFNUM_CDC1, Add_Interface busid (EXLINK_IFNUM_CDC1 + 1),
       Add_Endpoint busid EXLINK_EP_CDC1_OUT, Add_Endpoint busid EXLINK_EP_CDC1_IN,
       Add_Interface busid EXLINK_IFNUM_CDC2, Add_Interface busid (EXLINK_IFNUM_CDC2 + 1),
       Add_Endpoint busid EXLINK_EP_CDC2_OUT, Add_Endpoint busid EXLINK_EP_CDC2_IN] s"

definition cdc_configured :: "u8 \<Rightarrow> nat \<Rightarrow> usb_if_uart \<Rightarrow> usb_if_uart" where
  "cdc_configured busid i s =
    (let s = on_port i (\<lambda>p. p\<lparr> cdc_tx_busy := False \<rparr>) s
     in uart_call (Ep_Start_Read busid (cdc_out_ep (s_cdc s ! i)) EXLINK_BULK_MPS) s)"

definition usb_if_uart_on_configured :: "u8 \<Rightarrow> usb_if_uart \<Rightarrow> usb_if_uart" where
  "usb_if_uart_on_configured busid s = fold (cdc_configured busid) [0..<2] s"

definition usb_if_uart_on_reset :: "usb_if_uart \<Rightarrow> usb_if_uart" where
  "usb_if_uart_on_reset s =
    on_port 1 (\<lambda>p. p\<lparr> cdc_tx_busy := False \<rparr>) (on_port 0 (\<lambda>p. p\<lparr> cdc_tx_busy := False \<rparr>) s)"

datatype uart_event =
    Cdc_Out nat "u8 list"
  | Cdc_In nat nat
  | Uart_Reset
  | Uart_Configured

fun uart_isr :: "nat \<Rightarrow> u8 \<Rightarrow> uart_event \<Rightarrow> usb_if_uart \<Rightarrow> usb_if_uart" where
  "uart_isr mps busid (Cdc_Out i d) s =
    cdc_port_out busid i (length d) (on_port i (\<lambda>p. p\<lparr> cdc_rx := d @ drop (length d) (cdc_rx p) \<rparr>) s)"
| "uart_isr mps busid (Cdc_In i n) s = cdc_port_in mps busid i n s"
| "uart_isr mps busid Uart_Reset s = usb_if_uart_on_reset s"
| "uart_isr mps busid Uart_Configured s = usb_if_uart_on_configured busid s"

section \<open>The ports are apart\<close>

text \<open>The shape of the state: two ports on the endpoints of the descriptor.\<close>

definition uart_ok :: "usb_if_uart \<Rightarrow> bool" where
  "uart_ok s \<longleftrightarrow> map cdc_in_ep (s_cdc s) = [EXLINK_EP_CDC1_IN, EXLINK_EP_CDC2_IN]
     \<and> map cdc_out_ep (s_cdc s) = [EXLINK_EP_CDC1_OUT, EXLINK_EP_CDC2_OUT]"

fun event_ports_ok :: "uart_event \<Rightarrow> bool" where
  "event_ports_ok (Cdc_Out i d) = (i < 2)"
| "event_ports_ok (Cdc_In i n) = (i < 2)"
| "event_ports_ok _ = True"

fun concerns :: "nat \<Rightarrow> uart_event \<Rightarrow> bool" where
  "concerns i (Cdc_Out j d) = (i = j)"
| "concerns i (Cdc_In j n) = (i = j)"
| "concerns i _ = True"

text \<open>
  What one echoing port hands to the controller, as a function of its own events: a packet that comes
  while an echo is under way is not echoed.
\<close>

fun echo :: "nat \<Rightarrow> bool \<Rightarrow> uart_event list \<Rightarrow> u8 list list" where
  "echo mps busy [] = []"
| "echo mps busy (Cdc_Out i d # es) =
    (if d = [] \<or> busy then echo mps busy es else d # echo mps True es)"
| "echo mps busy (Cdc_In i n # es) =
    (if 0 < n \<and> n mod mps = 0 then [] # echo mps busy es else echo mps False es)"
| "echo mps busy (_ # es) = echo mps False es"

lemma length_s_cdc: "uart_ok s \<Longrightarrow> length (s_cdc s) = 2"
proof -
  assume "uart_ok s"
  then have "length (map cdc_in_ep (s_cdc s)) = 2" by (simp add: uart_ok_def)
  then show ?thesis by simp
qed

lemma uart_ok_ep:
  assumes "uart_ok s" and "i < 2"
  shows "cdc_in_ep (s_cdc s ! i) = [EXLINK_EP_CDC1_IN, EXLINK_EP_CDC2_IN] ! i"
    and "cdc_out_ep (s_cdc s ! i) = [EXLINK_EP_CDC1_OUT, EXLINK_EP_CDC2_OUT] ! i"
  using assms length_s_cdc [OF assms(1)] nth_map [of i "s_cdc s" cdc_in_ep] nth_map [of i "s_cdc s" cdc_out_ep]
  by (simp_all add: uart_ok_def)

lemma uart_call_fields [simp]: "s_cdc (uart_call c s) = s_cdc s" "uart_calls (uart_call c s) = uart_calls s @ [c]"
  by (simp_all add: uart_call_def)

lemma on_port_fields [simp]: "uart_calls (on_port i f s) = uart_calls s" "length (s_cdc (on_port i f s)) = length (s_cdc s)"
  by (simp_all add: on_port_def)

lemma on_port_nth:
  "i < length (s_cdc s) \<Longrightarrow> s_cdc (on_port j f s) ! i = (if i = j then f (s_cdc s ! i) else s_cdc s ! i)"
  by (auto simp: on_port_def)

lemma on_port_ok:
  assumes "uart_ok s" and "\<And>p. cdc_in_ep (f p) = cdc_in_ep p \<and> cdc_out_ep (f p) = cdc_out_ep p"
  shows "uart_ok (on_port i f s)"
proof -
  have "map g (s_cdc (on_port i f s)) = map g (s_cdc s)" if "\<And>p. g (f p) = g p" for g :: "cdc_port \<Rightarrow> u8"
    using that by (intro nth_equalityI) (auto simp: on_port_nth)
  then show ?thesis using assms by (simp add: uart_ok_def)
qed

lemma uart_call_ok [simp]: "uart_ok (uart_call c s) = uart_ok s"
  by (simp add: uart_ok_def)

lemma in_eps_distinct:
  "i < 2 \<Longrightarrow> j < 2 \<Longrightarrow> [EXLINK_EP_CDC1_IN, EXLINK_EP_CDC2_IN] ! i = [EXLINK_EP_CDC1_IN, EXLINK_EP_CDC2_IN] ! j \<longleftrightarrow> i = j"
  by (cases i; cases j) (auto simp: endpoint_defs less_Suc_eq numeral_2_eq_2)

lemma idle_in_ep [simp]: "cdc_in_ep (ps[i := (ps ! i)\<lparr> cdc_tx_busy := b \<rparr>] ! i) = cdc_in_ep (ps ! i)"
  by (cases "i < length ps") (simp_all add: list_update_beyond)

interpretation cdc_in: bulk_in mps "\<lambda>s. cdc_tx_busy (s_cdc s ! i) \<and> i < length (s_cdc s)"
  "\<lambda>s. writes_of (cdc_in_ep (s_cdc s ! i)) (uart_calls s)" "cdc_port_in mps busid i"
  for mps :: nat and busid :: u8 and i :: nat
  by unfold_locales (auto simp: cdc_port_in_def on_port_def nth_list_update)

text \<open>One event, seen from port \<open>i\<close>.\<close>

lemma uart_isr_port:
  assumes "uart_ok s" and "i < 2" and "event_ports_ok e"
  defines "ep \<equiv> [EXLINK_EP_CDC1_IN, EXLINK_EP_CDC2_IN] ! i"
  shows "uart_ok (uart_isr mps busid e s)
    \<and> writes_of ep (uart_calls (uart_isr mps busid e s)) @ echo mps (cdc_tx_busy (s_cdc (uart_isr mps busid e s) ! i)) es
      = writes_of ep (uart_calls s) @ echo mps (cdc_tx_busy (s_cdc s ! i)) (if concerns i e then e # es else es)"
proof -
  note len = length_s_cdc [OF assms(1)]
  show ?thesis
  proof (cases e)
    case (Cdc_Out j d)
    let ?s = "on_port j (\<lambda>p. p\<lparr> cdc_rx := d @ drop (length d) (cdc_rx p) \<rparr>) s"
    have j: "j < 2" and s: "uart_ok ?s" using assms(1,3) Cdc_Out by (simp_all add: on_port_ok)
    have "[EXLINK_EP_CDC1_IN, EXLINK_EP_CDC2_IN] ! j = ep \<longleftrightarrow> i = j"
      using in_eps_distinct [OF assms(2) j] unfolding ep_def by auto
    then show ?thesis
      using assms(1,2) j len s uart_ok_ep(1) [OF assms(1) j]
      by (auto simp: Cdc_Out cdc_port_out_def on_port_nth on_port_ok Let_def)
  next
    case (Cdc_In j n)
    then have j: "j < 2" using assms(3) by simp
    have "[EXLINK_EP_CDC1_IN, EXLINK_EP_CDC2_IN] ! j = ep \<longleftrightarrow> i = j"
      using in_eps_distinct [OF assms(2) j] unfolding ep_def by auto
    then show ?thesis
      using assms(1,2) j len uart_ok_ep(1) [OF assms(1) j]
      by (auto simp: Cdc_In cdc_port_in_def on_port_nth on_port_ok)
  next
    case Uart_Reset
    then show ?thesis
      using assms(1,2) len by (auto simp: usb_if_uart_on_reset_def on_port_nth on_port_ok less_Suc_eq numeral_2_eq_2)
  next
    case Uart_Configured
    then show ?thesis
      using assms(1,2) len
      by (auto simp: usb_if_uart_on_configured_def cdc_configured_def on_port_nth on_port_ok less_Suc_eq numeral_2_eq_2 Let_def)
  qed
qed

section \<open>Properties\<close>

text \<open>
  C34. Whatever the order in which the events of the two ports come, what each port sends back is a
  function of its own packets, completions and the bus events alone: the packets that come while no echo
  is under way, unchanged and in order, with an empty transfer behind every one that ends on a packet
  boundary.
\<close>

theorem ports_echo_apart:
  assumes "uart_ok s" and "\<forall>e \<in> set es. event_ports_ok e" and "i < 2"
  shows "writes_of ([EXLINK_EP_CDC1_IN, EXLINK_EP_CDC2_IN] ! i) (uart_calls (fold (uart_isr mps busid) es s))
    = writes_of ([EXLINK_EP_CDC1_IN, EXLINK_EP_CDC2_IN] ! i) (uart_calls s)
      @ echo mps (cdc_tx_busy (s_cdc s ! i)) (filter (concerns i) es)"
  using assms
proof (induction es arbitrary: s)
  case (Cons e es)
  from uart_isr_port [OF Cons.prems(1,3), of e mps busid "filter (concerns i) es"] Cons.prems
  show ?case using Cons.IH [of "uart_isr mps busid e s"] by simp
qed simp

lemma ports_echo_apart_witness:
  "writes_of EXLINK_EP_CDC1_IN (uart_calls (fold (uart_isr 512 0)
      [Uart_Configured, Cdc_Out 0 [1], Cdc_Out 1 [2], Cdc_Out 0 [3], Cdc_In 0 1, Cdc_Out 0 [4]] static_usb_uart)) = [[1], [4]]"
proof -
  have "uart_ok static_usb_uart" by (simp add: uart_ok_def static_usb_uart_def Let_def)
  from ports_echo_apart [OF this,
      of "[Uart_Configured, Cdc_Out 0 [1], Cdc_Out 1 [2], Cdc_Out 0 [3], Cdc_In 0 1, Cdc_Out 0 [4]]" 0 512 0]
  show ?thesis by (simp add: static_usb_uart_def Let_def)
qed

end
