(* ===== verification/Usb_Dc.thy ===== *)
theory Usb_Dc
  imports Prelude "HOL-Library.Monad_Syntax"
begin

text \<open>
  The device controller driver (CherryUSB \<^verbatim>\<open>port/hpmicro/usb_dc_hpm.c\<close>) but its interrupt handler: the
  endpoint table and the calls into the peripheral library of the vendor, which are a log in the order of
  the code.  What the library reads from the registers of the controller is the field \<open>udc_regs\<close>.  An
  index outside the endpoint table is \<open>None\<close>.
\<close>

section \<open>Endpoint addresses (usb_def.h)\<close>

definition USB_CONTROL_OUT_EP0 :: u8 where [usb_consts]: "USB_CONTROL_OUT_EP0 = 0"
definition USB_CONTROL_IN_EP0 :: u8 where [usb_consts]: "USB_CONTROL_IN_EP0 = 0x80"
definition USB_CTRL_EP_MPS :: u16 where [usb_consts]: "USB_CTRL_EP_MPS = 64"
definition USB_ENDPOINT_TYPE_CONTROL :: u8 where [usb_consts]: "USB_ENDPOINT_TYPE_CONTROL = 0"
definition USB_SPEED_UNKNOWN :: u8 where [usb_consts]: "USB_SPEED_UNKNOWN = 0"
definition USB_SPEED_LOW :: u8 where [usb_consts]: "USB_SPEED_LOW = 1"
definition USB_SPEED_FULL :: u8 where [usb_consts]: "USB_SPEED_FULL = 2"
definition USB_SPEED_HIGH :: u8 where [usb_consts]: "USB_SPEED_HIGH = 3"

definition USB_EP_GET_IDX :: "u8 \<Rightarrow> nat" where "USB_EP_GET_IDX ep = unat (ep AND NOT 0x80)"
definition USB_EP_DIR_IS_OUT :: "u8 \<Rightarrow> bool" where "USB_EP_DIR_IS_OUT ep \<longleftrightarrow> ep AND 0x80 = 0"
definition USB_GET_ENDPOINT_TYPE :: "u8 \<Rightarrow> u8" where "USB_GET_ENDPOINT_TYPE x = x AND 3"
definition USB_GET_MAXPACKETSIZE :: "u16 \<Rightarrow> u16" where "USB_GET_MAXPACKETSIZE x = x AND 0x7FF"
definition USB_GET_MULT :: "u16 \<Rightarrow> u8" where "USB_GET_MULT x = ucast (drop_bit 11 (x AND push_bit 11 3))"

section \<open>State\<close>

text \<open>Calls of the peripheral library; a transfer to the host holds the bytes the controller fetches.\<close>

datatype dcd_call =
    Device_Init u32
  | Device_Deinit
  | Isr_Connect
  | Isr_Disconnect
  | Bus_Reset u16
  | Set_Address u8
  | Edpt_Open u8 u8 u16
  | Edpt_Close u8
  | Edpt_Stall u8
  | Edpt_Clear_Stall u8
  | Xfer_In u8 "u8 list"
  | Xfer_Out u8 nat
  | Force_Resume
  | Test_Mode u8

record hpm_ep_state =
  ep_mps :: u16
  ep_type :: u8
  ep_stalled :: u8
  ep_enable :: bool
  xfer_len :: u32
  actual_xfer_len :: u32

text \<open>The registers that are read: port speed, suspend status, connect status, address, halted endpoints.\<close>

record usb_regs =
  reg_speed :: u8
  reg_suspended :: bool
  reg_connected :: bool
  reg_address :: u8
  reg_stalled :: "u8 \<Rightarrow> bool"

record hpm_udc =
  udc_is_suspend :: bool
  udc_in_ep :: "hpm_ep_state list"
  udc_out_ep :: "hpm_ep_state list"
  udc_regs :: usb_regs
  udc_log :: "dcd_call list"

definition ep_zero :: hpm_ep_state where
  "ep_zero = \<lparr> ep_mps = 0, ep_type = 0, ep_stalled = 0, ep_enable = False, xfer_len = 0, actual_xfer_len = 0 \<rparr>"

definition USB_NUM_BIDIR_ENDPOINTS :: nat where "USB_NUM_BIDIR_ENDPOINTS = 16"

definition dcd :: "dcd_call \<Rightarrow> hpm_udc \<Rightarrow> hpm_udc" where
  "dcd c u = u\<lparr> udc_log := udc_log u @ [c] \<rparr>"

text \<open>The entry of an endpoint in the table of its direction.\<close>

definition ep_entry :: "u8 \<Rightarrow> hpm_udc \<Rightarrow> hpm_ep_state option" where
  "ep_entry ep u =
    (let t = (if USB_EP_DIR_IS_OUT ep then udc_out_ep u else udc_in_ep u); i = USB_EP_GET_IDX ep
     in if i < length t then Some (t ! i) else None)"

definition ep_update :: "u8 \<Rightarrow> (hpm_ep_state \<Rightarrow> hpm_ep_state) \<Rightarrow> hpm_udc \<Rightarrow> hpm_udc option" where
  "ep_update ep f u =
    (let i = USB_EP_GET_IDX ep in
     if USB_EP_DIR_IS_OUT ep
     then (if i < length (udc_out_ep u) then Some (u\<lparr> udc_out_ep := (udc_out_ep u)[i := f (udc_out_ep u ! i)] \<rparr>) else None)
     else (if i < length (udc_in_ep u) then Some (u\<lparr> udc_in_ep := (udc_in_ep u)[i := f (udc_in_ep u ! i)] \<rparr>) else None))"

section \<open>Operations\<close>

text \<open>The interrupt mask: transfers, errors, port change, reset and suspend (SOF is not configured).\<close>

definition usb_dc_init :: "hpm_udc \<Rightarrow> int \<times> hpm_udc" where
  "usb_dc_init u =
    (0, dcd Isr_Connect (dcd (Device_Init (0x1 OR 0x2 OR 0x4 OR 0x40 OR 0x100))
      (u\<lparr> udc_is_suspend := False, udc_in_ep := replicate USB_NUM_BIDIR_ENDPOINTS ep_zero,
          udc_out_ep := replicate USB_NUM_BIDIR_ENDPOINTS ep_zero \<rparr>)))"

definition usb_dc_deinit :: "hpm_udc \<Rightarrow> int \<times> hpm_udc" where
  "usb_dc_deinit u = (0, dcd Device_Deinit (dcd Isr_Disconnect u))"

definition usbd_set_address :: "u8 \<Rightarrow> hpm_udc \<Rightarrow> hpm_udc" where
  "usbd_set_address addr u = dcd (Set_Address addr) u"

definition usbd_set_remote_wakeup :: "hpm_udc \<Rightarrow> int \<times> hpm_udc" where
  "usbd_set_remote_wakeup u = (if \<not> reg_suspended (udc_regs u) then (-1, u) else (0, dcd Force_Resume u))"

definition usbd_execute_test_mode :: "u8 \<Rightarrow> hpm_udc \<Rightarrow> hpm_udc" where
  "usbd_execute_test_mode m u = dcd (Test_Mode m) u"

definition usbd_get_port_speed :: "hpm_udc \<Rightarrow> u8" where
  "usbd_get_port_speed u =
    (let v = reg_speed (udc_regs u) in
     if v = 0 then USB_SPEED_FULL else if v = 1 then USB_SPEED_LOW else if v = 2 then USB_SPEED_HIGH else 0)"

definition usbd_ep_open :: "u8 \<Rightarrow> u8 \<Rightarrow> u16 \<Rightarrow> hpm_udc \<Rightarrow> (int \<times> hpm_udc) option" where
  "usbd_ep_open addr attr mps u =
    do {
      u \<leftarrow> ep_update addr (\<lambda>e. e\<lparr> ep_mps := USB_GET_MAXPACKETSIZE mps, ep_type := USB_GET_ENDPOINT_TYPE attr,
             ep_enable := True \<rparr>) (dcd (Edpt_Open addr (USB_GET_ENDPOINT_TYPE attr) mps) u);
      Some (0, u)
    }"

text \<open>
  The stall bits are in the endpoint control registers: the peripheral library uses the low four bits of
  the endpoint number and the direction only; closing an endpoint clears its bit, a bus reset those of
  all endpoints but the control endpoint.
\<close>

definition put_stalled :: "(u8 \<Rightarrow> bool) \<Rightarrow> hpm_udc \<Rightarrow> hpm_udc" where
  "put_stalled f u = u\<lparr> udc_regs := (udc_regs u)\<lparr> reg_stalled := f \<rparr> \<rparr>"

definition usbd_ep_close :: "u8 \<Rightarrow> hpm_udc \<Rightarrow> (int \<times> hpm_udc) option" where
  "usbd_ep_close ep u =
    do {
      u \<leftarrow> ep_update ep (\<lambda>e. e\<lparr> ep_enable := False \<rparr>) u;
      Some (0, dcd (Edpt_Close ep) (put_stalled ((reg_stalled (udc_regs u))(ep AND 0x8F := False)) u))
    }"

definition udc_bus_reset :: "hpm_udc \<Rightarrow> hpm_udc" where
  "udc_bus_reset u = dcd (Bus_Reset 64) (put_stalled (\<lambda>ep. ep AND 0x0F = 0 \<and> reg_stalled (udc_regs u) ep) u)"

definition usbd_ep_set_stall :: "u8 \<Rightarrow> hpm_udc \<Rightarrow> hpm_udc" where
  "usbd_ep_set_stall ep u = dcd (Edpt_Stall ep) (put_stalled ((reg_stalled (udc_regs u))(ep AND 0x8F := True)) u)"

definition usbd_ep_clear_stall :: "u8 \<Rightarrow> hpm_udc \<Rightarrow> hpm_udc" where
  "usbd_ep_clear_stall ep u = dcd (Edpt_Clear_Stall ep) (put_stalled ((reg_stalled (udc_regs u))(ep AND 0x8F := False)) u)"

definition usbd_ep_is_stalled :: "u8 \<Rightarrow> hpm_udc \<Rightarrow> bool" where
  "usbd_ep_is_stalled ep u = reg_stalled (udc_regs u) (ep AND 0x8F)"

text \<open>
  The data of a write is the memory from the pointer on, \<open>None\<close> the null pointer; the read has no use of
  the buffer but to test the pointer.  A write looks up the number of the endpoint in the table of the IN
  endpoints whatever its direction, a read in that of the OUT endpoints.
\<close>

definition usbd_ep_start_write :: "u8 \<Rightarrow> u8 list option \<Rightarrow> u32 \<Rightarrow> hpm_udc \<Rightarrow> (int \<times> hpm_udc) option" where
  "usbd_ep_start_write ep data data_len u =
    (if data = None \<and> data_len \<noteq> 0 then Some (-1, u)
     else do {
       e \<leftarrow> ep_entry (ep OR 0x80) u;
       if \<not> ep_enable e then Some (-2, u)
       else do {
         u \<leftarrow> ep_update (ep OR 0x80) (\<lambda>e. e\<lparr> xfer_len := data_len, actual_xfer_len := 0 \<rparr>) u;
         bytes \<leftarrow> (case data of None \<Rightarrow> Some []
           | Some d \<Rightarrow> if unat data_len \<le> length d then Some (take (unat data_len) d) else None);
         Some (0, dcd (Xfer_In ep bytes) u)
       }
     })"

definition usbd_ep_start_read :: "u8 \<Rightarrow> bool \<Rightarrow> u32 \<Rightarrow> hpm_udc \<Rightarrow> (int \<times> hpm_udc) option" where
  "usbd_ep_start_read ep null data_len u =
    (if null \<and> data_len \<noteq> 0 then Some (-1, u)
     else do {
       e \<leftarrow> ep_entry (ep AND 0x7F) u;
       if \<not> ep_enable e then Some (-2, u)
       else do {
         u \<leftarrow> ep_update (ep AND 0x7F) (\<lambda>e. e\<lparr> xfer_len := data_len, actual_xfer_len := 0 \<rparr>) u;
         Some (0, dcd (Xfer_Out ep (unat data_len)) u)
       }
     })"

lemma ep0_directions [simp]:
  "USB_CONTROL_IN_EP0 OR 0x80 = USB_CONTROL_IN_EP0" "USB_CONTROL_OUT_EP0 AND 0x7F = USB_CONTROL_OUT_EP0"
  by (simp_all add: usb_consts)

end
