(* ===== verification/Usbd_Core.thy ===== *)
theory Usbd_Core
  imports Usb_Dc Usb_Channel
begin

text \<open>
  The USB device core (CherryUSB \<^verbatim>\<open>core/usbd_core.c\<close>) as it is configured here: descriptors by callbacks
  (\<^verbatim>\<open>CONFIG_USBDEV_ADVANCE_DESC\<close>), high speed, test mode, no thread for endpoint 0 and a copy of the data
  of a control transfer in the request buffer.  Class handlers, endpoint callbacks and the event handler
  of the application are functions on a state \<open>'d\<close> of their own.  An access outside an array or a
  descriptor is \<open>None\<close>.
\<close>

section \<open>Requests (usb_def.h)\<close>

definition USB_REQUEST_DIR_OUT :: u8 where [usb_consts]: "USB_REQUEST_DIR_OUT = 0x00"
definition USB_REQUEST_DIR_IN :: u8 where [usb_consts]: "USB_REQUEST_DIR_IN = 0x80"
definition USB_REQUEST_DIR_MASK :: u8 where [usb_consts]: "USB_REQUEST_DIR_MASK = 0x80"
definition USB_REQUEST_STANDARD :: u8 where [usb_consts]: "USB_REQUEST_STANDARD = 0x00"
definition USB_REQUEST_CLASS :: u8 where [usb_consts]: "USB_REQUEST_CLASS = 0x20"
definition USB_REQUEST_VENDOR :: u8 where [usb_consts]: "USB_REQUEST_VENDOR = 0x40"
definition USB_REQUEST_TYPE_MASK :: u8 where [usb_consts]: "USB_REQUEST_TYPE_MASK = 0x60"
definition USB_REQUEST_RECIPIENT_DEVICE :: u8 where [usb_consts]: "USB_REQUEST_RECIPIENT_DEVICE = 0"
definition USB_REQUEST_RECIPIENT_INTERFACE :: u8 where [usb_consts]: "USB_REQUEST_RECIPIENT_INTERFACE = 1"
definition USB_REQUEST_RECIPIENT_ENDPOINT :: u8 where [usb_consts]: "USB_REQUEST_RECIPIENT_ENDPOINT = 2"
definition USB_REQUEST_RECIPIENT_MASK :: u8 where [usb_consts]: "USB_REQUEST_RECIPIENT_MASK = 3"

definition USB_REQUEST_GET_STATUS :: u8 where [usb_consts]: "USB_REQUEST_GET_STATUS = 0x00"
definition USB_REQUEST_CLEAR_FEATURE :: u8 where [usb_consts]: "USB_REQUEST_CLEAR_FEATURE = 0x01"
definition USB_REQUEST_SET_FEATURE :: u8 where [usb_consts]: "USB_REQUEST_SET_FEATURE = 0x03"
definition USB_REQUEST_SET_ADDRESS :: u8 where [usb_consts]: "USB_REQUEST_SET_ADDRESS = 0x05"
definition USB_REQUEST_GET_DESCRIPTOR :: u8 where [usb_consts]: "USB_REQUEST_GET_DESCRIPTOR = 0x06"
definition USB_REQUEST_GET_CONFIGURATION :: u8 where [usb_consts]: "USB_REQUEST_GET_CONFIGURATION = 0x08"
definition USB_REQUEST_SET_CONFIGURATION :: u8 where [usb_consts]: "USB_REQUEST_SET_CONFIGURATION = 0x09"
definition USB_REQUEST_GET_INTERFACE :: u8 where [usb_consts]: "USB_REQUEST_GET_INTERFACE = 0x0A"
definition USB_REQUEST_SET_INTERFACE :: u8 where [usb_consts]: "USB_REQUEST_SET_INTERFACE = 0x0B"

definition USB_FEATURE_ENDPOINT_HALT :: u16 where [usb_consts]: "USB_FEATURE_ENDPOINT_HALT = 0"
definition USB_FEATURE_REMOTE_WAKEUP :: u16 where [usb_consts]: "USB_FEATURE_REMOTE_WAKEUP = 1"
definition USB_FEATURE_TEST_MODE :: u16 where [usb_consts]: "USB_FEATURE_TEST_MODE = 2"
definition USB_GETSTATUS_SELF_POWERED :: u8 where [usb_consts]: "USB_GETSTATUS_SELF_POWERED = 0x01"
definition USB_GETSTATUS_REMOTE_WAKEUP :: u8 where [usb_consts]: "USB_GETSTATUS_REMOTE_WAKEUP = 0x02"

definition USB_DESCRIPTOR_TYPE_DEVICE :: u8 where [usb_consts]: "USB_DESCRIPTOR_TYPE_DEVICE = 0x01"
definition USB_DESCRIPTOR_TYPE_CONFIGURATION :: u8 where [usb_consts]: "USB_DESCRIPTOR_TYPE_CONFIGURATION = 0x02"
definition USB_DESCRIPTOR_TYPE_STRING :: u8 where [usb_consts]: "USB_DESCRIPTOR_TYPE_STRING = 0x03"
definition USB_DESCRIPTOR_TYPE_INTERFACE :: u8 where [usb_consts]: "USB_DESCRIPTOR_TYPE_INTERFACE = 0x04"
definition USB_DESCRIPTOR_TYPE_ENDPOINT :: u8 where [usb_consts]: "USB_DESCRIPTOR_TYPE_ENDPOINT = 0x05"
definition USB_DESCRIPTOR_TYPE_DEVICE_QUALIFIER :: u8 where [usb_consts]: "USB_DESCRIPTOR_TYPE_DEVICE_QUALIFIER = 0x06"
definition USB_DESCRIPTOR_TYPE_OTHER_SPEED :: u8 where [usb_consts]: "USB_DESCRIPTOR_TYPE_OTHER_SPEED = 0x07"
definition USB_DESCRIPTOR_TYPE_BINARY_OBJECT_STORE :: u8 where [usb_consts]: "USB_DESCRIPTOR_TYPE_BINARY_OBJECT_STORE = 0x0F"
definition USB_STRING_LANGID_INDEX :: u8 where [usb_consts]: "USB_STRING_LANGID_INDEX = 0x00"
definition USB_OSDESC_STRING_DESC_INDEX :: u8 where [usb_consts]: "USB_OSDESC_STRING_DESC_INDEX = 0xEE"
definition USB_CONFIG_REMOTE_WAKEUP :: u8 where [usb_consts]: "USB_CONFIG_REMOTE_WAKEUP = 0x20"
definition USB_CONFIG_POWERED_MASK :: u8 where [usb_consts]: "USB_CONFIG_POWERED_MASK = 0x40"
definition WINUSB_REQUEST_GET_DESCRIPTOR_SET :: u16 where [usb_consts]: "WINUSB_REQUEST_GET_DESCRIPTOR_SET = 0x07"
definition WEBUSB_REQUEST_GET_URL :: u16 where [usb_consts]: "WEBUSB_REQUEST_GET_URL = 0x02"

definition CONFIG_USBDEV_REQUEST_BUFFER_LEN :: nat where "CONFIG_USBDEV_REQUEST_BUFFER_LEN = 512"

record usb_setup_packet =
  bmRequestType :: u8
  bRequest :: u8
  wValue :: u16
  wIndex :: u16
  wLength :: u16

datatype usbd_event =
    USBD_EVENT_ERROR
  | USBD_EVENT_RESET
  | USBD_EVENT_SOF
  | USBD_EVENT_CONNECTED
  | USBD_EVENT_DISCONNECTED
  | USBD_EVENT_SUSPEND
  | USBD_EVENT_RESUME
  | USBD_EVENT_CONFIGURED
  | USBD_EVENT_SET_INTERFACE
  | USBD_EVENT_SET_REMOTE_WAKEUP
  | USBD_EVENT_CLR_REMOTE_WAKEUP
  | USBD_EVENT_INIT
  | USBD_EVENT_DEINIT
  | USBD_EVENT_UNKNOWN

section \<open>State\<close>

record usb_msosv1_descriptor =
  m1_string :: "u8 list"
  m1_vendor_code :: u8
  m1_compat_id :: "u8 list"
  m1_comp_id_property :: "u8 list list"

record usb_msosv2_descriptor =
  vendor_code :: u8
  compat_id :: "u8 list"
  compat_id_len :: nat

record usb_webusb_descriptor =
  url_vendor_code :: u8
  url_string :: "u8 list"
  url_string_len :: nat

record usb_bos_descriptor =
  bos_string :: "u8 list"
  bos_string_len :: nat

text \<open>The callbacks that hand out descriptors; a callback may be missing, and what it returns may be null.\<close>

record usb_descriptor =
  desc_device :: "(u8 \<Rightarrow> u8 list option) option"
  desc_config :: "(u8 \<Rightarrow> u8 list option) option"
  desc_quality :: "(u8 \<Rightarrow> u8 list option) option"
  desc_other_speed :: "(u8 \<Rightarrow> u8 list option) option"
  desc_string :: "(u8 \<Rightarrow> u8 \<Rightarrow> u8 list option) option"
  desc_msosv1 :: "usb_msosv1_descriptor option"
  desc_msosv2 :: "usb_msosv2_descriptor option"
  desc_webusb :: "usb_webusb_descriptor option"
  desc_bos :: "usb_bos_descriptor option"

text \<open>A pointer to data: into the request buffer, to memory that begins with the given bytes, or null.\<close>

datatype buf_ptr = Req_Data nat | Fixed "u8 list" | Null

text \<open>
  A class or vendor handler gets the request, the data pointer and the length, the request buffer and
  the state of the application; it answers with its return value and the new values of all but the
  request.
\<close>

type_synonym 'd usbd_request_handler =
  "usb_setup_packet \<Rightarrow> buf_ptr \<Rightarrow> u32 \<Rightarrow> u8 list \<times> 'd \<Rightarrow> (int \<times> buf_ptr \<times> u32 \<times> u8 list \<times> 'd) option"

record 'd usbd_interface =
  class_interface_handler :: "'d usbd_request_handler option"
  class_endpoint_handler :: "'d usbd_request_handler option"
  vendor_handler :: "'d usbd_request_handler option"
  notify_handler :: "(usbd_event \<Rightarrow> u8 list option \<Rightarrow> 'd \<times> hpm_udc \<Rightarrow> 'd \<times> hpm_udc) option"
  hid_report_descriptor :: "u8 list option"
  hid_report_descriptor_len :: u32
  intf_num :: u8

text \<open>The callback of an endpoint: none, those of endpoint 0, or one of the application.\<close>

datatype usbd_endpoint_callback = Cb_None | Cb_Ep0_In | Cb_Ep0_Out | Cb_App

record usbd_tx_rx_msg =
  msg_ep :: u8
  msg_ep_mult :: u8
  msg_ep_mps :: u16
  msg_nbytes :: u32
  msg_cb :: usbd_endpoint_callback

datatype ep0_state =
    USBD_EP0_STATE_SETUP
  | USBD_EP0_STATE_IN_DATA
  | USBD_EP0_STATE_OUT_DATA
  | USBD_EP0_STATE_IN_STATUS
  | USBD_EP0_STATE_OUT_STATUS

text \<open>The interfaces are the first \<^verbatim>\<open>intf_offset\<close> entries of the table of 16.\<close>

record 'd usbd_core =
  g_setup :: usb_setup_packet
  g_ep0_data_buf :: buf_ptr
  g_residue :: u32
  g_data_len :: u32
  g_zlp_flag :: bool
  g_req_data :: "u8 list"
  g_configuration :: u8
  g_device_address :: u8
  g_ep0_next_state :: ep0_state
  g_self_powered :: bool
  g_remote_wakeup_support :: bool
  g_remote_wakeup_enabled :: bool
  g_is_suspend :: bool
  g_speed :: u8
  g_test_req :: bool
  g_intf :: "'d usbd_interface list"
  g_intf_altsetting :: "u8 list"
  g_tx_msg :: "usbd_tx_rx_msg list"
  g_rx_msg :: "usbd_tx_rx_msg list"
  g_udc :: hpm_udc
  g_app :: 'd

text \<open>
  What the application registers: descriptors, event handler, endpoint callbacks.  They may start
  transfers, hence the controller driver in their state; an IN callback asks for packet sizes.
\<close>

record 'd usbd_env =
  descriptors :: usb_descriptor
  event_handler :: "usbd_event \<Rightarrow> 'd \<times> hpm_udc \<Rightarrow> 'd \<times> hpm_udc"
  app_in_cb :: "(u8 \<Rightarrow> u16 option) \<Rightarrow> u8 \<Rightarrow> u32 \<Rightarrow> 'd \<times> hpm_udc \<Rightarrow> 'd \<times> hpm_udc"
  app_out_cb :: "u8 \<Rightarrow> u8 list \<Rightarrow> 'd \<times> hpm_udc \<Rightarrow> 'd \<times> hpm_udc"

definition on_udc :: "(hpm_udc \<Rightarrow> hpm_udc) \<Rightarrow> 'd usbd_core \<Rightarrow> 'd usbd_core" where
  "on_udc f s = s\<lparr> g_udc := f (g_udc s) \<rparr>"

text \<open>A call of the controller driver whose result is not looked at.\<close>

definition udc_call :: "(hpm_udc \<Rightarrow> (int \<times> hpm_udc) option) \<Rightarrow> 'd usbd_core \<Rightarrow> 'd usbd_core option" where
  "udc_call f s = map_option (\<lambda>(_, u). s\<lparr> g_udc := u \<rparr>) (f (g_udc s))"

definition on_app :: "('d \<times> hpm_udc \<Rightarrow> 'd \<times> hpm_udc) \<Rightarrow> 'd usbd_core \<Rightarrow> 'd usbd_core" where
  "on_app f s = (case f (g_app s, g_udc s) of (a, u) \<Rightarrow> s\<lparr> g_app := a, g_udc := u \<rparr>)"

definition app_event :: "'d usbd_env \<Rightarrow> usbd_event \<Rightarrow> 'd usbd_core \<Rightarrow> 'd usbd_core" where
  "app_event E e s = on_app (event_handler E e) s"

text \<open>Reading a byte of a descriptor, writing into the request buffer.\<close>

definition rd :: "u8 list \<Rightarrow> nat \<Rightarrow> u8 option" where
  "rd p i = (if i < length p then Some (p ! i) else None)"

definition rd16 :: "u8 list \<Rightarrow> nat \<Rightarrow> nat option" where
  "rd16 p i = do { lo \<leftarrow> rd p i; hi \<leftarrow> rd p (i + 1); Some (unat lo + 256 * unat hi) }"

definition ptr_bytes :: "buf_ptr \<Rightarrow> u8 list \<Rightarrow> u8 list option" where
  "ptr_bytes p req = (case p of Req_Data n \<Rightarrow> Some (drop n req) | Fixed bs \<Rightarrow> Some bs | Null \<Rightarrow> None)"

definition ptr_add :: "buf_ptr \<Rightarrow> nat \<Rightarrow> buf_ptr" where
  "ptr_add p k = (case p of Req_Data n \<Rightarrow> Req_Data (n + k) | Fixed bs \<Rightarrow> Fixed (drop k bs) | Null \<Rightarrow> Null)"

text \<open>Writing through a pointer: only the request buffer can be written.\<close>

definition ptr_write :: "buf_ptr \<Rightarrow> u8 list \<Rightarrow> u8 list \<Rightarrow> u8 list option" where
  "ptr_write p bs req = (case p of
     Req_Data n \<Rightarrow> if n + length bs \<le> length req then Some (take n req @ bs @ drop (n + length bs) req) else None
   | Fixed _ \<Rightarrow> None | Null \<Rightarrow> None)"

definition put_data :: "buf_ptr \<Rightarrow> u8 list \<Rightarrow> 'd usbd_core \<Rightarrow> 'd usbd_core option" where
  "put_data p bs s = map_option (\<lambda>r. s\<lparr> g_req_data := r \<rparr>) (ptr_write p bs (g_req_data s))"

section \<open>Endpoints and descriptors\<close>

definition is_device_configured :: "'d usbd_core \<Rightarrow> bool" where
  "is_device_configured s \<longleftrightarrow> g_configuration s \<noteq> 0"

definition msg_update ::
  "u8 \<Rightarrow> (usbd_tx_rx_msg \<Rightarrow> usbd_tx_rx_msg) \<Rightarrow> 'd usbd_core \<Rightarrow> 'd usbd_core option" where
  "msg_update addr f s =
    (let i = unat (addr AND 0x7F) in
     if addr AND 0x80 \<noteq> 0
     then (if i < length (g_tx_msg s) then Some (s\<lparr> g_tx_msg := (g_tx_msg s)[i := f (g_tx_msg s ! i)] \<rparr>) else None)
     else (if i < length (g_rx_msg s) then Some (s\<lparr> g_rx_msg := (g_rx_msg s)[i := f (g_rx_msg s ! i)] \<rparr>) else None))"

definition msg_entry :: "u8 \<Rightarrow> 'd usbd_core \<Rightarrow> usbd_tx_rx_msg option" where
  "msg_entry addr s =
    (let i = unat (addr AND 0x7F); t = (if addr AND 0x80 \<noteq> 0 then g_tx_msg s else g_rx_msg s)
     in if i < length t then Some (t ! i) else None)"

text \<open>The argument is the memory from the endpoint descriptor on.\<close>

definition usbd_set_endpoint :: "u8 list \<Rightarrow> 'd usbd_core \<Rightarrow> (bool \<times> 'd usbd_core) option" where
  "usbd_set_endpoint p s =
    do {
      addr \<leftarrow> rd p 2;
      attr \<leftarrow> rd p 3;
      lo \<leftarrow> rd p 4;
      hi \<leftarrow> rd p 5;
      let mps = join16 lo hi;
      s \<leftarrow> msg_update addr (\<lambda>m. m\<lparr> msg_ep_mps := USB_GET_MAXPACKETSIZE mps, msg_ep_mult := USB_GET_MULT mps \<rparr>) s;
      (r, u) \<leftarrow> usbd_ep_open addr attr mps (g_udc s);
      Some (r = 0, s\<lparr> g_udc := u \<rparr>)
    }"

definition usbd_reset_endpoint :: "u8 list \<Rightarrow> 'd usbd_core \<Rightarrow> (bool \<times> 'd usbd_core) option" where
  "usbd_reset_endpoint p s =
    do {
      addr \<leftarrow> rd p 2;
      (r, u) \<leftarrow> usbd_ep_close addr (g_udc s);
      Some (r = 0, s\<lparr> g_udc := u \<rparr>)
    }"

text \<open>What a request handler returns: success, the data pointer, the length and the state.\<close>

type_synonym 'd reply = "bool \<times> buf_ptr \<times> u32 \<times> 'd usbd_core"

definition from_callback :: "(u8 \<Rightarrow> u8 list option) option \<Rightarrow> u8 \<Rightarrow> u8 list option" where
  "from_callback cb spd = Option.bind cb (\<lambda>f. f spd)"

definition c_strlen :: "u8 list \<Rightarrow> nat" where
  "c_strlen str = length (takeWhile (\<lambda>c. c \<noteq> 0) str)"

text \<open>A string descriptor: its header and the characters, each as two bytes.\<close>

definition string_reply :: "u8 list \<Rightarrow> u8 \<Rightarrow> buf_ptr \<Rightarrow> u32 \<Rightarrow> 'd usbd_core \<Rightarrow> 'd reply option" where
  "string_reply str index data len s =
    (if index = USB_STRING_LANGID_INDEX
     then do {
       a \<leftarrow> rd (str @ [0]) 0;
       b \<leftarrow> rd (str @ [0]) 1;
       s \<leftarrow> put_data data [4, USB_DESCRIPTOR_TYPE_STRING, a, b] s;
       Some (True, data, 4, s)
     }
     else
       let str_size = of_nat (c_strlen str) :: u16;
           total_size = 2 * str_size + 2
       in if CONFIG_USBDEV_REQUEST_BUFFER_LEN < unat total_size then Some (False, data, len, s)
          else do {
            s \<leftarrow> put_data data ([ucast total_size, USB_DESCRIPTOR_TYPE_STRING]
                   @ concat (map (\<lambda>c. [c, 0]) (take (unat str_size) str))) s;
            Some (True, data, ucast total_size, s)
          })"

definition usbd_get_descriptor :: "'d usbd_env \<Rightarrow> u16 \<Rightarrow> buf_ptr \<Rightarrow> u32 \<Rightarrow> 'd usbd_core \<Rightarrow> 'd reply option" where
  "usbd_get_descriptor E type_index data len s =
    (let type = hi8 type_index; index = lo8 type_index; D = descriptors E in
     if type = USB_DESCRIPTOR_TYPE_DEVICE then
       let s = s\<lparr> g_speed := usbd_get_port_speed (g_udc s) \<rparr> in
       (case from_callback (desc_device D) (g_speed s) of
          None \<Rightarrow> Some (False, data, len, s)
        | Some desc \<Rightarrow> do { n \<leftarrow> rd desc 0; Some (True, Fixed desc, ucast n, s) })
     else if type = USB_DESCRIPTOR_TYPE_CONFIGURATION then
       (case from_callback (desc_config D) (g_speed s) of
          None \<Rightarrow> Some (False, data, len, s)
        | Some desc \<Rightarrow> do {
            n \<leftarrow> rd16 desc 2;
            attr \<leftarrow> rd desc 7;
            Some (True, Fixed desc, of_nat n,
              s\<lparr> g_self_powered := (attr AND USB_CONFIG_POWERED_MASK \<noteq> 0),
                 g_remote_wakeup_support := (attr AND USB_CONFIG_REMOTE_WAKEUP \<noteq> 0) \<rparr>) })
     else if type = USB_DESCRIPTOR_TYPE_STRING then
       if index = USB_OSDESC_STRING_DESC_INDEX then
         (case desc_msosv1 D of
            None \<Rightarrow> Some (False, data, len, s)
          | Some m \<Rightarrow> do { n \<leftarrow> rd (m1_string m) 0; Some (True, Fixed (m1_string m), ucast n, s) })
       else
         (case Option.bind (desc_string D) (\<lambda>f. f (g_speed s) index) of
            None \<Rightarrow> Some (False, data, len, s)
          | Some str \<Rightarrow> string_reply str index data len s)
     else if type = USB_DESCRIPTOR_TYPE_DEVICE_QUALIFIER then
       (case from_callback (desc_quality D) (g_speed s) of
          None \<Rightarrow> Some (False, data, len, s)
        | Some desc \<Rightarrow> do { n \<leftarrow> rd desc 0; Some (True, Fixed desc, ucast n, s) })
     else if type = USB_DESCRIPTOR_TYPE_OTHER_SPEED then
       (case from_callback (desc_other_speed D) (g_speed s) of
          None \<Rightarrow> Some (False, data, len, s)
        | Some desc \<Rightarrow> do { n \<leftarrow> rd16 desc 2; Some (True, Fixed desc, of_nat n, s) })
     else if type = USB_DESCRIPTOR_TYPE_BINARY_OBJECT_STORE then
       (case desc_bos D of
          None \<Rightarrow> Some (False, data, len, s)
        | Some b \<Rightarrow> Some (True, Fixed (bos_string b), of_nat (bos_string_len b), s))
     else Some (False, data, len, s))"

section \<open>Walking over a configuration\<close>

text \<open>
  The loop that three handlers share: the body sees the memory from a descriptor on and says whether it
  returns, whether a new total length begins here, and what it has gathered; the walk ends at a
  descriptor of length 0 or when the total length has been passed.  (The sums of lengths stay below the
  size of memory, so that natural numbers stand for the 32-bit counters.)
\<close>

function walk_descriptors ::
  "(u8 list \<Rightarrow> 'a \<Rightarrow> (bool \<times> nat option \<times> 'a) option) \<Rightarrow> u8 list \<Rightarrow> nat \<Rightarrow> nat \<Rightarrow> 'a \<Rightarrow> (bool \<times> 'a) option" where
  "walk_descriptors body [] desc_len cur a = None"
| "walk_descriptors body (n # bs) desc_len cur a =
    (if n = 0 then Some (False, a)
     else case body (n # bs) a of
       None \<Rightarrow> None
     | Some (stop, fresh, a) \<Rightarrow>
         if stop then Some (True, a)
         else
           let desc_len = (case fresh of None \<Rightarrow> desc_len | Some l \<Rightarrow> l);
               cur = (case fresh of None \<Rightarrow> cur | Some l \<Rightarrow> 0) + unat n
           in if desc_len \<le> cur \<and> desc_len \<noteq> 0 then Some (False, a)
              else walk_descriptors body (drop (unat n - 1) bs) desc_len cur a)"
  by pat_completeness auto
termination by (relation "measure (\<lambda>(body, p, desc_len, cur, a). length p)") auto

text \<open>\<open>found\<close>, \<open>cur_config\<close>, \<open>cur_alt_setting\<close> and the state.\<close>

definition set_configuration_body ::
  "u8 \<Rightarrow> u8 \<Rightarrow> u8 list \<Rightarrow> bool \<times> u8 \<times> u8 \<times> 'd usbd_core \<Rightarrow> (bool \<times> nat option \<times> bool \<times> u8 \<times> u8 \<times> 'd usbd_core) option" where
  "set_configuration_body config_index alt_setting p = (\<lambda>(found, cur_config, cur_alt, s).
    do {
      t \<leftarrow> rd p 1;
      if t = USB_DESCRIPTOR_TYPE_CONFIGURATION then do {
        v \<leftarrow> rd p 5;
        if v = config_index then do { l \<leftarrow> rd16 p 2; Some (False, Some l, True, v, cur_alt, s) }
        else Some (False, None, found, v, cur_alt, s)
      }
      else if t = USB_DESCRIPTOR_TYPE_INTERFACE then do {
        alt \<leftarrow> rd p 3;
        Some (False, None, found, cur_config, alt, s)
      }
      else if t = USB_DESCRIPTOR_TYPE_ENDPOINT then
        if cur_config \<noteq> config_index \<or> cur_alt \<noteq> alt_setting then Some (False, None, found, cur_config, cur_alt, s)
        else do {
          (ok, s) \<leftarrow> usbd_set_endpoint p s;
          Some (False, None, ok, cur_config, cur_alt, s)
        }
      else Some (False, None, found, cur_config, cur_alt, s)
    })"

text \<open>The descriptor callback is called without a test; a null descriptor is read as well.\<close>

definition current_config :: "'d usbd_env \<Rightarrow> 'd usbd_core \<Rightarrow> u8 list option" where
  "current_config E s = from_callback (desc_config (descriptors E)) (g_speed s)"

definition usbd_set_configuration :: "'d usbd_env \<Rightarrow> u8 \<Rightarrow> u8 \<Rightarrow> 'd usbd_core \<Rightarrow> (bool \<times> 'd usbd_core) option" where
  "usbd_set_configuration E config_index alt_setting s =
    do {
      p \<leftarrow> current_config E s;
      (_, found, _, _, s) \<leftarrow>
        walk_descriptors (set_configuration_body config_index alt_setting) p 0 0 (False, 0xFF, 0xFF, s);
      Some (found, s)
    }"

text \<open>\<open>ret\<close>, \<open>if_desc\<close>, \<open>cur_iface\<close>, \<open>cur_alt_setting\<close> and the state.\<close>

definition set_interface_body ::
  "u8 \<Rightarrow> u8 \<Rightarrow> u8 list \<Rightarrow> bool \<times> u8 list option \<times> u8 \<times> u8 \<times> 'd usbd_core \<Rightarrow>
   (bool \<times> nat option \<times> bool \<times> u8 list option \<times> u8 \<times> u8 \<times> 'd usbd_core) option" where
  "set_interface_body iface alt_setting p = (\<lambda>(ret, if_desc, cur_iface, cur_alt, s).
    do {
      t \<leftarrow> rd p 1;
      if t = USB_DESCRIPTOR_TYPE_CONFIGURATION then do {
        l \<leftarrow> rd16 p 2;
        Some (False, Some l, ret, if_desc, cur_iface, cur_alt, s)
      }
      else if t = USB_DESCRIPTOR_TYPE_INTERFACE then do {
        alt \<leftarrow> rd p 3;
        num \<leftarrow> rd p 2;
        Some (False, None, ret, if num = iface \<and> alt = alt_setting then Some p else if_desc, num, alt, s)
      }
      else if t = USB_DESCRIPTOR_TYPE_ENDPOINT then
        if cur_iface = iface then
          if alt_setting = 0 then do {
            (ok, s) \<leftarrow> usbd_reset_endpoint p s;
            Some (False, None, ok, if_desc, cur_iface, cur_alt, s)
          }
          else if cur_alt = alt_setting then do {
            (ok, s) \<leftarrow> usbd_set_endpoint p s;
            Some (False, None, ok, if_desc, cur_iface, cur_alt, s)
          }
          else Some (False, None, ret, if_desc, cur_iface, cur_alt, s)
        else Some (False, None, ret, if_desc, cur_iface, cur_alt, s)
      else Some (False, None, ret, if_desc, cur_iface, cur_alt, s)
    })"

text \<open>The argument of a notification is the interface descriptor, or null for all interfaces.\<close>

definition notify_one ::
  "usbd_event \<Rightarrow> u8 list option \<Rightarrow> 'd usbd_interface \<Rightarrow> 'd usbd_core \<Rightarrow> 'd usbd_core option" where
  "notify_one event arg i s =
    (case notify_handler i of
       None \<Rightarrow> Some s
     | Some h \<Rightarrow>
         (case arg of
            None \<Rightarrow> Some (on_app (h event arg) s)
          | Some desc \<Rightarrow> do { num \<leftarrow> rd desc 2; Some (if num = intf_num i then on_app (h event arg) s else s) }))"

fun notify_all ::
  "usbd_event \<Rightarrow> u8 list option \<Rightarrow> 'd usbd_interface list \<Rightarrow> 'd usbd_core \<Rightarrow> 'd usbd_core option" where
  "notify_all event arg [] s = Some s"
| "notify_all event arg (i # is) s = do { s \<leftarrow> notify_one event arg i s; notify_all event arg is s }"

definition usbd_class_event_notify_handler ::
  "usbd_event \<Rightarrow> u8 list option \<Rightarrow> 'd usbd_core \<Rightarrow> 'd usbd_core option" where
  "usbd_class_event_notify_handler event arg s = notify_all event arg (g_intf s) s"

definition usbd_set_interface :: "'d usbd_env \<Rightarrow> u8 \<Rightarrow> u8 \<Rightarrow> 'd usbd_core \<Rightarrow> (bool \<times> 'd usbd_core) option" where
  "usbd_set_interface E iface alt_setting s =
    do {
      p \<leftarrow> current_config E s;
      (_, ret, if_desc, _, _, s) \<leftarrow>
        walk_descriptors (set_interface_body iface alt_setting) p 0 0 (False, None, 0xFF, 0xFF, s);
      s \<leftarrow> usbd_class_event_notify_handler USBD_EVENT_SET_INTERFACE if_desc s;
      Some (ret, s)
    }"

section \<open>Standard requests\<close>

definition usbd_std_device_req_handler ::
  "'d usbd_env \<Rightarrow> usb_setup_packet \<Rightarrow> buf_ptr \<Rightarrow> u32 \<Rightarrow> 'd usbd_core \<Rightarrow> 'd reply option" where
  "usbd_std_device_req_handler E stp data len s =
    (let val = wValue stp; rq = bRequest stp in
     if rq = USB_REQUEST_GET_STATUS then do {
       s \<leftarrow> put_data data
         [(if g_self_powered s then USB_GETSTATUS_SELF_POWERED else 0)
            OR (if g_remote_wakeup_enabled s then USB_GETSTATUS_REMOTE_WAKEUP else 0), 0] s;
       Some (True, data, 2, s)
     }
     else if rq = USB_REQUEST_CLEAR_FEATURE \<or> rq = USB_REQUEST_SET_FEATURE then
       Some (True, data, 0,
         if val = USB_FEATURE_REMOTE_WAKEUP then
           if rq = USB_REQUEST_SET_FEATURE
           then app_event E USBD_EVENT_SET_REMOTE_WAKEUP (s\<lparr> g_remote_wakeup_enabled := True \<rparr>)
           else app_event E USBD_EVENT_CLR_REMOTE_WAKEUP (s\<lparr> g_remote_wakeup_enabled := False \<rparr>)
         else if val = USB_FEATURE_TEST_MODE then s\<lparr> g_test_req := True \<rparr>
         else s)
     else if rq = USB_REQUEST_SET_ADDRESS then
       Some (True, data, 0, on_udc (usbd_set_address (lo8 val)) (s\<lparr> g_device_address := lo8 val \<rparr>))
     else if rq = USB_REQUEST_GET_DESCRIPTOR then usbd_get_descriptor E val data len s
     else if rq = USB_REQUEST_GET_CONFIGURATION then do {
       s \<leftarrow> put_data data [g_configuration s] s;
       Some (True, data, 1, s)
     }
     else if rq = USB_REQUEST_SET_CONFIGURATION then
       let conf = lo8 val in
       if conf = 0 then Some (True, data, 0, s\<lparr> g_configuration := 0 \<rparr>)
       else do {
         (ok, s) \<leftarrow> usbd_set_configuration E conf 0 s;
         if \<not> ok then Some (False, data, 0, s)
         else do {
           s \<leftarrow> usbd_class_event_notify_handler USBD_EVENT_CONFIGURED None
                  (s\<lparr> g_configuration := conf, g_is_suspend := False \<rparr>);
           Some (True, data, 0, app_event E USBD_EVENT_CONFIGURED s)
         }
       }
     else Some (False, data, len, s))"

text \<open>The search for the HID descriptor of an interface: the memory found, and \<open>cur_iface\<close>.\<close>

definition hid_descriptor_body :: "u8 \<Rightarrow> u8 list \<Rightarrow> u8 list option \<times> u8 \<Rightarrow> (bool \<times> nat option \<times> u8 list option \<times> u8) option" where
  "hid_descriptor_body num p = (\<lambda>(found, cur_iface).
    do {
      t \<leftarrow> rd p 1;
      if t = USB_DESCRIPTOR_TYPE_CONFIGURATION then do { l \<leftarrow> rd16 p 2; Some (False, Some l, found, cur_iface) }
      else if t = USB_DESCRIPTOR_TYPE_INTERFACE then do { i \<leftarrow> rd p 2; Some (False, None, found, i) }
      else if t = 0x21 \<and> cur_iface = num then Some (True, None, Some p, cur_iface)
      else Some (False, None, found, cur_iface)
    })"

definition usbd_std_interface_req_handler ::
  "'d usbd_env \<Rightarrow> usb_setup_packet \<Rightarrow> buf_ptr \<Rightarrow> u32 \<Rightarrow> 'd usbd_core \<Rightarrow> 'd reply option" where
  "usbd_std_interface_req_handler E stp data len s =
    (let type = hi8 (wValue stp); num = lo8 (wIndex stp); rq = bRequest stp in
     if desc_config (descriptors E) = None then None
     else if \<not> is_device_configured s then Some (False, data, len, s)
     else if rq = USB_REQUEST_GET_STATUS then do { s \<leftarrow> put_data data [0, 0] s; Some (True, data, 2, s) }
     else if rq = USB_REQUEST_GET_DESCRIPTOR then
       if type = 0x21 then do {
         p \<leftarrow> current_config E s;
         (_, found, _) \<leftarrow> walk_descriptors (hid_descriptor_body num) p 0 0 (None, 0xFF);
         (case found of
            None \<Rightarrow> Some (False, data, len, s)
          | Some d \<Rightarrow> do { n \<leftarrow> rd d 0; Some (True, Fixed d, ucast n, s) })
       }
       else if type = 0x22 then
         (case find (\<lambda>i. intf_num i = num) (g_intf s) of
            None \<Rightarrow> Some (False, data, len, s)
          | Some i \<Rightarrow> Some (True, (case hid_report_descriptor i of None \<Rightarrow> Null | Some d \<Rightarrow> Fixed d),
                            hid_report_descriptor_len i, s))
       else Some (False, data, len, s)
     else if rq = USB_REQUEST_GET_INTERFACE then
       if unat num < length (g_intf_altsetting s) then do {
         s \<leftarrow> put_data data [g_intf_altsetting s ! unat num] s;
         Some (True, data, 1, s)
       }
       else None
     else if rq = USB_REQUEST_SET_INTERFACE then
       if unat num < length (g_intf_altsetting s) then do {
         (_, s) \<leftarrow> usbd_set_interface E num (lo8 (wValue stp))
           (s\<lparr> g_intf_altsetting := (g_intf_altsetting s)[unat num := lo8 (wValue stp)] \<rparr>);
         Some (True, data, 0, s)
       }
       else None
     else Some (False, data, len, s))"

definition usbd_std_endpoint_req_handler ::
  "usb_setup_packet \<Rightarrow> buf_ptr \<Rightarrow> u32 \<Rightarrow> 'd usbd_core \<Rightarrow> 'd reply option" where
  "usbd_std_endpoint_req_handler stp data len s =
    (let ep = lo8 (wIndex stp); rq = bRequest stp in
     if \<not> is_device_configured s then Some (False, data, len, s)
     else if rq = USB_REQUEST_GET_STATUS then do {
       s \<leftarrow> put_data data [if usbd_ep_is_stalled ep (g_udc s) then 1 else 0, 0] s;
       Some (True, data, 2, s)
     }
     else if rq = USB_REQUEST_CLEAR_FEATURE then
       if wValue stp = USB_FEATURE_ENDPOINT_HALT then Some (True, data, len, on_udc (usbd_ep_clear_stall ep) s)
       else Some (False, data, 0, s)
     else if rq = USB_REQUEST_SET_FEATURE then
       if wValue stp = USB_FEATURE_ENDPOINT_HALT then Some (True, data, 0, on_udc (usbd_ep_set_stall ep) s)
       else Some (False, data, 0, s)
     else Some (False, data, len, s))"

definition usbd_standard_request_handler ::
  "'d usbd_env \<Rightarrow> usb_setup_packet \<Rightarrow> buf_ptr \<Rightarrow> u32 \<Rightarrow> 'd usbd_core \<Rightarrow> 'd reply option" where
  "usbd_standard_request_handler E stp data len s =
    (let rcp = bmRequestType stp AND USB_REQUEST_RECIPIENT_MASK in
     if rcp = USB_REQUEST_RECIPIENT_DEVICE then usbd_std_device_req_handler E stp data len s
     else if rcp = USB_REQUEST_RECIPIENT_INTERFACE then usbd_std_interface_req_handler E stp data len s
     else if rcp = USB_REQUEST_RECIPIENT_ENDPOINT then usbd_std_endpoint_req_handler stp data len s
     else Some (False, data, len, s))"

section \<open>Class and vendor requests\<close>

definition run_handler ::
  "'d usbd_request_handler \<Rightarrow> usb_setup_packet \<Rightarrow> buf_ptr \<Rightarrow> u32 \<Rightarrow> 'd usbd_core \<Rightarrow> (int \<times> buf_ptr \<times> u32 \<times> 'd usbd_core) option" where
  "run_handler h stp data len s =
    do {
      (rc, data, len, req, a) \<leftarrow> h stp data len (g_req_data s, g_app s);
      Some (rc, data, len, s\<lparr> g_req_data := req, g_app := a \<rparr>)
    }"

definition usbd_class_request_handler ::
  "usb_setup_packet \<Rightarrow> buf_ptr \<Rightarrow> u32 \<Rightarrow> 'd usbd_core \<Rightarrow> (int \<times> buf_ptr \<times> u32 \<times> 'd usbd_core) option" where
  "usbd_class_request_handler stp data len s =
    (let rcp = bmRequestType stp AND USB_REQUEST_RECIPIENT_MASK in
     if rcp = USB_REQUEST_RECIPIENT_INTERFACE then
       (case find (\<lambda>i. class_interface_handler i \<noteq> None \<and> intf_num i = lo8 (wIndex stp)) (g_intf s) of
          None \<Rightarrow> Some (-1, data, len, s)
        | Some i \<Rightarrow> run_handler (the (class_interface_handler i)) stp data len s)
     else if rcp = USB_REQUEST_RECIPIENT_ENDPOINT then
       (case find (\<lambda>i. class_endpoint_handler i \<noteq> None) (g_intf s) of
          None \<Rightarrow> Some (-1, data, len, s)
        | Some i \<Rightarrow> run_handler (the (class_endpoint_handler i)) stp data len s)
     else Some (-1, data, len, s))"

fun vendor_handlers ::
  "'d usbd_interface list \<Rightarrow> usb_setup_packet \<Rightarrow> buf_ptr \<Rightarrow> u32 \<Rightarrow> 'd usbd_core \<Rightarrow> (int \<times> buf_ptr \<times> u32 \<times> 'd usbd_core) option" where
  "vendor_handlers [] stp data len s = Some (-1, data, len, s)"
| "vendor_handlers (i # is) stp data len s =
    (case vendor_handler i of
       None \<Rightarrow> vendor_handlers is stp data len s
     | Some h \<Rightarrow> do {
         (rc, data, len, s) \<leftarrow> run_handler h stp data len s;
         if rc = 0 then Some (0, data, len, s) else vendor_handlers is stp data len s
       })"

text \<open>
  The descriptors that are served under a vendor code: the answer, or \<open>Inr\<close> when the request is for the
  handlers of the interfaces.
\<close>

definition msos_reply ::
  "usb_descriptor \<Rightarrow> usb_setup_packet \<Rightarrow> ((int \<times> (u8 list \<times> nat) option) + unit) option" where
  "msos_reply D stp =
    (case desc_msosv1 D of
       Some m \<Rightarrow>
         if bRequest stp = m1_vendor_code m then
           if wIndex stp = 0x04 then do {
             lo \<leftarrow> rd16 (m1_compat_id m) 0;
             hi \<leftarrow> rd16 (m1_compat_id m) 2;
             Some (Inl (0, Some (m1_compat_id m, lo + 65536 * hi)))
           }
           else if wIndex stp = 0x05 then
             if unat (wValue stp) < length (m1_comp_id_property m) then do {
               let p = m1_comp_id_property m ! unat (wValue stp);
               lo \<leftarrow> rd16 p 0;
               hi \<leftarrow> rd16 p 2;
               Some (Inl (0, Some (p, lo + 65536 * hi)))
             }
             else None
           else Some (Inl (-1, None))
         else Some (Inr ())
     | None \<Rightarrow>
         (case desc_msosv2 D of
            None \<Rightarrow> Some (Inr ())
          | Some m \<Rightarrow>
              if bRequest stp = vendor_code m then
                if wIndex stp = WINUSB_REQUEST_GET_DESCRIPTOR_SET
                then Some (Inl (0, Some (compat_id m, compat_id_len m)))
                else Some (Inl (-1, None))
              else Some (Inr ())))"

definition webusb_reply :: "usb_descriptor \<Rightarrow> usb_setup_packet \<Rightarrow> (int \<times> (u8 list \<times> nat) option) + unit" where
  "webusb_reply D stp =
    (case desc_webusb D of
       None \<Rightarrow> Inr ()
     | Some w \<Rightarrow>
         if bRequest stp = url_vendor_code w
         then Inl (if wIndex stp = WEBUSB_REQUEST_GET_URL then (0, Some (url_string w, url_string_len w)) else (-1, None))
         else Inr ())"

definition usbd_vendor_request_handler ::
  "'d usbd_env \<Rightarrow> usb_setup_packet \<Rightarrow> buf_ptr \<Rightarrow> u32 \<Rightarrow> 'd usbd_core \<Rightarrow> (int \<times> buf_ptr \<times> u32 \<times> 'd usbd_core) option" where
  "usbd_vendor_request_handler E stp data len s =
    do {
      r \<leftarrow> msos_reply (descriptors E) stp;
      case (case r of Inl x \<Rightarrow> Inl x | Inr _ \<Rightarrow> webusb_reply (descriptors E) stp) of
        Inl (rc, None) \<Rightarrow> Some (rc, data, len, s)
      | Inl (rc, Some (bs, n)) \<Rightarrow> Some (rc, Fixed bs, of_nat n, s)
      | Inr _ \<Rightarrow> vendor_handlers (g_intf s) stp data len s
    }"

definition usbd_setup_request_handler ::
  "'d usbd_env \<Rightarrow> usb_setup_packet \<Rightarrow> buf_ptr \<Rightarrow> u32 \<Rightarrow> 'd usbd_core \<Rightarrow> 'd reply option" where
  "usbd_setup_request_handler E stp data len s =
    (let t = bmRequestType stp AND USB_REQUEST_TYPE_MASK in
     if t = USB_REQUEST_STANDARD then usbd_standard_request_handler E stp data len s
     else if t = USB_REQUEST_CLASS then
       map_option (\<lambda>(rc, data, len, s). (0 \<le> rc, data, len, s)) (usbd_class_request_handler stp data len s)
     else if t = USB_REQUEST_VENDOR then
       map_option (\<lambda>(rc, data, len, s). (0 \<le> rc, data, len, s)) (usbd_vendor_request_handler E stp data len s)
     else Some (False, data, len, s))"

section \<open>Bus events\<close>

definition usbd_event_sof_handler :: "'d usbd_env \<Rightarrow> 'd usbd_core \<Rightarrow> 'd usbd_core" where
  "usbd_event_sof_handler E s = app_event E USBD_EVENT_SOF s"

definition usbd_event_connect_handler :: "'d usbd_env \<Rightarrow> 'd usbd_core \<Rightarrow> 'd usbd_core" where
  "usbd_event_connect_handler E s = app_event E USBD_EVENT_CONNECTED s"

definition usbd_event_disconnect_handler :: "'d usbd_env \<Rightarrow> 'd usbd_core \<Rightarrow> 'd usbd_core" where
  "usbd_event_disconnect_handler E s = app_event E USBD_EVENT_DISCONNECTED (s\<lparr> g_configuration := 0 \<rparr>)"

definition usbd_event_resume_handler :: "'d usbd_env \<Rightarrow> 'd usbd_core \<Rightarrow> 'd usbd_core" where
  "usbd_event_resume_handler E s = app_event E USBD_EVENT_RESUME (s\<lparr> g_is_suspend := False \<rparr>)"

definition usbd_event_suspend_handler :: "'d usbd_env \<Rightarrow> 'd usbd_core \<Rightarrow> 'd usbd_core" where
  "usbd_event_suspend_handler E s =
    (if 0 < g_device_address s then app_event E USBD_EVENT_SUSPEND (s\<lparr> g_is_suspend := True \<rparr>) else s)"

definition usbd_event_reset_handler :: "'d usbd_env \<Rightarrow> 'd usbd_core \<Rightarrow> 'd usbd_core option" where
  "usbd_event_reset_handler E s =
    do {
      let s = on_udc (usbd_set_address 0) s;
      let s = s\<lparr> g_device_address := 0, g_configuration := 0, g_ep0_next_state := USBD_EP0_STATE_SETUP,
                 g_speed := USB_SPEED_UNKNOWN \<rparr>;
      s \<leftarrow> udc_call (usbd_ep_open USB_CONTROL_IN_EP0 USB_ENDPOINT_TYPE_CONTROL USB_CTRL_EP_MPS) s;
      s \<leftarrow> udc_call (usbd_ep_open USB_CONTROL_OUT_EP0 USB_ENDPOINT_TYPE_CONTROL USB_CTRL_EP_MPS) s;
      s \<leftarrow> usbd_class_event_notify_handler USBD_EVENT_RESET None s;
      Some (app_event E USBD_EVENT_RESET s)
    }"

section \<open>Endpoint 0\<close>

text \<open>Starting a transfer from a data pointer.\<close>

definition ep0_write :: "buf_ptr \<Rightarrow> u32 \<Rightarrow> 'd usbd_core \<Rightarrow> 'd usbd_core option" where
  "ep0_write p n s = udc_call (usbd_ep_start_write USB_CONTROL_IN_EP0 (ptr_bytes p (g_req_data s)) n) s"

definition ep0_read :: "buf_ptr \<Rightarrow> u32 \<Rightarrow> 'd usbd_core \<Rightarrow> 'd usbd_core option" where
  "ep0_read p n s = udc_call (usbd_ep_start_read USB_CONTROL_OUT_EP0 (p = Null) n) s"

definition ep0_stall :: "'d usbd_core \<Rightarrow> 'd usbd_core" where
  "ep0_stall s = on_udc (usbd_ep_set_stall USB_CONTROL_IN_EP0) s"

text \<open>The copy of the data into the request buffer, unless a handler has put it there.\<close>

definition copy_reply :: "buf_ptr \<Rightarrow> 'd usbd_core \<Rightarrow> 'd usbd_core option" where
  "copy_reply buf s =
    (if buf = g_ep0_data_buf s then Some s
     else if g_residue s = 0 then Some s
     else do {
       src \<leftarrow> ptr_bytes buf (g_req_data s);
       if length src < unat (g_residue s) then None
       else put_data (g_ep0_data_buf s) (take (unat (g_residue s)) src) s
     })"

definition ep0_setup_complete :: "'d usbd_env \<Rightarrow> 'd usbd_core \<Rightarrow> 'd usbd_core option" where
  "ep0_setup_complete E s =
    (let stp = g_setup s; out = (bmRequestType stp AND USB_REQUEST_DIR_MASK = USB_REQUEST_DIR_OUT) in
     if CONFIG_USBDEV_REQUEST_BUFFER_LEN < unat (wLength stp) \<and> out then Some (ep0_stall s)
     else
       let s = s\<lparr> g_ep0_data_buf := Req_Data 0, g_residue := ucast (wLength stp), g_data_len := ucast (wLength stp),
                  g_zlp_flag := False \<rparr> in
       if wLength stp \<noteq> 0 \<and> out
       then ep0_read (g_ep0_data_buf s) (ucast (wLength stp)) (s\<lparr> g_ep0_next_state := USBD_EP0_STATE_OUT_DATA \<rparr>)
       else do {
         (ok, buf, len, s) \<leftarrow> usbd_setup_request_handler E stp (Req_Data 0) (g_data_len s) s;
         let s = s\<lparr> g_data_len := len \<rparr>;
         if \<not> ok then Some (ep0_stall (s\<lparr> g_ep0_next_state := USBD_EP0_STATE_SETUP \<rparr>))
         else do {
           let s = s\<lparr> g_residue := min len (ucast (wLength stp)) \<rparr>;
           if CONFIG_USBDEV_REQUEST_BUFFER_LEN < unat (g_residue s)
           then Some (ep0_stall (s\<lparr> g_ep0_next_state := USBD_EP0_STATE_SETUP \<rparr>))
           else do {
             s \<leftarrow> copy_reply buf s;
             let s = s\<lparr> g_ep0_next_state := (if 0 < g_residue s then USBD_EP0_STATE_IN_DATA else USBD_EP0_STATE_IN_STATUS) \<rparr>;
             s \<leftarrow> ep0_write (g_ep0_data_buf s) (g_residue s) s;
             Some (if g_data_len s < ucast (wLength stp) \<and> g_data_len s mod ucast USB_CTRL_EP_MPS = 0
                   then s\<lparr> g_zlp_flag := True \<rparr> else s)
           }
         }
       })"

definition usbd_event_ep0_setup_complete_handler ::
  "'d usbd_env \<Rightarrow> usb_setup_packet \<Rightarrow> 'd usbd_core \<Rightarrow> 'd usbd_core option" where
  "usbd_event_ep0_setup_complete_handler E stp s = ep0_setup_complete E (s\<lparr> g_setup := stp \<rparr>)"

definition usbd_event_ep0_in_complete_handler :: "u32 \<Rightarrow> 'd usbd_core \<Rightarrow> 'd usbd_core option" where
  "usbd_event_ep0_in_complete_handler nbytes s =
    (let stp = g_setup s;
         s = s\<lparr> g_ep0_data_buf := ptr_add (g_ep0_data_buf s) (unat nbytes), g_residue := g_residue s - nbytes \<rparr> in
     if g_residue s \<noteq> 0 then ep0_write (g_ep0_data_buf s) (g_residue s) s
     else if g_zlp_flag s then ep0_write Null 0 (s\<lparr> g_zlp_flag := False \<rparr>)
     else if wLength stp \<noteq> 0 \<and> bmRequestType stp AND USB_REQUEST_DIR_MASK = USB_REQUEST_DIR_IN
     then ep0_read Null 0 (s\<lparr> g_ep0_next_state := USBD_EP0_STATE_OUT_STATUS \<rparr>)
     else
       let s = (if g_ep0_next_state s = USBD_EP0_STATE_IN_STATUS
                then s\<lparr> g_ep0_next_state := USBD_EP0_STATE_SETUP \<rparr> else s) in
       Some (if g_test_req s
             then on_udc (usbd_execute_test_mode (hi8 (wIndex stp))) s\<lparr> g_test_req := False \<rparr>
             else s))"

definition usbd_event_ep0_out_complete_handler :: "'d usbd_env \<Rightarrow> u32 \<Rightarrow> 'd usbd_core \<Rightarrow> 'd usbd_core option" where
  "usbd_event_ep0_out_complete_handler E nbytes s =
    (if 0 < nbytes then
       let s = s\<lparr> g_ep0_data_buf := ptr_add (g_ep0_data_buf s) (unat nbytes), g_residue := g_residue s - nbytes \<rparr> in
       if g_residue s = 0 then do {
         let s = s\<lparr> g_ep0_data_buf := Req_Data 0 \<rparr>;
         (ok, buf, len, s) \<leftarrow> usbd_setup_request_handler E (g_setup s) (Req_Data 0) (g_data_len s) s;
         let s = s\<lparr> g_ep0_data_buf := buf, g_data_len := len \<rparr>;
         if \<not> ok then Some (ep0_stall (s\<lparr> g_ep0_next_state := USBD_EP0_STATE_SETUP \<rparr>))
         else ep0_write Null 0 (s\<lparr> g_ep0_next_state := USBD_EP0_STATE_IN_STATUS \<rparr>)
       }
       else ep0_read (g_ep0_data_buf s) (g_residue s) s
     else Some (s\<lparr> g_ep0_next_state := USBD_EP0_STATE_SETUP \<rparr>))"

definition usbd_get_ep_mps :: "u8 \<Rightarrow> 'd usbd_core \<Rightarrow> u16 option" where
  "usbd_get_ep_mps ep s = map_option msg_ep_mps (msg_entry ep s)"

definition usbd_get_ep_mult :: "u8 \<Rightarrow> 'd usbd_core \<Rightarrow> u8 option" where
  "usbd_get_ep_mult ep s = map_option msg_ep_mult (msg_entry ep s)"

text \<open>
  Completion of a transfer on any endpoint.  The bytes of an OUT transfer are written by the controller
  to where the read was started: for endpoint 0 that is the data pointer.
\<close>

definition usbd_event_ep_in_complete_handler :: "'d usbd_env \<Rightarrow> u8 \<Rightarrow> u32 \<Rightarrow> 'd usbd_core \<Rightarrow> 'd usbd_core option" where
  "usbd_event_ep_in_complete_handler E ep nbytes s =
    do {
      m \<leftarrow> msg_entry (ep OR 0x80) s;
      case msg_cb m of
        Cb_None \<Rightarrow> Some s
      | Cb_Ep0_In \<Rightarrow> usbd_event_ep0_in_complete_handler nbytes s
      | Cb_Ep0_Out \<Rightarrow> usbd_event_ep0_out_complete_handler E nbytes s
      | Cb_App \<Rightarrow> Some (on_app (app_in_cb E (\<lambda>e. usbd_get_ep_mps e s) ep nbytes) s)
    }"

definition usbd_event_ep_out_complete_handler :: "'d usbd_env \<Rightarrow> u8 \<Rightarrow> u8 list \<Rightarrow> 'd usbd_core \<Rightarrow> 'd usbd_core option" where
  "usbd_event_ep_out_complete_handler E ep bytes s =
    do {
      m \<leftarrow> msg_entry (ep AND 0x7F) s;
      case msg_cb m of
        Cb_None \<Rightarrow> Some s
      | Cb_Ep0_In \<Rightarrow> usbd_event_ep0_in_complete_handler (of_nat (length bytes)) s
      | Cb_Ep0_Out \<Rightarrow> do {
          s \<leftarrow> (if bytes = [] then Some s else put_data (g_ep0_data_buf s) bytes s);
          usbd_event_ep0_out_complete_handler E (of_nat (length bytes)) s
        }
      | Cb_App \<Rightarrow> Some (on_app (app_out_cb E ep bytes) s)
    }"

section \<open>Registration\<close>

definition msg_zero :: usbd_tx_rx_msg where
  "msg_zero = \<lparr> msg_ep = 0, msg_ep_mult = 0, msg_ep_mps = 0, msg_nbytes = 0, msg_cb = Cb_None \<rparr>"

text \<open>The state is cleared; the driver below and the application keep theirs.\<close>

definition usbd_desc_register :: "'d usbd_core \<Rightarrow> 'd usbd_core" where
  "usbd_desc_register s =
    s\<lparr> g_setup := \<lparr> bmRequestType = 0, bRequest = 0, wValue = 0, wIndex = 0, wLength = 0 \<rparr>,
       g_ep0_data_buf := Null, g_residue := 0, g_data_len := 0, g_zlp_flag := False,
       g_req_data := replicate CONFIG_USBDEV_REQUEST_BUFFER_LEN 0, g_configuration := 0, g_device_address := 0,
       g_ep0_next_state := USBD_EP0_STATE_SETUP, g_self_powered := False, g_remote_wakeup_support := False,
       g_remote_wakeup_enabled := False, g_is_suspend := False, g_speed := 0, g_test_req := False,
       g_intf := [], g_intf_altsetting := replicate 16 0,
       g_tx_msg := (replicate 16 msg_zero)[0 := msg_zero\<lparr> msg_ep := 0x80, msg_cb := Cb_Ep0_In \<rparr>],
       g_rx_msg := (replicate 16 msg_zero)[0 := msg_zero\<lparr> msg_ep := 0x00, msg_cb := Cb_Ep0_Out \<rparr>] \<rparr>"

definition usbd_add_interface :: "'d usbd_interface \<Rightarrow> 'd usbd_core \<Rightarrow> 'd usbd_core option" where
  "usbd_add_interface i s =
    (if length (g_intf s) < 16
     then Some (s\<lparr> g_intf := g_intf s @ [i\<lparr> intf_num := of_nat (length (g_intf s)) \<rparr>] \<rparr>)
     else None)"

definition usbd_add_endpoint :: "u8 \<Rightarrow> 'd usbd_core \<Rightarrow> 'd usbd_core option" where
  "usbd_add_endpoint addr s = msg_update addr (\<lambda>m. m\<lparr> msg_ep := addr, msg_cb := Cb_App \<rparr>) s"

definition usb_device_is_configured :: "'d usbd_core \<Rightarrow> bool" where
  "usb_device_is_configured s \<longleftrightarrow> g_configuration s \<noteq> 0"

definition usb_device_is_suspend :: "'d usbd_core \<Rightarrow> bool" where
  "usb_device_is_suspend s = g_is_suspend s"

definition usbd_send_remote_wakeup :: "'d usbd_core \<Rightarrow> int \<times> 'd usbd_core" where
  "usbd_send_remote_wakeup s =
    (if g_remote_wakeup_support s \<and> g_remote_wakeup_enabled s \<and> g_is_suspend s
     then (case usbd_set_remote_wakeup (g_udc s) of (rc, u) \<Rightarrow> (rc, s\<lparr> g_udc := u \<rparr>))
     else (-1, s))"

definition usbd_initialize :: "'d usbd_env \<Rightarrow> 'd usbd_core \<Rightarrow> (int \<times> 'd usbd_core) option" where
  "usbd_initialize E s =
    (case usb_dc_init (g_udc s) of (ret, u) \<Rightarrow>
      do {
        s \<leftarrow> usbd_class_event_notify_handler USBD_EVENT_INIT None (s\<lparr> g_udc := u \<rparr>);
        Some (ret, app_event E USBD_EVENT_INIT s)
      })"

definition usbd_deinitialize :: "'d usbd_env \<Rightarrow> 'd usbd_core \<Rightarrow> (int \<times> 'd usbd_core) option" where
  "usbd_deinitialize E s =
    do {
      s \<leftarrow> usbd_class_event_notify_handler USBD_EVENT_DEINIT None (app_event E USBD_EVENT_DEINIT s);
      case usb_dc_deinit (g_udc s) of (ret, u) \<Rightarrow> Some (0, s\<lparr> g_udc := u, g_intf := [] \<rparr>)
    }"

end
