(* ===== verification/Usbd_Class.thy ===== *)
theory Usbd_Class
  imports Usbd_Core
begin

text \<open>
  The class drivers of the two kinds of class interfaces the probe has (CherryUSB
  \<^verbatim>\<open>class/cdc/usbd_cdc_acm.c\<close> and \<^verbatim>\<open>class/hid/usbd_hid.c\<close>).  The firmware overrides none of their weak
  hooks, so the hooks are the ones defined there.
\<close>

section \<open>CDC-ACM\<close>

definition CDC_REQUEST_SET_LINE_CODING :: u8 where [usb_consts]: "CDC_REQUEST_SET_LINE_CODING = 0x20"
definition CDC_REQUEST_GET_LINE_CODING :: u8 where [usb_consts]: "CDC_REQUEST_GET_LINE_CODING = 0x21"
definition CDC_REQUEST_SET_CONTROL_LINE_STATE :: u8 where [usb_consts]: "CDC_REQUEST_SET_CONTROL_LINE_STATE = 0x22"
definition CDC_REQUEST_SEND_BREAK :: u8 where [usb_consts]: "CDC_REQUEST_SEND_BREAK = 0x23"

record cdc_line_coding =
  dwDTERate :: u32
  bCharFormat :: u8
  bParityType :: u8
  bDataBits :: u8

definition line_coding_bytes :: "cdc_line_coding \<Rightarrow> u8 list" where
  "line_coding_bytes c = bytes32 (dwDTERate c) @ [bCharFormat c, bParityType c, bDataBits c]"

definition usbd_cdc_acm_get_line_coding :: cdc_line_coding where
  "usbd_cdc_acm_get_line_coding = \<lparr> dwDTERate = 2000000, bCharFormat = 0, bParityType = 0, bDataBits = 8 \<rparr>"

text \<open>
  The set request copies \<^verbatim>\<open>wLength\<close> bytes into a structure of 7 on the stack, more than that is an
  access outside it; the hooks that get the values ignore them.
\<close>

definition cdc_acm_class_interface_request_handler :: "'d usbd_request_handler" where
  "cdc_acm_class_interface_request_handler stp data len = (\<lambda>(req, d).
    let rq = bRequest stp in
    if rq = CDC_REQUEST_SET_LINE_CODING then do {
      src \<leftarrow> ptr_bytes data req;
      if 7 < unat (wLength stp) \<or> length src < unat (wLength stp) then None
      else Some (0, data, len, req, d)
    }
    else if rq = CDC_REQUEST_SET_CONTROL_LINE_STATE then Some (0, data, len, req, d)
    else if rq = CDC_REQUEST_GET_LINE_CODING then do {
      req \<leftarrow> ptr_write data (line_coding_bytes usbd_cdc_acm_get_line_coding) req;
      Some (0, data, 7, req, d)
    }
    else if rq = CDC_REQUEST_SEND_BREAK then Some (0, data, len, req, d)
    else Some (-1, data, len, req, d))"

definition interface_zero :: "'d usbd_interface" where
  "interface_zero = \<lparr> class_interface_handler = None, class_endpoint_handler = None, vendor_handler = None,
     notify_handler = None, hid_report_descriptor = None, hid_report_descriptor_len = 0, intf_num = 0 \<rparr>"

definition usbd_cdc_acm_init_intf :: "'d usbd_interface \<Rightarrow> 'd usbd_interface" where
  "usbd_cdc_acm_init_intf i =
    i\<lparr> class_interface_handler := Some cdc_acm_class_interface_request_handler, class_endpoint_handler := None,
       vendor_handler := None, notify_handler := None \<rparr>"

section \<open>HID\<close>

definition HID_REQUEST_GET_REPORT :: u8 where [usb_consts]: "HID_REQUEST_GET_REPORT = 0x01"
definition HID_REQUEST_GET_IDLE :: u8 where [usb_consts]: "HID_REQUEST_GET_IDLE = 0x02"
definition HID_REQUEST_GET_PROTOCOL :: u8 where [usb_consts]: "HID_REQUEST_GET_PROTOCOL = 0x03"
definition HID_REQUEST_SET_REPORT :: u8 where [usb_consts]: "HID_REQUEST_SET_REPORT = 0x09"
definition HID_REQUEST_SET_IDLE :: u8 where [usb_consts]: "HID_REQUEST_SET_IDLE = 0x0A"
definition HID_REQUEST_SET_PROTOCOL :: u8 where [usb_consts]: "HID_REQUEST_SET_PROTOCOL = 0x0B"

definition usbd_hid_get_idle :: u8 where "usbd_hid_get_idle = 0"
definition usbd_hid_get_protocol :: u8 where "usbd_hid_get_protocol = 0"

definition hid_class_interface_request_handler :: "'d usbd_request_handler" where
  "hid_class_interface_request_handler stp data len = (\<lambda>(req, d).
    let rq = bRequest stp in
    if rq = HID_REQUEST_GET_REPORT then do { req \<leftarrow> ptr_write data [0] req; Some (0, data, 1, req, d) }
    else if rq = HID_REQUEST_GET_IDLE then do { req \<leftarrow> ptr_write data [usbd_hid_get_idle] req; Some (0, data, 1, req, d) }
    else if rq = HID_REQUEST_GET_PROTOCOL
    then do { req \<leftarrow> ptr_write data [usbd_hid_get_protocol] req; Some (0, data, 1, req, d) }
    else if rq = HID_REQUEST_SET_REPORT \<or> rq = HID_REQUEST_SET_IDLE \<or> rq = HID_REQUEST_SET_PROTOCOL
    then Some (0, data, len, req, d)
    else Some (-1, data, len, req, d))"

definition usbd_hid_init_intf :: "'d usbd_interface \<Rightarrow> u8 list \<Rightarrow> u32 \<Rightarrow> 'd usbd_interface" where
  "usbd_hid_init_intf i desc desc_len =
    i\<lparr> class_interface_handler := Some hid_class_interface_request_handler, class_endpoint_handler := None,
       vendor_handler := None, notify_handler := None, hid_report_descriptor := Some desc,
       hid_report_descriptor_len := desc_len \<rparr>"

end
