(* ===== verification/Usb_Device.thy ===== *)
theory Usb_Device
  imports Frame_Dispatch Usb_Dap Usb_Dapv1 Usb_Uart Usbd_Class
begin

text \<open>
  The composite device (\<^verbatim>\<open>applications/usb_device.c\<close>): its descriptors byte by byte, the callbacks that
  hand them to the USB stack, the distribution of bus events and the registration of the modules.  The
  descriptor macros are those of CherryUSB (\<^verbatim>\<open>usb_def.h\<close>, \<^verbatim>\<open>usb_cdc.h\<close>, \<^verbatim>\<open>usb_util.h\<close>).
\<close>

section \<open>Descriptor macros\<close>

definition WBVAL :: "u16 \<Rightarrow> u8 list" where
  "WBVAL x = [ucast (x AND 0xFF), ucast (drop_bit 8 x AND 0xFF)]"

definition USB_DEVICE_DESCRIPTOR_INIT :: "u16 \<Rightarrow> u8 \<Rightarrow> u8 \<Rightarrow> u8 \<Rightarrow> u16 \<Rightarrow> u16 \<Rightarrow> u16 \<Rightarrow> u8 \<Rightarrow> u8 list" where
  "USB_DEVICE_DESCRIPTOR_INIT bcdUSB cls sub proto vid pid bcdDevice num =
    [0x12, 0x01] @ WBVAL bcdUSB @ [cls, sub, proto, 0x40] @ WBVAL vid @ WBVAL pid @ WBVAL bcdDevice
      @ [0x01, 0x02, 0x03, num]"

definition USB_INTERFACE_DESCRIPTOR_INIT :: "u8 \<Rightarrow> u8 \<Rightarrow> u8 \<Rightarrow> u8 \<Rightarrow> u8 \<Rightarrow> u8 \<Rightarrow> u8 \<Rightarrow> u8 list" where
  "USB_INTERFACE_DESCRIPTOR_INIT num alt eps cls sub proto str = [0x09, 0x04, num, alt, eps, cls, sub, proto, str]"

definition USB_ENDPOINT_DESCRIPTOR_INIT :: "u8 \<Rightarrow> u8 \<Rightarrow> u16 \<Rightarrow> u8 \<Rightarrow> u8 list" where
  "USB_ENDPOINT_DESCRIPTOR_INIT addr attr mps interval = [0x07, 0x05, addr, attr] @ WBVAL mps @ [interval]"

definition USB_CONFIG_BUS_POWERED :: u8 where "USB_CONFIG_BUS_POWERED = 0x80"
definition USB_CONFIG_POWER_MA :: "u8 \<Rightarrow> u8" where "USB_CONFIG_POWER_MA mA = mA div 2"
definition USB_ENDPOINT_TYPE_BULK :: u8 where "USB_ENDPOINT_TYPE_BULK = 2"
definition USB_ENDPOINT_TYPE_INTERRUPT :: u8 where "USB_ENDPOINT_TYPE_INTERRUPT = 3"

definition CDC_ACM_DESCRIPTOR_LEN :: nat where
  "CDC_ACM_DESCRIPTOR_LEN = 8 + 9 + 5 + 5 + 4 + 5 + 7 + 9 + 7 + 7"

definition CDC_ACM_DESCRIPTOR_INIT :: "u8 \<Rightarrow> u8 \<Rightarrow> u8 \<Rightarrow> u8 \<Rightarrow> u16 \<Rightarrow> u8 \<Rightarrow> u8 list" where
  "CDC_ACM_DESCRIPTOR_INIT first int_ep out_ep in_ep mps str =
    [0x08, 0x0B, first, 0x02, 0x02, 0x02, 0x00, 0x00]
    @ [0x09, 0x04, first, 0x00, 0x01, 0x02, 0x02, 0x00, str]
    @ [0x05, 0x24, 0x00] @ WBVAL 0x0110
    @ [0x05, 0x24, 0x01, 0x00, first + 1]
    @ [0x04, 0x24, 0x02, 0x02]
    @ [0x05, 0x24, 0x06, first, first + 1]
    @ [0x07, 0x05, int_ep, 0x03, 0x08, 0x00, 0x0A]
    @ [0x09, 0x04, first + 1, 0x00, 0x02, 0x0A, 0x00, 0x00, 0x00]
    @ [0x07, 0x05, out_ep, 0x02] @ WBVAL mps @ [0x00]
    @ [0x07, 0x05, in_ep, 0x02] @ WBVAL mps @ [0x00]"

section \<open>The descriptors of the device\<close>

definition EXLINK_USB_VID :: u16 where "EXLINK_USB_VID = 0x34B7"
definition EXLINK_USB_PID :: u16 where "EXLINK_USB_PID = 0x0E11"
definition USBD_MAX_POWER :: u8 where "USBD_MAX_POWER = 200"
definition EXLINK_WINUSB_VENDOR_CODE :: u8 where "EXLINK_WINUSB_VENDOR_CODE = 0x20"
definition EXLINK_BULK_MPS_HS :: u16 where "EXLINK_BULK_MPS_HS = 512"
definition EXLINK_BULK_MPS_FS :: u16 where "EXLINK_BULK_MPS_FS = 64"
definition EXLINK_ISTR_CMD :: u8 where "EXLINK_ISTR_CMD = 4"
definition EXLINK_ISTR_DAP :: u8 where "EXLINK_ISTR_DAP = 5"
definition EXLINK_ISTR_DAPV1 :: u8 where "EXLINK_ISTR_DAPV1 = 6"

definition USB_CONFIG_SIZE :: nat where
  "USB_CONFIG_SIZE = 9 + (9 + 7 + 7) + (9 + 7 + 7) + (9 + 9 + 7 + 7) + CDC_ACM_DESCRIPTOR_LEN + CDC_ACM_DESCRIPTOR_LEN"

definition device_descriptor :: "u8 list" where
  "device_descriptor = USB_DEVICE_DESCRIPTOR_INIT 0x0210 0xEF 0x02 0x01 EXLINK_USB_VID EXLINK_USB_PID 0x0102 0x01"

definition EXLINK_CONFIG_BLOB :: "u8 \<Rightarrow> u16 \<Rightarrow> u8 list" where
  "EXLINK_CONFIG_BLOB cfg_type bulk_mps =
    [0x09, cfg_type] @ WBVAL (of_nat USB_CONFIG_SIZE) @ [EXLINK_IFNUM_TOTAL, 0x01, 0x00,
     USB_CONFIG_BUS_POWERED, USB_CONFIG_POWER_MA USBD_MAX_POWER]
    @ USB_INTERFACE_DESCRIPTOR_INIT EXLINK_IFNUM_CMD 0x00 0x02 0xFF 0x00 0x00 EXLINK_ISTR_CMD
    @ USB_ENDPOINT_DESCRIPTOR_INIT EXLINK_EP_CMD_OUT USB_ENDPOINT_TYPE_BULK bulk_mps 0x00
    @ USB_ENDPOINT_DESCRIPTOR_INIT EXLINK_EP_CMD_IN USB_ENDPOINT_TYPE_BULK bulk_mps 0x00
    @ USB_INTERFACE_DESCRIPTOR_INIT EXLINK_IFNUM_DAP 0x00 0x02 0xFF 0x00 0x00 EXLINK_ISTR_DAP
    @ USB_ENDPOINT_DESCRIPTOR_INIT EXLINK_EP_DAP_OUT USB_ENDPOINT_TYPE_BULK bulk_mps 0x00
    @ USB_ENDPOINT_DESCRIPTOR_INIT EXLINK_EP_DAP_IN USB_ENDPOINT_TYPE_BULK bulk_mps 0x00
    @ USB_INTERFACE_DESCRIPTOR_INIT EXLINK_IFNUM_HID 0x00 0x02 0x03 0x00 0x00 EXLINK_ISTR_DAPV1
    @ [0x09, 0x21, 0x11, 0x01, 0x00, 0x01, 0x22] @ WBVAL (of_nat EXLINK_HID_REPORT_DESC_SIZE)
    @ USB_ENDPOINT_DESCRIPTOR_INIT EXLINK_EP_HID_IN USB_ENDPOINT_TYPE_INTERRUPT (of_nat EXLINK_HID_MPS) 0x01
    @ USB_ENDPOINT_DESCRIPTOR_INIT EXLINK_EP_HID_OUT USB_ENDPOINT_TYPE_INTERRUPT (of_nat EXLINK_HID_MPS) 0x01
    @ CDC_ACM_DESCRIPTOR_INIT EXLINK_IFNUM_CDC1 EXLINK_EP_CDC1_INT EXLINK_EP_CDC1_OUT EXLINK_EP_CDC1_IN bulk_mps 0x00
    @ CDC_ACM_DESCRIPTOR_INIT EXLINK_IFNUM_CDC2 EXLINK_EP_CDC2_INT EXLINK_EP_CDC2_OUT EXLINK_EP_CDC2_IN bulk_mps 0x00"

definition config_descriptor_hs :: "u8 list" where "config_descriptor_hs = EXLINK_CONFIG_BLOB 0x02 EXLINK_BULK_MPS_HS"
definition config_descriptor_fs :: "u8 list" where "config_descriptor_fs = EXLINK_CONFIG_BLOB 0x02 EXLINK_BULK_MPS_FS"
definition other_speed_descriptor_hs :: "u8 list" where "other_speed_descriptor_hs = EXLINK_CONFIG_BLOB 0x07 EXLINK_BULK_MPS_HS"
definition other_speed_descriptor_fs :: "u8 list" where "other_speed_descriptor_fs = EXLINK_CONFIG_BLOB 0x07 EXLINK_BULK_MPS_FS"

definition device_quality_descriptor :: "u8 list" where
  "device_quality_descriptor = [0x0A, 0x06, 0x10, 0x02, 0xEF, 0x02, 0x01, 0x40, 0x01, 0x00]"

section \<open>The Microsoft OS 2.0 and BOS descriptors\<close>

definition WINUSB_DESCRIPTOR_SET_HEADER_SIZE :: nat where "WINUSB_DESCRIPTOR_SET_HEADER_SIZE = 10"
definition WINUSB_FUNCTION_SUBSET_HEADER_SIZE :: nat where "WINUSB_FUNCTION_SUBSET_HEADER_SIZE = 8"
definition WINUSB_FEATURE_COMPATIBLE_ID_SIZE :: nat where "WINUSB_FEATURE_COMPATIBLE_ID_SIZE = 20"
definition DEVICE_INTERFACE_GUIDS_FEATURE_LEN :: nat where "DEVICE_INTERFACE_GUIDS_FEATURE_LEN = 132"

definition EXLINK_FUNC_SUBSET_LEN :: nat where
  "EXLINK_FUNC_SUBSET_LEN = WINUSB_FUNCTION_SUBSET_HEADER_SIZE + WINUSB_FEATURE_COMPATIBLE_ID_SIZE
     + DEVICE_INTERFACE_GUIDS_FEATURE_LEN"

definition USBD_WINUSB_DESC_SET_LEN :: nat where
  "USBD_WINUSB_DESC_SET_LEN = WINUSB_DESCRIPTOR_SET_HEADER_SIZE + 2 * EXLINK_FUNC_SUBSET_LEN"

text \<open>Characters as the initialisers have them, one byte or two bytes each.\<close>

definition chars8 :: "string \<Rightarrow> u8 list" where "chars8 s = map of_char s"
definition chars16 :: "string \<Rightarrow> u8 list" where "chars16 s = concat (map (\<lambda>c. [of_char c, 0]) s)"

definition EXLINK_WINUSB_FUNC_SUBSET :: "u8 \<Rightarrow> char \<Rightarrow> u8 list" where
  "EXLINK_WINUSB_FUNC_SUBSET ifnum last_char =
    WBVAL (of_nat WINUSB_FUNCTION_SUBSET_HEADER_SIZE) @ WBVAL 0x02 @ [ifnum, 0x00] @ WBVAL (of_nat EXLINK_FUNC_SUBSET_LEN)
    @ WBVAL (of_nat WINUSB_FEATURE_COMPATIBLE_ID_SIZE) @ WBVAL 0x03 @ chars8 ''WINUSB'' @ [0, 0] @ replicate 8 0
    @ WBVAL (of_nat DEVICE_INTERFACE_GUIDS_FEATURE_LEN) @ WBVAL 0x04 @ WBVAL 0x07
    @ WBVAL 42 @ chars16 ''DeviceInterfaceGUIDs'' @ [0, 0]
    @ WBVAL 80 @ chars16 (''{7D9A0E11-4C4B-4E6C-9B3A-7D4C4B4E6C0'' @ [last_char] @ ''}'') @ [0, 0, 0, 0]"

definition USBD_WinUSBDescriptorSetDescriptor :: "u8 list" where
  "USBD_WinUSBDescriptorSetDescriptor =
    WBVAL (of_nat WINUSB_DESCRIPTOR_SET_HEADER_SIZE) @ WBVAL 0x00 @ [0x00, 0x00, 0x03, 0x06]
    @ WBVAL (of_nat USBD_WINUSB_DESC_SET_LEN)
    @ EXLINK_WINUSB_FUNC_SUBSET EXLINK_IFNUM_CMD CHR ''1''
    @ EXLINK_WINUSB_FUNC_SUBSET EXLINK_IFNUM_DAP CHR ''2''"

definition USBD_WINUSB_DESC_LEN :: nat where "USBD_WINUSB_DESC_LEN = 28"
definition USBD_BOS_WTOTALLENGTH :: nat where "USBD_BOS_WTOTALLENGTH = 5 + USBD_WINUSB_DESC_LEN"

definition USBD_BinaryObjectStoreDescriptor :: "u8 list" where
  "USBD_BinaryObjectStoreDescriptor =
    [0x05, 0x0F] @ WBVAL (of_nat USBD_BOS_WTOTALLENGTH) @ [0x01,
     of_nat USBD_WINUSB_DESC_LEN, 0x10, 0x05, 0x00,
     0xDF, 0x60, 0xDD, 0xD8, 0x89, 0x45, 0xC7, 0x4C, 0x9C, 0xD2, 0x65, 0x9D, 0x9E, 0x64, 0x8A, 0x9F,
     0x00, 0x00, 0x03, 0x06] @ WBVAL (of_nat USBD_WINUSB_DESC_SET_LEN) @ [EXLINK_WINUSB_VENDOR_CODE, 0]"

definition msosv2_desc :: usb_msosv2_descriptor where
  "msosv2_desc = \<lparr> vendor_code = EXLINK_WINUSB_VENDOR_CODE, compat_id = USBD_WinUSBDescriptorSetDescriptor,
     compat_id_len = USBD_WINUSB_DESC_SET_LEN \<rparr>"

definition bos_desc :: usb_bos_descriptor where
  "bos_desc = \<lparr> bos_string = USBD_BinaryObjectStoreDescriptor, bos_string_len = USBD_BOS_WTOTALLENGTH \<rparr>"

section \<open>Strings and descriptor callbacks\<close>

definition string_descriptors :: "u8 list list" where
  "string_descriptors =
    [[0x09, 0x04], chars8 ''LabForge'', chars8 ''ExLink'', chars8 ''EXLINK-F1-0001'', chars8 ''ExLink Command'',
     chars8 ''ExLink CMSIS-DAP v2'', chars8 ''ExLink CMSIS-DAP v1'']"

definition EXLINK_STR_IDX_MAX :: u8 where "EXLINK_STR_IDX_MAX = 6"

definition device_descriptor_callback :: "u8 \<Rightarrow> u8 list" where
  "device_descriptor_callback speed = device_descriptor"

definition config_descriptor_callback :: "u8 \<Rightarrow> u8 list" where
  "config_descriptor_callback speed = (if speed = USB_SPEED_HIGH then config_descriptor_hs else config_descriptor_fs)"

definition other_speed_descriptor_callback :: "u8 \<Rightarrow> u8 list" where
  "other_speed_descriptor_callback speed =
    (if speed = USB_SPEED_HIGH then other_speed_descriptor_fs else other_speed_descriptor_hs)"

definition device_quality_descriptor_callback :: "u8 \<Rightarrow> u8 list" where
  "device_quality_descriptor_callback speed = device_quality_descriptor"

definition string_descriptor_callback :: "u8 \<Rightarrow> u8 \<Rightarrow> u8 list option" where
  "string_descriptor_callback speed index =
    (if EXLINK_STR_IDX_MAX < index then None else Some (string_descriptors ! unat index))"

section \<open>Bus events and registration\<close>

text \<open>
  The statics of all modules; the calls into the USB stack are one log, which each module continues.
\<close>

record 't exlink_device =
  dev_ctrl :: usb_if_ctrl
  dev_dap :: usb_if_dap
  dev_unit :: "'t dap"
  dev_dapv1 :: usb_if_dapv1
  dev_uart :: usb_if_uart
  dev_calls :: "usb_call list"

definition dev_call :: "usb_call \<Rightarrow> 't exlink_device \<Rightarrow> 't exlink_device" where
  "dev_call c d = d\<lparr> dev_calls := dev_calls d @ [c] \<rparr>"

definition on_ctrl :: "(usb_if_ctrl \<Rightarrow> usb_if_ctrl) \<Rightarrow> 't exlink_device \<Rightarrow> 't exlink_device" where
  "on_ctrl f d = (let s = f ((dev_ctrl d)\<lparr> ctrl_calls := dev_calls d \<rparr>) in d\<lparr> dev_ctrl := s, dev_calls := ctrl_calls s \<rparr>)"

definition on_dap :: "(usb_if_dap \<times> 't dap \<Rightarrow> usb_if_dap \<times> 't dap) \<Rightarrow> 't exlink_device \<Rightarrow> 't exlink_device" where
  "on_dap f d = (case f ((dev_dap d)\<lparr> dap_calls := dev_calls d \<rparr>, dev_unit d) of
     (s, st) \<Rightarrow> d\<lparr> dev_dap := s, dev_unit := st, dev_calls := dap_calls s \<rparr>)"

definition on_dapv1 :: "(usb_if_dapv1 \<Rightarrow> usb_if_dapv1) \<Rightarrow> 't exlink_device \<Rightarrow> 't exlink_device" where
  "on_dapv1 f d = (let s = f ((dev_dapv1 d)\<lparr> hid_calls := dev_calls d \<rparr>) in d\<lparr> dev_dapv1 := s, dev_calls := hid_calls s \<rparr>)"

definition on_uart :: "(usb_if_uart \<Rightarrow> usb_if_uart) \<Rightarrow> 't exlink_device \<Rightarrow> 't exlink_device" where
  "on_uart f d = (let s = f ((dev_uart d)\<lparr> uart_calls := dev_calls d \<rparr>) in d\<lparr> dev_uart := s, dev_calls := uart_calls s \<rparr>)"

fun exlink_usbd_event_handler :: "u8 \<Rightarrow> usbd_event \<Rightarrow> 't exlink_device \<Rightarrow> 't exlink_device" where
  "exlink_usbd_event_handler busid event d =
    (if event = USBD_EVENT_RESET \<or> event = USBD_EVENT_DISCONNECTED
     then on_uart usb_if_uart_on_reset
           (on_dapv1 usb_if_dapv1_on_reset
             (on_dap (map_prod usb_if_dap_on_reset id)
               (on_ctrl usb_if_ctrl_on_reset d)))
     else if event = USBD_EVENT_CONFIGURED
     then on_uart (usb_if_uart_on_configured busid)
           (on_dapv1 (usb_if_dapv1_on_configured busid)
             (on_dap (map_prod (usb_if_dap_on_configured busid) id)
               (on_ctrl (usb_if_ctrl_on_configured busid) d)))
     else d)"

definition exlink_usb_init :: "'t wire \<Rightarrow> u8 \<Rightarrow> u32 \<Rightarrow> 't exlink_device \<Rightarrow> 't exlink_device" where
  "exlink_usb_init W busid reg_base d =
    (let d = dev_call (Desc_Register busid) d;
         d = on_ctrl (usb_if_ctrl_add busid) d;
         d = on_dap (usb_if_dap_add W busid) d;
         d = on_dapv1 (usb_if_dapv1_add busid) d;
         d = on_uart (usb_if_uart_add busid) d
     in dev_call (Usbd_Initialize busid reg_base) d)"

section \<open>What the host makes of the descriptors\<close>

text \<open>A configuration is a row of descriptors, each of which gives its length in the first byte.\<close>

function split_descriptors :: "u8 list \<Rightarrow> u8 list list option" where
  "split_descriptors [] = Some []"
| "split_descriptors (n # bs) =
    (if unat n < 2 \<or> length bs < unat n - 1 then None
     else map_option ((#) (n # take (unat n - 1) bs)) (split_descriptors (drop (unat n - 1) bs)))"
  by pat_completeness auto
termination by (relation "measure length") auto

text \<open>The endpoint descriptors behind each interface descriptor, up to the next.\<close>

fun by_interface :: "u8 list list \<Rightarrow> (u8 list \<times> u8 list list) list" where
  "by_interface [] = []"
| "by_interface (d # ds) =
    (if d ! 1 = 0x04 then (d, filter (\<lambda>e. e ! 1 = 0x05) (takeWhile (\<lambda>e. e ! 1 \<noteq> 0x04) ds)) # by_interface ds
     else by_interface ds)"

definition descriptors_of :: "u8 \<Rightarrow> u8 list list \<Rightarrow> u8 list list" where
  "descriptors_of type ds = filter (\<lambda>d. d ! 1 = type) ds"

definition endpoint_addresses :: "u8 list list \<Rightarrow> u8 list" where
  "endpoint_addresses ds = map (\<lambda>d. d ! 2) (descriptors_of 0x05 ds)"

definition interface_numbers :: "u8 list list \<Rightarrow> u8 list" where
  "interface_numbers ds = map (\<lambda>d. d ! 2) (descriptors_of 0x04 ds)"

definition packet_size :: "u8 list \<Rightarrow> u16" where
  "packet_size e = join16 (e ! 4) (e ! 5)"

text \<open>
  A configuration as the host reads it: the header gives its type, the length of the whole and the
  number of interfaces; the interfaces are numbered from 0 on; each has as many endpoints as it says; no
  address is given twice; an association covers interfaces that are there; an interface has a name that
  the device knows.
\<close>

definition config_ok :: "u8 \<Rightarrow> u8 list \<Rightarrow> bool" where
  "config_ok type bytes = (case split_descriptors bytes of
     Some (c # ds) \<Rightarrow>
       length c = 9 \<and> c ! 1 = type \<and> join16 (c ! 2) (c ! 3) = of_nat (length bytes)
       \<and> interface_numbers ds = map of_nat [0..<unat (c ! 4)]
       \<and> list_all (\<lambda>(i, es). length i = 9 \<and> unat (i ! 4) = length es \<and> string_descriptor_callback 0 (i ! 8) \<noteq> None)
           (by_interface ds)
       \<and> list_all (\<lambda>e. length e = 7) (descriptors_of 0x05 ds)
       \<and> distinct (endpoint_addresses ds)
       \<and> list_all (\<lambda>a. length a = 8 \<and> unat (a ! 2) + unat (a ! 3) \<le> unat (c ! 4)) (descriptors_of 0x0B ds)
   | _ \<Rightarrow> False)"

definition bulk_sizes :: "u8 list \<Rightarrow> u16 list" where
  "bulk_sizes bytes = (case split_descriptors bytes of
     Some ds \<Rightarrow> map packet_size (filter (\<lambda>e. e ! 3 AND 3 = USB_ENDPOINT_TYPE_BULK) (descriptors_of 0x05 ds))
   | None \<Rightarrow> [])"

definition config_parts :: "u8 \<Rightarrow> u16 \<Rightarrow> u8 list list" where
  "config_parts t m =
   [[9, t, 219, 0, 7, 1, 0, 0x80, 100],
    [9, 4, 0, 0, 2, 0xFF, 0, 0, 4], [7, 5, 0x01, 2, lo8 m, hi8 m, 0], [7, 5, 0x81, 2, lo8 m, hi8 m, 0],
    [9, 4, 1, 0, 2, 0xFF, 0, 0, 5], [7, 5, 0x02, 2, lo8 m, hi8 m, 0], [7, 5, 0x82, 2, lo8 m, hi8 m, 0],
    [9, 4, 2, 0, 2, 3, 0, 0, 6], [9, 0x21, 0x11, 1, 0, 1, 0x22, 33, 0], [7, 5, 0x83, 3, 64, 0, 1], [7, 5, 0x03, 3, 64, 0, 1],
    [8, 0x0B, 3, 2, 2, 2, 0, 0], [9, 4, 3, 0, 1, 2, 2, 0, 0], [5, 0x24, 0, 0x10, 1], [5, 0x24, 1, 0, 4], [4, 0x24, 2, 2],
    [5, 0x24, 6, 3, 4], [7, 5, 0x84, 3, 8, 0, 10], [9, 4, 4, 0, 2, 10, 0, 0, 0],
    [7, 5, 0x05, 2, lo8 m, hi8 m, 0], [7, 5, 0x85, 2, lo8 m, hi8 m, 0],
    [8, 0x0B, 5, 2, 2, 2, 0, 0], [9, 4, 5, 0, 1, 2, 2, 0, 0], [5, 0x24, 0, 0x10, 1], [5, 0x24, 1, 0, 6], [4, 0x24, 2, 2],
    [5, 0x24, 6, 5, 6], [7, 5, 0x86, 3, 8, 0, 10], [9, 4, 6, 0, 2, 10, 0, 0, 0],
    [7, 5, 0x07, 2, lo8 m, hi8 m, 0], [7, 5, 0x87, 2, lo8 m, hi8 m, 0]]"

lemma WBVAL_bytes: "WBVAL x = [lo8 x, hi8 x]"
  by (simp add: WBVAL_def lo8_def hi8_def)

lemma lo_hi_numeral: "lo8 219 = 219" "hi8 219 = 0" "lo8 33 = 33" "hi8 33 = 0" "lo8 64 = 64" "hi8 64 = 0"
    "lo8 0x0110 = 0x10" "hi8 0x0110 = 1" "lo8 512 = 0" "hi8 512 = 2"
  by code_simp+

lemmas descriptor_macros = USB_INTERFACE_DESCRIPTOR_INIT_def USB_ENDPOINT_DESCRIPTOR_INIT_def CDC_ACM_DESCRIPTOR_INIT_def
  WBVAL_bytes USB_CONFIG_SIZE_def CDC_ACM_DESCRIPTOR_LEN_def USB_CONFIG_BUS_POWERED_def USB_CONFIG_POWER_MA_def
  USBD_MAX_POWER_def EXLINK_ISTR_CMD_def EXLINK_ISTR_DAP_def EXLINK_ISTR_DAPV1_def USB_ENDPOINT_TYPE_BULK_def
  USB_ENDPOINT_TYPE_INTERRUPT_def EXLINK_HID_REPORT_DESC_SIZE_def EXLINK_HID_MPS_def

lemma config_blob: "EXLINK_CONFIG_BLOB t m = concat (config_parts t m)"
  by (simp add: EXLINK_CONFIG_BLOB_def config_parts_def descriptor_macros ifnum_defs endpoint_defs lo_hi_numeral)

lemma split_parts:
  "\<forall>d \<in> set ds. d \<noteq> [] \<and> 2 \<le> length d \<and> unat (hd d) = length d \<Longrightarrow> split_descriptors (concat ds) = Some ds"
proof (induction ds)
  case (Cons d ds)
  then obtain n bs where d: "d = n # bs" "unat n = Suc (length bs)" by (cases d) auto
  then show ?case using Cons by (cases bs) simp_all
qed simp

lemma split_config: "split_descriptors (EXLINK_CONFIG_BLOB t m) = Some (config_parts t m)"
  unfolding config_blob by (rule split_parts) (simp add: config_parts_def)

lemma config_blob_ok: "config_ok t (EXLINK_CONFIG_BLOB t m)"
proof -
  have "length (EXLINK_CONFIG_BLOB t m) = 219" unfolding config_blob by (simp add: config_parts_def)
  moreover have "join16 219 0 = 219" by code_simp
  moreover have "map of_nat [0..<7] = [0, 1, 2, 3, 4, 5, 6 :: u8]" by (simp add: upt_rec)
  ultimately show ?thesis
    unfolding config_ok_def split_config config_parts_def
    by (simp add: interface_numbers_def descriptors_of_def endpoint_addresses_def string_descriptor_callback_def EXLINK_STR_IDX_MAX_def)
qed

lemma config_bulk_sizes: "bulk_sizes (EXLINK_CONFIG_BLOB t m) = replicate 8 m"
proof -
  have "replicate 8 m = [m, m, m, m, m, m, m, m]" by (simp add: eval_nat_numeral)
  then show ?thesis
    unfolding bulk_sizes_def split_config config_parts_def
    by (simp add: descriptors_of_def packet_size_def USB_ENDPOINT_TYPE_BULK_def)
qed

section \<open>Properties\<close>

text \<open>
  C33. At either speed the configuration and the other-speed configuration are well formed: the lengths add
  up to the declared total, the seven interfaces are numbered in order, each has the endpoints it
  declares, no endpoint address is used twice, the associations cover existing interfaces and every
  interface name exists.  The eight bulk endpoints have packets of 512 bytes at high speed and of 64 at
  full speed, the other way round in the other-speed configuration.
\<close>

theorem configurations_well_formed:
  "config_ok 0x02 (config_descriptor_callback speed) \<and> config_ok 0x07 (other_speed_descriptor_callback speed)
   \<and> bulk_sizes (config_descriptor_callback speed) = replicate 8 (if speed = USB_SPEED_HIGH then 512 else 64)
   \<and> bulk_sizes (other_speed_descriptor_callback speed) = replicate 8 (if speed = USB_SPEED_HIGH then 64 else 512)"
  unfolding config_descriptor_callback_def other_speed_descriptor_callback_def config_descriptor_hs_def
    config_descriptor_fs_def other_speed_descriptor_hs_def other_speed_descriptor_fs_def
    EXLINK_BULK_MPS_HS_def EXLINK_BULK_MPS_FS_def
  by (simp add: config_blob_ok config_bulk_sizes)

text \<open>The numbers of the interfaces and the endpoints that are registered, in the order of registration.\<close>

fun registered_interfaces :: "usb_call list \<Rightarrow> u8 list" where
  "registered_interfaces [] = []"
| "registered_interfaces (Add_Interface b i # cs) = i # registered_interfaces cs"
| "registered_interfaces (_ # cs) = registered_interfaces cs"

fun registered_endpoints :: "usb_call list \<Rightarrow> u8 list" where
  "registered_endpoints [] = []"
| "registered_endpoints (Add_Endpoint b e # cs) = e # registered_endpoints cs"
| "registered_endpoints (_ # cs) = registered_endpoints cs"

text \<open>
  C32. Initialisation registers the descriptors first and starts the controller last; between, it registers
  the interfaces in the order in which the configuration lists them, and exactly the endpoints of the
  configuration but the two notification endpoints of the serial ports, which no module serves.
\<close>

theorem registration_matches_configuration:
  assumes "dev_calls d = []" and "split_descriptors (config_descriptor_callback speed) = Some ds"
  shows "\<exists>cs. dev_calls (exlink_usb_init W busid reg d) = Desc_Register busid # cs @ [Usbd_Initialize busid reg]
    \<and> registered_interfaces cs = interface_numbers ds
    \<and> distinct (registered_endpoints cs)
    \<and> set (registered_endpoints cs) = set (endpoint_addresses ds) - {EXLINK_EP_CDC1_INT, EXLINK_EP_CDC2_INT}"
proof -
  have "\<exists>m. ds = config_parts 0x02 m"
    using assms(2) by (auto simp: config_descriptor_callback_def config_descriptor_hs_def config_descriptor_fs_def
        split_config split: if_splits)
  then obtain m where ds: "ds = config_parts 0x02 m" by blast
  have eps: "endpoint_addresses ds = [0x01, 0x81, 0x02, 0x82, 0x83, 0x03, 0x84, 0x05, 0x85, 0x86, 0x07, 0x87]"
    "interface_numbers ds = [0, 1, 2, 3, 4, 5, 6]"
    by (simp_all add: ds config_parts_def endpoint_addresses_def interface_numbers_def descriptors_of_def)
  show ?thesis
    unfolding eps
    using assms(1)
    by (auto simp: exlink_usb_init_def dev_call_def on_ctrl_def on_dap_def on_dapv1_def on_uart_def Let_def
        usb_if_ctrl_add_def ctrl_call_def usb_if_dap_add_def dap_call_def usb_if_dapv1_add_def hid_call_def
        usb_if_uart_add_def uart_call_def endpoint_defs ifnum_defs)
qed

lemma registration_matches_configuration_witness:
  "\<forall>d. \<exists>cs. dev_calls (exlink_usb_init still_wire 0 0x1000 (d\<lparr> dev_calls := [] \<rparr>))
      = Desc_Register 0 # cs @ [Usbd_Initialize 0 0x1000]
    \<and> registered_interfaces cs = interface_numbers (config_parts 0x02 512)"
proof
  fix d :: "bool exlink_device"
  have "split_descriptors (config_descriptor_callback USB_SPEED_HIGH) = Some (config_parts 0x02 512)"
    by (simp add: config_descriptor_callback_def config_descriptor_hs_def EXLINK_BULK_MPS_HS_def split_config)
  from registration_matches_configuration [OF _ this, of "d\<lparr> dev_calls := [] \<rparr>" still_wire 0 "0x1000"]
  show "\<exists>cs. dev_calls (exlink_usb_init still_wire 0 0x1000 (d\<lparr> dev_calls := [] \<rparr>))
      = Desc_Register 0 # cs @ [Usbd_Initialize 0 0x1000]
    \<and> registered_interfaces cs = interface_numbers (config_parts 0x02 512)" by auto
qed

text \<open>The flags that hold back the transmitters of the device.\<close>

definition transmitters :: "'t exlink_device \<Rightarrow> bool list" where
  "transmitters d = [ctrl_tx_busy (dev_ctrl d), dap_tx_busy (dev_dap d)] @ map cdc_tx_busy (s_cdc (dev_uart d))"

text \<open>
  A reset or a disconnection takes all transmit flags down and makes no call; a configuration takes
  them down and posts one read on each OUT endpoint of the configuration, of 512 bytes on the bulk
  endpoints and of 64 on the HID endpoint; every other event changes nothing.
\<close>

lemma bus_events_reach_every_module:
  assumes "uart_ok (dev_uart d)" and "d' = exlink_usbd_event_handler busid event d"
  shows "if event = USBD_EVENT_CONFIGURED
    then transmitters d' = replicate 4 False \<and> ctrl_configured (dev_ctrl d')
      \<and> (\<exists>cs. dev_calls d' = dev_calls d @ cs
          \<and> (\<forall>ep. writes_of ep cs = [])
          \<and> (\<forall>ep. reads_of ep cs =
                (if ep \<in> {EXLINK_EP_CMD_OUT, EXLINK_EP_DAP_OUT, EXLINK_EP_CDC1_OUT, EXLINK_EP_CDC2_OUT} then [512]
                 else if ep = EXLINK_EP_HID_OUT then [64] else [])))
    else if event \<in> {USBD_EVENT_RESET, USBD_EVENT_DISCONNECTED}
    then transmitters d' = replicate 4 False \<and> \<not> ctrl_configured (dev_ctrl d') \<and> dev_calls d' = dev_calls d
    else d' = d"
proof -
  have len: "length (s_cdc (dev_uart d)) = 2" using length_s_cdc assms(1) .
  then obtain p q where pq: "s_cdc (dev_uart d) = [p, q]" by (auto simp: length_Suc_conv numeral_2_eq_2)
  have eps: "cdc_out_ep p = EXLINK_EP_CDC1_OUT" "cdc_out_ep q = EXLINK_EP_CDC2_OUT"
    using assms(1) by (simp_all add: uart_ok_def pq)
  have four: "replicate 4 False = [False, False, False, False]" by (simp add: eval_nat_numeral)
  have two: "[0..<2] = [0, Suc 0]" by (simp add: upt_rec)
  have dist: "distinct [EXLINK_EP_CMD_OUT, EXLINK_EP_DAP_OUT, EXLINK_EP_CDC1_OUT, EXLINK_EP_CDC2_OUT, EXLINK_EP_HID_OUT]"
    by (simp add: endpoint_defs)
  show ?thesis
    unfolding assms(2) four
    using dist
    by (auto simp: transmitters_def on_ctrl_def on_dap_def on_dapv1_def on_uart_def Let_def
        usb_if_ctrl_on_configured_def usb_if_dap_on_configured_def usb_if_dapv1_on_configured_def
        usb_if_uart_on_configured_def cdc_configured_def two usb_if_ctrl_on_reset_def usb_if_dap_on_reset_def
        usb_if_dapv1_on_reset_def usb_if_uart_on_reset_def ctrl_call_def dap_call_def hid_call_def uart_call_def
        on_port_def pq eps EXLINK_BULK_MPS_def EXLINK_HID_MPS_def)
qed

section \<open>The Microsoft OS descriptors as the host reads them\<close>

text \<open>A descriptor set is a row of parts, each of which gives its length in the first two bytes.\<close>

function os20_parts :: "u8 list \<Rightarrow> u8 list list option" where
  "os20_parts [] = Some []"
| "os20_parts [b] = None"
| "os20_parts (a # b # bs) =
    (let n = unat (join16 a b) in
     if n < 4 \<or> length bs < n - 2 then None
     else map_option ((#) (a # b # take (n - 2) bs)) (os20_parts (drop (n - 2) bs)))"
  by pat_completeness auto
termination by (relation "measure length") auto

definition part_type :: "u8 list \<Rightarrow> u16" where
  "part_type p = join16 (p ! 2) (p ! 3)"

definition part_word :: "nat \<Rightarrow> u8 list \<Rightarrow> nat" where
  "part_word i p = unat (join16 (p ! i) (p ! (i + 1)))"

text \<open>
  A function subset for an interface: its header, which gives the length of the three parts, the
  compatible id and a registry property of type list of strings, whose name and value fill it.
\<close>

definition subset_ok :: "u8 list \<Rightarrow> u8 list \<Rightarrow> u8 list \<Rightarrow> bool" where
  "subset_ok s c r \<longleftrightarrow>
     part_type s = 2 \<and> length s = 8 \<and> part_word 6 s = length s + length c + length r
     \<and> part_type c = 3 \<and> length c = 20 \<and> take 8 (drop 4 c) = chars8 ''WINUSB'' @ [0, 0]
     \<and> part_type r = 4 \<and> part_word 4 r = 7
     \<and> (let n = part_word 6 r in length r = 8 + n + 2 + part_word (8 + n) r
          \<and> take n (drop 8 r) = chars16 ''DeviceInterfaceGUIDs'' @ [0, 0]
          \<and> drop (length r - 4) r = [0, 0, 0, 0])"

definition os20_ok :: "u8 list \<Rightarrow> u8 list \<Rightarrow> bool" where
  "os20_ok vendor bytes = (case os20_parts bytes of
     Some [h, s1, c1, r1, s2, c2, r2] \<Rightarrow>
       part_type h = 0 \<and> length h = 10 \<and> part_word 8 h = length bytes
       \<and> subset_ok s1 c1 r1 \<and> subset_ok s2 c2 r2 \<and> [s1 ! 4, s2 ! 4] = vendor \<and> r1 \<noteq> r2
   | _ \<Rightarrow> False)"

definition vendor_interfaces :: "u8 list \<Rightarrow> u8 list" where
  "vendor_interfaces bytes = (case split_descriptors bytes of
     Some ds \<Rightarrow> map (\<lambda>d. d ! 2) (filter (\<lambda>d. d ! 5 = 0xFF) (descriptors_of 0x04 ds)) | None \<Rightarrow> [])"

lemma os20_words: "join16 10 0 = 10" "join16 8 0 = 8" "join16 20 0 = 20" "join16 132 0 = 132" "join16 160 0 = 160"
  "join16 0x4A 1 = 330" "join16 2 0 = 2" "join16 3 0 = 3" "join16 4 0 = 4" "join16 7 0 = 7" "join16 42 0 = 42"
  "join16 80 0 = 80" "join16 33 0 = 33" "join16 0 0 = 0" "lo8 330 = 0x4A" "hi8 330 = 1" "lo8 160 = 160" "hi8 160 = 0" "lo8 132 = 132" "hi8 132 = 0"
  "lo8 10 = 10" "hi8 10 = 0" "lo8 8 = 8" "hi8 8 = 0" "lo8 20 = 20" "hi8 20 = 0" "lo8 42 = 42" "hi8 42 = 0"
  "lo8 80 = 80" "hi8 80 = 0" "lo8 0 = 0" "hi8 0 = 0" "lo8 2 = 2" "hi8 2 = 0" "lo8 3 = 3" "hi8 3 = 0"
  "lo8 4 = 4" "hi8 4 = 0" "lo8 7 = 7" "hi8 7 = 0" "lo8 33 = 33" "hi8 33 = 0"
  by code_simp+

lemmas os20_sizes = EXLINK_FUNC_SUBSET_LEN_def WINUSB_FUNCTION_SUBSET_HEADER_SIZE_def WINUSB_FEATURE_COMPATIBLE_ID_SIZE_def
  DEVICE_INTERFACE_GUIDS_FEATURE_LEN_def USBD_WINUSB_DESC_SET_LEN_def WINUSB_DESCRIPTOR_SET_HEADER_SIZE_def

text \<open>The parts of the descriptor set.\<close>

definition guid_part :: "char \<Rightarrow> u8 list" where
  "guid_part c = [132, 0, 4, 0, 7, 0, 42, 0] @ (chars16 ''DeviceInterfaceGUIDs'' @ [0, 0]) @ [80, 0]
     @ (chars16 (''{7D9A0E11-4C4B-4E6C-9B3A-7D4C4B4E6C0'' @ [c] @ ''}'') @ [0, 0, 0, 0])"

definition os20_list :: "u8 list list" where
  "os20_list =
    [[10, 0, 0, 0, 0, 0, 3, 6, 0x4A, 1],
     [8, 0, 2, 0, 0, 0, 160, 0], [20, 0, 3, 0] @ chars8 ''WINUSB'' @ [0, 0] @ replicate 8 0, guid_part CHR ''1'',
     [8, 0, 2, 0, 1, 0, 160, 0], [20, 0, 3, 0] @ chars8 ''WINUSB'' @ [0, 0] @ replicate 8 0, guid_part CHR ''2'']"

lemma os20_concat: "USBD_WinUSBDescriptorSetDescriptor = concat os20_list"
  by (simp add: USBD_WinUSBDescriptorSetDescriptor_def EXLINK_WINUSB_FUNC_SUBSET_def os20_list_def guid_part_def
      WBVAL_bytes os20_sizes os20_words ifnum_defs)

lemma os20_split:
  "\<forall>p \<in> set ps. \<exists>a b bs. p = a # b # bs \<and> 4 \<le> length p \<and> unat (join16 a b) = length p \<Longrightarrow> os20_parts (concat ps) = Some ps"
proof (induction ps)
  case (Cons p ps)
  then obtain a b bs where "p = a # b # bs" "4 \<le> length p" "unat (join16 a b) = length p" by auto
  then show ?case using Cons by (simp add: Let_def)
qed simp

lemma length_guid_part: "length (guid_part c) = 132"
  by (simp add: guid_part_def chars16_def)

lemma os20_split_list: "os20_parts (concat os20_list) = Some os20_list"
  by (rule os20_split) (simp add: os20_list_def length_guid_part, simp add: guid_part_def os20_words chars8_def)

lemma guid_part_ok:
  "subset_ok [8, 0, 2, 0, i, 0, 160, 0] ([20, 0, 3, 0] @ chars8 ''WINUSB'' @ [0, 0] @ replicate 8 0) (guid_part c)"
proof -
  let ?n = "chars16 ''DeviceInterfaceGUIDs'' @ [0, 0]"
    and ?g = "chars16 (''{7D9A0E11-4C4B-4E6C-9B3A-7D4C4B4E6C0'' @ [c] @ ''}'') @ [0, 0, 0, 0]"
  have r: "guid_part c = [132, 0, 4, 0, 7, 0, 42, 0] @ ?n @ [80, 0] @ ?g" by (simp add: guid_part_def)
  have len: "length ?n = 42" "length ?g = 80" by (simp_all add: chars16_def)
  have word: "part_word 6 (guid_part c) = 42" "part_word 4 (guid_part c) = 7" "part_type (guid_part c) = 4"
    by (simp_all add: r part_word_def part_type_def os20_words)
  have val: "guid_part c ! 50 = 80" "guid_part c ! 51 = 0"
    unfolding r using len by (simp_all add: nth_append)
  have "take 42 (drop 8 (guid_part c)) = ?n"
    using len(1) by (simp add: r)
  moreover have "drop 128 (guid_part c) = [0, 0, 0, 0]"
    using len by (simp add: r chars16_def)
  ultimately show ?thesis
    unfolding subset_ok_def Let_def word
    by (simp add: val length_guid_part part_type_def part_word_def os20_words chars8_def)
qed

text \<open>
  C40. The Microsoft OS 2.0 descriptor set is well formed, its declared lengths add up at each level, and
  it binds exactly the vendor interfaces of the configuration, each under a GUID of its own; the BOS
  descriptor has the length it declares and announces the length and the vendor code under which the
  USB stack serves the set.
\<close>

theorem os_descriptors_bind_vendor_interfaces:
  "os20_ok (vendor_interfaces (config_descriptor_callback speed)) (compat_id msosv2_desc)
   \<and> compat_id_len msosv2_desc = length (compat_id msosv2_desc)
   \<and> bos_string_len bos_desc = length (bos_string bos_desc)
   \<and> part_word 2 (bos_string bos_desc) = length (bos_string bos_desc)
   \<and> 5 + unat (bos_string bos_desc ! 5) = length (bos_string bos_desc)
   \<and> part_word 29 (bos_string bos_desc) = compat_id_len msosv2_desc
   \<and> bos_string bos_desc ! 31 = vendor_code msosv2_desc"
proof -
  have guids: "guid_part CHR ''1'' \<noteq> guid_part CHR ''2''" by (simp add: guid_part_def chars16_def)
  have "vendor_interfaces (config_descriptor_callback speed) = [0, 1]"
    by (simp add: vendor_interfaces_def config_descriptor_callback_def config_descriptor_hs_def config_descriptor_fs_def
        split_config config_parts_def descriptors_of_def)
  moreover have len: "length (concat os20_list) = 330" by (simp add: os20_list_def length_guid_part chars8_def)
  moreover have "os20_parts (compat_id msosv2_desc) = Some os20_list"
    by (simp add: msosv2_desc_def os20_concat os20_split_list)
  ultimately have "os20_ok (vendor_interfaces (config_descriptor_callback speed)) (compat_id msosv2_desc)"
    using guid_part_ok guids
    by (simp add: os20_ok_def os20_list_def msosv2_desc_def os20_concat part_type_def part_word_def os20_words)
  moreover have "compat_id_len msosv2_desc = length (compat_id msosv2_desc)"
    using len by (simp add: msosv2_desc_def os20_concat os20_sizes)
  ultimately show ?thesis
    by (simp add: bos_desc_def msosv2_desc_def USBD_BinaryObjectStoreDescriptor_def USBD_BOS_WTOTALLENGTH_def
        USBD_WINUSB_DESC_LEN_def WBVAL_bytes os20_sizes os20_words part_word_def)
qed

end
