(* ===== verification/Usbd_Irq.thy ===== *)
theory Usbd_Irq
  imports Usbd_Core
begin

text \<open>
  The interrupt handler of the controller driver (\<^verbatim>\<open>USBD_IRQHandler\<close> in CherryUSB
  \<^verbatim>\<open>port/hpmicro/usb_dc_hpm.c\<close>).  What the handler reads from the controller and its transfer
  descriptors is one record; the bytes of a completed OUT transfer come with it.
\<close>

definition intr_usb :: u32 where "intr_usb = 0x1"
definition intr_error :: u32 where "intr_error = 0x2"
definition intr_port_change :: u32 where "intr_port_change = 0x4"
definition intr_reset :: u32 where "intr_reset = 0x40"
definition intr_suspend :: u32 where "intr_suspend = 0x100"

lemmas intr_defs = intr_usb_def intr_error_def intr_port_change_def intr_reset_def intr_suspend_def

definition ep_idx2bit :: "nat \<Rightarrow> nat" where
  "ep_idx2bit ep_idx = ep_idx div 2 + (if ep_idx mod 2 \<noteq> 0 then 16 else 0)"

record dcd_qtd =
  qtd_halted :: bool
  qtd_xact_err :: bool
  qtd_buffer_err :: bool
  qtd_active :: bool
  qtd_expected :: u32
  qtd_total :: u32

record irq_snapshot =
  irq_status :: u32
  irq_enabled :: u32
  irq_complete :: u32
  irq_setup_status :: u32
  irq_qtds :: "nat \<Rightarrow> dcd_qtd list"
  irq_bytes :: "nat \<Rightarrow> u8 list"
  irq_setup :: usb_setup_packet

text \<open>The transfer descriptors of an endpoint: whether the transfer is over, and its length.\<close>

fun qtd_scan :: "dcd_qtd list \<Rightarrow> u32 \<Rightarrow> (bool \<times> u32) option" where
  "qtd_scan [] n = None"
| "qtd_scan (q # qs) n =
    (if qtd_halted q \<or> qtd_xact_err q \<or> qtd_buffer_err q then Some (False, n)
     else if qtd_active q then Some (False, n)
     else let n = n + (qtd_expected q - qtd_total q)
          in if qs = [] then Some (True, n) else qtd_scan qs n)"

definition irq_endpoint :: "'d usbd_env \<Rightarrow> irq_snapshot \<Rightarrow> nat \<Rightarrow> 'd usbd_core \<Rightarrow> 'd usbd_core option" where
  "irq_endpoint E q ep_idx s =
    (if \<not> bit (irq_complete q) (ep_idx2bit ep_idx) then Some s
     else do {
       (cb_req, n) \<leftarrow> qtd_scan (irq_qtds q ep_idx) 0;
       if \<not> cb_req then Some s
       else let ep_addr = of_nat (ep_idx div 2) OR (if ep_idx mod 2 \<noteq> 0 then 0x80 else 0) :: u8 in
         if ep_addr AND 0x80 \<noteq> 0 then usbd_event_ep_in_complete_handler E ep_addr n s
         else usbd_event_ep_out_complete_handler E ep_addr (take (unat n) (irq_bytes q ep_idx)) s
     })"

fun irq_endpoints :: "'d usbd_env \<Rightarrow> irq_snapshot \<Rightarrow> nat list \<Rightarrow> 'd usbd_core \<Rightarrow> 'd usbd_core option" where
  "irq_endpoints E q [] s = Some s"
| "irq_endpoints E q (i # is) s = do { s \<leftarrow> irq_endpoint E q i s; irq_endpoints E q is s }"

text \<open>The handler cause by cause, in the order of the code.\<close>

definition irq_reset :: "'d usbd_env \<Rightarrow> 'd usbd_core \<Rightarrow> 'd usbd_core option" where
  "irq_reset E s =
    do {
      let s = on_udc (\<lambda>u. u\<lparr> udc_is_suspend := False, udc_in_ep := replicate USB_NUM_BIDIR_ENDPOINTS ep_zero,
                udc_out_ep := replicate USB_NUM_BIDIR_ENDPOINTS ep_zero \<rparr>) s;
      s \<leftarrow> usbd_event_reset_handler E s;
      Some (on_udc udc_bus_reset s)
    }"

definition irq_suspend :: "'d usbd_env \<Rightarrow> 'd usbd_core \<Rightarrow> 'd usbd_core" where
  "irq_suspend E s =
    (if reg_suspended (udc_regs (g_udc s)) \<and> reg_address (udc_regs (g_udc s)) \<noteq> 0
     then usbd_event_suspend_handler E (on_udc (\<lambda>u. u\<lparr> udc_is_suspend := True \<rparr>) s) else s)"

definition irq_port_change :: "'d usbd_env \<Rightarrow> 'd usbd_core \<Rightarrow> 'd usbd_core" where
  "irq_port_change E s =
    (if \<not> reg_connected (udc_regs (g_udc s)) then usbd_event_disconnect_handler E s
     else usbd_event_connect_handler E
       (if udc_is_suspend (g_udc s)
        then usbd_event_resume_handler E (on_udc (\<lambda>u. u\<lparr> udc_is_suspend := False \<rparr>) s) else s))"

definition irq_usb :: "'d usbd_env \<Rightarrow> irq_snapshot \<Rightarrow> 'd usbd_core \<Rightarrow> 'd usbd_core option" where
  "irq_usb E q s =
    do {
      s \<leftarrow> (if irq_complete q \<noteq> 0 then irq_endpoints E q [0..<2 * USB_NUM_BIDIR_ENDPOINTS] s else Some s);
      if irq_setup_status q \<noteq> 0 then usbd_event_ep0_setup_complete_handler E (irq_setup q) s else Some s
    }"

definition USBD_IRQHandler :: "'d usbd_env \<Rightarrow> irq_snapshot \<Rightarrow> 'd usbd_core \<Rightarrow> 'd usbd_core option" where
  "USBD_IRQHandler E q s =
    (let st = irq_status q AND irq_enabled q in
     do {
       s \<leftarrow> (if st AND intr_reset \<noteq> 0 then irq_reset E s else Some s);
       let s = (if st AND intr_suspend \<noteq> 0 then irq_suspend E s else s);
       let s = (if st AND intr_port_change \<noteq> 0 then irq_port_change E s else s);
       if st AND intr_usb \<noteq> 0 then irq_usb E q s else Some s
     })"

end
