(* ===== verification/Usbd_Safe.thy ===== *)
theory Usbd_Safe
  imports Usbd_Irq
begin

text \<open>
  Safety of the USB device core: the controller driver with endpoint 0 open, the invariant of the core's
  state, and the walk over a configuration as a fold over its descriptors.
\<close>

section \<open>The controller driver\<close>

text \<open>The endpoint tables have their size and endpoint 0 is open in both directions.\<close>

definition udc_ok :: "hpm_udc \<Rightarrow> bool" where
  "udc_ok u \<longleftrightarrow> length (udc_in_ep u) = 16 \<and> length (udc_out_ep u) = 16
     \<and> ep_enable (udc_in_ep u ! 0) \<and> ep_enable (udc_out_ep u ! 0)"

definition ep_in_table :: "u8 \<Rightarrow> bool" where
  "ep_in_table ep \<longleftrightarrow> unat (ep AND 0x7F) < 16"

lemma idx_7F: "USB_EP_GET_IDX ep = unat (ep AND 0x7F)"
proof -
  have "NOT 0x80 = (0x7F :: u8)" by code_simp
  then show ?thesis by (simp only: USB_EP_GET_IDX_def)
qed

lemma udc_ok_log [simp]: "udc_ok (dcd c u) = udc_ok u" "udc_in_ep (dcd c u) = udc_in_ep u"
  "udc_out_ep (dcd c u) = udc_out_ep u" "udc_log (dcd c u) = udc_log u @ [c]" "udc_regs (dcd c u) = udc_regs u"
  by (simp_all add: dcd_def udc_ok_def)

lemma put_stalled_fields [simp]: "udc_ok (put_stalled f u) = udc_ok u" "udc_in_ep (put_stalled f u) = udc_in_ep u"
  "udc_out_ep (put_stalled f u) = udc_out_ep u" "udc_log (put_stalled f u) = udc_log u"
  by (simp_all add: put_stalled_def udc_ok_def)

lemma bus_reset_fields [simp]: "udc_ok (udc_bus_reset u) = udc_ok u" "udc_log (udc_bus_reset u) = udc_log u @ [Bus_Reset 64]"
  by (simp_all add: udc_bus_reset_def)

text \<open>The transfers on endpoint 0 that have been started.\<close>

fun ep0_transfer :: "dcd_call \<Rightarrow> bool" where
  "ep0_transfer (Xfer_In ep bs) \<longleftrightarrow> ep = USB_CONTROL_IN_EP0"
| "ep0_transfer (Xfer_Out ep n) \<longleftrightarrow> ep = USB_CONTROL_OUT_EP0"
| "ep0_transfer _ \<longleftrightarrow> False"

definition ep0_log :: "hpm_udc \<Rightarrow> dcd_call list" where
  "ep0_log u = filter ep0_transfer (udc_log u)"

text \<open>What has been done with the other endpoints: opened, closed, transfers started.\<close>

fun data_call :: "dcd_call \<Rightarrow> bool" where
  "data_call (Xfer_In ep bs) \<longleftrightarrow> ep \<noteq> USB_CONTROL_IN_EP0"
| "data_call (Xfer_Out ep n) \<longleftrightarrow> ep \<noteq> USB_CONTROL_OUT_EP0"
| "data_call (Edpt_Open ep t m) \<longleftrightarrow> ep AND 0x7F \<noteq> 0"
| "data_call (Edpt_Close ep) \<longleftrightarrow> ep AND 0x7F \<noteq> 0"
| "data_call _ \<longleftrightarrow> False"

definition data_log :: "hpm_udc \<Rightarrow> dcd_call list" where
  "data_log u = filter data_call (udc_log u)"

lemma data_log_dcd [simp]: "data_log (dcd c u) = data_log u @ (if data_call c then [c] else [])"
  "data_log (u\<lparr> udc_regs := r \<rparr>) = data_log u" "data_log (u\<lparr> udc_is_suspend := b \<rparr>) = data_log u"
  by (simp_all add: data_log_def dcd_def)

lemma logs_stalled [simp]: "data_log (put_stalled f u) = data_log u" "ep0_log (put_stalled f u) = ep0_log u"
  "data_log (udc_bus_reset u) = data_log u" "ep0_log (udc_bus_reset u) = ep0_log u"
  by (simp_all add: data_log_def ep0_log_def)

lemma ep0_log_dcd [simp]: "ep0_log (dcd c u) = ep0_log u @ (if ep0_transfer c then [c] else [])"
  "ep0_log (u\<lparr> udc_regs := r \<rparr>) = ep0_log u" "ep0_log (u\<lparr> udc_is_suspend := b \<rparr>) = ep0_log u"
  by (simp_all add: ep0_log_def dcd_def)

lemma ep0_log_small [simp]:
  "ep0_log (usbd_set_address a u) = ep0_log u" "ep0_log (usbd_ep_set_stall ep u) = ep0_log u"
  "ep0_log (usbd_ep_clear_stall ep u) = ep0_log u" "ep0_log (usbd_execute_test_mode m u) = ep0_log u"
  by (simp_all add: usbd_set_address_def usbd_ep_set_stall_def usbd_ep_clear_stall_def usbd_execute_test_mode_def)

lemma udc_ok_regs [simp]: "udc_ok (u\<lparr> udc_regs := r \<rparr>) = udc_ok u" "udc_ok (u\<lparr> udc_is_suspend := b \<rparr>) = udc_ok u"
  by (simp_all add: udc_ok_def)

lemma udc_ok_small [simp, intro]:
  "udc_ok u \<Longrightarrow> udc_ok (usbd_set_address a u)" "udc_ok u \<Longrightarrow> udc_ok (usbd_ep_set_stall ep u)"
  "udc_ok u \<Longrightarrow> udc_ok (usbd_ep_clear_stall ep u)" "udc_ok u \<Longrightarrow> udc_ok (usbd_execute_test_mode m u)"
  by (simp_all add: usbd_set_address_def usbd_ep_set_stall_def usbd_ep_clear_stall_def usbd_execute_test_mode_def)

lemma ep_update_ok:
  assumes "udc_ok u" and "ep_in_table ep" and "unat (ep AND 0x7F) = 0 \<Longrightarrow> \<forall>e. ep_enable e \<longrightarrow> ep_enable (f e)"
  obtains u' where "ep_update ep f u = Some u'" "udc_ok u'" "udc_log u' = udc_log u" "udc_regs u' = udc_regs u"
proof (cases "USB_EP_DIR_IS_OUT ep")
  case True
  then show ?thesis
    using assms by (intro that [of "u\<lparr> udc_out_ep := (udc_out_ep u)[unat (ep AND 0x7F) := f (udc_out_ep u ! unat (ep AND 0x7F))] \<rparr>"])
      (auto simp: ep_update_def idx_7F Let_def udc_ok_def ep_in_table_def nth_list_update)
next
  case False
  then show ?thesis
    using assms by (intro that [of "u\<lparr> udc_in_ep := (udc_in_ep u)[unat (ep AND 0x7F) := f (udc_in_ep u ! unat (ep AND 0x7F))] \<rparr>"])
      (auto simp: ep_update_def idx_7F Let_def udc_ok_def ep_in_table_def nth_list_update)
qed

lemma ep_open_ok:
  assumes "udc_ok u" and "ep_in_table ep"
  obtains u' where "usbd_ep_open ep attr mps u = Some (0, u')" "udc_ok u'"
    "udc_log u' = udc_log u @ [Edpt_Open ep (USB_GET_ENDPOINT_TYPE attr) mps]" "udc_regs u' = udc_regs u"
    "ep0_log u' = ep0_log u"
proof -
  let ?f = "\<lambda>e. e\<lparr> ep_mps := USB_GET_MAXPACKETSIZE mps, ep_type := USB_GET_ENDPOINT_TYPE attr, ep_enable := True \<rparr>"
  obtain u' where "ep_update ep ?f (dcd (Edpt_Open ep (USB_GET_ENDPOINT_TYPE attr) mps) u) = Some u'" "udc_ok u'"
    "udc_log u' = udc_log u @ [Edpt_Open ep (USB_GET_ENDPOINT_TYPE attr) mps]" "udc_regs u' = udc_regs u"
    using assms by (auto intro: ep_update_ok [of "dcd (Edpt_Open ep (USB_GET_ENDPOINT_TYPE attr) mps) u" ep ?f])
  then show thesis by (intro that [of u']) (simp_all add: usbd_ep_open_def ep0_log_def)
qed

lemma ep_close_ok:
  assumes "udc_ok u" and "ep_in_table ep" and "ep AND 0x7F \<noteq> 0"
  obtains u' where "usbd_ep_close ep u = Some (0, u')" "udc_ok u'"
    "udc_log u' = udc_log u @ [Edpt_Close ep]" "ep0_log u' = ep0_log u"
proof -
  have "unat (ep AND 0x7F) \<noteq> 0" using assms(3) by (simp add: unat_eq_zero)
  then obtain u' where "ep_update ep (\<lambda>e. e\<lparr> ep_enable := False \<rparr>) u = Some u'" "udc_ok u'" "udc_log u' = udc_log u"
    using assms by (auto intro: ep_update_ok [of u ep "\<lambda>e. e\<lparr> ep_enable := False \<rparr>"])
  then show thesis
    by (intro that [of "dcd (Edpt_Close ep) (put_stalled ((reg_stalled (udc_regs u'))(ep AND 0x8F := False)) u')"])
      (simp_all add: usbd_ep_close_def ep0_log_def)
qed

lemma ep0_index [simp]: "unat (USB_CONTROL_IN_EP0 AND 0x7F) = 0" "unat (USB_CONTROL_OUT_EP0 AND 0x7F) = 0"
  "ep_in_table USB_CONTROL_IN_EP0" "ep_in_table USB_CONTROL_OUT_EP0"
  "\<not> USB_EP_DIR_IS_OUT USB_CONTROL_IN_EP0" "USB_EP_DIR_IS_OUT USB_CONTROL_OUT_EP0"
  by (simp_all add: usb_consts ep_in_table_def USB_EP_DIR_IS_OUT_def)

lemma ep0_entry:
  assumes "udc_ok u"
  shows "ep_entry USB_CONTROL_IN_EP0 u = Some (udc_in_ep u ! 0)" "ep_enable (udc_in_ep u ! 0)"
    "ep_entry USB_CONTROL_OUT_EP0 u = Some (udc_out_ep u ! 0)" "ep_enable (udc_out_ep u ! 0)"
  using assms unfolding udc_ok_def ep_entry_def idx_7F ep0_index Let_def
  by (auto simp: length_greater_0_conv [symmetric] simp del: length_greater_0_conv)

lemma start_write_ok:
  assumes "udc_ok u" and "unat n \<le> length d"
  obtains u' where "usbd_ep_start_write USB_CONTROL_IN_EP0 (Some d) n u = Some (0, u')" "udc_ok u'"
    "udc_log u' = udc_log u @ [Xfer_In USB_CONTROL_IN_EP0 (take (unat n) d)]" "udc_regs u' = udc_regs u"
proof -
  let ?f = "\<lambda>e. e\<lparr> xfer_len := n, actual_xfer_len := 0 \<rparr>"
  obtain u' where "ep_update USB_CONTROL_IN_EP0 ?f u = Some u'" "udc_ok u'" "udc_log u' = udc_log u" "udc_regs u' = udc_regs u"
    using assms by (auto intro: ep_update_ok [of u USB_CONTROL_IN_EP0 ?f])
  moreover have "ep_entry USB_CONTROL_IN_EP0 u = Some (udc_in_ep u ! 0)" "ep_enable (udc_in_ep u ! 0)"
    using assms(1) by (simp_all add: ep0_entry)
  ultimately show thesis
    using assms(2) by (intro that [of "dcd (Xfer_In USB_CONTROL_IN_EP0 (take (unat n) d)) u'"]) (simp_all add: usbd_ep_start_write_def)
qed

lemma start_empty_ok:
  assumes "udc_ok u"
  obtains u' where "usbd_ep_start_write USB_CONTROL_IN_EP0 None 0 u = Some (0, u')" "udc_ok u'"
    "udc_log u' = udc_log u @ [Xfer_In USB_CONTROL_IN_EP0 []]" "udc_regs u' = udc_regs u"
proof -
  let ?f = "\<lambda>e. e\<lparr> xfer_len := 0, actual_xfer_len := 0 \<rparr>"
  obtain u' where "ep_update USB_CONTROL_IN_EP0 ?f u = Some u'" "udc_ok u'" "udc_log u' = udc_log u" "udc_regs u' = udc_regs u"
    using assms by (auto intro: ep_update_ok [of u USB_CONTROL_IN_EP0 ?f])
  moreover have "ep_entry USB_CONTROL_IN_EP0 u = Some (udc_in_ep u ! 0)" "ep_enable (udc_in_ep u ! 0)"
    using assms(1) by (simp_all add: ep0_entry)
  ultimately show thesis by (intro that [of "dcd (Xfer_In USB_CONTROL_IN_EP0 []) u'"]) (simp_all add: usbd_ep_start_write_def)
qed

lemma start_read_ok:
  assumes "udc_ok u" and "null \<Longrightarrow> n = 0"
  obtains u' where "usbd_ep_start_read USB_CONTROL_OUT_EP0 null n u = Some (0, u')" "udc_ok u'"
    "udc_log u' = udc_log u @ [Xfer_Out USB_CONTROL_OUT_EP0 (unat n)]" "udc_regs u' = udc_regs u"
proof -
  let ?f = "\<lambda>e. e\<lparr> xfer_len := n, actual_xfer_len := 0 \<rparr>"
  obtain u' where "ep_update USB_CONTROL_OUT_EP0 ?f u = Some u'" "udc_ok u'" "udc_log u' = udc_log u" "udc_regs u' = udc_regs u"
    using assms by (auto intro: ep_update_ok [of u USB_CONTROL_OUT_EP0 ?f])
  moreover have "ep_entry USB_CONTROL_OUT_EP0 u = Some (udc_out_ep u ! 0)" "ep_enable (udc_out_ep u ! 0)"
    using assms(1) by (simp_all add: ep0_entry)
  ultimately show thesis
    using assms(2) by (intro that [of "dcd (Xfer_Out USB_CONTROL_OUT_EP0 (unat n)) u'"]) (auto simp: usbd_ep_start_read_def)
qed


section \<open>Walking over a configuration\<close>

text \<open>
  A configuration in memory: a header that gives the length of the whole, then descriptors that give
  their lengths; the descriptors of interfaces and endpoints are long enough, and no endpoint is 0.
\<close>

definition config_row :: "u8 list \<Rightarrow> u8 list list \<Rightarrow> bool" where
  "config_row c ds \<longleftrightarrow>
     length c = 9 \<and> hd c = 9 \<and> c ! 1 = 2 \<and> ds \<noteq> [] \<and> rd16 c 2 = Some (length c + length (concat ds))
     \<and> (\<forall>d \<in> set ds. 2 \<le> length d \<and> unat (hd d) = length d \<and> d ! 1 \<noteq> 2
          \<and> (d ! 1 = 4 \<longrightarrow> 4 \<le> length d)
          \<and> (d ! 1 = 5 \<longrightarrow> 6 \<le> length d \<and> ep_in_table (d ! 2) \<and> (d ! 2) AND 0x7F \<noteq> 0))"

fun walk_row :: "(u8 list \<Rightarrow> 'a \<Rightarrow> (bool \<times> nat option \<times> 'a) option) \<Rightarrow> u8 list list \<Rightarrow> 'a \<Rightarrow> (bool \<times> 'a) option" where
  "walk_row body [] a = Some (False, a)"
| "walk_row body (d # ds) a =
    (case body (d @ concat ds) a of
       None \<Rightarrow> None
     | Some (stop, _, a) \<Rightarrow> if stop then Some (True, a) else walk_row body ds a)"

lemma rd_in: "i < length d \<Longrightarrow> rd (d @ rest) i = Some (d ! i)"
  by (simp add: rd_def nth_append)

lemma rd16_append [simp]: "Suc i < length d \<Longrightarrow> rd16 (d @ rest) i = rd16 d i"
  by (simp add: rd16_def rd_def nth_append)

definition no_total :: "(u8 list \<Rightarrow> 'a \<Rightarrow> (bool \<times> nat option \<times> 'a) option) \<Rightarrow> u8 list list \<Rightarrow> bool" where
  "no_total body ds \<longleftrightarrow> (\<forall>d \<in> set ds. \<forall>rest a r. body (d @ rest) a = Some r \<longrightarrow> fst (snd r) = None)"

lemma walk_rest:
  "\<forall>d \<in> set ds. 2 \<le> length d \<and> unat (hd d) = length d \<Longrightarrow> no_total body ds \<Longrightarrow> ds \<noteq> [] \<Longrightarrow>
   walk_descriptors body (concat ds) (cur + length (concat ds)) cur a = walk_row body ds a"
proof (induction ds arbitrary: cur a)
  case (Cons d ds)
  obtain n bs where d: "d = n # bs" "unat n = Suc (length bs)" using Cons.prems(1) by (cases d) auto
  then have n: "n \<noteq> 0" by auto
  show ?case
  proof (cases "body (d @ concat ds) a")
    case None
    then show ?thesis using d n by simp
  next
    case (Some r)
    then obtain stop fresh a' where r: "body (d @ concat ds) a = Some (stop, fresh, a')" by (cases r) auto
    have "fst (snd (stop, fresh, a')) = None"
      using Cons.prems(2) r unfolding no_total_def by (metis list.set_intros(1))
    then have f: "fresh = None" by simp
    show ?thesis
    proof (cases "stop \<or> ds = []")
      case True
      then show ?thesis using r f d n by (cases stop) (simp_all add: Let_def)
    next
      case False
      moreover have "0 < length (concat ds)"
        using False Cons.prems(1) by (cases ds) fastforce+
      moreover have "walk_descriptors body (concat ds) (cur + length d + length (concat ds)) (cur + length d) a' = walk_row body ds a'"
        by (rule Cons.IH) (use Cons.prems False in \<open>simp_all add: no_total_def\<close>)
      ultimately show ?thesis using r f d n by (auto simp: Let_def add.assoc)
    qed
  qed
qed simp

lemma walk_config:
  assumes "config_row c ds" and "body (c @ concat ds) a = Some (False, Some (length c + length (concat ds)), a')"
    and "no_total body ds"
  shows "walk_descriptors body (c @ concat ds) l cur a = walk_row body ds a'"
proof -
  obtain bs where c: "c = 9 # bs" "length bs = 8" using assms(1) by (cases c) (auto simp: config_row_def)
  have row: "\<forall>d \<in> set ds. 2 \<le> length d \<and> unat (hd d) = length d" "ds \<noteq> []"
    using assms(1) by (auto simp: config_row_def)
  then have "0 < length (concat ds)" by (cases ds) fastforce+
  then show ?thesis
    using assms(2) walk_rest [OF row(1) assms(3) row(2), of 9 a'] c by (auto simp: Let_def)
qed


lemma some_truth [simp]: "Ex Not" "\<exists>a. a"
  by (rule exI [of _ False]; simp) blast

lemma walk_row_keeps:
  assumes "\<And>d rest a. d \<in> set ds \<Longrightarrow> P a \<Longrightarrow> \<exists>stop a'. body (d @ rest) a = Some (stop, None, a') \<and> P a'"
  shows "P a \<Longrightarrow> \<exists>stop a'. walk_row body ds a = Some (stop, a') \<and> P a'"
  using assms
proof (induction ds arbitrary: a)
  case (Cons d ds)
  obtain stop a' where a': "body (d @ concat ds) a = Some (stop, None, a')" "P a'"
    using Cons.prems(2) [of d a "concat ds"] Cons.prems(1) by auto
  have "\<exists>stop b. walk_row body ds a' = Some (stop, b) \<and> P b"
    by (rule Cons.IH) (use a' Cons.prems in auto)
  with a' show ?case by (cases stop) auto
qed simp

section \<open>The invariant of the core\<close>

text \<open>\<open>A\<close> is the invariant of the application, \<open>I\<close> its interfaces.\<close>

definition core_ok :: "('d \<Rightarrow> bool) \<Rightarrow> 'd usbd_interface list \<Rightarrow> 'd usbd_core \<Rightarrow> bool" where
  "core_ok A I s \<longleftrightarrow>
     udc_ok (g_udc s) \<and> A (g_app s) \<and> g_intf s = I \<and> length (g_req_data s) = 512 \<and> length (g_intf_altsetting s) = 16
     \<and> length (g_tx_msg s) = 16 \<and> length (g_rx_msg s) = 16
     \<and> msg_cb (g_tx_msg s ! 0) = Cb_Ep0_In \<and> msg_cb (g_rx_msg s ! 0) = Cb_Ep0_Out
     \<and> (\<forall>i \<in> {1..15}. msg_cb (g_tx_msg s ! i) \<in> {Cb_None, Cb_App} \<and> msg_cb (g_rx_msg s ! i) \<in> {Cb_None, Cb_App})"

text \<open>What the handling of a request leaves alone: the bookkeeping of endpoint 0 and its transfers.\<close>

definition ep0_same :: "'d usbd_core \<Rightarrow> 'd usbd_core \<Rightarrow> bool" where
  "ep0_same s s' \<longleftrightarrow> g_setup s' = g_setup s \<and> g_ep0_data_buf s' = g_ep0_data_buf s \<and> g_residue s' = g_residue s
     \<and> g_data_len s' = g_data_len s \<and> g_zlp_flag s' = g_zlp_flag s \<and> g_ep0_next_state s' = g_ep0_next_state s
     \<and> ep0_log (g_udc s') = ep0_log (g_udc s)"

definition kept :: "('d \<Rightarrow> bool) \<Rightarrow> 'd usbd_interface list \<Rightarrow> 'd usbd_core \<Rightarrow> 'd usbd_core \<Rightarrow> bool" where
  "kept A I s s' \<longleftrightarrow> core_ok A I s' \<and> ep0_same s s'"

lemma kept_refl: "core_ok A I s \<Longrightarrow> kept A I s s"
  by (simp add: kept_def ep0_same_def)

lemma kept_trans: "kept A I s t \<Longrightarrow> kept A I t u \<Longrightarrow> kept A I s u"
  by (simp add: kept_def ep0_same_def)

lemma put_data_kept:
  assumes "core_ok A I s" and "length bs \<le> 512"
  obtains s' where "put_data (Req_Data 0) bs s = Some s'" "kept A I s s'" "g_udc s' = g_udc s"
    "g_configuration s' = g_configuration s" "g_app s' = g_app s"
    "g_req_data s' = bs @ drop (length bs) (g_req_data s)"
  using assms
  by (intro that [of "s\<lparr> g_req_data := bs @ drop (length bs) (g_req_data s) \<rparr>"])
    (simp_all add: put_data_def ptr_write_def core_ok_def kept_def ep0_same_def)

lemma set_endpoint_kept:
  assumes "core_ok A I s" and "6 \<le> length d" and "ep_in_table (d ! 2)"
  obtains s' where "usbd_set_endpoint (d @ rest) s = Some (True, s')" "kept A I s s'"
proof -
  let ?mps = "join16 (d ! 4) (d ! 5)"
  let ?f = "\<lambda>m. m\<lparr> msg_ep_mps := USB_GET_MAXPACKETSIZE ?mps, msg_ep_mult := USB_GET_MULT ?mps \<rparr>"
  have "\<exists>s1. msg_update (d ! 2) ?f s = Some s1 \<and> kept A I s s1"
    using assms(1,3) by (auto simp: msg_update_def Let_def ep_in_table_def core_ok_def kept_def ep0_same_def nth_list_update)
  then obtain s1 where s1: "msg_update (d ! 2) ?f s = Some s1" "kept A I s s1" by blast
  then have "udc_ok (g_udc s1)" by (simp add: kept_def core_ok_def)
  from ep_open_ok [OF this assms(3), of "d ! 3" ?mps] obtain u
    where u: "usbd_ep_open (d ! 2) (d ! 3) ?mps (g_udc s1) = Some (0, u)" "udc_ok u" "ep0_log u = ep0_log (g_udc s1)"
    by blast
  show thesis
  proof (rule that)
    show "usbd_set_endpoint (d @ rest) s = Some (True, s1\<lparr> g_udc := u \<rparr>)"
      using s1 u assms(2) by (simp add: usbd_set_endpoint_def rd_in)
    show "kept A I s (s1\<lparr> g_udc := u \<rparr>)" using s1(2) u(2,3) by (simp add: kept_def core_ok_def ep0_same_def)
  qed
qed

lemma reset_endpoint_kept:
  assumes "core_ok A I s" and "6 \<le> length d" and "ep_in_table (d ! 2)" and "(d ! 2) AND 0x7F \<noteq> 0"
  obtains s' where "usbd_reset_endpoint (d @ rest) s = Some (True, s')" "kept A I s s'"
proof -
  have "udc_ok (g_udc s)" using assms(1) by (simp add: core_ok_def)
  from ep_close_ok [OF this assms(3,4)] obtain u where "usbd_ep_close (d ! 2) (g_udc s) = Some (0, u)" "udc_ok u"
    "ep0_log u = ep0_log (g_udc s)" by blast
  then show thesis
    using assms(1,2) by (intro that [of "s\<lparr> g_udc := u \<rparr>"])
      (simp_all add: usbd_reset_endpoint_def rd_in kept_def core_ok_def ep0_same_def)
qed

lemma config_rowD:
  assumes "config_row c ds"
  shows "length c = 9" "c ! 1 = 2" "rd16 c 2 = Some (9 + length (concat ds))"
    "d \<in> set ds \<Longrightarrow> 2 \<le> length d" "d \<in> set ds \<Longrightarrow> d ! 1 \<noteq> 2" "d \<in> set ds \<Longrightarrow> d ! 1 = 4 \<Longrightarrow> 4 \<le> length d"
    "d \<in> set ds \<Longrightarrow> d ! 1 = 5 \<Longrightarrow> 6 \<le> length d \<and> ep_in_table (d ! 2) \<and> (d ! 2) AND 0x7F \<noteq> 0"
  using assms by (auto simp: config_row_def)

lemma rd_head: "2 \<le> length d \<Longrightarrow> rd (d @ rest) (Suc 0) = Some (d ! 1)"
  by (simp add: rd_in)

text \<open>Setting the configuration that is there.\<close>

lemma set_configuration_kept:
  assumes "config_row c ds" and "current_config E s = Some (c @ concat ds)" and "core_ok A I s"
  obtains found s' where "usbd_set_configuration E (c ! 5) alt s = Some (found, s')" "kept A I s s'"
proof -
  let ?b = "set_configuration_body (c ! 5) alt :: u8 list \<Rightarrow> bool \<times> u8 \<times> u8 \<times> 'a usbd_core \<Rightarrow> _"
  note row = config_rowD [OF assms(1)]
  have step: "\<exists>stop a'. ?b (d @ rest) a = Some (stop, None, a') \<and> kept A I s (snd (snd (snd a')))"
    if d: "d \<in> set ds" and a: "kept A I s (snd (snd (snd a)))" for d rest a
  proof -
    obtain f cc ca s1 where a': "a = (f, cc, ca, s1)" by (cases a) auto
    have s1: "kept A I s s1" "core_ok A I s1" using a by (simp_all add: a' kept_def)
    have h: "rd (d @ rest) (Suc 0) = Some (d ! 1)" using rd_head row(4) [OF d] .
    show ?thesis
    proof (cases "d ! 1 = 5")
      case True
      note w = row(7) [OF d True]
      obtain s2 where "usbd_set_endpoint (d @ rest) s1 = Some (True, s2)" "kept A I s1 s2"
        using w by (auto intro: set_endpoint_kept [OF s1(2), of d rest])
      then show ?thesis using True h s1(1) by (auto simp: set_configuration_body_def a' usb_consts intro: kept_trans)
    next
      case False
      have "rd (d @ rest) 3 = Some (d ! 3)" if "d ! 1 = 4" using row(6) [OF d that] by (simp add: rd_in)
      then show ?thesis using False h s1(1) row(5) [OF d] by (simp add: set_configuration_body_def a' usb_consts)
    qed
  qed
  have nt: "no_total ?b ds"
    unfolding no_total_def
    using row(4,5) rd_head by (auto simp: set_configuration_body_def usb_consts split: if_splits bind_splits)
  have "?b (c @ concat ds) (False, 0xFF, 0xFF, s) = Some (False, Some (length c + length (concat ds)), True, c ! 5, 0xFF, s)"
    using row(1-3) by (simp add: set_configuration_body_def usb_consts rd_in)
  from walk_config [OF assms(1) this nt]
  have w: "walk_descriptors ?b (c @ concat ds) 0 0 (False, 0xFF, 0xFF, s) = walk_row ?b ds (True, c ! 5, 0xFF, s)" .
  have "\<exists>stop a'. walk_row ?b ds (True, c ! 5, 0xFF, s) = Some (stop, a') \<and> kept A I s (snd (snd (snd a')))"
    by (rule walk_row_keeps [where P = "\<lambda>a. kept A I s (snd (snd (snd a)))"]) (use step kept_refl [OF assms(3)] in auto)
  then obtain stop a' where a': "walk_row ?b ds (True, c ! 5, 0xFF, s) = Some (stop, a')" "kept A I s (snd (snd (snd a')))" by blast
  show thesis
    by (rule that [of "fst a'" "snd (snd (snd a'))"])
      (use a' w in \<open>simp_all add: usbd_set_configuration_def assms(2) split_beta\<close>)
qed


text \<open>An index that is not there is looked for behind the end of the configuration.\<close>

lemma walk_off_end:
  assumes "\<forall>d \<in> set ds. 2 \<le> length d \<and> unat (hd d) = length d"
    and "\<And>d rest a. d \<in> set ds \<Longrightarrow> P a \<Longrightarrow> \<exists>a'. body (d @ rest) a = Some (False, None, a') \<and> P a'"
  shows "P a \<Longrightarrow> walk_descriptors body (concat ds) 0 cur a = None"
  using assms
proof (induction ds arbitrary: cur a)
  case (Cons d ds)
  obtain n bs where d: "d = n # bs" "unat n = Suc (length bs)" using Cons.prems(2) by (cases d) auto
  then have n: "n \<noteq> 0" by auto
  obtain a' where a': "body (d @ concat ds) a = Some (False, None, a')" "P a'"
    using Cons.prems(3) [of d a "concat ds"] Cons.prems(1) by auto
  have "walk_descriptors body (concat ds) 0 (cur + unat n) a' = None"
    by (rule Cons.IH) (use Cons.prems a' in auto)
  then show ?case using a' d n by (simp add: Let_def)
qed simp

lemma set_configuration_misses:
  assumes "config_row c ds" and "current_config E s = Some (c @ concat ds)" and "conf \<noteq> c ! 5"
  shows "usbd_set_configuration E conf alt s = None"
proof -
  let ?b = "set_configuration_body conf alt :: u8 list \<Rightarrow> bool \<times> u8 \<times> u8 \<times> 'a usbd_core \<Rightarrow> _"
  let ?P = "\<lambda>a :: bool \<times> u8 \<times> u8 \<times> 'a usbd_core. fst (snd a) \<noteq> conf"
  note row = config_rowD [OF assms(1)]
  obtain bs where c: "c = 9 # bs" "length bs = 8" using assms(1) by (cases c) (auto simp: config_row_def)
  have "rd (c @ concat ds) 5 = Some (c ! 5)" "rd (c @ concat ds) (Suc 0) = Some 2" using row(1,2) by (simp_all add: rd_in)
  then have head: "?b (c @ concat ds) (False, 0xFF, 0xFF, s) = Some (False, None, False, c ! 5, 0xFF, s)"
    using assms(3) by (simp add: set_configuration_body_def usb_consts)
  have step: "\<exists>a'. ?b (d @ rest) a = Some (False, None, a') \<and> ?P a'" if d: "d \<in> set ds" and a: "?P a" for d rest a
  proof -
    obtain f cc ca s1 where a': "a = (f, cc, ca, s1)" by (cases a) auto
    have "rd (d @ rest) (Suc 0) = Some (d ! 1)" using rd_head row(4) [OF d] .
    moreover have "rd (d @ rest) 3 = Some (d ! 3)" if "d ! 1 = 4" using row(6) [OF d that] by (simp add: rd_in)
    ultimately show ?thesis using a row(5) [OF d] by (simp add: set_configuration_body_def a' usb_consts)
  qed
  have lens: "\<forall>d \<in> set ds. 2 \<le> length d \<and> unat (hd d) = length d"
    using assms(1) by (auto simp: config_row_def)
  have "walk_descriptors ?b (concat ds) 0 9 (False, c ! 5, 0xFF, s) = None"
    by (rule walk_off_end [where P = ?P and ds = ds and body = ?b]) (use lens step assms(3) in auto)
  then have "walk_descriptors ?b (c @ concat ds) 0 0 (False, 0xFF, 0xFF, s) = None"
    using head c by simp
  then show ?thesis by (simp add: usbd_set_configuration_def assms(2))
qed

text \<open>Selecting an interface closes or opens endpoints of the configuration, none of them endpoint 0.\<close>

lemma notify_none:
  "\<forall>i \<in> set is. notify_handler i = None \<Longrightarrow> notify_all event arg is s = Some s"
  by (induction "is") (simp_all add: notify_one_def)

lemma set_interface_kept:
  assumes "config_row c ds" and "current_config E s = Some (c @ concat ds)" and "core_ok A I s"
    and "\<forall>i \<in> set I. notify_handler i = None"
  obtains ret s' where "usbd_set_interface E iface alt s = Some (ret, s')" "kept A I s s'"
proof -
  let ?b = "set_interface_body iface alt :: u8 list \<Rightarrow> bool \<times> u8 list option \<times> u8 \<times> u8 \<times> 'a usbd_core \<Rightarrow> _"
  let ?s = "\<lambda>a :: bool \<times> u8 list option \<times> u8 \<times> u8 \<times> 'a usbd_core. snd (snd (snd (snd a)))"
  note row = config_rowD [OF assms(1)]
  have step: "\<exists>stop a'. ?b (d @ rest) a = Some (stop, None, a') \<and> kept A I s (?s a')"
    if d: "d \<in> set ds" and a: "kept A I s (?s a)" for d rest a
  proof -
    obtain f g cc ca s1 where a': "a = (f, g, cc, ca, s1)" by (cases a) auto
    have s1: "kept A I s s1" "core_ok A I s1" using a by (simp_all add: a' kept_def)
    have h: "rd (d @ rest) (Suc 0) = Some (d ! 1)" using rd_head row(4) [OF d] .
    show ?thesis
    proof (cases "d ! 1 = 5")
      case True
      note w = row(7) [OF d True]
      obtain s2 where o: "usbd_set_endpoint (d @ rest) s1 = Some (True, s2)" "kept A I s1 s2"
        using w by (auto intro: set_endpoint_kept [OF s1(2), of d rest])
      obtain s3 where r: "usbd_reset_endpoint (d @ rest) s1 = Some (True, s3)" "kept A I s1 s3"
        using w by (auto intro: reset_endpoint_kept [OF s1(2), of d rest])
      show ?thesis
        using True h s1(1) o r kept_trans [OF s1(1) o(2)] kept_trans [OF s1(1) r(2)]
        by (auto simp: set_interface_body_def a' usb_consts)
    next
      case False
      have "rd (d @ rest) 3 = Some (d ! 3) \<and> rd (d @ rest) 2 = Some (d ! 2)" if "d ! 1 = 4"
        using row(6) [OF d that] by (simp add: rd_in)
      then show ?thesis using False h s1(1) row(5) [OF d] by (simp add: set_interface_body_def a' usb_consts)
    qed
  qed
  have nt: "no_total ?b ds"
    unfolding no_total_def
    using row(4,5) rd_head by (auto simp: set_interface_body_def usb_consts split: if_splits bind_splits)
  have "?b (c @ concat ds) (False, None, 0xFF, 0xFF, s) = Some (False, Some (length c + length (concat ds)), False, None, 0xFF, 0xFF, s)"
    using row(1-3) by (simp add: set_interface_body_def usb_consts rd_in)
  from walk_config [OF assms(1) this nt]
  have w: "walk_descriptors ?b (c @ concat ds) 0 0 (False, None, 0xFF, 0xFF, s) = walk_row ?b ds (False, None, 0xFF, 0xFF, s)" .
  have "\<exists>stop a'. walk_row ?b ds (False, None, 0xFF, 0xFF, s) = Some (stop, a') \<and> kept A I s (?s a')"
    by (rule walk_row_keeps [where P = "\<lambda>a. kept A I s (?s a)"]) (use step kept_refl [OF assms(3)] in auto)
  then obtain stop a' where a': "walk_row ?b ds (False, None, 0xFF, 0xFF, s) = Some (stop, a')" "kept A I s (?s a')" by blast
  then have "g_intf (?s a') = I" by (simp add: kept_def core_ok_def)
  then have n: "usbd_class_event_notify_handler USBD_EVENT_SET_INTERFACE arg (?s a') = Some (?s a')" for arg
    using assms(4) by (simp add: usbd_class_event_notify_handler_def notify_none)
  show thesis
    by (rule that [of "fst a'" "?s a'"])
      (use a' w n in \<open>simp_all add: usbd_set_interface_def assms(2) split_beta\<close>)
qed

text \<open>The search for a HID descriptor only reads.\<close>

lemma hid_walk:
  assumes "config_row c ds"
  obtains cc found i where "walk_descriptors (hid_descriptor_body num) (c @ concat ds) 0 0 (None, 0xFF) = Some (cc, found, i)"
    "found = None \<or> (\<exists>d n. found = Some d \<and> rd d 0 = Some n \<and> unat n \<le> length d)"
proof -
  let ?P = "\<lambda>a. fst a = None \<or> (\<exists>d n. fst a = Some d \<and> rd d 0 = Some n \<and> unat n \<le> length d)"
    and ?b = "hid_descriptor_body num"
  note row = config_rowD [OF assms(1)]
  have lens: "\<forall>d \<in> set ds. 2 \<le> length d \<and> unat (hd d) = length d"
    using assms(1) by (auto simp: config_row_def)
  have step: "\<exists>stop a'. ?b (d @ rest) a = Some (stop, None, a') \<and> ?P a'" if d: "d \<in> set ds" and a: "?P a" for d rest a
  proof -
    obtain f i where a': "a = (f, i)" by (cases a) auto
    have h: "rd (d @ rest) (Suc 0) = Some (d ! 1)" using rd_head row(4) [OF d] .
    have "rd (d @ rest) 2 = Some (d ! 2)" if "d ! 1 = 4" using row(6) [OF d that] by (simp add: rd_in)
    moreover have "rd (d @ rest) 0 = Some (hd d) \<and> unat (hd d) \<le> length (d @ rest)"
      using lens d by (cases d) (auto simp: rd_def)
    ultimately show ?thesis using a h row(5) [OF d] by (auto simp: hid_descriptor_body_def a' usb_consts)
  qed
  have nt: "no_total ?b ds"
    unfolding no_total_def
    using row(4,5) rd_head by (auto simp: hid_descriptor_body_def usb_consts split: if_splits bind_splits)
  have "?b (c @ concat ds) (None, 0xFF) = Some (False, Some (length c + length (concat ds)), None, 0xFF)"
    using row(1-3) by (simp add: hid_descriptor_body_def usb_consts rd_in)
  from walk_config [OF assms(1) this nt]
  have w: "walk_descriptors ?b (c @ concat ds) 0 0 (None, 0xFF) = walk_row ?b ds (None, 0xFF)" .
  have "\<exists>stop a'. walk_row ?b ds (None, 0xFF) = Some (stop, a') \<and> ?P a'"
    by (rule walk_row_keeps [where P = ?P]) (use step in auto)
  then obtain stop a' where a': "walk_row ?b ds (None, 0xFF) = Some (stop, a')" "?P a'" by blast
  then show thesis using w by (intro that [of stop "fst a'" "snd a'"]) simp_all
qed

end
