(* ===== verification/Usbd_Answer.thy ===== *)
theory Usbd_Answer
  imports Usbd_Safe
begin

text \<open>
  The contract between the USB device core and the application it serves, the locale \<open>usb_application\<close>:
  descriptors that hold the lengths they declare and handlers that stay within the request buffer.  Under
  the contract the core answers every request but those that the code itself carries outside its arrays,
  which are named (\<open>wild_request\<close>).
\<close>

section \<open>The contract of an application\<close>

text \<open>What a request offers can be copied: bytes in the request buffer, or memory of the length offered.\<close>

definition offer_ok :: "buf_ptr \<Rightarrow> u32 \<Rightarrow> bool" where
  "offer_ok buf len \<longleftrightarrow> buf = Req_Data 0 \<or> len = 0 \<or> (\<exists>bs. buf = Fixed bs \<and> unat len \<le> length bs)"

lemma offer_simps [simp]: "offer_ok (Req_Data 0) len" "offer_ok buf 0" "offer_ok (Fixed bs) len \<longleftrightarrow> len = 0 \<or> unat len \<le> length bs"
  by (auto simp: offer_ok_def)

lemma unat_of_nat_le: "unat (of_nat n :: u32) \<le> n"
  by (simp add: unat_of_nat take_bit_nat_less_eq_self)

text \<open>
  The requests that lead outside an array: a configuration that does not exist, an interface beyond the
  table of alternate settings, and what the class driver of the interface cannot take.
\<close>

definition class_interface :: "'d usbd_core \<Rightarrow> usb_setup_packet \<Rightarrow> 'd usbd_interface option" where
  "class_interface s stp =
    find (\<lambda>i. class_interface_handler i \<noteq> None \<and> intf_num i = lo8 (wIndex stp)) (g_intf s)"

definition wild_request ::
  "u8 \<Rightarrow> ('d usbd_interface \<Rightarrow> usb_setup_packet \<Rightarrow> bool) \<Rightarrow> 'd usbd_core \<Rightarrow> usb_setup_packet \<Rightarrow> bool" where
  "wild_request conf bad s stp \<longleftrightarrow>
    (let t = bmRequestType stp AND USB_REQUEST_TYPE_MASK; r = bmRequestType stp AND USB_REQUEST_RECIPIENT_MASK in
     (t = USB_REQUEST_STANDARD \<and> r = USB_REQUEST_RECIPIENT_DEVICE \<and> bRequest stp = USB_REQUEST_SET_CONFIGURATION
        \<and> lo8 (wValue stp) \<notin> {0, conf})
     \<or> (t = USB_REQUEST_STANDARD \<and> r = USB_REQUEST_RECIPIENT_INTERFACE \<and> is_device_configured s
        \<and> bRequest stp \<in> {USB_REQUEST_GET_INTERFACE, USB_REQUEST_SET_INTERFACE} \<and> 16 \<le> unat (lo8 (wIndex stp)))
     \<or> (t = USB_REQUEST_CLASS \<and> r = USB_REQUEST_RECIPIENT_INTERFACE
        \<and> (case class_interface s stp of None \<Rightarrow> False | Some i \<Rightarrow> bad i stp)))"

text \<open>A request is answered: no fault, the invariant holds, and what it offers is there.\<close>

definition answered :: "('d \<Rightarrow> bool) \<Rightarrow> 'd usbd_interface list \<Rightarrow> 'd usbd_core \<Rightarrow> 'd reply option \<Rightarrow> bool" where
  "answered A I s r \<longleftrightarrow> (\<exists>ok buf len s'. r = Some (ok, buf, len, s') \<and> kept A I s s' \<and> (ok \<longrightarrow> offer_ok buf len))"

lemma answeredI: "kept A I s s' \<Longrightarrow> (ok \<Longrightarrow> offer_ok buf len) \<Longrightarrow> answered A I s (Some (ok, buf, len, s'))"
  by (auto simp: answered_def)

locale usb_application =
  fixes E :: "'d usbd_env" and A :: "'d \<Rightarrow> bool" and I :: "'d usbd_interface list"
    and bad :: "'d usbd_interface \<Rightarrow> usb_setup_packet \<Rightarrow> bool" and conf :: u8
  assumes event_keeps: "A a \<Longrightarrow> udc_ok u \<Longrightarrow> event_handler E e (a, u) = (a', u') \<Longrightarrow> A a' \<and> udc_ok u' \<and> ep0_log u' = ep0_log u"
    and in_cb_keeps: "A a \<Longrightarrow> udc_ok u \<Longrightarrow> app_in_cb E mps ep n (a, u) = (a', u') \<Longrightarrow> A a' \<and> udc_ok u' \<and> ep0_log u' = ep0_log u"
    and out_cb_keeps: "A a \<Longrightarrow> udc_ok u \<Longrightarrow> app_out_cb E ep bytes (a, u) = (a', u') \<Longrightarrow> A a' \<and> udc_ok u' \<and> ep0_log u' = ep0_log u"
    and no_hooks: "i \<in> set I \<Longrightarrow> notify_handler i = None \<and> vendor_handler i = None \<and> class_endpoint_handler i = None"
    and class_ok: "i \<in> set I \<Longrightarrow> class_interface_handler i = Some h \<Longrightarrow> \<not> bad i stp \<Longrightarrow> length req = 512 \<Longrightarrow> A a \<Longrightarrow>
      \<exists>rc len' req' a'. h stp (Req_Data 0) len (req, a) = Some (rc, Req_Data 0, len', req', a') \<and> length req' = 512 \<and> A a'"
    and class_bad: "i \<in> set I \<Longrightarrow> class_interface_handler i = Some h \<Longrightarrow> bad i stp \<Longrightarrow> length req = 512 \<Longrightarrow>
      h stp (Req_Data 0) len (req, a) = None"
    and config: "\<exists>c ds. from_callback (desc_config (descriptors E)) sp = Some (c @ concat ds) \<and> config_row c ds \<and> c ! 5 = conf"
    and headed: "from_callback (desc_device (descriptors E)) sp = Some d \<or> from_callback (desc_quality (descriptors E)) sp = Some d \<Longrightarrow>
      \<exists>n. rd d 0 = Some n \<and> unat n \<le> length d"
    and other_speed: "from_callback (desc_other_speed (descriptors E)) sp = Some d \<Longrightarrow> \<exists>n. rd16 d 2 = Some n \<and> n \<le> length d"
    and strings: "Option.bind (desc_string (descriptors E)) (\<lambda>f. f sp k) = Some str \<Longrightarrow> str \<noteq> [] \<and> length str < 32767"
    and no_msosv1: "desc_msosv1 (descriptors E) = None"
    and msosv2: "desc_msosv2 (descriptors E) = Some m \<Longrightarrow> compat_id_len m \<le> length (compat_id m)"
    and bos: "desc_bos (descriptors E) = Some b \<Longrightarrow> bos_string_len b \<le> length (bos_string b)"
    and webusb: "desc_webusb (descriptors E) = Some w \<Longrightarrow> url_string_len w \<le> length (url_string w)"
    and hid: "i \<in> set I \<Longrightarrow>
      (case hid_report_descriptor i of None \<Rightarrow> hid_report_descriptor_len i = 0 | Some d \<Rightarrow> unat (hid_report_descriptor_len i) \<le> length d)"
begin

lemma kept_app_event: "kept A I s s' \<Longrightarrow> kept A I s (app_event E e s')"
  using event_keeps [of "g_app s'" "g_udc s'" e]
  by (auto simp: kept_def core_ok_def ep0_same_def app_event_def on_app_def split: prod.splits)

lemma string_answered:
  assumes "core_ok A I s" and "str \<noteq> []" and "length str < 32767"
  shows "answered A I s (string_reply str k (Req_Data 0) len s)"
proof (cases "k = USB_STRING_LANGID_INDEX")
  case True
  obtain x xs where str: "str = x # xs" using assms(2) by (cases str) auto
  have "rd (str @ [0]) 0 = Some x" "\<exists>y. rd (str @ [0]) (Suc 0) = Some y" by (auto simp: str rd_def)
  then obtain y where r: "rd (str @ [0]) 0 = Some x" "rd (str @ [0]) (Suc 0) = Some y" by blast
  obtain s' where "put_data (Req_Data 0) [4, USB_DESCRIPTOR_TYPE_STRING, x, y] s = Some s'" "kept A I s s'"
    by (rule put_data_kept [OF assms(1), of "[4, USB_DESCRIPTOR_TYPE_STRING, x, y]"]) auto
  then show ?thesis using True r by (auto simp: string_reply_def intro!: answeredI)
next
  case False
  let ?n = "of_nat (c_strlen str) :: u16"
  let ?d = "[ucast (2 * ?n + 2), USB_DESCRIPTOR_TYPE_STRING] @ concat (map (\<lambda>c. [c, 0]) (take (unat ?n) str))"
  show ?thesis
  proof (cases "CONFIG_USBDEV_REQUEST_BUFFER_LEN < unat (2 * ?n + 2)")
    case True
    then show ?thesis using False kept_refl [OF assms(1)] by (auto simp: string_reply_def Let_def intro!: answeredI)
  next
    case small: False
    have "c_strlen str \<le> length str" by (simp add: c_strlen_def length_takeWhile_le)
    then have n: "unat ?n \<le> length str" "unat ?n < 32767" using assms(3) by (simp_all add: unat_of_nat_u16)
    then have "unat (2 * ?n + 2) = 2 * unat ?n + 2" by (simp add: unat_word_ariths)
    then have "2 * unat ?n + 2 \<le> 512" using small by (simp add: CONFIG_USBDEV_REQUEST_BUFFER_LEN_def)
    moreover have "length ?d = 2 * unat ?n + 2"
      using n(1) by (simp add: length_concat comp_def sum_list_triv)
    ultimately obtain s' where "put_data (Req_Data 0) ?d s = Some s'" "kept A I s s'"
      by (auto intro: put_data_kept [OF assms(1), of ?d])
    then show ?thesis using False small by (auto simp: string_reply_def Let_def intro!: answeredI)
  qed
qed

lemma get_descriptor_answered:
  assumes "core_ok A I s"
  shows "answered A I s (usbd_get_descriptor E ti (Req_Data 0) len s)"
proof -
  let ?D = "descriptors E"
  have no: "answered A I s (Some (False, Req_Data 0, len, s))" using kept_refl [OF assms] by (auto intro: answeredI)
  consider "hi8 ti = USB_DESCRIPTOR_TYPE_DEVICE" | "hi8 ti = USB_DESCRIPTOR_TYPE_CONFIGURATION" | "hi8 ti = USB_DESCRIPTOR_TYPE_STRING"
    | "hi8 ti = USB_DESCRIPTOR_TYPE_DEVICE_QUALIFIER" | "hi8 ti = USB_DESCRIPTOR_TYPE_OTHER_SPEED"
    | "hi8 ti = USB_DESCRIPTOR_TYPE_BINARY_OBJECT_STORE"
    | "hi8 ti \<notin> {USB_DESCRIPTOR_TYPE_DEVICE, USB_DESCRIPTOR_TYPE_CONFIGURATION, USB_DESCRIPTOR_TYPE_STRING,
        USB_DESCRIPTOR_TYPE_DEVICE_QUALIFIER, USB_DESCRIPTOR_TYPE_OTHER_SPEED, USB_DESCRIPTOR_TYPE_BINARY_OBJECT_STORE}"
    by blast
  then show ?thesis
  proof cases
    case 1
    define s1 where "s1 = s\<lparr> g_speed := usbd_get_port_speed (g_udc s) \<rparr>"
    have s1: "kept A I s s1" using assms by (simp add: s1_def kept_def core_ok_def ep0_same_def)
    show ?thesis
    proof (cases "from_callback (desc_device ?D) (g_speed s1)")
      case None
      then show ?thesis using 1 s1 by (auto simp: usbd_get_descriptor_def s1_def [symmetric] intro: answeredI)
    next
      case (Some d)
      with headed obtain n where "rd d 0 = Some n" "unat n \<le> length d" by blast
      then show ?thesis using 1 s1 Some by (auto simp: usbd_get_descriptor_def s1_def [symmetric] intro!: answeredI)
    qed
  next
    case 2
    obtain c ds where c: "from_callback (desc_config ?D) (g_speed s) = Some (c @ concat ds)" "config_row c ds"
      using config by blast
    note row = config_rowD [OF c(2)]
    have r: "rd16 (c @ concat ds) 2 = Some (9 + length (concat ds))" "rd (c @ concat ds) 7 = Some (c ! 7)"
      using row(1,3) by (simp_all add: rd_in)
    have "answered A I s (Some (True, Fixed (c @ concat ds), of_nat (9 + length (concat ds)), s\<lparr> g_self_powered := sp, g_remote_wakeup_support := rw \<rparr>))" for sp rw
    proof (rule answeredI)
      show "kept A I s (s\<lparr> g_self_powered := sp, g_remote_wakeup_support := rw \<rparr>)"
        using assms by (simp add: kept_def core_ok_def ep0_same_def)
      show "offer_ok (Fixed (c @ concat ds)) (of_nat (9 + length (concat ds)))"
        using row(1) unat_of_nat_le [of "9 + length (concat ds)"] by simp
    qed
    then show ?thesis using 2 c(1) r by (auto simp: usbd_get_descriptor_def usb_consts)
  next
    case 3
    show ?thesis
    proof (cases "lo8 ti = USB_OSDESC_STRING_DESC_INDEX")
      case True
      then show ?thesis using 3 no no_msosv1 by (auto simp: usbd_get_descriptor_def usb_consts)
    next
      case False
      then show ?thesis
        using 3 no strings [of "g_speed s" "lo8 ti"] string_answered [OF assms]
        by (auto simp: usbd_get_descriptor_def usb_consts Let_def split: option.splits)
    qed
  next
    case 4
    show ?thesis
    proof (cases "from_callback (desc_quality ?D) (g_speed s)")
      case None
      then show ?thesis using 4 no by (auto simp: usbd_get_descriptor_def usb_consts)
    next
      case (Some d)
      with headed obtain n where "rd d 0 = Some n" "unat n \<le> length d" by blast
      then show ?thesis using 4 Some kept_refl [OF assms] by (auto simp: usbd_get_descriptor_def usb_consts intro!: answeredI)
    qed
  next
    case 5
    show ?thesis
    proof (cases "from_callback (desc_other_speed ?D) (g_speed s)")
      case None
      then show ?thesis using 5 no by (auto simp: usbd_get_descriptor_def usb_consts)
    next
      case (Some d)
      with other_speed obtain n where "rd16 d 2 = Some n" "n \<le> length d" by blast
      then show ?thesis using 5 Some kept_refl [OF assms] unat_of_nat_le [of n]
        by (auto simp: usbd_get_descriptor_def usb_consts intro!: answeredI)
    qed
  next
    case 6
    show ?thesis
    proof (cases "desc_bos ?D")
      case None
      then show ?thesis using 6 no by (auto simp: usbd_get_descriptor_def usb_consts)
    next
      case (Some b)
      then show ?thesis using 6 bos [OF Some] kept_refl [OF assms] unat_of_nat_le [of "bos_string_len b"]
        by (auto simp: usbd_get_descriptor_def usb_consts intro!: answeredI)
    qed
  next
    case 7
    then show ?thesis using no by (auto simp: usbd_get_descriptor_def)
  qed
qed


lemma put_answered:
  assumes "core_ok A I s" and "length bs \<le> 512"
  shows "answered A I s (do { s \<leftarrow> put_data (Req_Data 0) bs s; Some (True, Req_Data 0, n, s) })"
proof -
  obtain s' where "put_data (Req_Data 0) bs s = Some s'" "kept A I s s'" using put_data_kept [OF assms] by metis
  then show ?thesis by (auto intro: answeredI)
qed

lemma device_request:
  assumes "core_ok A I s"
  shows "if bRequest stp = USB_REQUEST_SET_CONFIGURATION \<and> lo8 (wValue stp) \<notin> {0, conf}
    then usbd_std_device_req_handler E stp (Req_Data 0) len s = None
    else answered A I s (usbd_std_device_req_handler E stp (Req_Data 0) len s)"
proof -
  have no: "answered A I s (Some (False, Req_Data 0, n, s))" for n using kept_refl [OF assms] by (auto intro: answeredI)
  consider "bRequest stp = USB_REQUEST_GET_STATUS" | "bRequest stp = USB_REQUEST_CLEAR_FEATURE \<or> bRequest stp = USB_REQUEST_SET_FEATURE"
    | "bRequest stp = USB_REQUEST_SET_ADDRESS" | "bRequest stp = USB_REQUEST_GET_DESCRIPTOR"
    | "bRequest stp = USB_REQUEST_GET_CONFIGURATION" | "bRequest stp = USB_REQUEST_SET_CONFIGURATION"
    | "bRequest stp \<notin> {USB_REQUEST_GET_STATUS, USB_REQUEST_CLEAR_FEATURE, USB_REQUEST_SET_FEATURE, USB_REQUEST_SET_ADDRESS,
        USB_REQUEST_GET_DESCRIPTOR, USB_REQUEST_GET_CONFIGURATION, USB_REQUEST_SET_CONFIGURATION}"
    by blast
  then show ?thesis
  proof cases
    case 1
    then show ?thesis using put_answered [OF assms] by (simp add: usbd_std_device_req_handler_def usb_consts)
  next
    case 2
    have "kept A I s (s\<lparr> g_remote_wakeup_enabled := b \<rparr>)" "kept A I s (s\<lparr> g_test_req := b \<rparr>)" for b
      using assms by (simp_all add: kept_def core_ok_def ep0_same_def)
    then show ?thesis
      using 2 kept_app_event kept_refl [OF assms]
      by (auto simp: usbd_std_device_req_handler_def usb_consts Let_def intro!: answeredI)
  next
    case 3
    have "kept A I s (on_udc (usbd_set_address a) (s\<lparr> g_device_address := a \<rparr>))" for a
      using assms by (simp add: kept_def core_ok_def ep0_same_def on_udc_def)
    then show ?thesis using 3 by (auto simp: usbd_std_device_req_handler_def usb_consts Let_def intro!: answeredI)
  next
    case 4
    then show ?thesis using get_descriptor_answered [OF assms] by (simp add: usbd_std_device_req_handler_def usb_consts)
  next
    case 5
    then show ?thesis using put_answered [OF assms] by (simp add: usbd_std_device_req_handler_def usb_consts)
  next
    case 6
    obtain c ds where c: "from_callback (desc_config (descriptors E)) (g_speed s) = Some (c @ concat ds)" "config_row c ds" "c ! 5 = conf"
      using config by blast
    then have cc: "current_config E s = Some (c @ concat ds)" by (simp add: current_config_def)
    consider "lo8 (wValue stp) = 0" | "lo8 (wValue stp) \<noteq> 0" "lo8 (wValue stp) = conf" | "lo8 (wValue stp) \<notin> {0, conf}" by blast
    then show ?thesis
    proof cases
      case 1
      have "kept A I s (s\<lparr> g_configuration := 0 \<rparr>)" using assms by (simp add: kept_def core_ok_def ep0_same_def)
      then show ?thesis using 1 6 by (auto simp: usbd_std_device_req_handler_def usb_consts intro!: answeredI)
    next
      case 2
      obtain found s1 where s1: "usbd_set_configuration E conf 0 s = Some (found, s1)" "kept A I s s1"
        using set_configuration_kept [OF c(2) cc assms] c(3) by metis
      define s2 where "s2 = s1\<lparr> g_configuration := conf, g_is_suspend := False \<rparr>"
      have s2: "kept A I s s2" "g_intf s2 = I" using s1(2) by (simp_all add: s2_def kept_def core_ok_def ep0_same_def)
      then have "usbd_class_event_notify_handler USBD_EVENT_CONFIGURED None s2 = Some s2"
        using no_hooks by (simp add: usbd_class_event_notify_handler_def notify_none)
      then show ?thesis
        using 2 6 s1 kept_app_event [OF s2(1)]
        by (auto simp: usbd_std_device_req_handler_def usb_consts s2_def [symmetric] intro!: answeredI)
    next
      case 3
      then show ?thesis
        using 6 set_configuration_misses [OF c(2) cc] c(3) by (simp add: usbd_std_device_req_handler_def usb_consts)
    qed
  next
    case 7
    then show ?thesis using no by (simp add: usbd_std_device_req_handler_def usb_consts)
  qed
qed

end

section \<open>Every request is answered\<close>

text \<open>The outcome of a request: a fault where one is named, and an answer otherwise.\<close>

definition outcome :: "bool \<Rightarrow> ('d \<Rightarrow> bool) \<Rightarrow> 'd usbd_interface list \<Rightarrow> 'd usbd_core \<Rightarrow> 'd reply option \<Rightarrow> bool" where
  "outcome fault A I s r \<longleftrightarrow> (if fault then r = None else answered A I s r)"

context usb_application begin

lemma declined: "core_ok A I s \<Longrightarrow> answered A I s (Some (False, Req_Data 0, n, s))"
  by (auto intro: answeredI kept_refl)

lemma has_config:
  obtains f where "desc_config (descriptors E) = Some f"
  using config [of 0] by (cases "desc_config (descriptors E)") (auto simp: from_callback_def)

lemma hid_descriptor_answered:
  assumes "core_ok A I s"
  shows "answered A I s (do {
     p \<leftarrow> current_config E s;
     (_, found, _) \<leftarrow> walk_descriptors (hid_descriptor_body num) p 0 0 (None, 0xFF);
     (case found of
        None \<Rightarrow> Some (False, Req_Data 0, len, s)
      | Some d \<Rightarrow> do { n \<leftarrow> rd d 0; Some (True, Fixed d, ucast n, s) })
   })"
proof -
  obtain c ds where c: "from_callback (desc_config (descriptors E)) (g_speed s) = Some (c @ concat ds)" "config_row c ds"
    using config by blast
  obtain cc found i where w: "walk_descriptors (hid_descriptor_body num) (c @ concat ds) 0 0 (None, 0xFF) = Some (cc, found, i)"
    "found = None \<or> (\<exists>d n. found = Some d \<and> rd d 0 = Some n \<and> unat n \<le> length d)"
    using hid_walk [OF c(2)] by metis
  then show ?thesis
    using c(1) declined [OF assms] kept_refl [OF assms] by (auto simp: current_config_def intro!: answeredI)
qed

lemma hid_report_answered:
  assumes "core_ok A I s"
  shows "answered A I s (case find (\<lambda>i. intf_num i = num) (g_intf s) of
      None \<Rightarrow> Some (False, Req_Data 0, len, s)
    | Some i \<Rightarrow> Some (True, (case hid_report_descriptor i of None \<Rightarrow> Null | Some d \<Rightarrow> Fixed d), hid_report_descriptor_len i, s))"
proof (cases "find (\<lambda>i. intf_num i = num) (g_intf s)")
  case (Some i)
  then have "i \<in> set I" using assms by (auto simp: find_Some_iff core_ok_def)
  then show ?thesis
    using hid [of i] Some kept_refl [OF assms] by (auto split: option.splits intro!: answeredI)
qed (use declined [OF assms] in simp)

lemma set_interface_answered:
  assumes "core_ok A I s"
  shows "answered A I s (do {
     (_, s) \<leftarrow> usbd_set_interface E num alt (s\<lparr> g_intf_altsetting := (g_intf_altsetting s)[k := alt] \<rparr>);
     Some (True, Req_Data 0, 0, s)
   })"
proof -
  let ?s = "s\<lparr> g_intf_altsetting := (g_intf_altsetting s)[k := alt] \<rparr>"
  have s: "core_ok A I ?s" "kept A I s ?s" using assms by (simp_all add: core_ok_def kept_def ep0_same_def)
  obtain c ds where c: "from_callback (desc_config (descriptors E)) (g_speed ?s) = Some (c @ concat ds)" "config_row c ds"
    using config by blast
  then obtain ret s' where "usbd_set_interface E num alt ?s = Some (ret, s')" "kept A I ?s s'"
    using set_interface_kept [OF c(2) _ s(1)] no_hooks unfolding current_config_def by metis
  then show ?thesis using kept_trans [OF s(2)] by (auto intro!: answeredI)
qed

lemma interface_request:
  assumes "core_ok A I s"
  shows "outcome (is_device_configured s \<and> bRequest stp \<in> {USB_REQUEST_GET_INTERFACE, USB_REQUEST_SET_INTERFACE}
      \<and> 16 \<le> unat (lo8 (wIndex stp))) A I s (usbd_std_interface_req_handler E stp (Req_Data 0) len s)"
proof (cases "is_device_configured s")
  case False
  obtain f where "desc_config (descriptors E) = Some f" by (rule has_config)
  with False show ?thesis
    using declined [OF assms] by (simp add: outcome_def usbd_std_interface_req_handler_def Let_def)
next
  case conf: True
  obtain f where f: "desc_config (descriptors E) = Some f" by (rule has_config)
  have alts: "length (g_intf_altsetting s) = 16" using assms by (simp add: core_ok_def)
  consider "bRequest stp = USB_REQUEST_GET_STATUS" | "bRequest stp = USB_REQUEST_GET_DESCRIPTOR"
    | "bRequest stp = USB_REQUEST_GET_INTERFACE" | "bRequest stp = USB_REQUEST_SET_INTERFACE"
    | "bRequest stp \<notin> {USB_REQUEST_GET_STATUS, USB_REQUEST_GET_DESCRIPTOR, USB_REQUEST_GET_INTERFACE, USB_REQUEST_SET_INTERFACE}"
    by blast
  then show ?thesis
  proof cases
    case 2
    then show ?thesis
      using conf f hid_descriptor_answered [OF assms] hid_report_answered [OF assms] declined [OF assms]
      by (simp add: outcome_def usbd_std_interface_req_handler_def usb_consts Let_def)
  next
    case 4
    then show ?thesis
      using conf f alts set_interface_answered [OF assms]
      by (simp add: outcome_def usbd_std_interface_req_handler_def usb_consts Let_def)
  qed (use conf f alts put_answered [OF assms] declined [OF assms]
      in \<open>simp_all add: outcome_def usbd_std_interface_req_handler_def usb_consts Let_def\<close>)
qed

lemma endpoint_request:
  assumes "core_ok A I s"
  shows "answered A I s (usbd_std_endpoint_req_handler stp (Req_Data 0) len s)"
proof -
  have "kept A I s (on_udc (usbd_ep_clear_stall ep) s)" "kept A I s (on_udc (usbd_ep_set_stall ep) s)" for ep
    using assms by (simp_all add: kept_def core_ok_def ep0_same_def on_udc_def)
  then show ?thesis
    using put_answered [OF assms] declined [OF assms]
    by (simp add: usbd_std_endpoint_req_handler_def Let_def answeredI)
qed

lemma standard_request:
  assumes "core_ok A I s" and "bmRequestType stp AND USB_REQUEST_TYPE_MASK = USB_REQUEST_STANDARD"
  shows "outcome (wild_request conf bad s stp) A I s (usbd_standard_request_handler E stp (Req_Data 0) len s)"
  using device_request [OF assms(1), of stp len] interface_request [OF assms(1), of stp len]
    endpoint_request [OF assms(1), of stp len] declined [OF assms(1), of len] assms(2)
  by (simp add: outcome_def wild_request_def usbd_standard_request_handler_def usb_consts Let_def)

lemma run_handler_answered:
  assumes "core_ok A I s" and "class_interface s stp = Some i" and "class_interface_handler i = Some h"
  shows "outcome (bad i stp) A I s
    (map_option (\<lambda>(rc, data, len, s). (0 \<le> rc, data, len, s)) (run_handler h stp (Req_Data 0) len s))"
proof -
  have i: "i \<in> set I" "length (g_req_data s) = 512" "A (g_app s)" using assms(1,2) by (auto simp: class_interface_def find_Some_iff core_ok_def)
  show ?thesis
  proof (cases "bad i stp")
    case True
    then show ?thesis using class_bad [OF i(1) assms(3) True i(2)] by (simp add: outcome_def run_handler_def)
  next
    case False
    obtain rc len' req' a' where
      h: "h stp (Req_Data 0) len (g_req_data s, g_app s) = Some (rc, Req_Data 0, len', req', a')" "length req' = 512" "A a'"
      using class_ok [OF i(1) assms(3) False i(2,3)] by blast
    moreover have "kept A I s (s\<lparr> g_req_data := req', g_app := a' \<rparr>)"
      using assms(1) h(2,3) by (simp add: kept_def core_ok_def ep0_same_def)
    ultimately show ?thesis using False by (auto simp: outcome_def run_handler_def intro!: answeredI)
  qed
qed

lemma class_request:
  assumes "core_ok A I s" and "bmRequestType stp AND USB_REQUEST_TYPE_MASK = USB_REQUEST_CLASS"
  shows "outcome (wild_request conf bad s stp) A I s
    (map_option (\<lambda>(rc, data, len, s). (0 \<le> rc, data, len, s)) (usbd_class_request_handler stp (Req_Data 0) len s))"
proof -
  have e: "find (\<lambda>i. class_endpoint_handler i \<noteq> None) (g_intf s) = None"
    using assms(1) no_hooks by (auto simp: find_None_iff core_ok_def)
  show ?thesis
  proof (cases "class_interface s stp")
    case None
    then show ?thesis
      using e declined [OF assms(1)] assms(2)
      by (simp add: outcome_def wild_request_def usbd_class_request_handler_def class_interface_def usb_consts Let_def)
  next
    case (Some i)
    then obtain h where h: "class_interface_handler i = Some h" by (auto simp: class_interface_def find_Some_iff)
    then show ?thesis
      using e declined [OF assms(1)] assms(2) run_handler_answered [OF assms(1) Some h, of len] Some
      by (simp add: outcome_def wild_request_def usbd_class_request_handler_def class_interface_def usb_consts Let_def)
  qed
qed

lemma no_vendor_handlers: "\<forall>i \<in> set is. vendor_handler i = None \<Longrightarrow> vendor_handlers is stp data len s = Some (-1, data, len, s)"
  by (induction "is") simp_all

lemma vendor_request:
  assumes "core_ok A I s"
  shows "answered A I s
    (map_option (\<lambda>(rc, data, len, s). (0 \<le> rc, data, len, s)) (usbd_vendor_request_handler E stp (Req_Data 0) len s))"
proof -
  have v: "vendor_handlers (g_intf s) stp (Req_Data 0) len s = Some (-1, Req_Data 0, len, s)"
    using assms no_hooks by (intro no_vendor_handlers) (auto simp: core_ok_def)
  show ?thesis
    using v declined [OF assms] kept_refl [OF assms] no_msosv1 msosv2 webusb
      order_trans [OF unat_of_nat_le]
    by (auto simp: usbd_vendor_request_handler_def msos_reply_def webusb_reply_def
        intro!: answeredI split: option.splits)
qed

theorem request_outcome:
  assumes "core_ok A I s"
  shows "outcome (wild_request conf bad s stp) A I s (usbd_setup_request_handler E stp (Req_Data 0) len s)"
  using standard_request [OF assms, of stp len] class_request [OF assms, of stp len] vendor_request [OF assms, of stp len]
    declined [OF assms, of len]
  by (auto simp: usbd_setup_request_handler_def outcome_def wild_request_def usb_consts Let_def)

end

end
