(* ===== verification/Usbd_Ep0.thy ===== *)
theory Usbd_Ep0
  imports Usbd_Answer
begin

text \<open>
  Endpoint 0 and the interrupt handler under the contract of \<open>usb_application\<close>: the invariant of the
  transfer state, every event of the controller that the handler takes one by one, and the events that
  the code cannot take.
\<close>

section \<open>Transfers on endpoint 0\<close>

text \<open>What remains of a transfer lies in the request buffer; without a transfer nothing is claimed.\<close>

definition ep0_room :: "'d usbd_core \<Rightarrow> bool" where
  "ep0_room s \<longleftrightarrow> g_ep0_next_state s = USBD_EP0_STATE_SETUP \<or> g_residue s = 0
     \<or> (\<exists>n. g_ep0_data_buf s = Req_Data n \<and> n + unat (g_residue s) \<le> 512)"

lemma core_ok_udc: "core_ok A I s \<Longrightarrow> udc_ok u \<Longrightarrow> core_ok A I (s\<lparr> g_udc := u \<rparr>)"
  by (simp add: core_ok_def)

lemma core_ok_book [simp]:
  "core_ok A I (s\<lparr> g_setup := x \<rparr>) = core_ok A I s" "core_ok A I (s\<lparr> g_ep0_data_buf := p \<rparr>) = core_ok A I s"
  "core_ok A I (s\<lparr> g_residue := r \<rparr>) = core_ok A I s" "core_ok A I (s\<lparr> g_data_len := r \<rparr>) = core_ok A I s"
  "core_ok A I (s\<lparr> g_zlp_flag := b \<rparr>) = core_ok A I s" "core_ok A I (s\<lparr> g_ep0_next_state := e \<rparr>) = core_ok A I s"
  "core_ok A I (s\<lparr> g_test_req := b \<rparr>) = core_ok A I s" "core_ok A I (s\<lparr> g_is_suspend := b \<rparr>) = core_ok A I s"
  "core_ok A I (s\<lparr> g_configuration := c \<rparr>) = core_ok A I s" "core_ok A I (s\<lparr> g_device_address := c \<rparr>) = core_ok A I s"
  "core_ok A I (s\<lparr> g_speed := c \<rparr>) = core_ok A I s"
  by (simp_all add: core_ok_def)

lemma on_udc_udc [simp]: "g_udc (on_udc f s) = f (g_udc s)"
  by (simp add: on_udc_def)

lemma core_ok_on_udc [simp]:
  "core_ok A I (on_udc (dcd c) s) = core_ok A I s" "core_ok A I (on_udc (\<lambda>u. u\<lparr> udc_is_suspend := b \<rparr>) s) = core_ok A I s"
  by (simp_all add: on_udc_def core_ok_def)

lemma ep0_room_book [simp]:
  "ep0_room (on_udc f s) = ep0_room s" "ep0_room (s\<lparr> g_is_suspend := b \<rparr>) = ep0_room s"
  "ep0_room (s\<lparr> g_configuration := c \<rparr>) = ep0_room s"
  by (simp_all add: on_udc_def ep0_room_def)

lemma ep0_write_posts:
  assumes "core_ok A I s" and "n + unat r \<le> 512"
  obtains u where "ep0_write (Req_Data n) r s = Some (s\<lparr> g_udc := u \<rparr>)" "udc_ok u"
    "ep0_log u = ep0_log (g_udc s) @ [Xfer_In USB_CONTROL_IN_EP0 (take (unat r) (drop n (g_req_data s)))]"
    "data_log u = data_log (g_udc s)"
proof -
  have u: "udc_ok (g_udc s)" "unat r \<le> length (drop n (g_req_data s))" using assms by (simp_all add: core_ok_def)
  obtain u where "usbd_ep_start_write USB_CONTROL_IN_EP0 (Some (drop n (g_req_data s))) r (g_udc s) = Some (0, u)" "udc_ok u"
    "udc_log u = udc_log (g_udc s) @ [Xfer_In USB_CONTROL_IN_EP0 (take (unat r) (drop n (g_req_data s)))]"
    using start_write_ok [OF u] by blast
  then show thesis
    by (intro that [of u]) (simp_all add: ep0_write_def udc_call_def ptr_bytes_def ep0_log_def data_log_def)
qed

lemma ep0_write_null:
  assumes "core_ok A I s"
  obtains u where "ep0_write Null 0 s = Some (s\<lparr> g_udc := u \<rparr>)" "udc_ok u"
    "ep0_log u = ep0_log (g_udc s) @ [Xfer_In USB_CONTROL_IN_EP0 []]" "data_log u = data_log (g_udc s)"
proof -
  have u: "udc_ok (g_udc s)" using assms by (simp add: core_ok_def)
  obtain u where "usbd_ep_start_write USB_CONTROL_IN_EP0 None 0 (g_udc s) = Some (0, u)" "udc_ok u"
    "udc_log u = udc_log (g_udc s) @ [Xfer_In USB_CONTROL_IN_EP0 []]"
    using start_empty_ok [OF u] by blast
  then show thesis
    by (intro that [of u]) (simp_all add: ep0_write_def udc_call_def ptr_bytes_def ep0_log_def data_log_def)
qed

lemma ep0_read_posts:
  assumes "core_ok A I s" and "p = Null \<Longrightarrow> r = 0"
  obtains u where "ep0_read p r s = Some (s\<lparr> g_udc := u \<rparr>)" "udc_ok u"
    "ep0_log u = ep0_log (g_udc s) @ [Xfer_Out USB_CONTROL_OUT_EP0 (unat r)]" "data_log u = data_log (g_udc s)"
proof -
  have u: "udc_ok (g_udc s)" using assms by (simp add: core_ok_def)
  obtain u where "usbd_ep_start_read USB_CONTROL_OUT_EP0 (p = Null) r (g_udc s) = Some (0, u)" "udc_ok u"
    "udc_log u = udc_log (g_udc s) @ [Xfer_Out USB_CONTROL_OUT_EP0 (unat r)]"
    using start_read_ok [OF u assms(2)] by blast
  then show thesis
    by (intro that [of u]) (simp_all add: ep0_read_def udc_call_def ep0_log_def data_log_def)
qed

lemma ep0_stall_ok [simp]:
  "core_ok A I s \<Longrightarrow> core_ok A I (ep0_stall s)" "g_ep0_next_state (ep0_stall s) = g_ep0_next_state s"
  "ep0_log (g_udc (ep0_stall s)) = ep0_log (g_udc s)" "ep0_room (ep0_stall s) = ep0_room s"
  "g_configuration (ep0_stall s) = g_configuration s" "g_setup (ep0_stall s) = g_setup s"
  by (simp_all add: ep0_stall_def on_udc_def core_ok_def ep0_room_def)

lemma ep0_stall_last [simp]: "\<exists>l. udc_log (g_udc (ep0_stall s)) = l @ [Edpt_Stall USB_CONTROL_IN_EP0]"
  by (simp add: ep0_stall_def on_udc_def usbd_ep_set_stall_def)

section \<open>The answer to a request\<close>

definition ptr_data :: "buf_ptr \<Rightarrow> u8 list \<Rightarrow> u8 list" where
  "ptr_data p req = (case p of Req_Data n \<Rightarrow> drop n req | Fixed bs \<Rightarrow> bs | Null \<Rightarrow> [])"

text \<open>A transfer of \<open>D\<close> to the host has been started, and an empty one follows where \<open>zlp\<close>.\<close>

definition posted_in :: "('d \<Rightarrow> bool) \<Rightarrow> 'd usbd_interface list \<Rightarrow> u8 list \<Rightarrow> bool \<Rightarrow> dcd_call list \<Rightarrow> 'd usbd_core \<Rightarrow> bool" where
  "posted_in A I D zlp before s \<longleftrightarrow> core_ok A I s \<and> length D \<le> 512 \<and> g_ep0_data_buf s = Req_Data 0
     \<and> g_residue s = of_nat (length D) \<and> take (length D) (g_req_data s) = D \<and> g_zlp_flag s = zlp
     \<and> g_ep0_next_state s = (if D = [] then USBD_EP0_STATE_IN_STATUS else USBD_EP0_STATE_IN_DATA)
     \<and> ep0_log (g_udc s) = before @ [Xfer_In USB_CONTROL_IN_EP0 D]"

text \<open>The state in which a request is handled, and the request without an OUT data stage.\<close>

definition ep0_prepare :: "usb_setup_packet \<Rightarrow> 'd usbd_core \<Rightarrow> 'd usbd_core" where
  "ep0_prepare stp s = s\<lparr> g_setup := stp, g_ep0_data_buf := Req_Data 0, g_residue := ucast (wLength stp),
     g_data_len := ucast (wLength stp), g_zlp_flag := False \<rparr>"

definition out_data :: "usb_setup_packet \<Rightarrow> bool" where
  "out_data stp \<longleftrightarrow> wLength stp \<noteq> 0 \<and> bmRequestType stp AND USB_REQUEST_DIR_MASK = USB_REQUEST_DIR_OUT"

lemma core_ok_prepare [simp]: "core_ok A I (ep0_prepare stp s) = core_ok A I s"
  by (simp add: ep0_prepare_def)

lemma ucast_u32 [simp]: "unat (ucast (x :: u16) :: u32) = unat x"
  by transfer simp

lemma copy_reply_ok:
  assumes "core_ok A I s" and "g_ep0_data_buf s = Req_Data 0" and "offer_ok buf len" and "g_residue s \<le> len"
    and "unat (g_residue s) \<le> 512"
  obtains s' where "copy_reply buf s = Some s'" "kept A I s s'" "g_udc s' = g_udc s"
    "take (unat (g_residue s)) (g_req_data s') = take (unat (g_residue s)) (ptr_data buf (g_req_data s))"
    "length (take (unat (g_residue s)) (g_req_data s')) = unat (g_residue s)"
    "g_configuration s' = g_configuration s" "g_app s' = g_app s"
proof (cases "buf = Req_Data 0 \<or> g_residue s = 0")
  case True
  have "length (g_req_data s) = 512" using assms(1) by (simp add: core_ok_def)
  with True show ?thesis
    using assms kept_refl [OF assms(1)] by (intro that [of s]) (auto simp: copy_reply_def ptr_data_def)
next
  case False
  then obtain bs where bs: "buf = Fixed bs" "unat len \<le> length bs" using assms(3,4) by (auto simp: offer_ok_def)
  let ?b = "take (unat (g_residue s)) bs"
  have n: "unat (g_residue s) \<le> length bs" using bs(2) assms(4) by (simp add: word_le_nat_alt)
  then have b: "length ?b = unat (g_residue s)" by simp
  with assms(5) have l: "length ?b \<le> 512" by simp
  obtain s' where "put_data (Req_Data 0) ?b s = Some s'" "kept A I s s'" "g_req_data s' = ?b @ drop (length ?b) (g_req_data s)"
    "g_configuration s' = g_configuration s" "g_app s' = g_app s" "g_udc s' = g_udc s"
    using put_data_kept [OF assms(1) l] by metis
  with False bs(1) n b assms(2) show ?thesis
    by (intro that [of s']) (simp_all add: copy_reply_def ptr_bytes_def ptr_data_def)
qed

lemma unat_min: "unat (min a (b :: u32)) = min (unat a) (unat b)"
  by (simp add: min_def word_le_nat_alt)

lemma setup_complete_cases:
  assumes "\<not> out_data stp"
  shows "usbd_event_ep0_setup_complete_handler E stp s =
    do {
      (ok, buf, len, s) \<leftarrow> usbd_setup_request_handler E stp (Req_Data 0) (ucast (wLength stp)) (ep0_prepare stp s);
      let s = s\<lparr> g_data_len := len \<rparr>;
      if \<not> ok then Some (ep0_stall (s\<lparr> g_ep0_next_state := USBD_EP0_STATE_SETUP \<rparr>))
      else do {
        let s = s\<lparr> g_residue := min len (ucast (wLength stp)) \<rparr>;
        if CONFIG_USBDEV_REQUEST_BUFFER_LEN < unat (g_residue s)
        then Some (ep0_stall (s\<lparr> g_ep0_next_state := USBD_EP0_STATE_SETUP \<rparr>))
        else do {
          s \<leftarrow> copy_reply buf s;
          let s = s\<lparr> g_ep0_next_state := (if 0 < g_residue s then USBD_EP0_STATE_IN_DATA else USBD_EP0_STATE_IN_STATUS) \<rparr>;
          s \<leftarrow> ep0_write (g_ep0_data_buf s) (g_residue s) s;
          Some (if g_data_len s < ucast (wLength stp) \<and> g_data_len s mod ucast USB_CTRL_EP_MPS = 0
                then s\<lparr> g_zlp_flag := True \<rparr> else s)
        }
      }
    }"
  using assms
  by (auto simp: usbd_event_ep0_setup_complete_handler_def ep0_setup_complete_def ep0_prepare_def out_data_def Let_def
      cong del: image_cong_simp)

lemma setup_reply:
  assumes "core_ok A I s" and "\<not> out_data stp"
    and "usbd_setup_request_handler E stp (Req_Data 0) (ucast (wLength stp)) (ep0_prepare stp s) = Some (ok, buf, len, s1)"
    and "kept A I (ep0_prepare stp s) s1" and "ok \<Longrightarrow> offer_ok buf len"
  defines "r \<equiv> min (unat len) (unat (wLength stp))"
  obtains s' where "usbd_event_ep0_setup_complete_handler E stp s = Some s'" "g_setup s' = stp" "core_ok A I s'" "ep0_room s'"
    "if ok \<and> r \<le> 512
     then posted_in A I (take r (ptr_data buf (g_req_data s1))) (len < ucast (wLength stp) \<and> len mod 64 = 0) (ep0_log (g_udc s)) s'
       \<and> length (take r (ptr_data buf (g_req_data s1))) = r
       \<and> g_configuration s' = g_configuration s1 \<and> g_app s' = g_app s1 \<and> data_log (g_udc s') = data_log (g_udc s1)
     else (\<exists>l. udc_log (g_udc s') = l @ [Edpt_Stall USB_CONTROL_IN_EP0])
       \<and> g_ep0_next_state s' = USBD_EP0_STATE_SETUP \<and> ep0_log (g_udc s') = ep0_log (g_udc s)"
proof -
  note h = setup_complete_cases [OF assms(2), of E s, unfolded assms(3), simplified]
  define s2 where "s2 = s1\<lparr> g_data_len := len, g_residue := min len (ucast (wLength stp)) \<rparr>"
  have k: "core_ok A I s1" "g_setup s1 = stp" "g_ep0_data_buf s1 = Req_Data 0" "g_zlp_flag s1 = False"
    "ep0_log (g_udc s1) = ep0_log (g_udc s)"
    using assms(4) by (simp_all add: kept_def ep0_same_def) (simp_all add: ep0_prepare_def)
  have r: "unat (g_residue s2) = r" by (simp add: s2_def r_def unat_min)
  show thesis
  proof (cases "ok \<and> r \<le> 512")
    case False
    define s3 where "s3 = (if ok then s2 else s1\<lparr> g_data_len := len \<rparr>)\<lparr> g_ep0_next_state := USBD_EP0_STATE_SETUP \<rparr>"
    have "usbd_event_ep0_setup_complete_handler E stp s = Some (ep0_stall s3)"
      using False r by (auto simp: h s3_def s2_def CONFIG_USBDEV_REQUEST_BUFFER_LEN_def)
    moreover have "core_ok A I s3" "ep0_room s3" "g_setup s3 = stp" "g_ep0_next_state s3 = USBD_EP0_STATE_SETUP"
      "ep0_log (g_udc s3) = ep0_log (g_udc s)"
      using k by (simp_all add: s3_def s2_def ep0_room_def)
    ultimately show thesis
      using False by (intro that [of "ep0_stall s3"]) auto
  next
    case True
    have c: "core_ok A I s2" "g_ep0_data_buf s2 = Req_Data 0" "offer_ok buf len" "g_residue s2 \<le> len" "unat (g_residue s2) \<le> 512"
      using k True assms(5) r by (simp_all add: s2_def)
    have e: "g_req_data s2 = g_req_data s1" "g_configuration s2 = g_configuration s1" "g_app s2 = g_app s1" "g_udc s2 = g_udc s1"
      by (simp_all add: s2_def)
    obtain s3 where s3: "copy_reply buf s2 = Some s3" "kept A I s2 s3"
      "take r (g_req_data s3) = take r (ptr_data buf (g_req_data s1))" "length (take r (g_req_data s3)) = r"
      "g_configuration s3 = g_configuration s1" "g_app s3 = g_app s1" "g_udc s3 = g_udc s1"
      using copy_reply_ok [OF c, unfolded r e] by blast
    define s4 where "s4 = s3\<lparr> g_ep0_next_state := (if 0 < g_residue s3 then USBD_EP0_STATE_IN_DATA else USBD_EP0_STATE_IN_STATUS) \<rparr>"
    have f: "g_residue s3 = g_residue s2" "g_ep0_data_buf s4 = Req_Data 0" "g_residue s4 = g_residue s2" "g_data_len s4 = len"
      "g_zlp_flag s4 = False" "g_setup s4 = stp" "core_ok A I s4" "ep0_log (g_udc s4) = ep0_log (g_udc s)"
      "g_configuration s4 = g_configuration s1" "g_app s4 = g_app s1" "g_req_data s4 = g_req_data s3"
      using s3(1-6) k by (simp_all add: s4_def kept_def ep0_same_def) (simp_all add: s2_def)
    have u4: "g_udc s4 = g_udc s1" using s3(7) by (simp add: s4_def)
    have room: "0 + unat (g_residue s2) \<le> 512" using c(5) by simp
    obtain u where u: "ep0_write (Req_Data 0) (g_residue s2) s4 = Some (s4\<lparr> g_udc := u \<rparr>)" "udc_ok u"
      "ep0_log u = ep0_log (g_udc s4) @ [Xfer_In USB_CONTROL_IN_EP0 (take r (g_req_data s3))]"
      "data_log u = data_log (g_udc s4)"
      using ep0_write_posts [OF f(7) room, unfolded f(11) r drop0] by blast
    define s5 where "s5 = s4\<lparr> g_udc := u, g_zlp_flag := (len < ucast (wLength stp) \<and> len mod 64 = 0) \<rparr>"
    have w: "ep0_write (g_ep0_data_buf s4) (g_residue s4) s4 = Some (s4\<lparr> g_udc := u \<rparr>)" using u(1) f by simp
    have set: "usbd_event_ep0_setup_complete_handler E stp s = Some s5"
      using True r s3(1) w f(3-5)
      by (auto simp: h s5_def s4_def s2_def CONFIG_USBDEV_REQUEST_BUFFER_LEN_def USB_CTRL_EP_MPS_def)
    have "of_nat (unat (g_residue s2)) = g_residue s2" by simp
    then have n: "of_nat r = g_residue s2" unfolding r .
    have pos: "0 < g_residue s2 \<longleftrightarrow> 0 < r" by (simp add: word_less_nat_alt r)
    have "core_ok A I s5" using f(7) u(2) by (simp add: s5_def core_ok_udc)
    moreover have "posted_in A I (take r (ptr_data buf (g_req_data s1))) (len < ucast (wLength stp) \<and> len mod 64 = 0) (ep0_log (g_udc s)) s5"
      using True f u s3(3,4) n pos \<open>core_ok A I s5\<close> by (auto simp: posted_in_def s5_def s4_def)
    moreover have "ep0_room s5" using f c(5) by (auto simp: ep0_room_def s5_def)
    ultimately show thesis using True set f u(4) u4 s3(3,4) by (intro that [of s5]) (auto simp: s5_def)
  qed
qed

section \<open>The events of endpoint 0\<close>

text \<open>A setup packet is answered by one transfer on endpoint 0 or by a stall.\<close>

definition ep0_replied :: "'d usbd_core \<Rightarrow> 'd usbd_core \<Rightarrow> bool" where
  "ep0_replied s s' \<longleftrightarrow> (\<exists>x. ep0_log (g_udc s') = ep0_log (g_udc s) @ [x])
     \<or> (ep0_log (g_udc s') = ep0_log (g_udc s) \<and> (\<exists>l. udc_log (g_udc s') = l @ [Edpt_Stall USB_CONTROL_IN_EP0]))"

lemma wild_request_same:
  "g_configuration s' = g_configuration s \<Longrightarrow> g_intf s' = g_intf s \<Longrightarrow> wild_request conf bad s' stp = wild_request conf bad s stp"
  by (simp add: wild_request_def is_device_configured_def class_interface_def)

text \<open>A request with an OUT data stage that fits: the data are read to the front of the buffer.\<close>

definition out_expected :: "usb_setup_packet \<Rightarrow> 'd usbd_core \<Rightarrow> 'd usbd_core" where
  "out_expected stp s = (ep0_prepare stp s)\<lparr> g_ep0_next_state := USBD_EP0_STATE_OUT_DATA \<rparr>"

lemma out_expected_fields:
  "core_ok A I (out_expected stp s) = core_ok A I s" "g_ep0_data_buf (out_expected stp s) = Req_Data 0"
  "g_residue (out_expected stp s) = ucast (wLength stp)" "g_udc (out_expected stp s) = g_udc s"
  by (simp_all add: out_expected_def) (simp_all add: ep0_prepare_def)

lemma setup_out_posts:
  assumes "core_ok A I s" and "out_data stp" and "unat (wLength stp) \<le> 512"
  obtains u where "usbd_event_ep0_setup_complete_handler E stp s = Some ((out_expected stp s)\<lparr> g_udc := u \<rparr>)" "udc_ok u"
    "ep0_log u = ep0_log (g_udc s) @ [Xfer_Out USB_CONTROL_OUT_EP0 (unat (wLength stp))]" "data_log u = data_log (g_udc s)"
proof -
  have c: "core_ok A I (out_expected stp s)" using assms(1) by (simp add: out_expected_fields)
  obtain u where u: "ep0_read (Req_Data 0) (ucast (wLength stp)) (out_expected stp s) = Some ((out_expected stp s)\<lparr> g_udc := u \<rparr>)"
    "udc_ok u" "ep0_log u = ep0_log (g_udc (out_expected stp s)) @ [Xfer_Out USB_CONTROL_OUT_EP0 (unat (ucast (wLength stp) :: u32))]"
    "data_log u = data_log (g_udc (out_expected stp s))"
    using ep0_read_posts [OF c, of "Req_Data 0" "ucast (wLength stp)"] by blast
  have "usbd_event_ep0_setup_complete_handler E stp s = Some ((out_expected stp s)\<lparr> g_udc := u \<rparr>)"
    using assms(2,3) u(1)
    by (auto simp: usbd_event_ep0_setup_complete_handler_def ep0_setup_complete_def out_data_def
        CONFIG_USBDEV_REQUEST_BUFFER_LEN_def Let_def out_expected_def ep0_prepare_def)
  then show thesis using u(2-4) by (intro that [of u]) (simp_all add: out_expected_fields)
qed

lemma setup_out_data:
  assumes "core_ok A I s" and "ep0_room s" and "out_data stp"
  obtains s' where "usbd_event_ep0_setup_complete_handler E stp s = Some s'" "core_ok A I s'" "ep0_room s'" "ep0_replied s s'"
proof (cases "512 < unat (wLength stp)")
  case True
  then show thesis
    using assms
    by (intro that [of "ep0_stall (s\<lparr> g_setup := stp \<rparr>)"])
      (auto simp: usbd_event_ep0_setup_complete_handler_def ep0_setup_complete_def out_data_def
        CONFIG_USBDEV_REQUEST_BUFFER_LEN_def ep0_replied_def Let_def, simp add: ep0_room_def)
next
  case False
  then have l: "unat (wLength stp) \<le> 512" by simp
  obtain u where "usbd_event_ep0_setup_complete_handler E stp s = Some ((out_expected stp s)\<lparr> g_udc := u \<rparr>)" "udc_ok u"
    "ep0_log u = ep0_log (g_udc s) @ [Xfer_Out USB_CONTROL_OUT_EP0 (unat (wLength stp))]"
    using setup_out_posts [OF assms(1,3) l] by blast
  then show thesis
    using assms(1) l
    by (intro that [of "(out_expected stp s)\<lparr> g_udc := u \<rparr>"])
      (auto simp: core_ok_udc ep0_room_def ep0_replied_def out_expected_fields)
qed

lemma in_complete_ok:
  assumes "core_ok A I s" and "ep0_room s" and "g_ep0_next_state s \<noteq> USBD_EP0_STATE_SETUP" and "n \<le> g_residue s"
  obtains s' where "usbd_event_ep0_in_complete_handler n s = Some s'" "core_ok A I s'" "ep0_room s'"
proof -
  define s1 where "s1 = s\<lparr> g_ep0_data_buf := ptr_add (g_ep0_data_buf s) (unat n), g_residue := g_residue s - n \<rparr>"
  have s1: "core_ok A I s1" "g_residue s1 = g_residue s - n" "g_ep0_data_buf s1 = ptr_add (g_ep0_data_buf s) (unat n)"
    using assms(1) by (simp_all add: s1_def)
  have h: "usbd_event_ep0_in_complete_handler n s =
    (if g_residue s1 \<noteq> 0 then ep0_write (g_ep0_data_buf s1) (g_residue s1) s1
     else if g_zlp_flag s1 then ep0_write Null 0 (s1\<lparr> g_zlp_flag := False \<rparr>)
     else if wLength (g_setup s) \<noteq> 0 \<and> bmRequestType (g_setup s) AND USB_REQUEST_DIR_MASK = USB_REQUEST_DIR_IN
     then ep0_read Null 0 (s1\<lparr> g_ep0_next_state := USBD_EP0_STATE_OUT_STATUS \<rparr>)
     else
       let x = (if g_ep0_next_state s1 = USBD_EP0_STATE_IN_STATUS
                then s1\<lparr> g_ep0_next_state := USBD_EP0_STATE_SETUP \<rparr> else s1) in
       Some (if g_test_req x
             then on_udc (usbd_execute_test_mode (hi8 (wIndex (g_setup s)))) x\<lparr> g_test_req := False \<rparr>
             else x))"
    by (simp add: usbd_event_ep0_in_complete_handler_def s1_def Let_def)
  consider "g_residue s1 \<noteq> 0" | "g_residue s1 = 0" "g_zlp_flag s1"
    | "g_residue s1 = 0" "\<not> g_zlp_flag s1" "wLength (g_setup s) \<noteq> 0 \<and> bmRequestType (g_setup s) AND USB_REQUEST_DIR_MASK = USB_REQUEST_DIR_IN"
    | "g_residue s1 = 0" "\<not> g_zlp_flag s1" "\<not> (wLength (g_setup s) \<noteq> 0 \<and> bmRequestType (g_setup s) AND USB_REQUEST_DIR_MASK = USB_REQUEST_DIR_IN)"
    by blast
  then show thesis
  proof cases
    case 1
    have "g_residue s \<noteq> 0" using 1 s1(2) assms(4) by auto
    then obtain k where k: "g_ep0_data_buf s = Req_Data k" "k + unat (g_residue s) \<le> 512"
      using assms(2,3) by (auto simp: ep0_room_def)
    have b: "g_ep0_data_buf s1 = Req_Data (k + unat n)" "(k + unat n) + unat (g_residue s1) \<le> 512"
      using k s1 unat_sub [OF assms(4)] assms(4) by (simp_all add: ptr_add_def word_le_nat_alt)
    obtain u where "ep0_write (Req_Data (k + unat n)) (g_residue s1) s1 = Some (s1\<lparr> g_udc := u \<rparr>)" "udc_ok u"
      using ep0_write_posts [OF s1(1) b(2)] by blast
    then show thesis
      using 1 h b s1 by (intro that [of "s1\<lparr> g_udc := u \<rparr>"]) (auto simp: core_ok_udc ep0_room_def)
  next
    case 2
    obtain u where "ep0_write Null 0 (s1\<lparr> g_zlp_flag := False \<rparr>) = Some (s1\<lparr> g_zlp_flag := False, g_udc := u \<rparr>)" "udc_ok u"
      using ep0_write_null [of A I "s1\<lparr> g_zlp_flag := False \<rparr>"] s1(1) by auto
    then show thesis
      using 2 h s1 by (intro that [of "s1\<lparr> g_zlp_flag := False, g_udc := u \<rparr>"]) (auto simp: core_ok_udc ep0_room_def)
  next
    case 3
    let ?s = "s1\<lparr> g_ep0_next_state := USBD_EP0_STATE_OUT_STATUS \<rparr>"
    obtain u where "ep0_read Null 0 ?s = Some (?s\<lparr> g_udc := u \<rparr>)" "udc_ok u"
      using ep0_read_posts [of A I ?s Null 0] s1(1) by auto
    then show thesis
      using 3 h s1 by (intro that [of "?s\<lparr> g_udc := u \<rparr>"]) (auto simp: core_ok_udc ep0_room_def)
  next
    case 4
    define s2 where "s2 = (if g_ep0_next_state s1 = USBD_EP0_STATE_IN_STATUS then s1\<lparr> g_ep0_next_state := USBD_EP0_STATE_SETUP \<rparr> else s1)"
    define t where "t = (if g_test_req s2 then on_udc (usbd_execute_test_mode (hi8 (wIndex (g_setup s)))) s2\<lparr> g_test_req := False \<rparr> else s2)"
    have "udc_ok (g_udc s1)" using s1(1) by (simp add: core_ok_def)
    then have "core_ok A I t" "g_residue t = 0" using s1(1) 4 by (auto simp: t_def s2_def on_udc_def core_ok_udc)
    moreover have "usbd_event_ep0_in_complete_handler n s = Some t"
      unfolding h t_def s2_def using 4 by (simp only: Let_def if_False not_True_eq_False not_False_eq_True simp_thms)
    ultimately show thesis by (intro that [of t]) (auto simp: ep0_room_def)
  qed
qed

text \<open>Bytes of an OUT transfer in the buffer, and what follows.\<close>

definition out_received :: "nat \<Rightarrow> u8 list \<Rightarrow> 'd usbd_core \<Rightarrow> 'd usbd_core" where
  "out_received k bytes s =
    s\<lparr> g_req_data := take k (g_req_data s) @ bytes @ drop (k + length bytes) (g_req_data s),
       g_ep0_data_buf := Req_Data (k + length bytes), g_residue := g_residue s - of_nat (length bytes) \<rparr>"

lemma out_received_fields:
  "g_residue (out_received k bytes s) = g_residue s - of_nat (length bytes)" "g_setup (out_received k bytes s) = g_setup s"
  "g_configuration (out_received k bytes s) = g_configuration s" "g_intf (out_received k bytes s) = g_intf s"
  "g_ep0_data_buf (out_received k bytes s) = Req_Data (k + length bytes)" "g_udc (out_received k bytes s) = g_udc s"
  "g_app (out_received k bytes s) = g_app s" "g_data_len (out_received k bytes s) = g_data_len s"
  "g_zlp_flag (out_received k bytes s) = g_zlp_flag s"
  by (simp_all add: out_received_def)

lemma length_small: "length bytes \<le> unat (r :: u32) \<Longrightarrow> unat (of_nat (length bytes) :: u32) = length bytes"
  using unsigned_less [where ?'a = nat and w = r] by (simp add: unat_of_nat take_bit_nat_eq_self)

definition out_continues :: "'d usbd_env \<Rightarrow> 'd usbd_core \<Rightarrow> 'd usbd_core option" where
  "out_continues E s =
    (if g_residue s = 0 then do {
       let s = s\<lparr> g_ep0_data_buf := Req_Data 0 \<rparr>;
       (ok, buf, len, s) \<leftarrow> usbd_setup_request_handler E (g_setup s) (Req_Data 0) (g_data_len s) s;
       let s = s\<lparr> g_ep0_data_buf := buf, g_data_len := len \<rparr>;
       if \<not> ok then Some (ep0_stall (s\<lparr> g_ep0_next_state := USBD_EP0_STATE_SETUP \<rparr>))
       else ep0_write Null 0 (s\<lparr> g_ep0_next_state := USBD_EP0_STATE_IN_STATUS \<rparr>)
     }
     else ep0_read (g_ep0_data_buf s) (g_residue s) s)"

lemma out_complete_step:
  assumes "core_ok A I s" and "bytes \<noteq> []" and "length bytes \<le> unat (g_residue s)"
    and "g_ep0_data_buf s = Req_Data k" and "k + unat (g_residue s) \<le> 512"
  shows "usbd_event_ep_out_complete_handler E 0 bytes s = out_continues E (out_received k bytes s)"
    and "core_ok A I (out_received k bytes s)"
proof -
  have m: "msg_entry (0 AND 0x7F) s = Some (g_rx_msg s ! 0)" "msg_cb (g_rx_msg s ! 0) = Cb_Ep0_Out"
    using assms(1) by (simp_all add: msg_entry_def core_ok_def)
  note h = usbd_event_ep_out_complete_handler_def [of E 0 bytes s, unfolded m, simplified, unfolded m, simplified]
  have n: "unat (of_nat (length bytes) :: u32) = length bytes" by (rule length_small [OF assms(3)])
  have put: "put_data (Req_Data k) bytes s
      = Some (s\<lparr> g_req_data := take k (g_req_data s) @ bytes @ drop (k + length bytes) (g_req_data s) \<rparr>)"
    using assms by (simp add: put_data_def ptr_write_def core_ok_def)
  have pos: "(0 :: u32) < of_nat (length bytes)" using assms(2) n by (simp add: word_less_nat_alt)
  show "usbd_event_ep_out_complete_handler E 0 bytes s = out_continues E (out_received k bytes s)"
    using assms(2,4) pos put n
    by (simp add: h usbd_event_ep0_out_complete_handler_def out_continues_def out_received_def ptr_add_def Let_def)
  show "core_ok A I (out_received k bytes s)" using assms by (simp add: out_received_def core_ok_def)
qed

context usb_application begin

lemma setup_event:
  assumes "core_ok A I s" and "ep0_room s"
  shows "if \<not> out_data stp \<and> wild_request conf bad s stp
    then usbd_event_ep0_setup_complete_handler E stp s = None
    else \<exists>s'. usbd_event_ep0_setup_complete_handler E stp s = Some s' \<and> core_ok A I s' \<and> ep0_room s' \<and> ep0_replied s s'"
proof (cases "out_data stp")
  case True
  then obtain s' where "usbd_event_ep0_setup_complete_handler E stp s = Some s'" "core_ok A I s'" "ep0_room s'" "ep0_replied s s'"
    using setup_out_data [OF assms] by metis
  then show ?thesis using True by simp
next
  case False
  have w: "wild_request conf bad (ep0_prepare stp s) stp = wild_request conf bad s stp"
    by (rule wild_request_same) (simp_all add: ep0_prepare_def)
  have c: "core_ok A I (ep0_prepare stp s)" using assms(1) by simp
  note out = request_outcome [OF c, of stp "ucast (wLength stp)", unfolded outcome_def w]
  show ?thesis
  proof (cases "wild_request conf bad s stp")
    case True
    then show ?thesis using False out by (simp add: setup_complete_cases)
  next
    case tame: False
    then obtain ok buf len t where
      t: "usbd_setup_request_handler E stp (Req_Data 0) (ucast (wLength stp)) (ep0_prepare stp s) = Some (ok, buf, len, t)"
        "kept A I (ep0_prepare stp s) t" "ok \<Longrightarrow> offer_ok buf len"
      using out by (auto simp: answered_def)
    obtain s' where s': "usbd_event_ep0_setup_complete_handler E stp s = Some s'" "core_ok A I s'" "ep0_room s'"
      "if ok \<and> min (unat len) (unat (wLength stp)) \<le> 512
       then posted_in A I (take (min (unat len) (unat (wLength stp))) (ptr_data buf (g_req_data t)))
          (len < ucast (wLength stp) \<and> len mod 64 = 0) (ep0_log (g_udc s)) s' \<and> True \<and> True \<and> True \<and> True
       else (\<exists>l. udc_log (g_udc s') = l @ [Edpt_Stall USB_CONTROL_IN_EP0])
         \<and> g_ep0_next_state s' = USBD_EP0_STATE_SETUP \<and> ep0_log (g_udc s') = ep0_log (g_udc s)"
      using setup_reply [OF assms(1) False t] by (metis (no_types, lifting))
    then have "ep0_replied s s'" by (auto simp: ep0_replied_def posted_in_def split: if_splits)
    then show ?thesis using tame s' by auto
  qed
qed

lemma out_complete_ok:
  assumes "core_ok A I s" and "ep0_room s" and "g_ep0_next_state s \<noteq> USBD_EP0_STATE_SETUP"
    and "length bytes \<le> unat (g_residue s)"
  shows "if bytes \<noteq> [] \<and> length bytes = unat (g_residue s) \<and> wild_request conf bad s (g_setup s)
    then usbd_event_ep_out_complete_handler E 0 bytes s = None
    else \<exists>s'. usbd_event_ep_out_complete_handler E 0 bytes s = Some s' \<and> core_ok A I s' \<and> ep0_room s'"
proof (cases "bytes = []")
  case True
  have "usbd_event_ep_out_complete_handler E 0 [] s = Some (s\<lparr> g_ep0_next_state := USBD_EP0_STATE_SETUP \<rparr>)"
    using assms(1)
    by (simp add: usbd_event_ep_out_complete_handler_def msg_entry_def core_ok_def usbd_event_ep0_out_complete_handler_def)
  then show ?thesis using True assms(1) by (simp add: ep0_room_def)
next
  case False
  let ?n = "of_nat (length bytes) :: u32"
  have n: "unat ?n = length bytes" by (rule length_small [OF assms(4)])
  have "g_residue s \<noteq> 0" using False assms(4) by auto
  then obtain k where k: "g_ep0_data_buf s = Req_Data k" "k + unat (g_residue s) \<le> 512"
    using assms(2,3) by (auto simp: ep0_room_def)
  define s2 where "s2 = out_received k bytes s"
  note step = out_complete_step(1) [OF assms(1) False assms(4) k, folded s2_def, unfolded out_continues_def]
  have s2: "core_ok A I s2" "g_residue s2 = g_residue s - ?n" "g_setup s2 = g_setup s" "g_configuration s2 = g_configuration s"
    "g_intf s2 = g_intf s" "g_ep0_data_buf s2 = Req_Data (k + length bytes)"
    using out_complete_step(2) [OF assms(1) False assms(4) k] by (simp_all add: s2_def out_received_fields)
  have le: "?n \<le> g_residue s" using assms(4) n by (simp add: word_le_nat_alt)
  show ?thesis
  proof (cases "length bytes = unat (g_residue s)")
    case full: True
    then have "?n = g_residue s" using n by (simp add: word_unat_eq_iff)
    then have z: "g_residue s2 = 0" by (simp add: s2)
    define s3 where "s3 = s2\<lparr> g_ep0_data_buf := Req_Data 0 \<rparr>"
    have s3: "core_ok A I s3" "g_setup s3 = g_setup s" "g_residue s3 = 0" using s2 z by (simp_all add: s3_def)
    have w: "wild_request conf bad s3 (g_setup s) = wild_request conf bad s (g_setup s)"
      by (rule wild_request_same) (simp_all add: s3_def s2)
    note out = request_outcome [OF s3(1), of "g_setup s" "g_data_len s3", unfolded outcome_def w]
    show ?thesis
    proof (cases "wild_request conf bad s (g_setup s)")
      case True
      then show ?thesis using full False out z s2 by (simp add: step s3_def)
    next
      case tame: False
      then obtain ok buf len t where t: "usbd_setup_request_handler E (g_setup s) (Req_Data 0) (g_data_len s3) s3 = Some (ok, buf, len, t)"
        "kept A I s3 t"
        using out by (auto simp: answered_def)
      let ?t = "t\<lparr> g_ep0_data_buf := buf, g_data_len := len \<rparr>"
      have c: "core_ok A I ?t" "g_residue ?t = 0" using t(2) s3 by (simp_all add: kept_def ep0_same_def)
      then obtain u where u: "ep0_write Null 0 (?t\<lparr> g_ep0_next_state := USBD_EP0_STATE_IN_STATUS \<rparr>)
          = Some (?t\<lparr> g_ep0_next_state := USBD_EP0_STATE_IN_STATUS, g_udc := u \<rparr>)" "udc_ok u"
        using ep0_write_null [of A I "?t\<lparr> g_ep0_next_state := USBD_EP0_STATE_IN_STATUS \<rparr>"] by auto
      then show ?thesis
        using tame t z c s2 by (cases ok) (auto simp: step s3_def Let_def core_ok_udc ep0_room_def)
    qed
  next
    case part: False
    then have nz: "g_residue s2 \<noteq> 0" using s2 n le by auto
    obtain u where u: "ep0_read (g_ep0_data_buf s2) (g_residue s2) s2 = Some (s2\<lparr> g_udc := u \<rparr>)" "udc_ok u"
      using ep0_read_posts [OF s2(1), of "g_ep0_data_buf s2" "g_residue s2"] s2(6) by auto
    have "k + length bytes + unat (g_residue s2) \<le> 512"
      using k assms(4) s2 unat_sub [OF le] n by simp
    then show ?thesis
      using part nz u s2 by (auto simp: step core_ok_udc ep0_room_def)
  qed
qed

end

section \<open>The inputs of the interrupt handler\<close>

datatype usb_input =
    Reset_Irq
  | Suspend_Irq
  | Port_Irq
  | In_Irq u8 u32
  | Out_Irq u8 "u8 list"
  | Setup_Irq usb_setup_packet

fun usb_step :: "'d usbd_env \<Rightarrow> usb_input \<Rightarrow> 'd usbd_core \<Rightarrow> 'd usbd_core option" where
  "usb_step E Reset_Irq s = irq_reset E s"
| "usb_step E Suspend_Irq s = Some (irq_suspend E s)"
| "usb_step E Port_Irq s = Some (irq_port_change E s)"
| "usb_step E (In_Irq ep n) s = usbd_event_ep_in_complete_handler E ep n s"
| "usb_step E (Out_Irq ep bytes) s = usbd_event_ep_out_complete_handler E ep bytes s"
| "usb_step E (Setup_Irq stp) s = usbd_event_ep0_setup_complete_handler E stp s"

fun usb_steps :: "'d usbd_env \<Rightarrow> usb_input list \<Rightarrow> 'd usbd_core \<Rightarrow> 'd usbd_core option" where
  "usb_steps E [] s = Some s"
| "usb_steps E (i # is) s = do { s \<leftarrow> usb_step E i s; usb_steps E is s }"

text \<open>What one interrupt brings, in the order in which it is handled.\<close>

definition endpoint_inputs :: "irq_snapshot \<Rightarrow> nat \<Rightarrow> usb_input list" where
  "endpoint_inputs q i =
    (if bit (irq_complete q) (ep_idx2bit i)
     then (case qtd_scan (irq_qtds q i) 0 of
         Some (True, n) \<Rightarrow>
           [if i mod 2 \<noteq> 0 then In_Irq (of_nat (i div 2) OR 0x80) n
            else Out_Irq (of_nat (i div 2)) (take (unat n) (irq_bytes q i))]
       | _ \<Rightarrow> [])
     else [])"

definition irq_inputs :: "irq_snapshot \<Rightarrow> usb_input list" where
  "irq_inputs q =
    (let st = irq_status q AND irq_enabled q in
     (if st AND intr_reset \<noteq> 0 then [Reset_Irq] else [])
     @ (if st AND intr_suspend \<noteq> 0 then [Suspend_Irq] else [])
     @ (if st AND intr_port_change \<noteq> 0 then [Port_Irq] else [])
     @ (if st AND intr_usb \<noteq> 0
        then concat (map (endpoint_inputs q) [0..<32]) @ (if irq_setup_status q \<noteq> 0 then [Setup_Irq (irq_setup q)] else [])
        else []))"

lemma usb_steps_append: "usb_steps E (is @ js) s = Option.bind (usb_steps E is s) (usb_steps E js)"
  by (induction "is" arbitrary: s) (auto split: bind_splits)

lemma qtd_scan_total: "qs \<noteq> [] \<Longrightarrow> \<exists>r. qtd_scan qs n = Some r"
  by (induction qs arbitrary: n) (auto simp: Let_def)

lemma address_direction: "i < 32 \<Longrightarrow> (of_nat (i div 2) :: u8) AND 0x80 = 0"
proof -
  assume "i < 32"
  then have "i div 2 \<in> set [0..<16]" by simp
  moreover have "\<forall>k \<in> set [0..<16]. (of_nat k :: u8) AND 0x80 = 0" by (simp add: upt_rec)
  ultimately show ?thesis by blast
qed

lemma endpoint_steps:
  assumes "irq_qtds q i \<noteq> []" and "i < 32"
  shows "irq_endpoint E q i s = usb_steps E (endpoint_inputs q i) s"
proof -
  have "((of_nat (i div 2) :: u8) OR 0x80) AND 0x80 = 0x80" by (simp add: bit.conj_disj_distrib2 ac_simps)
  moreover obtain r n where "qtd_scan (irq_qtds q i) 0 = Some (r, n)" using qtd_scan_total [OF assms(1), of 0] by auto
  ultimately show ?thesis
    using address_direction [OF assms(2)]
    by (auto simp: irq_endpoint_def endpoint_inputs_def Let_def split: bind_splits bool.splits)
qed

lemma endpoints_steps:
  "\<forall>i \<in> set is. irq_qtds q i \<noteq> [] \<and> i < 32 \<Longrightarrow>
   irq_endpoints E q is s = usb_steps E (concat (map (endpoint_inputs q) is)) s"
  by (induction "is" arbitrary: s) (auto simp: endpoint_steps usb_steps_append split: bind_splits)

lemma no_endpoint_inputs: "irq_complete q = 0 \<Longrightarrow> concat (map (endpoint_inputs q) is) = []"
  by (induction "is") (simp_all add: endpoint_inputs_def)

text \<open>
  C31. The interrupt handler is the handling of its inputs one after another: reset, suspend, port change,
  the completed transfers in the order of their numbers, and the setup packet last, so that a completion
  that is reported with the next setup packet still belongs to the transfer before it.
\<close>

theorem irq_handles_inputs_in_order:
  assumes "\<forall>i < 32. irq_qtds q i \<noteq> []"
  shows "USBD_IRQHandler E q s = usb_steps E (irq_inputs q) s"
proof -
  have "irq_endpoints E q [0..<32] s = usb_steps E (concat (map (endpoint_inputs q) [0..<32])) s" for s
    by (rule endpoints_steps) (use assms in simp)
  then have "irq_usb E q s = usb_steps E (concat (map (endpoint_inputs q) [0..<32])
      @ (if irq_setup_status q \<noteq> 0 then [Setup_Irq (irq_setup q)] else [])) s" for s
    by (auto simp: irq_usb_def usb_steps_append USB_NUM_BIDIR_ENDPOINTS_def no_endpoint_inputs split: bind_splits)
  then show ?thesis
    by (simp add: USBD_IRQHandler_def irq_inputs_def usb_steps_append Let_def)
qed

definition sample_snapshot :: irq_snapshot where
  "sample_snapshot =
    \<lparr> irq_status = 1, irq_enabled = 1, irq_complete = 0x20000, irq_setup_status = 1,
      irq_qtds = (\<lambda>_. [\<lparr> qtd_halted = False, qtd_xact_err = False, qtd_buffer_err = False, qtd_active = False,
                         qtd_expected = 64, qtd_total = 0 \<rparr>]),
      irq_bytes = (\<lambda>_. []),
      irq_setup = \<lparr> bmRequestType = 0x80, bRequest = 6, wValue = 0x100, wIndex = 0, wLength = 18 \<rparr> \<rparr>"

lemma sample_snapshot_inputs: "irq_inputs sample_snapshot = [In_Irq 0x81 64, Setup_Irq (irq_setup sample_snapshot)]"
  by (simp add: irq_inputs_def endpoint_inputs_def sample_snapshot_def intr_defs ep_idx2bit_def upt_rec)

theorem irq_handles_inputs_in_order_witness:
  "\<forall>(E :: 'd usbd_env) s. USBD_IRQHandler E sample_snapshot s
     = usb_steps E [In_Irq 0x81 64, Setup_Irq (irq_setup sample_snapshot)] s"
proof (intro allI)
  fix E :: "'d usbd_env" and s :: "'d usbd_core"
  have "\<forall>i < 32. irq_qtds sample_snapshot i \<noteq> []" by (simp add: sample_snapshot_def)
  from irq_handles_inputs_in_order [OF this, of E s]
  show "USBD_IRQHandler E sample_snapshot s = usb_steps E [In_Irq 0x81 64, Setup_Irq (irq_setup sample_snapshot)] s"
    by (simp only: sample_snapshot_inputs)
qed

section \<open>Safety\<close>

text \<open>
  What a controller reports: endpoints of the table; on endpoint 0 only the completion of a transfer
  that the core has under way, and no more bytes than remain of it.
\<close>

fun conformant :: "'d usbd_core \<Rightarrow> usb_input \<Rightarrow> bool" where
  "conformant s (In_Irq ep n) \<longleftrightarrow> ep_in_table ep
     \<and> (ep AND 0x7F = 0 \<longrightarrow> ep = 0x80 \<and> g_ep0_next_state s \<noteq> USBD_EP0_STATE_SETUP \<and> n \<le> g_residue s)"
| "conformant s (Out_Irq ep bytes) \<longleftrightarrow> ep_in_table ep
     \<and> (ep AND 0x7F = 0 \<longrightarrow> ep = 0 \<and> g_ep0_next_state s \<noteq> USBD_EP0_STATE_SETUP \<and> length bytes \<le> unat (g_residue s))"
| "conformant s _ \<longleftrightarrow> True"

text \<open>The inputs that make the core handle a wild request.\<close>

fun harmful :: "u8 \<Rightarrow> ('d usbd_interface \<Rightarrow> usb_setup_packet \<Rightarrow> bool) \<Rightarrow> 'd usbd_core \<Rightarrow> usb_input \<Rightarrow> bool" where
  "harmful conf bad s (Setup_Irq stp) \<longleftrightarrow> \<not> out_data stp \<and> wild_request conf bad s stp"
| "harmful conf bad s (Out_Irq ep bytes) \<longleftrightarrow>
     ep = 0 \<and> bytes \<noteq> [] \<and> length bytes = unat (g_residue s) \<and> wild_request conf bad s (g_setup s)"
| "harmful conf bad s _ \<longleftrightarrow> False"

text \<open>
  The states that can follow: the interrupt handler takes an input, the registers of the controller
  change by themselves, or a thread acts on the application, as far as the relation \<open>T\<close> allows.
\<close>

inductive usb_reach ::
  "'d usbd_env \<Rightarrow> ('d \<times> hpm_udc \<Rightarrow> 'd \<times> hpm_udc \<Rightarrow> bool) \<Rightarrow> 'd usbd_core \<Rightarrow> 'd usbd_core \<Rightarrow> bool" for E T s0 where
  start: "usb_reach E T s0 s0"
| step: "usb_reach E T s0 s \<Longrightarrow> conformant s i \<Longrightarrow> usb_step E i s = Some s' \<Longrightarrow> usb_reach E T s0 s'"
| registers: "usb_reach E T s0 s \<Longrightarrow> usb_reach E T s0 (on_udc (\<lambda>u. u\<lparr> udc_regs := r \<rparr>) s)"
| thread: "usb_reach E T s0 s \<Longrightarrow> T (g_app s, g_udc s) (a, u) \<Longrightarrow> usb_reach E T s0 (s\<lparr> g_app := a, g_udc := u \<rparr>)"

text \<open>The state before the first reset: endpoint 0 need not be open.\<close>

definition core_shape :: "('d \<Rightarrow> bool) \<Rightarrow> 'd usbd_interface list \<Rightarrow> 'd usbd_core \<Rightarrow> bool" where
  "core_shape A I s \<longleftrightarrow>
     A (g_app s) \<and> g_intf s = I \<and> length (g_req_data s) = 512 \<and> length (g_intf_altsetting s) = 16
     \<and> length (g_tx_msg s) = 16 \<and> length (g_rx_msg s) = 16
     \<and> msg_cb (g_tx_msg s ! 0) = Cb_Ep0_In \<and> msg_cb (g_rx_msg s ! 0) = Cb_Ep0_Out
     \<and> (\<forall>i \<in> {1..15}. msg_cb (g_tx_msg s ! i) \<in> {Cb_None, Cb_App} \<and> msg_cb (g_rx_msg s ! i) \<in> {Cb_None, Cb_App})"

lemma core_ok_shape: "core_ok A I s \<Longrightarrow> core_shape A I s"
  by (simp add: core_shape_def core_ok_def)

lemma reset_opens:
  assumes "length (udc_in_ep u) = 16" and "length (udc_out_ep u) = 16"
  obtains u1 u2 where "usbd_ep_open USB_CONTROL_IN_EP0 USB_ENDPOINT_TYPE_CONTROL USB_CTRL_EP_MPS u = Some (0, u1)"
    "usbd_ep_open USB_CONTROL_OUT_EP0 USB_ENDPOINT_TYPE_CONTROL USB_CTRL_EP_MPS u1 = Some (0, u2)" "udc_ok u2" "ep0_log u2 = ep0_log u"
proof -
  let ?f = "\<lambda>e. e\<lparr> ep_mps := USB_GET_MAXPACKETSIZE USB_CTRL_EP_MPS, ep_type := USB_GET_ENDPOINT_TYPE USB_ENDPOINT_TYPE_CONTROL,
    ep_enable := True \<rparr>"
  define u1 where "u1 = (dcd (Edpt_Open 0x80 (USB_GET_ENDPOINT_TYPE USB_ENDPOINT_TYPE_CONTROL) USB_CTRL_EP_MPS) u)
    \<lparr> udc_in_ep := (udc_in_ep u)[0 := ?f (udc_in_ep u ! 0)] \<rparr>"
  define u2 where "u2 = (dcd (Edpt_Open 0 (USB_GET_ENDPOINT_TYPE USB_ENDPOINT_TYPE_CONTROL) USB_CTRL_EP_MPS) u1)
    \<lparr> udc_out_ep := (udc_out_ep u1)[0 := ?f (udc_out_ep u1 ! 0)] \<rparr>"
  have l: "0 < length (udc_in_ep u)" "0 < length (udc_out_ep u1)" "length (udc_out_ep u1) = 16"
    using assms by (simp_all add: u1_def)
  have "usbd_ep_open USB_CONTROL_IN_EP0 USB_ENDPOINT_TYPE_CONTROL USB_CTRL_EP_MPS u = Some (0, u1)"
    using l by (simp add: usbd_ep_open_def ep_update_def idx_7F Let_def u1_def)
      (simp add: USB_CONTROL_IN_EP0_def)
  moreover have "usbd_ep_open USB_CONTROL_OUT_EP0 USB_ENDPOINT_TYPE_CONTROL USB_CTRL_EP_MPS u1 = Some (0, u2)"
    using l by (simp add: usbd_ep_open_def ep_update_def idx_7F Let_def u2_def)
      (simp add: USB_CONTROL_OUT_EP0_def)
  moreover have "udc_ok u2" using assms by (simp add: udc_ok_def u2_def u1_def nth_list_update)
  moreover have "ep0_log u2 = ep0_log u" by (simp add: u2_def u1_def ep0_log_def dcd_def)
  ultimately show thesis by (rule that)
qed

lemma kept_room: "kept A I s s' \<Longrightarrow> ep0_room s \<Longrightarrow> ep0_room s'"
  by (simp add: kept_def ep0_same_def ep0_room_def)

lemma entry_callback:
  assumes "core_ok A I s" and "ep_in_table ep" and "ep AND 0x7F \<noteq> 0"
  shows "\<exists>m. msg_entry (ep OR 0x80) s = Some m \<and> msg_cb m \<in> {Cb_None, Cb_App}"
    and "\<exists>m. msg_entry (ep AND 0x7F) s = Some m \<and> msg_cb m \<in> {Cb_None, Cb_App}"
proof -
  have i: "unat (ep AND 0x7F) \<in> {1..15}" using assms(2,3) by (simp add: ep_in_table_def unat_gt_0 Suc_le_eq)
  have a: "(ep OR 0x80) AND 0x7F = ep AND 0x7F" "(ep AND 0x7F) AND 0x7F = ep AND 0x7F" "(ep AND 0x7F) AND 0x80 = 0"
    "(ep OR 0x80) AND 0x80 \<noteq> 0"
    by (simp_all add: bit.conj_disj_distrib2 and.assoc)
  have "length (g_tx_msg s) = 16" "length (g_rx_msg s) = 16" using assms(1) by (simp_all add: core_ok_def)
  then show "\<exists>m. msg_entry (ep OR 0x80) s = Some m \<and> msg_cb m \<in> {Cb_None, Cb_App}"
    "\<exists>m. msg_entry (ep AND 0x7F) s = Some m \<and> msg_cb m \<in> {Cb_None, Cb_App}"
    unfolding msg_entry_def Let_def a using assms(1) i by (simp_all add: core_ok_def a)
qed

context usb_application begin

lemma app_event_ok: "core_ok A I s \<Longrightarrow> ep0_room s \<Longrightarrow> core_ok A I (app_event E e s) \<and> ep0_room (app_event E e s)"
  using kept_app_event [OF kept_refl, of s e] kept_room [of A I s "app_event E e s"] by (simp add: kept_def)

lemma reset_ok:
  assumes "core_shape A I s"
  obtains s' where "irq_reset E s = Some s'" "core_ok A I s'" "ep0_room s'" "ep0_log (g_udc s') = ep0_log (g_udc s)"
proof -
  define u0 where "u0 = usbd_set_address 0 ((g_udc s)\<lparr> udc_is_suspend := False, udc_in_ep := replicate 16 ep_zero,
    udc_out_ep := replicate 16 ep_zero \<rparr>)"
  have "length (udc_in_ep u0) = 16" "length (udc_out_ep u0) = 16" "ep0_log u0 = ep0_log (g_udc s)"
    by (simp_all add: u0_def usbd_set_address_def) (simp add: ep0_log_def)
  then obtain u1 u2 where u: "usbd_ep_open USB_CONTROL_IN_EP0 USB_ENDPOINT_TYPE_CONTROL USB_CTRL_EP_MPS u0 = Some (0, u1)"
    "usbd_ep_open USB_CONTROL_OUT_EP0 USB_ENDPOINT_TYPE_CONTROL USB_CTRL_EP_MPS u1 = Some (0, u2)" "udc_ok u2"
    "ep0_log u2 = ep0_log (g_udc s)"
    using reset_opens by metis
  define s2 where "s2 = s\<lparr> g_device_address := 0, g_configuration := 0, g_ep0_next_state := USBD_EP0_STATE_SETUP,
    g_speed := USB_SPEED_UNKNOWN, g_udc := u2 \<rparr>"
  have s2: "core_ok A I s2" "ep0_room s2" using assms u(3) by (simp_all add: s2_def core_shape_def core_ok_def ep0_room_def)
  then have "usbd_class_event_notify_handler USBD_EVENT_RESET None s2 = Some s2"
    using no_hooks by (simp add: usbd_class_event_notify_handler_def notify_none core_ok_def)
  then have "irq_reset E s = Some (on_udc udc_bus_reset (app_event E USBD_EVENT_RESET s2))"
    using u(1,2)
    by (simp add: irq_reset_def usbd_event_reset_handler_def on_udc_def udc_call_def u0_def s2_def
        USB_NUM_BIDIR_ENDPOINTS_def Let_def)
  moreover have k: "kept A I s2 (app_event E USBD_EVENT_RESET s2)" using kept_app_event [OF kept_refl [OF s2(1)]] .
  then have "ep0_log (g_udc (app_event E USBD_EVENT_RESET s2)) = ep0_log (g_udc s)"
    using u(4) by (simp add: kept_def ep0_same_def) (simp add: s2_def)
  ultimately show thesis
    using app_event_ok [OF s2]
    by (intro that [of "on_udc udc_bus_reset (app_event E USBD_EVENT_RESET s2)"]) (simp_all add: on_udc_def core_ok_def ep0_room_def)
qed

lemma suspend_ok: "core_ok A I s \<Longrightarrow> ep0_room s \<Longrightarrow> core_ok A I (irq_suspend E s) \<and> ep0_room (irq_suspend E s)"
  unfolding irq_suspend_def usbd_event_suspend_handler_def
  by (simp add: app_event_ok)

lemma port_change_ok: "core_ok A I s \<Longrightarrow> ep0_room s \<Longrightarrow> core_ok A I (irq_port_change E s) \<and> ep0_room (irq_port_change E s)"
  unfolding irq_port_change_def usbd_event_disconnect_handler_def usbd_event_connect_handler_def usbd_event_resume_handler_def
  by (simp add: app_event_ok)

lemma callbacks_ok:
  assumes "core_ok A I s" and "ep0_room s"
  shows "core_ok A I (on_app (app_in_cb E mps ep n) s) \<and> ep0_room (on_app (app_in_cb E mps ep n) s)"
    and "core_ok A I (on_app (app_out_cb E ep bytes) s) \<and> ep0_room (on_app (app_out_cb E ep bytes) s)"
proof -
  obtain a u where "app_in_cb E mps ep n (g_app s, g_udc s) = (a, u)" by fastforce
  then show "core_ok A I (on_app (app_in_cb E mps ep n) s) \<and> ep0_room (on_app (app_in_cb E mps ep n) s)"
    using assms in_cb_keeps [of "g_app s" "g_udc s" mps ep n a u] by (simp add: on_app_def core_ok_def ep0_room_def)
  obtain a u where "app_out_cb E ep bytes (g_app s, g_udc s) = (a, u)" by fastforce
  then show "core_ok A I (on_app (app_out_cb E ep bytes) s) \<and> ep0_room (on_app (app_out_cb E ep bytes) s)"
    using assms out_cb_keeps [of "g_app s" "g_udc s" ep bytes a u] by (simp add: on_app_def core_ok_def ep0_room_def)
qed

lemma step_safe:
  assumes "core_ok A I s" and "ep0_room s" and "conformant s i"
  shows "if harmful conf bad s i then usb_step E i s = None
    else \<exists>s'. usb_step E i s = Some s' \<and> core_ok A I s' \<and> ep0_room s'"
proof (cases i)
  case Reset_Irq
  obtain s' where "irq_reset E s = Some s'" "core_ok A I s'" "ep0_room s'" using reset_ok [OF core_ok_shape [OF assms(1)]] by metis
  then show ?thesis using Reset_Irq by simp
next
  case (In_Irq ep n)
  show ?thesis
  proof (cases "ep AND 0x7F = 0")
    case True
    then have c: "ep = 0x80" "g_ep0_next_state s \<noteq> USBD_EP0_STATE_SETUP" "n \<le> g_residue s" using assms(3) In_Irq by simp_all
    obtain s' where "usbd_event_ep0_in_complete_handler n s = Some s'" "core_ok A I s'" "ep0_room s'"
      using in_complete_ok [OF assms(1,2) c(2,3)] by metis
    then show ?thesis
      using In_Irq c(1) assms(1) by (simp add: usbd_event_ep_in_complete_handler_def msg_entry_def core_ok_def)
  next
    case False
    then show ?thesis
      using In_Irq assms entry_callback(1) [OF assms(1) _ False] callbacks_ok(1) [OF assms(1,2)]
      by (auto simp: usbd_event_ep_in_complete_handler_def)
  qed
next
  case (Out_Irq ep bytes)
  show ?thesis
  proof (cases "ep AND 0x7F = 0")
    case True
    then have c: "ep = 0" "g_ep0_next_state s \<noteq> USBD_EP0_STATE_SETUP" "length bytes \<le> unat (g_residue s)"
      using assms(3) Out_Irq by simp_all
    then show ?thesis using Out_Irq out_complete_ok [OF assms(1,2) c(2,3)] by simp
  next
    case False
    then have "ep \<noteq> 0" by auto
    then show ?thesis
      using Out_Irq assms entry_callback(2) [OF assms(1) _ False] callbacks_ok(2) [OF assms(1,2)]
      by (auto simp: usbd_event_ep_out_complete_handler_def)
  qed
next
  case (Setup_Irq stp)
  then show ?thesis using setup_event [OF assms(1,2), of stp] by (auto split: if_splits)
qed (use suspend_ok [OF assms(1,2)] port_change_ok [OF assms(1,2)] in simp_all)

lemma reach_safe:
  assumes "usb_reach E T s0 s" and "core_ok A I s0" and "ep0_room s0"
    and "\<And>a u a' u'. T (a, u) (a', u') \<Longrightarrow> A a \<Longrightarrow> udc_ok u \<Longrightarrow> A a' \<and> udc_ok u'"
  shows "core_ok A I s \<and> ep0_room s"
  using assms(1)
proof (induction rule: usb_reach.induct)
  case (step s i s')
  then show ?case using step_safe [of s i] by (auto split: if_splits)
next
  case (registers s r)
  then show ?case by (simp add: on_udc_def core_ok_def ep0_room_def)
next
  case (thread s a u)
  then show ?case using assms(4) [OF thread.hyps(2)] by (simp add: core_ok_def ep0_room_def)
qed (use assms in simp)

text \<open>
  The contract with a stronger invariant: whatever else the callbacks and the class handlers keep may be
  added to it.
\<close>

lemma with_invariant:
  assumes "\<And>a u e a' u'. A a \<Longrightarrow> B a \<Longrightarrow> udc_ok u \<Longrightarrow> event_handler E e (a, u) = (a', u') \<Longrightarrow> B a'"
    and "\<And>a u mps ep n a' u'. A a \<Longrightarrow> B a \<Longrightarrow> udc_ok u \<Longrightarrow> app_in_cb E mps ep n (a, u) = (a', u') \<Longrightarrow> B a'"
    and "\<And>a u ep bytes a' u'. A a \<Longrightarrow> B a \<Longrightarrow> udc_ok u \<Longrightarrow> app_out_cb E ep bytes (a, u) = (a', u') \<Longrightarrow> B a'"
    and "\<And>i h stp len req a rc buf len' req' a'. i \<in> set I \<Longrightarrow> class_interface_handler i = Some h \<Longrightarrow> A a \<Longrightarrow> B a \<Longrightarrow>
      h stp (Req_Data 0) len (req, a) = Some (rc, buf, len', req', a') \<Longrightarrow> B a'"
  shows "usb_application E (\<lambda>a. A a \<and> B a) I bad conf"
proof (unfold_locales, goal_cases)
  case (1 a u e a' u')
  then show ?case using assms(1) event_keeps by blast
next
  case (2 a u mps ep n a' u')
  then show ?case using assms(2) in_cb_keeps by blast
next
  case (3 a u ep bytes a' u')
  then show ?case using assms(3) out_cb_keeps by blast
next
  case (4 i)
  then show ?case by (rule no_hooks)
next
  case (5 i h stp req a len)
  then obtain rc len' req' a' where "h stp (Req_Data 0) len (req, a) = Some (rc, Req_Data 0, len', req', a')" "length req' = 512" "A a'"
    using class_ok by blast
  then show ?case using assms(4) 5 by blast
next
  case (6 i h stp req len a)
  then show ?case by (rule class_bad)
next
  case (7 sp)
  show ?case by (rule config)
next
  case (8 sp d)
  then show ?case by (rule headed)
next
  case (9 sp d)
  then show ?case by (rule other_speed)
next
  case (10 sp k str)
  then show ?case by (rule strings)
next
  case 11
  show ?case by (rule no_msosv1)
next
  case (12 m)
  then show ?case by (rule msosv2)
next
  case (13 b)
  then show ?case by (rule bos)
next
  case (14 w)
  then show ?case by (rule webusb)
next
  case (15 i)
  then show ?case by (rule hid)
qed

end

end
