(* ===== verification/Usbd_Host.thy ===== *)
theory Usbd_Host
  imports Usbd_Ep0
begin

text \<open>
  Control transfers as the host sees them.  The host takes the transfers the core starts on endpoint 0
  one after another and decides by the rules of USB when a data stage is over; a transfer that the core
  does not start when the host waits for it is \<open>None\<close>.
\<close>

section \<open>The host\<close>

text \<open>
  The data stage of a read of at most \<open>left\<close> bytes: it is over with a packet that is not full or when
  all bytes are there.
\<close>

function host_in :: "'d usbd_env \<Rightarrow> nat \<Rightarrow> 'd usbd_core \<Rightarrow> (u8 list \<times> 'd usbd_core) option" where
  "host_in E left s =
    (case last (ep0_log (g_udc s)) of
       Xfer_In _ d \<Rightarrow>
         if left < length d then None
         else do {
           s \<leftarrow> usb_step E (In_Irq 0x80 (of_nat (length d))) s;
           if d = [] \<or> length d mod 64 \<noteq> 0 \<or> length d = left then Some (d, s)
           else do { (rest, s) \<leftarrow> host_in E (left - length d) s; Some (d @ rest, s) }
         }
     | _ \<Rightarrow> None)"
  by pat_completeness auto
termination by (relation "measure (\<lambda>(E, left, s). left)") auto

text \<open>
  A request is refused when the core has stalled endpoint 0 since \<open>b\<close> and started no transfer on it.
\<close>

definition ep0_stalls :: "hpm_udc \<Rightarrow> dcd_call list" where
  "ep0_stalls u = filter (\<lambda>c. c = Edpt_Stall USB_CONTROL_IN_EP0) (udc_log u)"

definition ep0_refused :: "'d usbd_core \<Rightarrow> 'd usbd_core \<Rightarrow> bool" where
  "ep0_refused b s \<longleftrightarrow> ep0_log (g_udc s) = ep0_log (g_udc b) \<and> ep0_stalls (g_udc s) \<noteq> ep0_stalls (g_udc b)"

text \<open>
  A read: setup, data stage, status stage.  The data are \<open>None\<close> when the core has refused it by a stall; a
  core that neither stalls nor starts a transfer leaves the host waiting.
\<close>

definition host_read :: "'d usbd_env \<Rightarrow> usb_setup_packet \<Rightarrow> 'd usbd_core \<Rightarrow> (u8 list option \<times> 'd usbd_core) option" where
  "host_read E stp s =
    do {
      t \<leftarrow> usb_step E (Setup_Irq stp) s;
      if ep0_refused s t then Some (None, t)
      else if ep0_log (g_udc t) = ep0_log (g_udc s) then None
      else do {
        (d, t) \<leftarrow> host_in E (unat (wLength stp)) t;
        if last (ep0_log (g_udc t)) \<noteq> Xfer_Out 0 0 then None
        else do { t \<leftarrow> usb_step E (Out_Irq 0 []) t; Some (Some d, t) }
      }
    }"

text \<open>A request without data, and a write: whether the core has accepted it.\<close>

definition host_status :: "'d usbd_env \<Rightarrow> 'd usbd_core \<Rightarrow> 'd usbd_core \<Rightarrow> (bool \<times> 'd usbd_core) option" where
  "host_status E b s =
    (if ep0_refused b s then Some (False, s)
     else if ep0_log (g_udc s) = ep0_log (g_udc b) then None
     else if last (ep0_log (g_udc s)) \<noteq> Xfer_In 0x80 [] then None
     else do { s \<leftarrow> usb_step E (In_Irq 0x80 0) s; Some (True, s) })"

definition host_command :: "'d usbd_env \<Rightarrow> usb_setup_packet \<Rightarrow> 'd usbd_core \<Rightarrow> (bool \<times> 'd usbd_core) option" where
  "host_command E stp s = do { t \<leftarrow> usb_step E (Setup_Irq stp) s; host_status E s t }"

definition host_write :: "'d usbd_env \<Rightarrow> usb_setup_packet \<Rightarrow> u8 list \<Rightarrow> 'd usbd_core \<Rightarrow> (bool \<times> 'd usbd_core) option" where
  "host_write E stp bytes s =
    do {
      t \<leftarrow> usb_step E (Setup_Irq stp) s;
      if ep0_refused s t then Some (False, t)
      else if ep0_log (g_udc t) = ep0_log (g_udc s) then None
      else if last (ep0_log (g_udc t)) \<noteq> Xfer_Out 0 (length bytes) then None
      else do { u \<leftarrow> usb_step E (Out_Irq 0 bytes) t; host_status E t u }
    }"

section \<open>Completed transfers\<close>

text \<open>From one transfer to the next: nothing remains, and the next one is started.\<close>

definition moved_on :: "('d \<Rightarrow> bool) \<Rightarrow> 'd usbd_interface list \<Rightarrow> 'd usbd_core \<Rightarrow> dcd_call list \<Rightarrow> ep0_state \<Rightarrow> 'd usbd_core \<Rightarrow> bool" where
  "moved_on A I s xs e s' \<longleftrightarrow> core_ok A I s' \<and> g_setup s' = g_setup s \<and> g_configuration s' = g_configuration s
     \<and> g_app s' = g_app s \<and> g_residue s' = 0 \<and> \<not> g_zlp_flag s' \<and> g_ep0_next_state s' = e
     \<and> data_log (g_udc s') = data_log (g_udc s) \<and> ep0_log (g_udc s') = ep0_log (g_udc s) @ xs"

lemma ep0_in_step:
  assumes "core_ok A I s"
  shows "usb_step E (In_Irq 0x80 n) s = usbd_event_ep0_in_complete_handler n s"
  using assms by (simp add: usbd_event_ep_in_complete_handler_def msg_entry_def core_ok_def)

lemma in_done_zlp:
  assumes "core_ok A I s" and "g_zlp_flag s"
  obtains s' where "usb_step E (In_Irq 0x80 (g_residue s)) s = Some s'"
    "moved_on A I s [Xfer_In 0x80 []] (g_ep0_next_state s) s'"
proof -
  let ?s = "s\<lparr> g_ep0_data_buf := ptr_add (g_ep0_data_buf s) (unat (g_residue s)), g_residue := 0, g_zlp_flag := False \<rparr>"
  obtain u where u: "ep0_write Null 0 ?s = Some (?s\<lparr> g_udc := u \<rparr>)" "udc_ok u"
    "ep0_log u = ep0_log (g_udc ?s) @ [Xfer_In USB_CONTROL_IN_EP0 []]" "data_log u = data_log (g_udc ?s)"
    using ep0_write_null [of A I ?s] assms(1) by auto
  then show thesis
    using assms
    by (intro that [of "?s\<lparr> g_udc := u \<rparr>"])
      (simp_all add: ep0_in_step usbd_event_ep0_in_complete_handler_def Let_def moved_on_def core_ok_udc usb_consts del: usb_step.simps)
qed

lemma in_done_read:
  assumes "core_ok A I s" and "\<not> g_zlp_flag s"
    and "wLength (g_setup s) \<noteq> 0" and "bmRequestType (g_setup s) AND USB_REQUEST_DIR_MASK = USB_REQUEST_DIR_IN"
  obtains s' where "usb_step E (In_Irq 0x80 (g_residue s)) s = Some s'"
    "moved_on A I s [Xfer_Out 0 0] USBD_EP0_STATE_OUT_STATUS s'"
proof -
  let ?s = "s\<lparr> g_ep0_data_buf := ptr_add (g_ep0_data_buf s) (unat (g_residue s)), g_residue := 0,
    g_ep0_next_state := USBD_EP0_STATE_OUT_STATUS \<rparr>"
  obtain u where u: "ep0_read Null 0 ?s = Some (?s\<lparr> g_udc := u \<rparr>)" "udc_ok u"
    "ep0_log u = ep0_log (g_udc ?s) @ [Xfer_Out USB_CONTROL_OUT_EP0 0]" "data_log u = data_log (g_udc ?s)"
    using ep0_read_posts [of A I ?s Null 0] assms(1) by auto
  then show thesis
    using assms
    by (intro that [of "?s\<lparr> g_udc := u \<rparr>"])
      (simp_all add: ep0_in_step usbd_event_ep0_in_complete_handler_def Let_def moved_on_def core_ok_udc usb_consts del: usb_step.simps)
qed

text \<open>The status stage of a read.\<close>

lemma out_status_done:
  assumes "core_ok A I s"
  obtains s' where "usb_step E (Out_Irq 0 []) s = Some s'" "core_ok A I s'" "g_ep0_next_state s' = USBD_EP0_STATE_SETUP"
    "g_configuration s' = g_configuration s" "g_app s' = g_app s" "ep0_log (g_udc s') = ep0_log (g_udc s)"
    "data_log (g_udc s') = data_log (g_udc s)"
  using assms
  by (intro that [of "s\<lparr> g_ep0_next_state := USBD_EP0_STATE_SETUP \<rparr>"])
    (simp_all add: usbd_event_ep_out_complete_handler_def msg_entry_def core_ok_def usbd_event_ep0_out_complete_handler_def)

text \<open>The data stage of what has been posted: a short answer of whole packets is closed by an empty one.\<close>

lemma host_in_posted:
  assumes "posted_in A I D zlp before s" and "D \<noteq> []" and "length D \<le> left"
    and "zlp \<longleftrightarrow> length D < left \<and> length D mod 64 = 0"
    and "wLength (g_setup s) \<noteq> 0" and "bmRequestType (g_setup s) AND USB_REQUEST_DIR_MASK = USB_REQUEST_DIR_IN"
  obtains s' where "host_in E left s = Some (D, s')"
    "moved_on A I s ((if zlp then [Xfer_In 0x80 []] else []) @ [Xfer_Out 0 0]) USBD_EP0_STATE_OUT_STATUS s'"
proof -
  have p: "core_ok A I s" "g_residue s = of_nat (length D)" "g_zlp_flag s = zlp" "last (ep0_log (g_udc s)) = Xfer_In 0x80 D"
    using assms(1) by (simp_all add: posted_in_def usb_consts)
  show thesis
  proof (cases zlp)
    case False
    obtain s' where s': "usb_step E (In_Irq 0x80 (of_nat (length D))) s = Some s'"
      "moved_on A I s [Xfer_Out 0 0] USBD_EP0_STATE_OUT_STATUS s'"
      using in_done_read [OF p(1) _ assms(5,6), of E] p False by auto
    have over: "D = [] \<or> length D mod 64 \<noteq> 0 \<or> length D = left" using False assms(3,4) by auto
    have "host_in E left s = Some (D, s')"
      using assms(3) p(4) s'(1) over by (subst host_in.simps) (simp del: usb_step.simps)
    then show thesis using False s' by (intro that [of s']) simp_all
  next
    case True
    obtain t where t: "usb_step E (In_Irq 0x80 (of_nat (length D))) s = Some t"
      "moved_on A I s [Xfer_In 0x80 []] (g_ep0_next_state s) t"
      using in_done_zlp [OF p(1), of E] p True by auto
    have m: "core_ok A I t" "\<not> g_zlp_flag t" "g_setup t = g_setup s" "g_residue t = 0" "last (ep0_log (g_udc t)) = Xfer_In 0x80 []"
      using t(2) by (simp_all add: moved_on_def)
    obtain s' where s': "usb_step E (In_Irq 0x80 0) t = Some s'" "moved_on A I t [Xfer_Out 0 0] USBD_EP0_STATE_OUT_STATUS s'"
      using in_done_read [OF m(1,2), of E] m(3,4) assms(5,6) by auto
    have "host_in E (left - length D) t = Some ([], s')"
      using m(5) s'(1) by (subst host_in.simps) (simp del: usb_step.simps)
    then have "host_in E left s = Some (D, s')"
      using True assms(2-4) p(4) t(1) by (subst host_in.simps) (simp del: usb_step.simps host_in.simps)
    then show thesis using True s'(2) t(2) by (intro that [of s']) (simp_all add: moved_on_def)
  qed
qed

text \<open>A request that is answered with data: the host gets them, as far as it has asked for them.\<close>

definition in_request :: "usb_setup_packet \<Rightarrow> bool" where
  "in_request stp \<longleftrightarrow> wLength stp \<noteq> 0 \<and> bmRequestType stp AND USB_REQUEST_DIR_MASK = USB_REQUEST_DIR_IN"

lemma in_request_no_out: "in_request stp \<Longrightarrow> \<not> out_data stp"
  by (simp add: in_request_def out_data_def usb_consts)

lemma host_read_answered:
  assumes "core_ok A I s" and "in_request stp"
    and "usbd_setup_request_handler E stp (Req_Data 0) (ucast (wLength stp)) (ep0_prepare stp s) = Some (True, buf, len, t)"
    and "kept A I (ep0_prepare stp s) t" and "offer_ok buf len" and "len \<noteq> 0"
  defines "r \<equiv> min (unat len) (unat (wLength stp))"
  assumes "r \<le> 512"
  obtains s' where "host_read E stp s = Some (Some (take r (ptr_data buf (g_req_data t))), s')" "core_ok A I s'"
    "g_ep0_next_state s' = USBD_EP0_STATE_SETUP" "g_configuration s' = g_configuration t" "g_app s' = g_app t"
    "data_log (g_udc s') = data_log (g_udc t)"
proof -
  let ?D = "take r (ptr_data buf (g_req_data t))"
  let ?zlp = "len < ucast (wLength stp) \<and> len mod 64 = 0"
  obtain t1 where t1: "usbd_event_ep0_setup_complete_handler E stp s = Some t1" "g_setup t1 = stp"
    "posted_in A I ?D ?zlp (ep0_log (g_udc s)) t1" "length ?D = r" "g_configuration t1 = g_configuration t" "g_app t1 = g_app t"
    "data_log (g_udc t1) = data_log (g_udc t)"
    using setup_reply [OF assms(1) in_request_no_out [OF assms(2)] assms(3,4), folded r_def] assms(5,8)
    by (metis (no_types, lifting))
  have pos: "0 < unat len" "0 < unat (wLength stp)" using assms(2,6) by (simp_all add: in_request_def unat_gt_0)
  then have ne: "?D \<noteq> []" using t1(4) by (auto simp: r_def)
  have "unat (len mod 64) = unat len mod 64" by (simp add: unat_mod_distrib)
  then have "len mod 64 = 0 \<longleftrightarrow> unat len mod 64 = 0" by (metis unat_eq_zero)
  then have z: "?zlp \<longleftrightarrow> length ?D < unat (wLength stp) \<and> length ?D mod 64 = 0"
    unfolding t1(4) by (auto simp: r_def word_less_nat_alt min_def)
  have le: "length ?D \<le> unat (wLength stp)" unfolding t1(4) by (simp add: r_def)
  have dir: "wLength (g_setup t1) \<noteq> 0" "bmRequestType (g_setup t1) AND USB_REQUEST_DIR_MASK = USB_REQUEST_DIR_IN"
    using assms(2) t1(2) by (simp_all add: in_request_def)
  obtain t2 where t2: "host_in E (unat (wLength stp)) t1 = Some (?D, t2)"
    "moved_on A I t1 ((if ?zlp then [Xfer_In 0x80 []] else []) @ [Xfer_Out 0 0]) USBD_EP0_STATE_OUT_STATUS t2"
    using host_in_posted [OF t1(3) ne le z dir] by metis
  then have m: "core_ok A I t2" "last (ep0_log (g_udc t2)) = Xfer_Out 0 0" "g_configuration t2 = g_configuration t" "g_app t2 = g_app t"
    "data_log (g_udc t2) = data_log (g_udc t)"
    using t1(5-7) by (simp_all add: moved_on_def)
  obtain s' where s': "usb_step E (Out_Irq 0 []) t2 = Some s'" "core_ok A I s'" "g_ep0_next_state s' = USBD_EP0_STATE_SETUP"
    "g_configuration s' = g_configuration t2" "g_app s' = g_app t2" "data_log (g_udc s') = data_log (g_udc t2)"
    using out_status_done [OF m(1)] by metis
  have "ep0_log (g_udc t1) \<noteq> ep0_log (g_udc s)" using t1(3) by (simp add: posted_in_def)
  then have "host_read E stp s = Some (Some ?D, s')"
    using t1(1) t2(1) m(2) s'(1) by (simp add: host_read_def ep0_refused_def del: host_in.simps usb_step.simps(1-5))
  then show thesis using s' m by (intro that [of s']) simp_all
qed

text \<open>A request that is refused: the core stalls endpoint 0 and is back for the next request.\<close>

lemma host_read_refused:
  assumes "core_ok A I s" and "in_request stp"
    and "usbd_setup_request_handler E stp (Req_Data 0) (ucast (wLength stp)) (ep0_prepare stp s) = Some (False, buf, len, t)"
    and "kept A I (ep0_prepare stp s) t" and "g_udc t = g_udc s"
  obtains s' where "host_read E stp s = Some (None, s')" "core_ok A I s'" "g_ep0_next_state s' = USBD_EP0_STATE_SETUP"
    "g_configuration s' = g_configuration t" "g_app s' = g_app t"
    "udc_log (g_udc s') = udc_log (g_udc s) @ [Edpt_Stall USB_CONTROL_IN_EP0]"
proof -
  define s' where "s' = ep0_stall (t\<lparr> g_data_len := len, g_ep0_next_state := USBD_EP0_STATE_SETUP \<rparr>)"
  have run: "usbd_event_ep0_setup_complete_handler E stp s = Some s'"
    using setup_complete_cases [OF in_request_no_out [OF assms(2)], of E s] assms(3) by (simp add: s'_def)
  have log: "udc_log (g_udc s') = udc_log (g_udc s) @ [Edpt_Stall USB_CONTROL_IN_EP0]"
    by (simp add: s'_def ep0_stall_def on_udc_def usbd_ep_set_stall_def assms(5))
  then have "ep0_refused s s'" by (simp add: ep0_refused_def ep0_log_def ep0_stalls_def)
  then have "host_read E stp s = Some (None, s')" by (simp add: host_read_def run)
  moreover have "core_ok A I t" using assms(4) by (simp add: kept_def)
  then have "core_ok A I s'" by (simp add: s'_def)
  ultimately show thesis
    using log by (intro that [of s']) (simp_all add: s'_def, simp_all add: ep0_stall_def on_udc_def)
qed

text \<open>The status stage of a request without data and of a write: an empty transfer to the host.\<close>

lemma in_status_done:
  assumes "core_ok A I s" and "\<not> in_request (g_setup s)" and "g_residue s = 0" and "\<not> g_zlp_flag s"
    and "g_ep0_next_state s = USBD_EP0_STATE_IN_STATUS"
  obtains s' where "usb_step E (In_Irq 0x80 0) s = Some s'" "core_ok A I s'" "g_ep0_next_state s' = USBD_EP0_STATE_SETUP"
    "g_configuration s' = g_configuration s" "g_app s' = g_app s" "data_log (g_udc s') = data_log (g_udc s)"
proof -
  define s1 where "s1 = s\<lparr> g_ep0_data_buf := ptr_add (g_ep0_data_buf s) 0, g_residue := 0,
    g_ep0_next_state := USBD_EP0_STATE_SETUP \<rparr>"
  define s2 where "s2 = (if g_test_req s1 then on_udc (usbd_execute_test_mode (hi8 (wIndex (g_setup s)))) s1\<lparr> g_test_req := False \<rparr> else s1)"
  have "udc_ok (g_udc s)" using assms(1) by (simp add: core_ok_def)
  then have "core_ok A I s2" using assms(1) by (simp add: s1_def s2_def on_udc_def core_ok_udc)
  moreover have "usb_step E (In_Irq 0x80 0) s = Some s2"
    using assms
    by (auto simp: ep0_in_step usbd_event_ep0_in_complete_handler_def Let_def in_request_def s1_def s2_def simp del: usb_step.simps)
  ultimately show thesis
    by (intro that [of s2]) (simp_all add: s2_def s1_def on_udc_def usbd_execute_test_mode_def)
qed

lemma host_command_answered:
  assumes "core_ok A I s" and "wLength stp = 0"
    and "usbd_setup_request_handler E stp (Req_Data 0) (ucast (wLength stp)) (ep0_prepare stp s) = Some (True, buf, len, t)"
    and "kept A I (ep0_prepare stp s) t" and "offer_ok buf len"
  obtains s' where "host_command E stp s = Some (True, s')" "core_ok A I s'" "g_ep0_next_state s' = USBD_EP0_STATE_SETUP"
    "g_configuration s' = g_configuration t" "g_app s' = g_app t" "data_log (g_udc s') = data_log (g_udc t)"
proof -
  have no: "\<not> out_data stp" "\<not> in_request stp" using assms(2) by (simp_all add: out_data_def in_request_def)
  obtain t1 where t1: "usbd_event_ep0_setup_complete_handler E stp s = Some t1" "g_setup t1 = stp"
    "posted_in A I [] False (ep0_log (g_udc s)) t1" "g_configuration t1 = g_configuration t" "g_app t1 = g_app t"
    "data_log (g_udc t1) = data_log (g_udc t)"
    using setup_reply [OF assms(1) no(1) assms(3,4)] assms(2,5) by (simp, metis)
  then have p: "core_ok A I t1" "g_residue t1 = 0" "\<not> g_zlp_flag t1" "g_ep0_next_state t1 = USBD_EP0_STATE_IN_STATUS"
    "ep0_log (g_udc t1) = ep0_log (g_udc s) @ [Xfer_In 0x80 []]"
    by (simp_all add: posted_in_def usb_consts)
  obtain s' where s': "usb_step E (In_Irq 0x80 0) t1 = Some s'" "core_ok A I s'" "g_ep0_next_state s' = USBD_EP0_STATE_SETUP"
    "g_configuration s' = g_configuration t1" "g_app s' = g_app t1" "data_log (g_udc s') = data_log (g_udc t1)"
    using in_status_done [OF p(1) _ p(2-4)] no(2) t1(2) by metis
  have "host_command E stp s = Some (True, s')"
    using t1(1) p(5) s'(1) by (simp add: host_command_def host_status_def ep0_refused_def del: usb_step.simps(1-5))
  then show thesis using s' t1(4-6) by (intro that [of s']) simp_all
qed

lemma host_write_accepted:
  assumes "core_ok A I s" and "out_data stp" and "unat (wLength stp) \<le> 512" and "length bytes = unat (wLength stp)"
    and "\<And>t. core_ok A I t \<Longrightarrow> g_configuration t = g_configuration s \<Longrightarrow> g_app t = g_app s \<Longrightarrow>
      take (length bytes) (g_req_data t) = bytes \<Longrightarrow>
      \<exists>buf len t'. usbd_setup_request_handler E stp (Req_Data 0) (ucast (wLength stp)) t = Some (True, buf, len, t') \<and> kept A I t t'
        \<and> g_configuration t' = g_configuration t \<and> g_app t' = g_app t \<and> data_log (g_udc t') = data_log (g_udc t)"
  obtains s' where "host_write E stp bytes s = Some (True, s')" "core_ok A I s'" "g_ep0_next_state s' = USBD_EP0_STATE_SETUP"
    "g_configuration s' = g_configuration s" "g_app s' = g_app s" "data_log (g_udc s') = data_log (g_udc s)"
proof -
  obtain u where u: "usbd_event_ep0_setup_complete_handler E stp s = Some ((out_expected stp s)\<lparr> g_udc := u \<rparr>)" "udc_ok u"
    "ep0_log u = ep0_log (g_udc s) @ [Xfer_Out USB_CONTROL_OUT_EP0 (unat (wLength stp))]" "data_log u = data_log (g_udc s)"
    using setup_out_posts [OF assms(1-3)] by blast
  define t1 where "t1 = (out_expected stp s)\<lparr> g_udc := u \<rparr>"
  have t1: "core_ok A I t1" "g_ep0_data_buf t1 = Req_Data 0" "g_residue t1 = ucast (wLength stp)" "g_udc t1 = u"
    "g_setup t1 = stp" "g_configuration t1 = g_configuration s" "g_app t1 = g_app s" "g_data_len t1 = ucast (wLength stp)" "\<not> g_zlp_flag t1"
    using assms(1) u(2) by (simp_all add: t1_def core_ok_udc out_expected_fields) (simp_all add: out_expected_def ep0_prepare_def)
  have b: "bytes \<noteq> []" "length bytes \<le> unat (g_residue t1)" "0 + unat (g_residue t1) \<le> 512"
    using assms(2-4) t1(3) by (auto simp: out_data_def unat_eq_zero)
  define t2 where "t2 = (out_received 0 bytes t1)\<lparr> g_ep0_data_buf := Req_Data 0 \<rparr>"
  have r: "core_ok A I (out_received 0 bytes t1)" by (rule out_complete_step(2) [OF t1(1) b(1,2) t1(2) b(3)])
  have z: "g_residue t1 - of_nat (length bytes) = 0" using assms(4) t1(3) by simp
  have t2: "core_ok A I t2" "g_residue t2 = 0" "g_setup t2 = stp" "g_configuration t2 = g_configuration s" "g_app t2 = g_app s"
    "g_data_len t2 = ucast (wLength stp)" "g_udc t2 = u" "\<not> g_zlp_flag t2"
    using r t1 z by (simp_all add: t2_def out_received_fields)
  have d: "take (length bytes) (g_req_data t2) = bytes" by (simp add: t2_def out_received_def)
  obtain buf len t3 where t3: "usbd_setup_request_handler E stp (Req_Data 0) (ucast (wLength stp)) t2 = Some (True, buf, len, t3)"
    "kept A I t2 t3" "g_configuration t3 = g_configuration t2" "g_app t3 = g_app t2" "data_log (g_udc t3) = data_log (g_udc t2)"
    using assms(5) [OF t2(1,4,5) d] by blast
  define t4 where "t4 = t3\<lparr> g_ep0_data_buf := buf, g_data_len := len, g_ep0_next_state := USBD_EP0_STATE_IN_STATUS \<rparr>"
  have k: "core_ok A I t3" "g_setup t3 = stp" "g_residue t3 = 0" "\<not> g_zlp_flag t3" "ep0_log (g_udc t3) = ep0_log u"
    using t2 t3(2) by (simp_all add: kept_def ep0_same_def)
  have t4: "core_ok A I t4" "g_residue t4 = 0" "\<not> g_zlp_flag t4" "g_setup t4 = stp" "g_ep0_next_state t4 = USBD_EP0_STATE_IN_STATUS"
    "g_configuration t4 = g_configuration s" "g_app t4 = g_app s" "ep0_log (g_udc t4) = ep0_log u" "data_log (g_udc t4) = data_log u"
    using k t2 t3 by (simp_all add: t4_def)
  obtain v where v: "ep0_write Null 0 t4 = Some (t4\<lparr> g_udc := v \<rparr>)" "udc_ok v"
    "ep0_log v = ep0_log (g_udc t4) @ [Xfer_In USB_CONTROL_IN_EP0 []]" "data_log v = data_log (g_udc t4)"
    using ep0_write_null [OF t4(1)] by blast
  define t5 where "t5 = t4\<lparr> g_udc := v \<rparr>"
  have t5: "core_ok A I t5" "\<not> in_request (g_setup t5)" "g_residue t5 = 0" "\<not> g_zlp_flag t5" "g_ep0_next_state t5 = USBD_EP0_STATE_IN_STATUS"
    using t4 v(2) in_request_no_out [of stp] assms(2) by (auto simp: t5_def core_ok_udc)
  have "usb_step E (Out_Irq 0 bytes) t1 = Some t5"
    using out_complete_step(1) [OF t1(1) b(1,2) t1(2) b(3), of E] t1(5,8) t2(2,3,6) t3(1) v(1) z
    by (simp add: out_continues_def out_received_fields t2_def t4_def t5_def Let_def)
  moreover obtain s' where s': "usb_step E (In_Irq 0x80 0) t5 = Some s'" "core_ok A I s'" "g_ep0_next_state s' = USBD_EP0_STATE_SETUP"
    "g_configuration s' = g_configuration t5" "g_app s' = g_app t5" "data_log (g_udc s') = data_log (g_udc t5)"
    using in_status_done [OF t5] by metis
  moreover have "ep0_log (g_udc t5) = ep0_log u @ [Xfer_In 0x80 []]" "ep0_log u = ep0_log (g_udc s) @ [Xfer_Out 0 (length bytes)]"
    using v(3) t4(8) u(3) assms(4) by (simp_all add: t5_def usb_consts)
  ultimately have "host_write E stp bytes s = Some (True, s')"
    using u(1) t1(4) by (simp add: host_write_def host_status_def ep0_refused_def t1_def del: usb_step.simps(1-5))
  then show thesis using s' t4(6,7,9) u(4) v(4) by (intro that [of s']) (simp_all add: t5_def)
qed

end
