(* ===== verification/Usb_Composite.thy ===== *)
theory Usb_Composite
  imports Usb_Device Usbd_Host
begin

text \<open>
  The composite device on the USB device core: what \<^verbatim>\<open>applications/usb_device.c\<close> and the interface
  modules register, the start-up, and the locale \<open>usb_application\<close> interpreted on it.  The calls that a
  module makes into the stack (its log) are run on the controller driver in their order.
\<close>

section \<open>What is registered\<close>

definition exlink_composite_descriptor :: usb_descriptor where
  "exlink_composite_descriptor =
    \<lparr> desc_device = Some (\<lambda>speed. Some (device_descriptor_callback speed)),
      desc_config = Some (\<lambda>speed. Some (config_descriptor_callback speed)),
      desc_quality = Some (\<lambda>speed. Some (device_quality_descriptor_callback speed)),
      desc_other_speed = Some (\<lambda>speed. Some (other_speed_descriptor_callback speed)),
      desc_string = Some string_descriptor_callback,
      desc_msosv1 = None, desc_msosv2 = Some msosv2_desc, desc_webusb = None, desc_bos = Some bos_desc \<rparr>"

text \<open>Transfers that a module starts; none of the callbacks looks at the verdict.\<close>

fun replay_call :: "usb_call \<Rightarrow> hpm_udc \<Rightarrow> hpm_udc" where
  "replay_call (Ep_Start_Read b ep n) u =
    (case usbd_ep_start_read ep False (of_nat n) u of None \<Rightarrow> u | Some (_, u) \<Rightarrow> u)"
| "replay_call (Ep_Start_Write b ep d) u =
    (case usbd_ep_start_write ep (Some d) (of_nat (length d)) u of None \<Rightarrow> u | Some (_, u) \<Rightarrow> u)"
| "replay_call _ u = u"

definition dev_run :: "('t exlink_device \<Rightarrow> 't exlink_device) \<Rightarrow> 't exlink_device \<times> hpm_udc \<Rightarrow> 't exlink_device \<times> hpm_udc" where
  "dev_run f = (\<lambda>(d, u). let d' = f d in (d', fold replay_call (drop (length (dev_calls d)) (dev_calls d')) u))"

text \<open>The callback of an endpoint; an OUT callback finds the packet in the buffer of its module.\<close>

definition exlink_in_cb :: "u8 \<Rightarrow> nat \<Rightarrow> u8 \<Rightarrow> nat \<Rightarrow> 't exlink_device \<Rightarrow> 't exlink_device" where
  "exlink_in_cb busid mps ep n d =
    (if ep = EXLINK_EP_CMD_IN then on_ctrl (exlink_ctrl_in_cb mps busid n) d
     else if ep = EXLINK_EP_DAP_IN then on_dap (map_prod (dap_in_cb mps busid n) id) d
     else if ep = EXLINK_EP_HID_IN then on_dapv1 (hid_in_cb busid n) d
     else if ep = EXLINK_EP_CDC1_IN then on_uart (cdc_port_in mps busid 0 n) d
     else if ep = EXLINK_EP_CDC2_IN then on_uart (cdc_port_in mps busid 1 n) d
     else d)"

definition overlay :: "u8 list \<Rightarrow> u8 list \<Rightarrow> u8 list" where
  "overlay bytes buf = bytes @ drop (length bytes) buf"

definition exlink_out_cb :: "u8 \<Rightarrow> u8 \<Rightarrow> u8 list \<Rightarrow> 't exlink_device \<Rightarrow> 't exlink_device" where
  "exlink_out_cb busid ep bytes d =
    (let n = length bytes in
     if ep = EXLINK_EP_CMD_OUT
     then on_ctrl (\<lambda>s. exlink_ctrl_out_cb busid n (s\<lparr> ctrl_ep_out_buf := overlay bytes (ctrl_ep_out_buf s) \<rparr>)) d
     else if ep = EXLINK_EP_DAP_OUT
     then on_dap (map_prod (\<lambda>s. dap_out_cb busid n (s\<lparr> dap_out_buf := overlay bytes (dap_out_buf s) \<rparr>)) id) d
     else if ep = EXLINK_EP_HID_OUT
     then on_dapv1 (\<lambda>s. hid_out_cb busid n (s\<lparr> s_hid_out_buf := overlay bytes (s_hid_out_buf s) \<rparr>)) d
     else if ep = EXLINK_EP_CDC1_OUT
     then on_uart (\<lambda>s. cdc_port_out busid 0 n (on_port 0 (\<lambda>p. p\<lparr> cdc_rx := overlay bytes (cdc_rx p) \<rparr>) s)) d
     else if ep = EXLINK_EP_CDC2_OUT
     then on_uart (\<lambda>s. cdc_port_out busid 1 n (on_port 1 (\<lambda>p. p\<lparr> cdc_rx := overlay bytes (cdc_rx p) \<rparr>) s)) d
     else d)"

text \<open>There is one bus, number 0.\<close>

definition exlink_env :: "'t exlink_device usbd_env" where
  "exlink_env =
    \<lparr> descriptors = exlink_composite_descriptor,
      event_handler = (\<lambda>e. dev_run (exlink_usbd_event_handler 0 e)),
      app_in_cb = (\<lambda>mps ep n. dev_run (case mps ep of None \<Rightarrow> \<lambda>d. d | Some m \<Rightarrow> exlink_in_cb 0 (unat m) ep (unat n))),
      app_out_cb = (\<lambda>ep bytes. dev_run (exlink_out_cb 0 ep bytes)) \<rparr>"

text \<open>The interface structures that the modules hand over, by interface number.\<close>

definition exlink_interface :: "u8 \<Rightarrow> 'd usbd_interface" where
  "exlink_interface i =
    (if i = EXLINK_IFNUM_HID
     then usbd_hid_init_intf interface_zero s_dapv1_hid_report_desc (of_nat EXLINK_HID_REPORT_DESC_SIZE)
     else if i \<in> {EXLINK_IFNUM_CDC1, EXLINK_IFNUM_CDC1 + 1, EXLINK_IFNUM_CDC2, EXLINK_IFNUM_CDC2 + 1}
     then usbd_cdc_acm_init_intf interface_zero
     else interface_zero)"

fun register_call :: "usb_call \<Rightarrow> 't exlink_device usbd_core \<Rightarrow> 't exlink_device usbd_core option" where
  "register_call (Desc_Register b) s = Some (usbd_desc_register s)"
| "register_call (Add_Interface b i) s = usbd_add_interface (exlink_interface i) s"
| "register_call (Add_Endpoint b ep) s = usbd_add_endpoint ep s"
| "register_call (Usbd_Initialize b r) s = map_option snd (usbd_initialize exlink_env s)"
| "register_call _ s = Some s"

fun register_calls :: "usb_call list \<Rightarrow> 't exlink_device usbd_core \<Rightarrow> 't exlink_device usbd_core option" where
  "register_calls [] s = Some s"
| "register_calls (c # cs) s = do { s \<leftarrow> register_call c s; register_calls cs s }"

definition exlink_boot :: "'t wire \<Rightarrow> u32 \<Rightarrow> 't exlink_device usbd_core \<Rightarrow> 't exlink_device usbd_core option" where
  "exlink_boot W reg s =
    (let d = exlink_usb_init W 0 reg ((g_app s)\<lparr> dev_calls := [] \<rparr>) in register_calls (dev_calls d) (s\<lparr> g_app := d \<rparr>))"

section \<open>The device as an application of the core\<close>

definition exlink_ok :: "'t exlink_device \<Rightarrow> bool" where
  "exlink_ok d \<longleftrightarrow> uart_ok (dev_uart d)"

definition exlink_interfaces :: "'t exlink_device usbd_interface list" where
  "exlink_interfaces = map (\<lambda>i. (exlink_interface (of_nat i))\<lparr> intf_num := of_nat i \<rparr>) [0..<7]"

text \<open>A line coding of more than its seven bytes, for one of the interfaces of the serial ports.\<close>

definition exlink_bad :: "'t exlink_device usbd_interface \<Rightarrow> usb_setup_packet \<Rightarrow> bool" where
  "exlink_bad i stp \<longleftrightarrow> intf_num i \<in> {3, 4, 5, 6} \<and> bRequest stp = CDC_REQUEST_SET_LINE_CODING \<and> 7 < unat (wLength stp)"

lemma interface_list:
  "exlink_interfaces =
    [interface_zero\<lparr> intf_num := 0 \<rparr>, interface_zero\<lparr> intf_num := 1 \<rparr>,
     (usbd_hid_init_intf interface_zero s_dapv1_hid_report_desc 33)\<lparr> intf_num := 2 \<rparr>,
     (usbd_cdc_acm_init_intf interface_zero)\<lparr> intf_num := 3 \<rparr>, (usbd_cdc_acm_init_intf interface_zero)\<lparr> intf_num := 4 \<rparr>,
     (usbd_cdc_acm_init_intf interface_zero)\<lparr> intf_num := 5 \<rparr>, (usbd_cdc_acm_init_intf interface_zero)\<lparr> intf_num := 6 \<rparr>]"
proof -
  have "[0..<7] = [0, 1, 2, 3, 4, 5, 6]" by (simp add: upt_rec)
  then show ?thesis
    by (simp add: exlink_interfaces_def exlink_interface_def ifnum_defs EXLINK_HID_REPORT_DESC_SIZE_def)
qed

text \<open>Transfers that the modules start are not on endpoint 0.\<close>

fun data_endpoint :: "usb_call \<Rightarrow> bool" where
  "data_endpoint (Ep_Start_Read b ep n) \<longleftrightarrow> ep AND 0x7F \<noteq> 0"
| "data_endpoint (Ep_Start_Write b ep d) \<longleftrightarrow> ep AND 0x7F \<noteq> 0"
| "data_endpoint _ \<longleftrightarrow> True"

definition harmless :: "('t exlink_device \<Rightarrow> 't exlink_device) \<Rightarrow> bool" where
  "harmless f \<longleftrightarrow> (\<forall>d. exlink_ok d \<longrightarrow> exlink_ok (f d)
     \<and> (\<exists>cs. dev_calls (f d) = dev_calls d @ cs \<and> list_all data_endpoint cs))"

lemma start_transfer_keeps:
  assumes "udc_ok u"
  shows "usbd_ep_start_read ep null n u = Some (r, u') \<Longrightarrow> udc_ok u'"
    and "usbd_ep_start_write ep data n u = Some (r, u') \<Longrightarrow> udc_ok u'"
  using assms
  by (auto simp: usbd_ep_start_read_def usbd_ep_start_write_def ep_update_def udc_ok_def Let_def nth_list_update
      split: if_splits bind_splits option.splits)

lemma start_transfer_log:
  assumes "ep AND 0x7F \<noteq> 0"
  shows "usbd_ep_start_read ep null n u = Some (r, u') \<Longrightarrow> ep0_log u' = ep0_log u"
    and "usbd_ep_start_write ep data n u = Some (r, u') \<Longrightarrow> ep0_log u' = ep0_log u"
proof -
  have ep: "ep \<noteq> USB_CONTROL_IN_EP0" "ep \<noteq> USB_CONTROL_OUT_EP0" using assms by (auto simp: usb_consts)
  have upd: "ep0_log v = ep0_log u" if "ep_update e f u = Some v" for e f v
    using that by (auto simp: ep_update_def ep0_log_def Let_def split: if_splits)
  show "usbd_ep_start_read ep null n u = Some (r, u') \<Longrightarrow> ep0_log u' = ep0_log u"
    "usbd_ep_start_write ep data n u = Some (r, u') \<Longrightarrow> ep0_log u' = ep0_log u"
    using ep upd by (auto simp: usbd_ep_start_read_def usbd_ep_start_write_def split: if_splits bind_splits option.splits)
qed

lemma replay_call_keeps:
  assumes "data_endpoint c" and "udc_ok u"
  shows "udc_ok (replay_call c u) \<and> ep0_log (replay_call c u) = ep0_log u"
proof (cases c)
  case (Ep_Start_Read b ep n)
  show ?thesis
  proof (cases "usbd_ep_start_read ep False (of_nat n) u")
    case (Some r)
    then obtain rc u' where "usbd_ep_start_read ep False (of_nat n) u = Some (rc, u')" by (cases r) auto
    then show ?thesis
      using start_transfer_keeps(1) [OF assms(2)] start_transfer_log(1) assms(1) Ep_Start_Read by simp
  qed (use assms Ep_Start_Read in simp)
next
  case (Ep_Start_Write b ep d)
  show ?thesis
  proof (cases "usbd_ep_start_write ep (Some d) (of_nat (length d)) u")
    case (Some r)
    then obtain rc u' where "usbd_ep_start_write ep (Some d) (of_nat (length d)) u = Some (rc, u')" by (cases r) auto
    then show ?thesis
      using start_transfer_keeps(2) [OF assms(2)] start_transfer_log(2) assms(1) Ep_Start_Write by simp
  qed (use assms Ep_Start_Write in simp)
qed (use assms in simp_all)

lemma replay_keeps:
  "list_all data_endpoint cs \<Longrightarrow> udc_ok u \<Longrightarrow> udc_ok (fold replay_call cs u) \<and> ep0_log (fold replay_call cs u) = ep0_log u"
  by (induction cs arbitrary: u) (simp_all add: replay_call_keeps)

lemma dev_run_keeps:
  assumes "harmless f" and "exlink_ok d" and "udc_ok u" and "dev_run f (d, u) = (d', u')"
  shows "exlink_ok d' \<and> udc_ok u' \<and> ep0_log u' = ep0_log u"
proof -
  obtain cs where "exlink_ok (f d)" "dev_calls (f d) = dev_calls d @ cs" "list_all data_endpoint cs"
    using assms(1,2) by (auto simp: harmless_def)
  then show ?thesis using assms(3,4) replay_keeps [of cs u] by (auto simp: dev_run_def Let_def)
qed

lemma harmlessI:
  "(\<And>d. exlink_ok d \<Longrightarrow> exlink_ok (f d) \<and> (\<exists>cs. dev_calls (f d) = dev_calls d @ cs \<and> list_all data_endpoint cs)) \<Longrightarrow> harmless f"
  by (simp add: harmless_def)

lemma harmless_compose:
  assumes "harmless f" and "harmless g"
  shows "harmless (\<lambda>d. g (f d))"
proof (rule harmlessI)
  fix d :: "'a exlink_device"
  assume "exlink_ok d"
  then obtain cs where f: "exlink_ok (f d)" "dev_calls (f d) = dev_calls d @ cs" "list_all data_endpoint cs"
    using assms(1) by (auto simp: harmless_def)
  then obtain cs' where "exlink_ok (g (f d))" "dev_calls (g (f d)) = dev_calls (f d) @ cs'" "list_all data_endpoint cs'"
    using assms(2) by (auto simp: harmless_def)
  with f show "exlink_ok (g (f d)) \<and> (\<exists>cs. dev_calls (g (f d)) = dev_calls d @ cs \<and> list_all data_endpoint cs)" by simp
qed

lemma harmless_id: "harmless (\<lambda>d. d)"
  by (simp add: harmless_def)

lemma harmless_ctrl:
  assumes "\<And>s. \<exists>cs. ctrl_calls (f s) = ctrl_calls s @ cs \<and> list_all data_endpoint cs"
  shows "harmless (on_ctrl f)"
  by (rule harmlessI) (use assms [of "_\<lparr> ctrl_calls := _ \<rparr>"] in \<open>simp add: on_ctrl_def exlink_ok_def Let_def\<close>)

lemma harmless_dap:
  assumes "\<And>s. \<exists>cs. dap_calls (f s) = dap_calls s @ cs \<and> list_all data_endpoint cs"
  shows "harmless (on_dap (map_prod f id))"
  by (rule harmlessI) (use assms [of "_\<lparr> dap_calls := _ \<rparr>"] in \<open>simp add: on_dap_def exlink_ok_def\<close>)

lemma harmless_dapv1:
  assumes "\<And>s. \<exists>cs. hid_calls (f s) = hid_calls s @ cs \<and> list_all data_endpoint cs"
  shows "harmless (on_dapv1 f)"
  by (rule harmlessI) (use assms [of "_\<lparr> hid_calls := _ \<rparr>"] in \<open>simp add: on_dapv1_def exlink_ok_def Let_def\<close>)

lemma harmless_uart:
  assumes "\<And>s. uart_ok s \<Longrightarrow> uart_ok (f s) \<and> (\<exists>cs. uart_calls (f s) = uart_calls s @ cs \<and> list_all data_endpoint cs)"
  shows "harmless (on_uart f)"
proof (rule harmlessI)
  fix d :: "'a exlink_device"
  assume "exlink_ok d"
  then have "uart_ok ((dev_uart d)\<lparr> uart_calls := dev_calls d \<rparr>)" by (simp add: exlink_ok_def uart_ok_def)
  from assms [OF this] show "exlink_ok (on_uart f d) \<and> (\<exists>cs. dev_calls (on_uart f d) = dev_calls d @ cs \<and> list_all data_endpoint cs)"
    by (simp add: on_uart_def exlink_ok_def Let_def)
qed

lemma rx_ring_put_calls [simp]: "ctrl_calls (rx_ring_put bs s) = ctrl_calls s"
  by (induction bs s rule: rx_ring_put.induct) (simp_all add: rx_store_def)

lemma uart_ok_call [simp]: "uart_ok (uart_call c s) = uart_ok s"
  by (simp add: uart_ok_def)

lemma uart_ok_port [simp]:
  "uart_ok s \<Longrightarrow> uart_ok (on_port i (\<lambda>p. p\<lparr> cdc_tx_busy := b \<rparr>) s)"
  "uart_ok s \<Longrightarrow> uart_ok (on_port i (\<lambda>p. p\<lparr> cdc_rx := g p \<rparr>) s)"
  "uart_ok s \<Longrightarrow> uart_ok (on_port i (\<lambda>p. p\<lparr> cdc_tx := h p, cdc_tx_busy := b \<rparr>) s)"
  by (simp_all add: on_port_ok)

lemma port_endpoints:
  assumes "uart_ok s" and "i < 2"
  shows "cdc_in_ep (s_cdc s ! i) AND 0x7F \<noteq> 0" "cdc_out_ep (s_cdc s ! i) AND 0x7F \<noteq> 0"
proof -
  have "i = 0 \<or> i = 1" using assms(2) by auto
  then show "cdc_in_ep (s_cdc s ! i) AND 0x7F \<noteq> 0" "cdc_out_ep (s_cdc s ! i) AND 0x7F \<noteq> 0"
    using uart_ok_ep [OF assms] by (auto simp: endpoint_defs)
qed

lemma harmless_events: "harmless (exlink_usbd_event_handler 0 e :: 'a exlink_device \<Rightarrow> 'a exlink_device)"
proof -
  have 1: "harmless (on_ctrl usb_if_ctrl_on_reset)" "harmless (on_ctrl (usb_if_ctrl_on_configured 0))"
    by (rule harmless_ctrl; simp add: usb_if_ctrl_on_reset_def usb_if_ctrl_on_configured_def ctrl_call_def endpoint_defs)+
  have 2: "harmless (on_dap (map_prod usb_if_dap_on_reset id))" "harmless (on_dap (map_prod (usb_if_dap_on_configured 0) id))"
    by (rule harmless_dap; simp add: usb_if_dap_on_reset_def usb_if_dap_on_configured_def dap_call_def endpoint_defs)+
  have 3: "harmless (on_dapv1 usb_if_dapv1_on_reset)" "harmless (on_dapv1 (usb_if_dapv1_on_configured 0))"
    by (rule harmless_dapv1; simp add: usb_if_dapv1_on_reset_def usb_if_dapv1_on_configured_def hid_call_def endpoint_defs)+
  have "[0..<2] = [0, Suc 0]" by (simp add: upt_rec)
  then have 4: "harmless (on_uart (usb_if_uart_on_configured 0))"
    by (intro harmless_uart) (simp add: usb_if_uart_on_configured_def cdc_configured_def port_endpoints Let_def)
  have 5: "harmless (on_uart usb_if_uart_on_reset)"
    by (rule harmless_uart) (simp add: usb_if_uart_on_reset_def)
  define r c where "r = (\<lambda>d :: 'a exlink_device. on_uart usb_if_uart_on_reset (on_dapv1 usb_if_dapv1_on_reset
      (on_dap (map_prod usb_if_dap_on_reset id) (on_ctrl usb_if_ctrl_on_reset d))))"
    and "c = (\<lambda>d :: 'a exlink_device. on_uart (usb_if_uart_on_configured 0) (on_dapv1 (usb_if_dapv1_on_configured 0)
      (on_dap (map_prod (usb_if_dap_on_configured 0) id) (on_ctrl (usb_if_ctrl_on_configured 0) d))))"
  have "harmless r" unfolding r_def by (rule harmless_compose [OF harmless_compose [OF harmless_compose [OF 1(1) 2(1)] 3(1)] 5])
  moreover have "harmless c" unfolding c_def
    by (rule harmless_compose [OF harmless_compose [OF harmless_compose [OF 1(2) 2(2)] 3(2)] 4])
  moreover have "exlink_usbd_event_handler 0 e = (if e = USBD_EVENT_RESET \<or> e = USBD_EVENT_DISCONNECTED then r
      else if e = USBD_EVENT_CONFIGURED then c else (\<lambda>d :: 'a exlink_device. d))"
    by (rule ext) (simp add: r_def c_def)
  ultimately show "harmless (exlink_usbd_event_handler 0 e :: 'a exlink_device \<Rightarrow> 'a exlink_device)"
    using harmless_id [where 'a = 'a] by (cases "e = USBD_EVENT_RESET \<or> e = USBD_EVENT_DISCONNECTED"; cases "e = USBD_EVENT_CONFIGURED") simp_all
qed

lemma harmless_in_cb: "harmless (exlink_in_cb 0 mps ep n)"
proof -
  have 1: "harmless (on_ctrl (exlink_ctrl_in_cb mps 0 n))"
    by (rule harmless_ctrl) (simp add: exlink_ctrl_in_cb_def ctrl_call_def endpoint_defs)
  have 2: "harmless (on_dap (map_prod (dap_in_cb mps 0 n) id))"
    by (rule harmless_dap) (simp add: dap_in_cb_def dap_call_def endpoint_defs Let_def)
  have 3: "harmless (on_dapv1 (hid_in_cb 0 n))"
    by (rule harmless_dapv1) (simp add: hid_in_cb_def)
  have 4: "harmless (on_uart (cdc_port_in mps 0 i n))" if "i < 2" for i
    by (rule harmless_uart) (use that in \<open>simp add: cdc_port_in_def port_endpoints\<close>)
  show ?thesis
    using 1 2 3 4 [of 0] 4 [of 1] harmless_id by (auto simp: harmless_def exlink_in_cb_def)
qed

lemma harmless_out_cb: "harmless (exlink_out_cb 0 ep bytes)"
proof -
  let ?n = "length bytes"
  have 1: "harmless (on_ctrl (\<lambda>s. exlink_ctrl_out_cb 0 ?n (s\<lparr> ctrl_ep_out_buf := overlay bytes (ctrl_ep_out_buf s) \<rparr>)))"
    by (rule harmless_ctrl) (simp add: exlink_ctrl_out_cb_def ctrl_call_def endpoint_defs Let_def)
  have 2: "harmless (on_dap (map_prod (\<lambda>s. dap_out_cb 0 ?n (s\<lparr> dap_out_buf := overlay bytes (dap_out_buf s) \<rparr>)) id))"
    by (rule harmless_dap) (simp add: dap_out_cb_def dap_call_def endpoint_defs Let_def)
  have 3: "harmless (on_dapv1 (\<lambda>s. hid_out_cb 0 ?n (s\<lparr> s_hid_out_buf := overlay bytes (s_hid_out_buf s) \<rparr>)))"
    by (rule harmless_dapv1) (simp add: hid_out_cb_def hid_call_def endpoint_defs)
  have 4: "harmless (on_uart (\<lambda>s. cdc_port_out 0 i ?n (on_port i (\<lambda>p. p\<lparr> cdc_rx := overlay bytes (cdc_rx p) \<rparr>) s)))"
    if "i < 2" for i
    by (rule harmless_uart) (use that in \<open>simp add: cdc_port_out_def port_endpoints Let_def\<close>)
  show ?thesis
    using 1 2 3 4 [of 0] 4 [of 1] harmless_id by (auto simp: harmless_def exlink_out_cb_def Let_def)
qed

text \<open>The configuration as a row of descriptors.\<close>

lemma config_is_row: "config_row (hd (config_parts 2 m)) (tl (config_parts 2 m))" "hd (config_parts 2 m) ! 5 = 1"
  by (simp_all add: config_row_def config_parts_def rd16_def rd_def ep_in_table_def)

lemma config_callback_row: "config_descriptor_callback speed =
    hd (config_parts 2 (if speed = USB_SPEED_HIGH then 512 else 64)) @ concat (tl (config_parts 2 (if speed = USB_SPEED_HIGH then 512 else 64)))"
proof -
  have "config_parts 2 m \<noteq> []" for m by (simp add: config_parts_def)
  then have "concat (config_parts 2 m) = hd (config_parts 2 m) @ concat (tl (config_parts 2 m))" for m
    by (metis concat.simps(2) list.collapse)
  then show ?thesis
    by (simp add: config_descriptor_callback_def config_descriptor_hs_def config_descriptor_fs_def config_blob
        EXLINK_BULK_MPS_HS_def EXLINK_BULK_MPS_FS_def)
qed

lemma other_speed_length: "rd16 (other_speed_descriptor_callback speed) 2 = Some 219" "length (other_speed_descriptor_callback speed) = 219"
  by (simp_all add: other_speed_descriptor_callback_def other_speed_descriptor_hs_def other_speed_descriptor_fs_def config_blob
      config_parts_def rd16_def rd_def)

lemma line_coding_length: "length (line_coding_bytes c) = 7"
  by (simp add: line_coding_bytes_def bytes32_def)

lemma msos_length: "length (compat_id msosv2_desc) = 330" "compat_id_len msosv2_desc = 330"
proof -
  have "length (concat os20_list) = 330" by (simp add: os20_list_def length_guid_part chars8_def)
  then show "length (compat_id msosv2_desc) = 330" "compat_id_len msosv2_desc = 330"
    by (simp_all add: msosv2_desc_def os20_concat os20_sizes)
qed

lemma bos_length: "length (bos_string bos_desc) = 33" "bos_string_len bos_desc = 33"
  by (simp_all add: bos_desc_def USBD_BinaryObjectStoreDescriptor_def USBD_BOS_WTOTALLENGTH_def USBD_WINUSB_DESC_LEN_def WBVAL_bytes)

interpretation exlink: usb_application exlink_env exlink_ok exlink_interfaces exlink_bad 1
proof unfold_locales
  fix a a' :: "'a exlink_device" and u u' e
  assume "exlink_ok a" "udc_ok u" "event_handler exlink_env e (a, u) = (a', u')"
  then show "exlink_ok a' \<and> udc_ok u' \<and> ep0_log u' = ep0_log u"
    using dev_run_keeps [OF harmless_events] by (simp add: exlink_env_def)
next
  fix a a' :: "'a exlink_device" and u u' mps ep n
  assume "exlink_ok a" "udc_ok u" "app_in_cb exlink_env mps ep n (a, u) = (a', u')"
  then show "exlink_ok a' \<and> udc_ok u' \<and> ep0_log u' = ep0_log u"
    using dev_run_keeps [OF harmless_in_cb] dev_run_keeps [OF harmless_id]
    by (cases "mps ep") (simp_all add: exlink_env_def)
next
  fix a a' :: "'a exlink_device" and u u' ep bytes
  assume "exlink_ok a" "udc_ok u" "app_out_cb exlink_env ep bytes (a, u) = (a', u')"
  then show "exlink_ok a' \<and> udc_ok u' \<and> ep0_log u' = ep0_log u"
    using dev_run_keeps [OF harmless_out_cb] by (simp add: exlink_env_def)
next
  fix i :: "'a exlink_device usbd_interface"
  assume "i \<in> set exlink_interfaces"
  then show "notify_handler i = None \<and> vendor_handler i = None \<and> class_endpoint_handler i = None"
    by (auto simp: interface_list interface_zero_def usbd_hid_init_intf_def usbd_cdc_acm_init_intf_def)
next
  fix i :: "'a exlink_device usbd_interface" and h stp len and req :: "u8 list" and a :: "'a exlink_device"
  assume i: "i \<in> set exlink_interfaces" "class_interface_handler i = Some h" "\<not> exlink_bad i stp" "length req = 512" "exlink_ok a"
  then have "(h = hid_class_interface_request_handler)
    \<or> (h = cdc_acm_class_interface_request_handler \<and> \<not> (bRequest stp = CDC_REQUEST_SET_LINE_CODING \<and> 7 < unat (wLength stp)))"
    by (auto simp: interface_list interface_zero_def usbd_hid_init_intf_def usbd_cdc_acm_init_intf_def exlink_bad_def)
  then show "\<exists>rc len' req' a'. h stp (Req_Data 0) len (req, a) = Some (rc, Req_Data 0, len', req', a') \<and> length req' = 512 \<and> exlink_ok a'"
    using i(4,5)
    by (auto simp: hid_class_interface_request_handler_def cdc_acm_class_interface_request_handler_def ptr_write_def ptr_bytes_def
        line_coding_length usb_consts Let_def)
next
  fix i :: "'a exlink_device usbd_interface" and h stp len and req :: "u8 list" and a :: "'a exlink_device"
  assume i: "i \<in> set exlink_interfaces" "class_interface_handler i = Some h" "exlink_bad i stp" "length req = 512"
  then have "h = cdc_acm_class_interface_request_handler" "bRequest stp = CDC_REQUEST_SET_LINE_CODING" "7 < unat (wLength stp)"
    by (auto simp: interface_list interface_zero_def usbd_hid_init_intf_def usbd_cdc_acm_init_intf_def exlink_bad_def)
  then show "h stp (Req_Data 0) len (req, a) = None"
    by (simp add: cdc_acm_class_interface_request_handler_def ptr_bytes_def Let_def)
next
  fix sp
  show "\<exists>c ds. from_callback (desc_config (descriptors exlink_env)) sp = Some (c @ concat ds) \<and> config_row c ds \<and> c ! 5 = 1"
    using config_is_row config_callback_row by (fastforce simp: exlink_env_def exlink_composite_descriptor_def from_callback_def)
next
  fix sp d
  assume "from_callback (desc_device (descriptors (exlink_env :: 'a exlink_device usbd_env))) sp = Some d
    \<or> from_callback (desc_quality (descriptors (exlink_env :: 'a exlink_device usbd_env))) sp = Some d"
  then show "\<exists>n. rd d 0 = Some n \<and> unat n \<le> length d"
    by (auto simp: exlink_env_def exlink_composite_descriptor_def from_callback_def rd_def device_descriptor_callback_def
        device_descriptor_def USB_DEVICE_DESCRIPTOR_INIT_def WBVAL_def device_quality_descriptor_callback_def
        device_quality_descriptor_def)
next
  fix sp d
  assume "from_callback (desc_other_speed (descriptors (exlink_env :: 'a exlink_device usbd_env))) sp = Some d"
  then show "\<exists>n. rd16 d 2 = Some n \<and> n \<le> length d"
    by (auto simp: exlink_env_def exlink_composite_descriptor_def from_callback_def other_speed_length)
next
  fix sp k str
  assume "Option.bind (desc_string (descriptors (exlink_env :: 'a exlink_device usbd_env))) (\<lambda>f. f sp k) = Some str"
  then have k: "\<not> EXLINK_STR_IDX_MAX < k" "str = string_descriptors ! unat k"
    by (auto simp: exlink_env_def exlink_composite_descriptor_def string_descriptor_callback_def split: if_splits)
  then have "unat k < length string_descriptors"
    by (simp add: EXLINK_STR_IDX_MAX_def string_descriptors_def word_less_nat_alt)
  then have "str \<in> set string_descriptors" using k(2) by simp
  then show "str \<noteq> [] \<and> length str < 32767" by (auto simp: string_descriptors_def chars8_def)
next
  show "desc_msosv1 (descriptors exlink_env) = None" by (simp add: exlink_env_def exlink_composite_descriptor_def)
next
  fix m
  assume "desc_msosv2 (descriptors (exlink_env :: 'a exlink_device usbd_env)) = Some m"
  then have m: "m = msosv2_desc" by (simp add: exlink_env_def exlink_composite_descriptor_def)
  show "compat_id_len m \<le> length (compat_id m)" unfolding m msos_length by simp
next
  fix b
  assume "desc_bos (descriptors (exlink_env :: 'a exlink_device usbd_env)) = Some b"
  then have b: "b = bos_desc" by (simp add: exlink_env_def exlink_composite_descriptor_def)
  show "bos_string_len b \<le> length (bos_string b)" unfolding b bos_length by simp
next
  fix w
  assume "desc_webusb (descriptors (exlink_env :: 'a exlink_device usbd_env)) = Some w"
  then show "url_string_len w \<le> length (url_string w)" by (simp add: exlink_env_def exlink_composite_descriptor_def)
next
  fix i :: "'a exlink_device usbd_interface"
  assume "i \<in> set exlink_interfaces"
  then show "case hid_report_descriptor i of None \<Rightarrow> hid_report_descriptor_len i = 0 | Some d \<Rightarrow> unat (hid_report_descriptor_len i) \<le> length d"
    by (auto simp: interface_list interface_zero_def usbd_hid_init_intf_def usbd_cdc_acm_init_intf_def hid_report_desc_reads(1)
        EXLINK_HID_REPORT_DESC_SIZE_def)
qed

section \<open>Start-up\<close>

fun new_interfaces :: "nat \<Rightarrow> usb_call list \<Rightarrow> 't exlink_device usbd_interface list" where
  "new_interfaces k [] = []"
| "new_interfaces k (Add_Interface b i # cs) = (exlink_interface i)\<lparr> intf_num := of_nat k \<rparr> # new_interfaces (Suc k) cs"
| "new_interfaces k (c # cs) = new_interfaces k cs"

text \<open>The endpoints that have a callback of the application.\<close>

definition served :: "'d usbd_core \<Rightarrow> u8 \<Rightarrow> bool" where
  "served s ep \<longleftrightarrow> (case msg_entry ep s of None \<Rightarrow> False | Some m \<Rightarrow> msg_cb m = Cb_App)"

lemma same_endpoint:
  assumes "ep AND 0x7F = (a :: u8) AND 0x7F" and "ep AND 0x80 = 0 \<longleftrightarrow> a AND 0x80 = 0"
  shows "ep = a"
proof -
  have all: "(0x7F :: u8) OR 0x80 = - 1" by code_simp
  have "x = (x AND 0x7F) OR (x AND 0x80)" for x :: u8
    by (simp only: bit.conj_disj_distrib [symmetric] all and.right_neutral)
  moreover have "x AND 2 ^ n = (if bit x n then 2 ^ n else 0)" for x :: u8 and n
    by (rule bit_eqI) (auto simp: bit_and_iff bit_exp_iff)
  from this [of _ 7] have "x AND 0x80 = 0 \<or> x AND 0x80 = 0x80" for x :: u8 by auto
  ultimately show ?thesis using assms by metis
qed


lemma served_added:
  assumes "length (g_tx_msg s) = 16" and "length (g_rx_msg s) = 16" and "ep_in_table a"
  obtains s' where "usbd_add_endpoint a s = Some s'" "\<And>ep. ep_in_table ep \<Longrightarrow> served s' ep \<longleftrightarrow> ep = a \<or> served s ep"
    "s' = s\<lparr> g_tx_msg := g_tx_msg s', g_rx_msg := g_rx_msg s' \<rparr>" "length (g_tx_msg s') = 16" "length (g_rx_msg s') = 16"
    "a AND 0x7F \<noteq> 0 \<Longrightarrow> core_shape A I s \<Longrightarrow> core_shape A I s'"
proof (cases "a AND 0x80 = 0")
  case True
  let ?i = "unat (a AND 0x7F)"
  let ?s = "s\<lparr> g_rx_msg := (g_rx_msg s)[?i := (g_rx_msg s ! ?i)\<lparr> msg_ep := a, msg_cb := Cb_App \<rparr>] \<rparr>"
  have i: "?i < 16" using assms(3) by (simp add: ep_in_table_def)
  show thesis
  proof (rule that [of ?s])
    show "usbd_add_endpoint a s = Some ?s" using True i assms(2) by (simp add: usbd_add_endpoint_def msg_update_def Let_def)
    show "served ?s ep \<longleftrightarrow> ep = a \<or> served s ep" if "ep_in_table ep" for ep
    proof (cases "ep AND 0x80 = 0")
      case e: True
      have "unat (ep AND 0x7F) = ?i \<longleftrightarrow> ep = a" using same_endpoint [of ep a] e True by (metis word_unat_eq_iff)
      then show ?thesis using that e i assms by (auto simp: served_def msg_entry_def ep_in_table_def Let_def nth_list_update)
    next
      case False
      then show ?thesis using True by (auto simp: served_def msg_entry_def Let_def)
    qed
  qed (use assms i in \<open>auto simp: core_shape_def nth_list_update unat_eq_zero\<close>)
next
  case False
  let ?i = "unat (a AND 0x7F)"
  let ?s = "s\<lparr> g_tx_msg := (g_tx_msg s)[?i := (g_tx_msg s ! ?i)\<lparr> msg_ep := a, msg_cb := Cb_App \<rparr>] \<rparr>"
  have i: "?i < 16" using assms(3) by (simp add: ep_in_table_def)
  show thesis
  proof (rule that [of ?s])
    show "usbd_add_endpoint a s = Some ?s" using False i assms(1) by (simp add: usbd_add_endpoint_def msg_update_def Let_def)
    show "served ?s ep \<longleftrightarrow> ep = a \<or> served s ep" if "ep_in_table ep" for ep
    proof (cases "ep AND 0x80 = 0")
      case e: False
      have "unat (ep AND 0x7F) = ?i \<longleftrightarrow> ep = a" using same_endpoint [of ep a] e False by (metis word_unat_eq_iff)
      then show ?thesis using that e i assms by (auto simp: served_def msg_entry_def ep_in_table_def Let_def nth_list_update)
    next
      case True
      then show ?thesis using False by (auto simp: served_def msg_entry_def Let_def)
    qed
  qed (use assms i in \<open>auto simp: core_shape_def nth_list_update unat_eq_zero\<close>)
qed


text \<open>The registrations, one after another.\<close>

fun regular :: "usb_call \<Rightarrow> bool" where
  "regular (Add_Endpoint b ep) \<longleftrightarrow> ep_in_table ep \<and> ep AND 0x7F \<noteq> 0"
| "regular (Add_Interface b i) \<longleftrightarrow> True"
| "regular _ \<longleftrightarrow> False"

lemma registrations:
  "list_all regular cs \<Longrightarrow> core_shape A I s \<Longrightarrow> length I + length (new_interfaces (length I) cs) \<le> 16 \<Longrightarrow>
   \<exists>s'. register_calls cs s = Some s' \<and> core_shape A (I @ new_interfaces (length I) cs) s'
     \<and> (\<forall>ep. ep_in_table ep \<longrightarrow> (served s' ep \<longleftrightarrow> ep \<in> set (registered_endpoints cs) \<or> served s ep))
     \<and> g_app s' = g_app s \<and> g_udc s' = g_udc s \<and> g_ep0_next_state s' = g_ep0_next_state s"
proof (induction cs arbitrary: I s)
  case (Cons c cs)
  show ?case
  proof (cases c)
    case (Add_Interface b i)
    let ?i = "(exlink_interface i)\<lparr> intf_num := of_nat (length I) \<rparr>"
    let ?t = "s\<lparr> g_intf := I @ [?i] \<rparr>"
    have len: "length (g_intf s) < 16" "g_intf s = I" using Cons.prems(2,3) Add_Interface by (simp_all add: core_shape_def)
    have "core_shape A (I @ [?i]) ?t" using Cons.prems(2) by (simp add: core_shape_def)
    from Cons.IH [OF _ this] Cons.prems(1,3) Add_Interface
    obtain s' where "register_calls cs ?t = Some s'" "core_shape A ((I @ [?i]) @ new_interfaces (length (I @ [?i])) cs) s'"
      "\<forall>ep. ep_in_table ep \<longrightarrow> (served s' ep \<longleftrightarrow> ep \<in> set (registered_endpoints cs) \<or> served ?t ep)"
      "g_app s' = g_app ?t" "g_udc s' = g_udc ?t" "g_ep0_next_state s' = g_ep0_next_state ?t" by auto
    moreover have "served ?t ep = served s ep" for ep by (simp add: served_def msg_entry_def)
    ultimately show ?thesis
      using Add_Interface len by (intro exI [of _ s']) (simp add: usbd_add_interface_def)
  next
    case (Add_Endpoint b ep)
    then have ep: "ep_in_table ep" "ep AND 0x7F \<noteq> 0" using Cons.prems(1) by simp_all
    have l: "length (g_tx_msg s) = 16" "length (g_rx_msg s) = 16" using Cons.prems(2) by (simp_all add: core_shape_def)
    obtain t where t: "usbd_add_endpoint ep s = Some t" "\<And>e. ep_in_table e \<Longrightarrow> served t e \<longleftrightarrow> e = ep \<or> served s e"
      "t = s\<lparr> g_tx_msg := g_tx_msg t, g_rx_msg := g_rx_msg t \<rparr>" "core_shape A I t"
      using served_added [OF l ep(1), where A = A and I = I] ep(2) Cons.prems(2) by metis
    have same: "g_app t = g_app s" "g_udc t = g_udc s" "g_ep0_next_state t = g_ep0_next_state s"
      by (subst t(3), simp)+
    from Cons.IH [OF _ t(4)] Cons.prems(1,3) Add_Endpoint
    obtain s' where "register_calls cs t = Some s'" "core_shape A (I @ new_interfaces (length I) cs) s'"
      "\<forall>ep. ep_in_table ep \<longrightarrow> (served s' ep \<longleftrightarrow> ep \<in> set (registered_endpoints cs) \<or> served t ep)"
      "g_app s' = g_app t" "g_udc s' = g_udc t" "g_ep0_next_state s' = g_ep0_next_state t" by auto
    then show ?thesis using Add_Endpoint t(1,2) same by (intro exI [of _ s']) auto
  qed (use Cons.prems(1) in simp_all)
qed simp


definition exlink_registrations :: "usb_call list" where
  "exlink_registrations =
    [Add_Interface 0 0, Add_Endpoint 0 0x01, Add_Endpoint 0 0x81, Add_Interface 0 1, Add_Endpoint 0 0x02, Add_Endpoint 0 0x82,
     Add_Interface 0 2, Add_Endpoint 0 0x03, Add_Endpoint 0 0x83,
     Add_Interface 0 3, Add_Interface 0 4, Add_Endpoint 0 0x05, Add_Endpoint 0 0x85,
     Add_Interface 0 5, Add_Interface 0 6, Add_Endpoint 0 0x07, Add_Endpoint 0 0x87]"

lemma init_calls:
  "dev_calls (exlink_usb_init W 0 reg (d\<lparr> dev_calls := [] \<rparr>)) = Desc_Register 0 # exlink_registrations @ [Usbd_Initialize 0 reg]"
  by (simp add: exlink_registrations_def exlink_usb_init_def dev_call_def on_ctrl_def on_dap_def on_dapv1_def on_uart_def Let_def
      usb_if_ctrl_add_def ctrl_call_def usb_if_dap_add_def dap_call_def usb_if_dapv1_add_def hid_call_def
      usb_if_uart_add_def uart_call_def endpoint_defs ifnum_defs)

lemma init_ok: "exlink_ok d \<Longrightarrow> exlink_ok (exlink_usb_init W 0 reg (d\<lparr> dev_calls := [] \<rparr>))"
  by (simp add: exlink_usb_init_def exlink_ok_def dev_call_def on_ctrl_def on_dap_def on_dapv1_def on_uart_def Let_def
      usb_if_dap_add_def usb_if_uart_add_def uart_ok_def split: prod.splits)

lemma registered_row:
  "new_interfaces 0 exlink_registrations = exlink_interfaces"
  "registered_endpoints exlink_registrations = [0x01, 0x81, 0x02, 0x82, 0x03, 0x83, 0x05, 0x85, 0x07, 0x87]"
  "list_all regular exlink_registrations"
  by (simp_all add: exlink_registrations_def interface_list exlink_interface_def ifnum_defs EXLINK_HID_REPORT_DESC_SIZE_def
      ep_in_table_def)

lemma desc_register_shape:
  "A (g_app s) \<Longrightarrow> core_shape A [] (usbd_desc_register s)"
  by (auto simp: usbd_desc_register_def core_shape_def msg_zero_def CONFIG_USBDEV_REQUEST_BUFFER_LEN_def nth_list_update)

lemma desc_register_served: "ep AND 0x7F \<noteq> 0 \<Longrightarrow> \<not> served (usbd_desc_register s) ep"
  by (auto simp: served_def usbd_desc_register_def msg_entry_def msg_zero_def Let_def nth_list_update unat_eq_zero)

lemma register_calls_append: "register_calls (cs @ ds) s = Option.bind (register_calls cs s) (register_calls ds)"
  by (induction cs arbitrary: s) (auto split: bind_splits)

lemma init_event: "event_handler exlink_env USBD_EVENT_INIT (d, u) = (d, u)"
  by (simp add: exlink_env_def dev_run_def)

lemma boot_ok:
  assumes "exlink_ok (g_app s)"
  obtains s' where "exlink_boot W reg s = Some s'" "core_shape exlink_ok exlink_interfaces s'"
    "\<And>ep. ep_in_table ep \<Longrightarrow> ep AND 0x7F \<noteq> 0 \<Longrightarrow> served s' ep \<longleftrightarrow> ep \<in> {0x01, 0x81, 0x02, 0x82, 0x03, 0x83, 0x05, 0x85, 0x07, 0x87}"
    "g_app s' = exlink_usb_init W 0 reg ((g_app s)\<lparr> dev_calls := [] \<rparr>)"
proof -
  let ?d = "exlink_usb_init W 0 reg ((g_app s)\<lparr> dev_calls := [] \<rparr>)"
  define s1 where "s1 = usbd_desc_register (s\<lparr> g_app := ?d \<rparr>)"
  have s1: "core_shape exlink_ok [] s1" unfolding s1_def by (rule desc_register_shape) (simp add: init_ok assms)
  have len: "length ([] :: 'a exlink_device usbd_interface list)
      + length (new_interfaces (length ([] :: 'a exlink_device usbd_interface list)) exlink_registrations :: 'a exlink_device usbd_interface list) \<le> 16"
    by (simp add: registered_row exlink_interfaces_def)
  obtain s2 where s2: "register_calls exlink_registrations s1 = Some s2" "core_shape exlink_ok exlink_interfaces s2"
    "\<forall>ep. ep_in_table ep \<longrightarrow> (served s2 ep \<longleftrightarrow> ep \<in> set (registered_endpoints exlink_registrations) \<or> served s1 ep)"
    "g_app s2 = g_app s1"
    using registrations [OF registered_row(3) s1 len] by (auto simp: registered_row(1))
  define s3 where "s3 = s2\<lparr> g_udc := snd (usb_dc_init (g_udc s2)) \<rparr>"
  have i: "g_intf s3 = exlink_interfaces" using s2(2) by (simp add: s3_def core_shape_def)
  have "\<forall>i \<in> set exlink_interfaces. notify_handler (i :: 'a exlink_device usbd_interface) = None"
    by (simp add: interface_list interface_zero_def usbd_hid_init_intf_def usbd_cdc_acm_init_intf_def)
  then have "usbd_initialize exlink_env s2 = Some (0, s3)"
    using i by (simp add: usbd_initialize_def usbd_class_event_notify_handler_def notify_none app_event_def on_app_def init_event
        s3_def usb_dc_init_def)
  then have "exlink_boot W reg s = Some s3"
    using s2(1) by (simp add: exlink_boot_def init_calls register_calls_append s1_def Let_def)
  moreover have "core_shape exlink_ok exlink_interfaces s3" using s2(2) by (simp add: s3_def core_shape_def)
  moreover have "served s3 ep = served s2 ep" for ep by (simp add: s3_def served_def msg_entry_def)
  then have "served s3 ep \<longleftrightarrow> ep \<in> {0x01, 0x81, 0x02, 0x82, 0x03, 0x83, 0x05, 0x85, 0x07, 0x87}" if "ep_in_table ep" "ep AND 0x7F \<noteq> 0" for ep
    using s2(3) that desc_register_served [OF that(2), of "s\<lparr> g_app := ?d \<rparr>"] by (simp add: registered_row(2) s1_def)
  moreover have "g_app s3 = ?d" using s2(4) by (simp add: s3_def s1_def usbd_desc_register_def)
  ultimately show thesis by (rule that)
qed

text \<open>
  What a thread may do between two interrupts: change the state of the modules and start transfers on
  their endpoints.
\<close>

definition thread_action :: "'t exlink_device \<times> hpm_udc \<Rightarrow> 't exlink_device \<times> hpm_udc \<Rightarrow> bool" where
  "thread_action du du' \<longleftrightarrow>
     exlink_ok (fst du') \<and> (\<exists>cs. list_all data_endpoint cs \<and> snd du' = fold replay_call cs (snd du))"

lemma thread_action_keeps:
  "thread_action (a, u) (a', u') \<Longrightarrow> udc_ok u \<Longrightarrow> exlink_ok a' \<and> udc_ok u'"
  using replay_keeps by (auto simp: thread_action_def)

text \<open>The states of the device from the first bus reset on.\<close>

definition exlink_reachable :: "'t exlink_device usbd_core \<Rightarrow> bool" where
  "exlink_reachable s \<longleftrightarrow> (\<exists>(W :: 't wire) reg s0 s1 s2. exlink_ok (g_app s0) \<and> exlink_boot W reg s0 = Some s1
     \<and> irq_reset exlink_env s1 = Some s2 \<and> usb_reach exlink_env thread_action s2 s)"

lemma reset_up:
  assumes "exlink_ok (g_app s0)"
  obtains s1 s2 where "exlink_boot W reg s0 = Some s1" "irq_reset exlink_env s1 = Some s2" "core_ok exlink_ok exlink_interfaces s2" "ep0_room s2"
proof -
  obtain s1 where s1: "exlink_boot W reg s0 = Some s1" "core_shape exlink_ok exlink_interfaces s1"
    using boot_ok [OF assms] by metis
  obtain s2 where "irq_reset exlink_env s1 = Some s2" "core_ok exlink_ok exlink_interfaces s2" "ep0_room s2"
    using exlink.reset_ok [OF s1(2)] by metis
  with s1(1) show thesis by (rule that)
qed

lemma reachable_ok:
  assumes "exlink_reachable s"
  shows "core_ok exlink_ok exlink_interfaces s \<and> ep0_room s"
proof -
  obtain W reg s0 s1 s2 where r: "exlink_ok (g_app s0)" "exlink_boot (W :: 'a wire) reg s0 = Some s1" "irq_reset exlink_env s1 = Some s2"
    "usb_reach exlink_env thread_action s2 s" using assms unfolding exlink_reachable_def by blast
  obtain t1 t2 where "exlink_boot W reg s0 = Some t1" "irq_reset exlink_env t1 = Some t2" "core_ok exlink_ok exlink_interfaces t2" "ep0_room t2"
    by (rule reset_up [OF r(1)])
  then have "core_ok exlink_ok exlink_interfaces s2" "ep0_room s2" using r(2,3) by simp_all
  then show ?thesis using exlink.reach_safe [OF r(4)] thread_action_keeps by blast
qed

section \<open>Properties\<close>

text \<open>
  C6. From the first bus reset on, and whatever the host and the bus do, the device takes every event
  that the controller can report: the handler returns in a state from which the same holds, unless the
  event makes it handle one of three requests, in which case the code leaves its arrays: selecting a
  configuration that is not there, asking for or setting the alternate setting of an interface number
  from 16 on when configured, and setting a line coding of more than seven bytes on a serial port.
\<close>

theorem device_fails_only_on_wild_requests:
  assumes "exlink_reachable s" and "conformant s i"
  shows "if harmful 1 exlink_bad s i then usb_step exlink_env i s = None
    else \<exists>s'. usb_step exlink_env i s = Some s' \<and> exlink_reachable s'"
proof -
  have ok: "core_ok exlink_ok exlink_interfaces s" "ep0_room s" using reachable_ok [OF assms(1)] by simp_all
  have "exlink_reachable s'" if "usb_step exlink_env i s = Some s'" for s'
    using assms that unfolding exlink_reachable_def by (metis usb_reach.step)
  then show ?thesis using exlink.step_safe [OF ok assms(2)] by (auto split: if_splits)
qed

lemma device_is_reachable:
  obtains s :: "bool exlink_device usbd_core" where "exlink_reachable s"
proof -
  obtain s0 :: "bool exlink_device usbd_core" where "exlink_ok (g_app s0)"
  proof
    fix s :: "bool exlink_device usbd_core"
    show "exlink_ok (g_app (s\<lparr> g_app := (g_app s)\<lparr> dev_uart := static_usb_uart \<rparr> \<rparr>))"
      by (simp add: exlink_ok_def uart_ok_def static_usb_uart_def Let_def)
  qed
  moreover from this obtain s1 s2 where "exlink_boot still_wire 0 s0 = Some s1" "irq_reset exlink_env s1 = Some s2"
    by (rule reset_up)
  ultimately have "exlink_reachable s2" unfolding exlink_reachable_def using usb_reach.start by blast
  then show thesis by (rule that)
qed

lemma device_fails_only_on_wild_requests_witness:
  "\<exists>s :: bool exlink_device usbd_core. exlink_reachable s
    \<and> usb_step exlink_env (Setup_Irq \<lparr> bmRequestType = 0, bRequest = 9, wValue = 2, wIndex = 0, wLength = 0 \<rparr>) s = None
    \<and> (\<exists>s'. usb_step exlink_env (Setup_Irq \<lparr> bmRequestType = 0, bRequest = 9, wValue = 1, wIndex = 0, wLength = 0 \<rparr>) s = Some s')"
proof -
  obtain s :: "bool exlink_device usbd_core" where s: "exlink_reachable s" by (rule device_is_reachable)
  have v: "lo8 2 = 2" "lo8 1 = 1" by code_simp+
  let ?set = "\<lambda>c. Setup_Irq \<lparr> bmRequestType = 0, bRequest = 9, wValue = c, wIndex = 0, wLength = 0 \<rparr>"
  have "harmful 1 exlink_bad s (?set 2)" "\<not> harmful 1 exlink_bad s (?set 1)"
    by (simp_all add: out_data_def wild_request_def usb_consts v)
  moreover have "conformant s (?set c)" for c by simp
  ultimately show ?thesis
    using s device_fails_only_on_wild_requests [OF s, of "?set 2"] device_fails_only_on_wild_requests [OF s, of "?set 1"]
    by (intro exI [of _ s]) (auto simp del: usb_step.simps)
qed


text \<open>The descriptors by type and index, at the speed that the core has recorded.\<close>

definition string_descriptor :: "u8 list \<Rightarrow> u8 list" where
  "string_descriptor str = [of_nat (2 * length str + 2), 3] @ concat (map (\<lambda>c. [c, 0]) str)"

definition exlink_descriptor :: "u8 \<Rightarrow> u8 \<Rightarrow> u8 \<Rightarrow> u8 list option" where
  "exlink_descriptor speed type index =
    (if type = 1 then Some (device_descriptor_callback speed)
     else if type = 2 then Some (config_descriptor_callback speed)
     else if type = 3
     then (if index = 0 then Some [4, 3, 0x09, 0x04]
           else if index \<le> 6 then Some (string_descriptor (string_descriptors ! unat index)) else None)
     else if type = 6 then Some (device_quality_descriptor_callback speed)
     else if type = 7 then Some (other_speed_descriptor_callback speed)
     else if type = 0x0F then Some (bos_string bos_desc)
     else None)"

definition get_descriptor :: "u8 \<Rightarrow> u8 \<Rightarrow> u16 \<Rightarrow> u16 \<Rightarrow> usb_setup_packet" where
  "get_descriptor type index lang n =
    \<lparr> bmRequestType = 0x80, bRequest = 6, wValue = join16 index type, wIndex = lang, wLength = n \<rparr>"

text \<open>A reply that offers exactly the bytes \<open>D\<close>.\<close>

definition offers :: "'d usbd_core \<Rightarrow> u8 list \<Rightarrow> 'd reply option \<Rightarrow> bool" where
  "offers s D r \<longleftrightarrow> (\<exists>buf len t. r = Some (True, buf, len, t) \<and> unat len = length D \<and> take (length D) (ptr_data buf (g_req_data t)) = D
     \<and> g_configuration t = g_configuration s \<and> g_app t = g_app s \<and> data_log (g_udc t) = data_log (g_udc s))"

lemma offersI:
  "unat len = length D \<Longrightarrow> take (length D) (ptr_data buf (g_req_data t)) = D \<Longrightarrow> g_configuration t = g_configuration s \<Longrightarrow>
   g_app t = g_app s \<Longrightarrow> data_log (g_udc t) = data_log (g_udc s) \<Longrightarrow> offers s D (Some (True, buf, len, t))"
  by (auto simp: offers_def)

lemma ptr_data_fixed [simp]: "ptr_data (Fixed D) req = D"
  by (simp add: ptr_data_def)

lemma of_nat_u32_small [simp]: "n < 65536 \<Longrightarrow> unat (of_nat n :: u32) = n"
  by (simp add: unat_of_nat take_bit_nat_eq_self)

lemma string_offered:
  assumes "core_ok A I s" and "k \<noteq> 0" and "\<forall>c \<in> set str. c \<noteq> 0" and "length str \<le> 126"
  shows "offers s (string_descriptor str) (string_reply str k (Req_Data 0) len s)"
proof -
  have "takeWhile (\<lambda>c. c \<noteq> 0) str = str" using assms(3) by (simp add: takeWhile_eq_all_conv)
  then have strlen: "c_strlen str = length str" by (simp only: c_strlen_def)
  let ?n = "of_nat (length str) :: u16"
  have n: "unat ?n = length str" using assms(4) by (simp add: unat_of_nat take_bit_nat_eq_self)
  have t: "unat (2 * ?n + 2) = 2 * length str + 2"
    using assms(4) n by (simp add: unat_word_ariths)
  have h: "ucast (2 * ?n + 2) = (of_nat (2 * length str + 2) :: u8)"
  proof -
    have "2 * ?n + 2 = of_nat (2 * length str + 2)" by simp
    then show ?thesis using assms(4) by (simp only: unsigned_of_nat) (simp add: take_bit_nat_eq_self)
  qed
  have len: "length (string_descriptor str) = 2 * length str + 2"
    by (simp add: string_descriptor_def length_concat comp_def sum_list_triv)
  then have l: "length (string_descriptor str) \<le> 512" using assms(4) by simp
  obtain s' where s': "put_data (Req_Data 0) (string_descriptor str) s = Some s'" "g_udc s' = g_udc s"
    "g_configuration s' = g_configuration s" "g_app s' = g_app s"
    "g_req_data s' = string_descriptor str @ drop (length (string_descriptor str)) (g_req_data s)"
    using put_data_kept [OF assms(1) l] by metis
  have "string_reply str k (Req_Data 0) len s = Some (True, Req_Data 0, ucast (2 * ?n + 2), s')"
    using assms(2,4) s'(1) strlen n t h
    by (simp add: string_reply_def usb_consts Let_def CONFIG_USBDEV_REQUEST_BUFFER_LEN_def string_descriptor_def)
  then show ?thesis using s' t len by (auto simp: ptr_data_def intro!: offersI)
qed


lemma descriptor_lengths:
  "length (device_descriptor_callback sp) = 18" "rd (device_descriptor_callback sp) 0 = Some 18"
  "length (device_quality_descriptor_callback sp) = 10" "rd (device_quality_descriptor_callback sp) 0 = Some 10"
  "length (config_descriptor_callback sp) = 219" "rd16 (config_descriptor_callback sp) 2 = Some 219" "rd (config_descriptor_callback sp) 7 = Some 0x80"
  by (simp_all add: device_descriptor_callback_def device_descriptor_def USB_DEVICE_DESCRIPTOR_INIT_def WBVAL_def
      device_quality_descriptor_callback_def device_quality_descriptor_def config_descriptor_callback_def
      config_descriptor_hs_def config_descriptor_fs_def config_blob config_parts_def rd16_def rd_def)

lemma string_table:
  "string_descriptor_callback sp k = (if k \<le> 6 then Some (string_descriptors ! unat k) else None)"
  "k \<le> 6 \<Longrightarrow> \<forall>c \<in> set (string_descriptors ! unat k). c \<noteq> 0"
  "k \<le> 6 \<Longrightarrow> length (string_descriptors ! unat k) \<le> 126"
proof -
  show "string_descriptor_callback sp k = (if k \<le> 6 then Some (string_descriptors ! unat k) else None)"
    by (auto simp: string_descriptor_callback_def EXLINK_STR_IDX_MAX_def not_le dest: leD)
  assume "k \<le> 6"
  then have "unat k < length string_descriptors" by (simp add: string_descriptors_def word_le_nat_alt)
  then have "string_descriptors ! unat k \<in> set string_descriptors" by simp
  moreover have "\<forall>s \<in> set string_descriptors. (\<forall>c \<in> set s. c \<noteq> 0) \<and> length s \<le> 126"
    by (simp add: string_descriptors_def chars8_def)
  ultimately show "\<forall>c \<in> set (string_descriptors ! unat k). c \<noteq> 0" "length (string_descriptors ! unat k) \<le> 126"
    by blast+
qed

lemma descriptor_offered:
  assumes "core_ok A I s"
  shows "case exlink_descriptor (if type = 1 then usbd_get_port_speed (g_udc s) else g_speed s) type index of
      None \<Rightarrow> usbd_get_descriptor exlink_env (join16 index type) (Req_Data 0) len s = Some (False, Req_Data 0, len, s)
    | Some D \<Rightarrow> offers s D (usbd_get_descriptor exlink_env (join16 index type) (Req_Data 0) len s)"
proof -
  have cb: "descriptors exlink_env = exlink_composite_descriptor" by (simp add: exlink_env_def)
  note d = usbd_get_descriptor_def cb exlink_composite_descriptor_def from_callback_def descriptor_lengths usb_consts Let_def
  consider "type = 1" | "type = 2" | "type = 3" | "type = 6" | "type = 7" | "type = 0x0F" | "type \<notin> {1, 2, 3, 6, 7, 0x0F}" by blast
  then show ?thesis
  proof cases
    case 1
    then show ?thesis by (auto simp: exlink_descriptor_def d intro!: offersI)
  next
    case 2
    then show ?thesis by (auto simp: exlink_descriptor_def d intro!: offersI)
  next
    case 3
    have no: "usbd_get_descriptor exlink_env (join16 index type) (Req_Data 0) len s = Some (False, Req_Data 0, len, s)" if "6 < index"
      using 3 that by (simp add: d string_table(1) not_le [symmetric])
    have yes: "usbd_get_descriptor exlink_env (join16 index type) (Req_Data 0) len s
        = string_reply (string_descriptors ! unat index) index (Req_Data 0) len s" if "index \<le> 6"
    proof -
      have "index \<noteq> 0xEE" using that by auto
      then show ?thesis using 3 that by (simp add: d string_table(1))
    qed
    consider "6 < index" | "index = 0" | "index \<noteq> 0" "index \<le> 6" by force
    then show ?thesis
    proof cases
      case 1
      then have "exlink_descriptor sp type index = None" for sp using 3 by (auto simp: exlink_descriptor_def)
      then show ?thesis using no [OF 1] by simp
    next
      case 2
      have l: "length [4, 3, 9, 4 :: u8] \<le> 512" by simp
      obtain s' where "put_data (Req_Data 0) [4, 3, 9, 4] s = Some s'" "g_udc s' = g_udc s" "g_configuration s' = g_configuration s"
        "g_app s' = g_app s" "g_req_data s' = [4, 3, 9, 4] @ drop (length [4, 3, 9, 4 :: u8]) (g_req_data s)"
        using put_data_kept [OF assms l] by metis
      then show ?thesis
        using 2 3 yes by (auto simp: exlink_descriptor_def string_reply_def usb_consts rd_def string_descriptors_def ptr_data_def intro!: offersI)
    next
      case i: 3
      then show ?thesis
        using 3 yes [OF i(2)] string_offered [OF assms i(1) string_table(2,3) [OF i(2)]]
        by (simp add: exlink_descriptor_def)
    qed
  next
    case 4
    then show ?thesis by (auto simp: exlink_descriptor_def d intro!: offersI)
  next
    case 5
    then show ?thesis by (auto simp: exlink_descriptor_def d other_speed_length intro!: offersI)
  next
    case 6
    then show ?thesis by (auto simp: exlink_descriptor_def d bos_length intro!: offersI)
  next
    case 7
    then show ?thesis by (simp add: exlink_descriptor_def d)
  qed
qed


lemma descriptor_handler:
  "usbd_setup_request_handler E (get_descriptor type index lang n) p len s = usbd_get_descriptor E (join16 index type) p len s"
  by (simp add: usbd_setup_request_handler_def usbd_standard_request_handler_def usbd_std_device_req_handler_def
      get_descriptor_def usb_consts Let_def)

lemma descriptor_small: "exlink_descriptor sp type index = Some D \<Longrightarrow> D \<noteq> [] \<and> length D \<le> 512"
  using descriptor_lengths [of sp] other_speed_length [of sp] bos_length string_table(3) [of index]
  by (auto simp: exlink_descriptor_def string_descriptor_def length_concat comp_def sum_list_triv split: if_splits)

text \<open>
  C13. Reading a descriptor: the host gets exactly the first bytes of the descriptor it asks for, as many as
  it wants, in a data stage that ends by the rules of USB whatever the length (in the middle, at the end
  or behind the end of the descriptor), and the core is back for the next request with nothing else
  changed; the strings are the seven of the table.  A descriptor that the device does not have is refused:
  the one thing done to the controller is the stall of endpoint 0, and the core is back for the next request
  with nothing else changed.
\<close>

theorem host_reads_descriptors:
  assumes "core_ok exlink_ok exlink_interfaces s" and "n \<noteq> 0"
  shows "case exlink_descriptor (if type = 1 then usbd_get_port_speed (g_udc s) else g_speed s) type index of
      None \<Rightarrow> \<exists>s'. host_read exlink_env (get_descriptor type index lang n) s = Some (None, s')
        \<and> udc_log (g_udc s') = udc_log (g_udc s) @ [Edpt_Stall USB_CONTROL_IN_EP0]
        \<and> core_ok exlink_ok exlink_interfaces s' \<and> g_ep0_next_state s' = USBD_EP0_STATE_SETUP
        \<and> g_configuration s' = g_configuration s \<and> g_app s' = g_app s
    | Some D \<Rightarrow> \<exists>s'. host_read exlink_env (get_descriptor type index lang n) s = Some (Some (take (unat n) D), s')
        \<and> core_ok exlink_ok exlink_interfaces s' \<and> g_ep0_next_state s' = USBD_EP0_STATE_SETUP
        \<and> g_configuration s' = g_configuration s \<and> g_app s' = g_app s \<and> data_log (g_udc s') = data_log (g_udc s)"
proof -
  let ?stp = "get_descriptor type index lang n"
  let ?p = "ep0_prepare ?stp s"
  have l: "wLength ?stp = n" "in_request ?stp" using assms(2) by (simp_all add: get_descriptor_def in_request_def usb_consts)
  have p: "core_ok exlink_ok exlink_interfaces ?p" "g_speed ?p = g_speed s" "g_udc ?p = g_udc s" "g_app ?p = g_app s"
    "g_configuration ?p = g_configuration s"
    using assms(1) by simp (simp_all add: ep0_prepare_def)
  note offer = descriptor_offered [OF p(1), where type = type and index = index and len = "ucast n", unfolded p(2,3)]
  have ans: "answered exlink_ok exlink_interfaces ?p (usbd_setup_request_handler exlink_env ?stp (Req_Data 0) (ucast n) ?p)"
    unfolding descriptor_handler by (rule exlink.get_descriptor_answered [OF p(1)])
  show ?thesis
  proof (cases "exlink_descriptor (if type = 1 then usbd_get_port_speed (g_udc s) else g_speed s) type index")
    case None
    then have t: "usbd_setup_request_handler exlink_env ?stp (Req_Data 0) (ucast (wLength ?stp)) ?p = Some (False, Req_Data 0, ucast n, ?p)"
      using offer l(1) by (simp add: descriptor_handler)
    then have "kept exlink_ok exlink_interfaces ?p ?p" using ans l(1) by (auto simp: answered_def)
    then obtain s' where "host_read exlink_env ?stp s = Some (None, s')" "core_ok exlink_ok exlink_interfaces s'"
      "g_ep0_next_state s' = USBD_EP0_STATE_SETUP" "g_configuration s' = g_configuration s" "g_app s' = g_app s"
      "udc_log (g_udc s') = udc_log (g_udc s) @ [Edpt_Stall USB_CONTROL_IN_EP0]"
      using host_read_refused [OF assms(1) l(2) t _ p(3)] p(4,5) by metis
    then show ?thesis using None by simp
  next
    case (Some D)
    then have D: "D \<noteq> []" "length D \<le> 512" using descriptor_small by auto
    obtain buf len t where t: "usbd_setup_request_handler exlink_env ?stp (Req_Data 0) (ucast (wLength ?stp)) ?p = Some (True, buf, len, t)"
      "unat len = length D" "take (length D) (ptr_data buf (g_req_data t)) = D" "g_configuration t = g_configuration s"
      "g_app t = g_app s" "data_log (g_udc t) = data_log (g_udc s)"
      using offer Some p l(1) by (auto simp: offers_def descriptor_handler)
    have k: "kept exlink_ok exlink_interfaces ?p t" "offer_ok buf len" using ans t(1) l(1) by (auto simp: answered_def)
    have ne: "len \<noteq> 0" using t(2) D(1) by auto
    have r: "min (unat len) (unat (wLength ?stp)) \<le> 512" using t(2) D(2) by simp
    have "take (min (length D) (unat n)) (ptr_data buf (g_req_data t)) = take (unat n) D"
      using t(3) by (metis min.commute take_take)
    then have eq: "take (min (unat len) (unat (wLength ?stp))) (ptr_data buf (g_req_data t)) = take (unat n) D"
      by (simp add: t(2) l(1))
    obtain s' where "host_read exlink_env ?stp s = Some (Some (take (unat n) D), s')" "core_ok exlink_ok exlink_interfaces s'"
      "g_ep0_next_state s' = USBD_EP0_STATE_SETUP" "g_configuration s' = g_configuration t" "g_app s' = g_app t"
      "data_log (g_udc s') = data_log (g_udc t)"
      using host_read_answered [OF assms(1) l(2) t(1) k ne r, unfolded eq] by metis
    then show ?thesis using Some t(4-6) by simp
  qed
qed


lemma host_reads_descriptors_witness:
  "\<exists>(s :: bool exlink_device usbd_core) s' t. exlink_reachable s
    \<and> host_read exlink_env (get_descriptor 1 0 0 64) s = Some (Some device_descriptor, s')
    \<and> host_read exlink_env (get_descriptor 9 0 0 64) s = Some (None, t)"
proof -
  obtain s :: "bool exlink_device usbd_core" where s: "exlink_reachable s" by (rule device_is_reachable)
  then have ok: "core_ok exlink_ok exlink_interfaces s" using reachable_ok by blast
  have d: "exlink_descriptor x 1 0 = Some device_descriptor" "take 64 device_descriptor = device_descriptor" for x
    using descriptor_lengths(1) [of 0] by (simp_all add: exlink_descriptor_def device_descriptor_callback_def)
  have none: "exlink_descriptor x 9 0 = None" for x by (simp add: exlink_descriptor_def)
  obtain s' where "host_read exlink_env (get_descriptor 1 0 0 64) s = Some (Some device_descriptor, s')"
    using host_reads_descriptors [OF ok, of 64 1 0 0] d by (auto simp del: One_nat_def)
  moreover obtain t where "host_read exlink_env (get_descriptor 9 0 0 64) s = Some (None, t)"
    using host_reads_descriptors [OF ok, of 64 9 0 0] none by (auto simp del: One_nat_def)
  ultimately show ?thesis using s by blast
qed

section \<open>Setting the configuration\<close>

definition open_call :: "u8 list \<Rightarrow> dcd_call" where
  "open_call d = Edpt_Open (d ! 2) (d ! 3 AND 3) (join16 (d ! 4) (d ! 5))"

definition opened :: "hpm_udc \<Rightarrow> u8 \<Rightarrow> bool" where
  "opened u ep \<longleftrightarrow> (case ep_entry ep u of None \<Rightarrow> False | Some e \<Rightarrow> ep_enable e)"

lemma opened_update:
  assumes "ep_update a f u = Some u'" and "\<And>e. ep_enable e \<Longrightarrow> ep_enable (f e)"
  shows "opened u ep \<Longrightarrow> opened u' ep" and "(\<And>e. ep_enable (f e)) \<Longrightarrow> opened u' a"
  using assms by (auto simp: ep_update_def opened_def ep_entry_def Let_def nth_list_update split: if_splits)

lemma opened_log [simp]: "opened (dcd c u) ep = opened u ep"
  by (simp add: opened_def ep_entry_def Let_def)

lemma data_log_update: "ep_update a f u = Some u' \<Longrightarrow> data_log u' = data_log u"
  by (auto simp: ep_update_def data_log_def Let_def split: if_splits)

lemma ep_open_opens:
  assumes "usbd_ep_open a attr mps u = Some (r, u')" and "a AND 0x7F \<noteq> 0"
  shows "opened u' a" "opened u ep \<Longrightarrow> opened u' ep"
    "data_log u' = data_log u @ [Edpt_Open a (attr AND 3) mps]"
proof -
  let ?f = "\<lambda>e. e\<lparr> ep_mps := USB_GET_MAXPACKETSIZE mps, ep_type := USB_GET_ENDPOINT_TYPE attr, ep_enable := True \<rparr>"
  have u: "ep_update a ?f (dcd (Edpt_Open a (USB_GET_ENDPOINT_TYPE attr) mps) u) = Some u'"
    using assms(1) by (auto simp: usbd_ep_open_def split: bind_splits)
  show "opened u' a" "opened u ep \<Longrightarrow> opened u' ep"
    using opened_update [OF u] by simp_all
  show "data_log u' = data_log u @ [Edpt_Open a (attr AND 3) mps]"
    using data_log_update [OF u] assms(2) by (simp add: USB_GET_ENDPOINT_TYPE_def)
qed

lemma set_endpoint_opens:
  assumes "core_ok A I s" and "6 \<le> length d" and "ep_in_table (d ! 2)" and "(d ! 2) AND 0x7F \<noteq> 0"
  obtains s' where "usbd_set_endpoint (d @ rest) s = Some (True, s')" "kept A I s s'" "g_configuration s' = g_configuration s"
    "g_app s' = g_app s" "data_log (g_udc s') = data_log (g_udc s) @ [open_call d]" "opened (g_udc s') (d ! 2)"
    "\<And>ep. opened (g_udc s) ep \<Longrightarrow> opened (g_udc s') ep"
proof -
  obtain s' where s': "usbd_set_endpoint (d @ rest) s = Some (True, s')" "kept A I s s'"
    by (rule set_endpoint_kept [OF assms(1-3)])
  then obtain t u r where t: "msg_update (d ! 2) (\<lambda>m. m\<lparr> msg_ep_mps := USB_GET_MAXPACKETSIZE (join16 (d ! 4) (d ! 5)),
      msg_ep_mult := USB_GET_MULT (join16 (d ! 4) (d ! 5)) \<rparr>) s = Some t"
    "usbd_ep_open (d ! 2) (d ! 3) (join16 (d ! 4) (d ! 5)) (g_udc t) = Some (r, u)" "s' = t\<lparr> g_udc := u \<rparr>"
    using assms(2) by (auto simp: usbd_set_endpoint_def rd_in Let_def split: bind_splits)
  have "g_configuration t = g_configuration s \<and> g_app t = g_app s \<and> g_udc t = g_udc s"
    using t(1) by (auto simp: msg_update_def Let_def split: if_splits)
  then show thesis using that [OF s'] t(3) ep_open_opens [OF t(2) assms(4)] by (simp add: open_call_def)
qed

text \<open>The configuration when all interfaces have one setting: its endpoints are opened in their order.\<close>

lemma open_walk:
  "\<forall>d \<in> set ds. 2 \<le> length d \<and> d ! 1 \<noteq> 2 \<and> (d ! 1 = 4 \<longrightarrow> 4 \<le> length d \<and> d ! 3 = 0)
     \<and> (d ! 1 = 5 \<longrightarrow> 6 \<le> length d \<and> ep_in_table (d ! 2) \<and> (d ! 2) AND 0x7F \<noteq> 0) \<Longrightarrow> core_ok A I s \<Longrightarrow>
   \<exists>s'. walk_row (set_configuration_body conf 0) ds (True, conf, 0, s) = Some (False, True, conf, 0, s') \<and> kept A I s s'
     \<and> g_configuration s' = g_configuration s \<and> g_app s' = g_app s
     \<and> data_log (g_udc s') = data_log (g_udc s) @ map open_call (filter (\<lambda>d. d ! 1 = 5) ds)
     \<and> (\<forall>d \<in> set ds. d ! 1 = 5 \<longrightarrow> opened (g_udc s') (d ! 2)) \<and> (\<forall>ep. opened (g_udc s) ep \<longrightarrow> opened (g_udc s') ep)"
proof (induction ds arbitrary: s)
  case Nil
  then show ?case by (simp add: kept_refl)
next
  case (Cons d ds)
  have rest: "\<forall>d \<in> set ds. 2 \<le> length d \<and> d ! 1 \<noteq> 2 \<and> (d ! 1 = 4 \<longrightarrow> 4 \<le> length d \<and> d ! 3 = 0)
     \<and> (d ! 1 = 5 \<longrightarrow> 6 \<le> length d \<and> ep_in_table (d ! 2) \<and> (d ! 2) AND 0x7F \<noteq> 0)" using Cons.prems(1) by simp
  have d: "2 \<le> length d" "d ! 1 \<noteq> 2" "d ! 1 = 4 \<Longrightarrow> 4 \<le> length d \<and> d ! 3 = 0"
    "d ! 1 = 5 \<Longrightarrow> 6 \<le> length d \<and> ep_in_table (d ! 2) \<and> (d ! 2) AND 0x7F \<noteq> 0" using Cons.prems(1) by simp_all
  have h: "rd (d @ concat ds) (Suc 0) = Some (d ! 1)" using rd_head d(1) .
  show ?case
  proof (cases "d ! 1 = 5")
    case True
    obtain t where t: "usbd_set_endpoint (d @ concat ds) s = Some (True, t)" "kept A I s t" "g_configuration t = g_configuration s"
      "g_app t = g_app s" "data_log (g_udc t) = data_log (g_udc s) @ [open_call d]" "opened (g_udc t) (d ! 2)"
      "\<And>ep. opened (g_udc s) ep \<Longrightarrow> opened (g_udc t) ep"
      using set_endpoint_opens [OF Cons.prems(2)] d(4) [OF True] by metis
    then have c: "core_ok A I t" by (simp add: kept_def)
    obtain s' where s': "walk_row (set_configuration_body conf 0) ds (True, conf, 0, t) = Some (False, True, conf, 0, s')"
      "kept A I t s'" "g_configuration s' = g_configuration t" "g_app s' = g_app t"
      "data_log (g_udc s') = data_log (g_udc t) @ map open_call (filter (\<lambda>d. d ! 1 = 5) ds)"
      "\<forall>d \<in> set ds. d ! 1 = 5 \<longrightarrow> opened (g_udc s') (d ! 2)" "\<forall>ep. opened (g_udc t) ep \<longrightarrow> opened (g_udc s') ep"
      using Cons.IH [OF rest c] by blast
    have "walk_row (set_configuration_body conf 0) (d # ds) (True, conf, 0, s) = Some (False, True, conf, 0, s')"
      using True h t(1) s'(1) by (simp add: set_configuration_body_def usb_consts)
    then show ?thesis using True t s' kept_trans [OF t(2) s'(2)] by auto
  next
    case False
    have "rd (d @ concat ds) 3 = Some (d ! 3)" if "d ! 1 = 4" using d(3) [OF that] by (simp add: rd_in)
    then have "walk_row (set_configuration_body conf 0) (d # ds) (True, conf, 0, s) = walk_row (set_configuration_body conf 0) ds (True, conf, 0, s)"
      using False h d(2,3) by (auto simp: set_configuration_body_def usb_consts)
    then show ?thesis using Cons.IH [OF rest Cons.prems(2)] False by auto
  qed
qed


lemma set_configuration_opens:
  assumes "config_row c (i # ds)" and "current_config E s = Some (c @ concat (i # ds))" and "core_ok A I s"
    and "i ! 1 = 4" and "\<forall>d \<in> set (i # ds). d ! 1 = 4 \<longrightarrow> d ! 3 = 0"
  obtains s' where "usbd_set_configuration E (c ! 5) 0 s = Some (True, s')" "kept A I s s'" "g_configuration s' = g_configuration s"
    "g_app s' = g_app s" "data_log (g_udc s') = data_log (g_udc s) @ map open_call (filter (\<lambda>d. d ! 1 = 5) ds)"
    "\<forall>d \<in> set ds. d ! 1 = 5 \<longrightarrow> opened (g_udc s') (d ! 2)"
proof -
  let ?b = "set_configuration_body (c ! 5) 0 :: u8 list \<Rightarrow> bool \<times> u8 \<times> u8 \<times> 'a usbd_core \<Rightarrow> _"
  note row = config_rowD [OF assms(1)]
  have shape: "\<forall>d \<in> set ds. 2 \<le> length d \<and> d ! 1 \<noteq> 2 \<and> (d ! 1 = 4 \<longrightarrow> 4 \<le> length d \<and> d ! 3 = 0)
     \<and> (d ! 1 = 5 \<longrightarrow> 6 \<le> length d \<and> ep_in_table (d ! 2) \<and> (d ! 2) AND 0x7F \<noteq> 0)"
    using row(4-7) assms(5) by simp
  obtain s' where s': "walk_row ?b ds (True, c ! 5, 0, s) = Some (False, True, c ! 5, 0, s')" "kept A I s s'"
    "g_configuration s' = g_configuration s" "g_app s' = g_app s"
    "data_log (g_udc s') = data_log (g_udc s) @ map open_call (filter (\<lambda>d. d ! 1 = 5) ds)"
    "\<forall>d \<in> set ds. d ! 1 = 5 \<longrightarrow> opened (g_udc s') (d ! 2)"
    using open_walk [OF shape assms(3), of "c ! 5"] by blast
  have i: "4 \<le> length i" "i ! 3 = 0" using row(6) [of i] assms(4,5) by simp_all
  then have r: "rd (i @ concat ds) (Suc 0) = Some 4" "rd (i @ concat ds) 3 = Some 0" using assms(4) by (simp_all add: rd_in)
  have first: "walk_row ?b (i # ds) (True, c ! 5, 0xFF, s) = walk_row ?b ds (True, c ! 5, 0, s)"
    using r by (simp add: set_configuration_body_def usb_consts)
  have nt: "no_total ?b (i # ds)"
    unfolding no_total_def
    using row(4,5) rd_head by (auto simp: set_configuration_body_def usb_consts split: if_splits bind_splits)
  have "?b (c @ concat (i # ds)) (False, 0xFF, 0xFF, s) = Some (False, Some (length c + length (concat (i # ds))), True, c ! 5, 0xFF, s)"
    using row(1-3) by (simp add: set_configuration_body_def usb_consts rd_in)
  from walk_config [OF assms(1) this nt]
  have "walk_descriptors ?b (c @ concat (i # ds)) 0 0 (False, 0xFF, 0xFF, s) = Some (False, True, c ! 5, 0, s')"
    using first s'(1) by simp
  then have "usbd_set_configuration E (c ! 5) 0 s = Some (True, s')" using assms(2) by (simp add: usbd_set_configuration_def)
  then show thesis using s'(2-6) by (rule that)
qed

text \<open>Reads on open endpoints are accepted, one after another.\<close>

lemma replay_reads:
  "\<forall>(ep, n) \<in> set rs. opened u ep \<and> ep AND 0x7F = ep \<and> ep \<noteq> 0 \<and> n < 65536 \<Longrightarrow>
   data_log (fold replay_call (map (\<lambda>(ep, n). Ep_Start_Read b ep n) rs) u) = data_log u @ map (\<lambda>(ep, n). Xfer_Out ep n) rs"
proof (induction rs arbitrary: u)
  case (Cons r rs)
  obtain ep n where r: "r = (ep, n)" by (cases r) auto
  then have o: "opened u ep" "ep \<noteq> 0" "n < 65536" "ep AND 0x7F = ep" using Cons.prems by simp_all
  let ?f = "\<lambda>e. e\<lparr> xfer_len := of_nat n, actual_xfer_len := 0 \<rparr>"
  obtain e where e: "ep_entry ep u = Some e" "ep_enable e" using o(1) by (auto simp: opened_def split: option.splits)
  then obtain u1 where u1: "ep_update ep ?f u = Some u1"
    by (auto simp: ep_entry_def ep_update_def Let_def split: if_splits)
  have "replay_call (Ep_Start_Read b ep n) u = dcd (Xfer_Out ep n) u1"
    using e u1 o(3,4) by (simp add: usbd_ep_start_read_def)
  moreover have "data_log (dcd (Xfer_Out ep n) u1) = data_log u @ [Xfer_Out ep n]"
    using data_log_update [OF u1] o(2) by (simp add: usb_consts)
  moreover have "opened (dcd (Xfer_Out ep n) u1) x" if "opened u x" for x
    using opened_update(1) [OF u1 _ that] by simp
  ultimately show ?case
    using Cons.IH [of "dcd (Xfer_Out ep n) u1"] Cons.prems r by auto
qed simp

definition configured_reads :: "(u8 \<times> nat) list" where
  "configured_reads = [(0x01, 512), (0x02, 512), (0x03, 64), (0x05, 512), (0x07, 512)]"

lemma configured_calls:
  assumes "exlink_ok d"
  shows "dev_calls (exlink_usbd_event_handler 0 USBD_EVENT_CONFIGURED d) = dev_calls d @ map (\<lambda>(ep, n). Ep_Start_Read 0 ep n) configured_reads"
proof -
  have len: "length (s_cdc (dev_uart d)) = 2" using assms length_s_cdc unfolding exlink_ok_def by blast
  then obtain p q where pq: "s_cdc (dev_uart d) = [p, q]" by (auto simp: length_Suc_conv numeral_2_eq_2)
  have eps: "cdc_out_ep p = EXLINK_EP_CDC1_OUT" "cdc_out_ep q = EXLINK_EP_CDC2_OUT"
    using assms by (simp_all add: exlink_ok_def uart_ok_def pq)
  have two: "[0..<2] = [0, Suc 0]" by (simp add: upt_rec)
  show ?thesis
    by (simp add: configured_reads_def on_ctrl_def on_dap_def on_dapv1_def on_uart_def Let_def
        usb_if_ctrl_on_configured_def usb_if_dap_on_configured_def usb_if_dapv1_on_configured_def
        usb_if_uart_on_configured_def cdc_configured_def two ctrl_call_def dap_call_def hid_call_def uart_call_def
        on_port_def pq eps EXLINK_BULK_MPS_def EXLINK_HID_MPS_def endpoint_defs)
qed

lemma no_notify: "\<forall>i \<in> set exlink_interfaces. notify_handler i = None"
  by (simp add: interface_list interface_zero_def usbd_hid_init_intf_def usbd_cdc_acm_init_intf_def)

definition set_configuration :: "u8 \<Rightarrow> usb_setup_packet" where
  "set_configuration c = \<lparr> bmRequestType = 0, bRequest = 9, wValue = join16 c 0, wIndex = 0, wLength = 0 \<rparr>"

text \<open>
  C14. Selecting the configuration of the device: the host's request is acknowledged, every module gets the
  event, the twelve endpoints of the configuration at the recorded speed are opened in the order of the
  descriptor with the type and packet size it gives them, and after that the read that each module posts
  on its OUT endpoint is accepted by the controller driver, none refused for an endpoint not yet open.
\<close>

theorem configuration_opens_endpoints:
  assumes "core_ok exlink_ok exlink_interfaces s" and "m = (if g_speed s = USB_SPEED_HIGH then 512 else 64)"
  shows "\<exists>s'. host_command exlink_env (set_configuration 1) s = Some (True, s')
    \<and> core_ok exlink_ok exlink_interfaces s' \<and> g_ep0_next_state s' = USBD_EP0_STATE_SETUP \<and> g_configuration s' = 1
    \<and> g_app s' = exlink_usbd_event_handler 0 USBD_EVENT_CONFIGURED (g_app s)
    \<and> data_log (g_udc s') = data_log (g_udc s)
        @ [Edpt_Open 0x01 2 m, Edpt_Open 0x81 2 m, Edpt_Open 0x02 2 m, Edpt_Open 0x82 2 m, Edpt_Open 0x83 3 64, Edpt_Open 0x03 3 64,
           Edpt_Open 0x84 3 8, Edpt_Open 0x05 2 m, Edpt_Open 0x85 2 m, Edpt_Open 0x86 3 8, Edpt_Open 0x07 2 m, Edpt_Open 0x87 2 m]
        @ [Xfer_Out 0x01 512, Xfer_Out 0x02 512, Xfer_Out 0x03 64, Xfer_Out 0x05 512, Xfer_Out 0x07 512]"
proof -
  let ?stp = "set_configuration 1"
  define p where "p = ep0_prepare ?stp s"
  have p: "core_ok exlink_ok exlink_interfaces p" "g_speed p = g_speed s" "g_app p = g_app s" "g_udc p = g_udc s"
    using assms(1) by (simp_all add: p_def) (simp_all add: ep0_prepare_def)
  define c i ds where "c = hd (config_parts 2 m)" and "i = hd (tl (config_parts 2 m))" and "ds = tl (tl (config_parts 2 m))"
  have row: "config_row c (i # ds)" "c ! 5 = 1"
    using config_is_row [of m] by (simp_all add: c_def i_def ds_def config_parts_def)
  have cc: "current_config exlink_env p = Some (c @ concat (i # ds))"
    using config_callback_row [of "g_speed s"] p(2)
    by (simp add: current_config_def exlink_env_def exlink_composite_descriptor_def from_callback_def c_def i_def ds_def assms(2) config_parts_def)
  have alts: "i ! 1 = 4" "\<forall>d \<in> set (i # ds). d ! 1 = 4 \<longrightarrow> d ! 3 = 0"
    by (simp_all add: i_def ds_def config_parts_def)
  obtain t where t: "usbd_set_configuration exlink_env 1 0 p = Some (True, t)" "kept exlink_ok exlink_interfaces p t"
    "g_app t = g_app p" "data_log (g_udc t) = data_log (g_udc p) @ map open_call (filter (\<lambda>d. d ! 1 = 5) ds)"
    "\<forall>d \<in> set ds. d ! 1 = 5 \<longrightarrow> opened (g_udc t) (d ! 2)"
    using set_configuration_opens [OF row(1) cc p(1) alts] row(2) by metis
  define t1 where "t1 = t\<lparr> g_configuration := 1, g_is_suspend := False \<rparr>"
  have t1: "kept exlink_ok exlink_interfaces p t1" "g_app t1 = g_app s" "g_udc t1 = g_udc t"
    using t(2,3) p(3) by (simp_all add: t1_def kept_def core_ok_def ep0_same_def)
  have n: "usbd_class_event_notify_handler USBD_EVENT_CONFIGURED None t1 = Some t1"
    using t1(1) by (simp add: usbd_class_event_notify_handler_def notify_none no_notify kept_def core_ok_def)
  define t2 where "t2 = app_event exlink_env USBD_EVENT_CONFIGURED t1"
  have k2: "kept exlink_ok exlink_interfaces p t2" unfolding t2_def by (rule exlink.kept_app_event [OF t1(1)])
  have h: "usbd_setup_request_handler exlink_env ?stp (Req_Data 0) (ucast (wLength ?stp)) (ep0_prepare ?stp s) = Some (True, Req_Data 0, 0, t2)"
    using t(1) n unfolding p_def [symmetric]
    by (simp add: usbd_setup_request_handler_def usbd_standard_request_handler_def usbd_std_device_req_handler_def
        set_configuration_def usb_consts Let_def t1_def t2_def)
  have ok: "exlink_ok (g_app s)" using assms(1) by (simp add: core_ok_def)
  have reads: "\<forall>(ep, n) \<in> set configured_reads. opened (g_udc t) ep \<and> ep AND 0x7F = ep \<and> ep \<noteq> 0 \<and> n < 65536"
    using t(5) by (simp add: configured_reads_def ds_def config_parts_def)
  have t2: "g_app t2 = exlink_usbd_event_handler 0 USBD_EVENT_CONFIGURED (g_app s)" "g_configuration t2 = 1"
    "data_log (g_udc t2) = data_log (g_udc t) @ map (\<lambda>(ep, n). Xfer_Out ep n) configured_reads"
    using configured_calls [OF ok] t1(2,3) replay_reads [OF reads, of 0]
    by (simp_all add: t2_def app_event_def on_app_def exlink_env_def dev_run_def Let_def del: exlink_usbd_event_handler.simps)
      (simp add: t1_def)
  obtain s' where "host_command exlink_env ?stp s = Some (True, s')" "core_ok exlink_ok exlink_interfaces s'"
    "g_ep0_next_state s' = USBD_EP0_STATE_SETUP" "g_configuration s' = g_configuration t2" "g_app s' = g_app t2"
    "data_log (g_udc s') = data_log (g_udc t2)"
  proof (rule host_command_answered [OF assms(1) _ h])
    show "wLength ?stp = 0" by (simp add: set_configuration_def)
    show "kept exlink_ok exlink_interfaces (ep0_prepare ?stp s) t2" using k2 by (simp add: p_def)
  qed simp_all
  moreover have "map open_call (filter (\<lambda>d. d ! 1 = 5) ds) =
    [Edpt_Open 0x01 2 m, Edpt_Open 0x81 2 m, Edpt_Open 0x02 2 m, Edpt_Open 0x82 2 m, Edpt_Open 0x83 3 64, Edpt_Open 0x03 3 64,
     Edpt_Open 0x84 3 8, Edpt_Open 0x05 2 m, Edpt_Open 0x85 2 m, Edpt_Open 0x86 3 8, Edpt_Open 0x07 2 m, Edpt_Open 0x87 2 m]"
  proof -
    have "join16 64 0 = 64" "join16 8 0 = 8" by code_simp+
    then show ?thesis by (simp add: ds_def config_parts_def open_call_def)
  qed
  ultimately show ?thesis using t2 t(4) p(4) by (simp add: configured_reads_def)
qed


lemma configuration_opens_endpoints_witness:
  "\<exists>(s :: bool exlink_device usbd_core) s'. exlink_reachable s
    \<and> host_command exlink_env (set_configuration 1) s = Some (True, s') \<and> g_configuration s' = 1"
proof -
  obtain s :: "bool exlink_device usbd_core" where s: "exlink_reachable s" by (rule device_is_reachable)
  then have ok: "core_ok exlink_ok exlink_interfaces s" using reachable_ok by blast
  from configuration_opens_endpoints [OF this refl] s show ?thesis by blast
qed

section \<open>Setting an interface\<close>

text \<open>The endpoints behind the descriptor of an interface; \<open>cur\<close> is the interface the walk is in.\<close>

fun interface_eps :: "u8 \<Rightarrow> u8 \<Rightarrow> u8 list list \<Rightarrow> u8 list" where
  "interface_eps k cur [] = []"
| "interface_eps k cur (d # ds) =
    (if d ! 1 = 4 then interface_eps k (d ! 2) ds
     else if d ! 1 = 5 \<and> cur = k then d ! 2 # interface_eps k cur ds
     else interface_eps k cur ds)"

lemma reset_endpoint_closes:
  assumes "core_ok A I s" and "6 \<le> length d" and "ep_in_table (d ! 2)" and "(d ! 2) AND 0x7F \<noteq> 0"
  obtains s' where "usbd_reset_endpoint (d @ rest) s = Some (True, s')" "kept A I s s'" "g_configuration s' = g_configuration s"
    "g_app s' = g_app s" "data_log (g_udc s') = data_log (g_udc s) @ [Edpt_Close (d ! 2)]"
proof -
  obtain s' where s': "usbd_reset_endpoint (d @ rest) s = Some (True, s')" "kept A I s s'"
    by (rule reset_endpoint_kept [OF assms])
  then obtain u where u: "ep_update (d ! 2) (\<lambda>e. e\<lparr> ep_enable := False \<rparr>) (g_udc s) = Some u"
    "s' = s\<lparr> g_udc := dcd (Edpt_Close (d ! 2)) (put_stalled ((reg_stalled (udc_regs u))(d ! 2 AND 0x8F := False)) u) \<rparr>"
    using assms(2) by (auto simp: usbd_reset_endpoint_def usbd_ep_close_def rd_in split: bind_splits)
  then show thesis using that [OF s'] data_log_update [OF u(1)] assms(4) by simp
qed

lemma close_walk:
  "\<forall>d \<in> set ds. 2 \<le> length d \<and> d ! 1 \<noteq> 2 \<and> (d ! 1 = 4 \<longrightarrow> 4 \<le> length d)
     \<and> (d ! 1 = 5 \<longrightarrow> 6 \<le> length d \<and> ep_in_table (d ! 2) \<and> (d ! 2) AND 0x7F \<noteq> 0) \<Longrightarrow> core_ok A I s \<Longrightarrow>
   \<exists>r' f' cur' alt' s'. walk_row (set_interface_body k 0) ds (r, f, cur, alt, s) = Some (False, r', f', cur', alt', s') \<and> kept A I s s'
     \<and> g_configuration s' = g_configuration s \<and> g_app s' = g_app s
     \<and> data_log (g_udc s') = data_log (g_udc s) @ map Edpt_Close (interface_eps k cur ds)"
proof (induction ds arbitrary: r f cur alt s)
  case Nil
  then show ?case by (simp add: kept_refl)
next
  case (Cons d ds)
  have rest: "\<forall>d \<in> set ds. 2 \<le> length d \<and> d ! 1 \<noteq> 2 \<and> (d ! 1 = 4 \<longrightarrow> 4 \<le> length d)
     \<and> (d ! 1 = 5 \<longrightarrow> 6 \<le> length d \<and> ep_in_table (d ! 2) \<and> (d ! 2) AND 0x7F \<noteq> 0)" using Cons.prems(1) by simp
  have d: "2 \<le> length d" "d ! 1 \<noteq> 2" "d ! 1 = 4 \<Longrightarrow> 4 \<le> length d"
    "d ! 1 = 5 \<Longrightarrow> 6 \<le> length d \<and> ep_in_table (d ! 2) \<and> (d ! 2) AND 0x7F \<noteq> 0" using Cons.prems(1) by simp_all
  have h: "rd (d @ concat ds) (Suc 0) = Some (d ! 1)" using rd_head d(1) .
  let ?b = "set_interface_body k 0"
  show ?case
  proof (cases "d ! 1 = 5 \<and> cur = k")
    case True
    obtain t where t: "usbd_reset_endpoint (d @ concat ds) s = Some (True, t)" "kept A I s t" "g_configuration t = g_configuration s"
      "g_app t = g_app s" "data_log (g_udc t) = data_log (g_udc s) @ [Edpt_Close (d ! 2)]"
      using reset_endpoint_closes [OF Cons.prems(2)] d(4) True by metis
    then have c: "core_ok A I t" by (simp add: kept_def)
    have "walk_row ?b (d # ds) (r, f, cur, alt, s) = walk_row ?b ds (True, f, cur, alt, t)"
      using True h t(1) by (simp add: set_interface_body_def usb_consts)
    then show ?thesis using True t Cons.IH [OF rest c, of True f cur alt] kept_trans [OF t(2)] by fastforce
  next
    case False
    have "rd (d @ concat ds) 3 = Some (d ! 3)" "rd (d @ concat ds) 2 = Some (d ! 2)" if "d ! 1 = 4"
      using d(3) [OF that] by (simp_all add: rd_in)
    then obtain r1 f1 alt1 where "walk_row ?b (d # ds) (r, f, cur, alt, s)
      = walk_row ?b ds (r1, f1, if d ! 1 = 4 then d ! 2 else cur, alt1, s)"
      using False h d(2,3) by (cases "d ! 1 = 4") (auto simp: set_interface_body_def usb_consts)
    then show ?thesis
      using Cons.IH [OF rest Cons.prems(2), of r1 f1 "if d ! 1 = 4 then d ! 2 else cur" alt1] False by (auto split: if_splits)
  qed
qed


lemma set_interface_closes:
  assumes "config_row c ds" and "current_config E s = Some (c @ concat ds)" and "core_ok A I s"
    and "\<forall>i \<in> set I. notify_handler i = None"
  obtains r s' where "usbd_set_interface E k 0 s = Some (r, s')" "kept A I s s'" "g_configuration s' = g_configuration s"
    "g_app s' = g_app s" "data_log (g_udc s') = data_log (g_udc s) @ map Edpt_Close (interface_eps k 0xFF ds)"
proof -
  let ?b = "set_interface_body k 0 :: u8 list \<Rightarrow> bool \<times> u8 list option \<times> u8 \<times> u8 \<times> 'a usbd_core \<Rightarrow> _"
  note row = config_rowD [OF assms(1)]
  have shape: "\<forall>d \<in> set ds. 2 \<le> length d \<and> d ! 1 \<noteq> 2 \<and> (d ! 1 = 4 \<longrightarrow> 4 \<le> length d)
     \<and> (d ! 1 = 5 \<longrightarrow> 6 \<le> length d \<and> ep_in_table (d ! 2) \<and> (d ! 2) AND 0x7F \<noteq> 0)"
    using row(4-7) by simp
  obtain r f' cur' alt' s' where s': "walk_row ?b ds (False, None, 0xFF, 0xFF, s) = Some (False, r, f', cur', alt', s')"
    "kept A I s s'" "g_configuration s' = g_configuration s" "g_app s' = g_app s"
    "data_log (g_udc s') = data_log (g_udc s) @ map Edpt_Close (interface_eps k 0xFF ds)"
    using close_walk [OF shape assms(3), of k False None "0xFF" "0xFF"] by blast
  have nt: "no_total ?b ds"
    unfolding no_total_def
    using row(4,5) rd_head by (auto simp: set_interface_body_def usb_consts split: if_splits bind_splits)
  have "?b (c @ concat ds) (False, None, 0xFF, 0xFF, s) = Some (False, Some (length c + length (concat ds)), False, None, 0xFF, 0xFF, s)"
    using row(1-3) by (simp add: set_interface_body_def usb_consts rd_in)
  from walk_config [OF assms(1) this nt]
  have w: "walk_descriptors ?b (c @ concat ds) 0 0 (False, None, 0xFF, 0xFF, s) = Some (False, r, f', cur', alt', s')"
    using s'(1) by simp
  have "g_intf s' = I" using s'(2) by (simp add: kept_def core_ok_def)
  then have "usbd_class_event_notify_handler USBD_EVENT_SET_INTERFACE f' s' = Some s'"
    using assms(4) by (simp add: usbd_class_event_notify_handler_def notify_none)
  then have "usbd_set_interface E k 0 s = Some (r, s')" using w assms(2) by (simp add: usbd_set_interface_def)
  then show thesis using s'(2-5) by (rule that)
qed

definition set_interface :: "u8 \<Rightarrow> u8 \<Rightarrow> usb_setup_packet" where
  "set_interface k alt = \<lparr> bmRequestType = 1, bRequest = 0x0B, wValue = join16 alt 0, wIndex = join16 k 0, wLength = 0 \<rparr>"

definition endpoints_of_interface :: "u8 \<Rightarrow> u8 list" where
  "endpoints_of_interface k =
    (if k = 0 then [0x01, 0x81] else if k = 1 then [0x02, 0x82] else if k = 2 then [0x83, 0x03] else if k = 3 then [0x84]
     else if k = 4 then [0x05, 0x85] else if k = 5 then [0x86] else if k = 6 then [0x07, 0x87] else [])"

text \<open>
  C30. Selecting the only setting of an interface, setting 0, on the configured device: the request is
  acknowledged, and the core closes all endpoints of the interface and opens none; the modules are not
  told, so the read that was posted on its OUT endpoint is gone and nothing posts another before the
  next configuration.
\<close>

theorem set_interface_closes_endpoints:
  assumes "core_ok exlink_ok exlink_interfaces s" and "g_configuration s = 1" and "k < 16"
  shows "\<exists>s'. host_command exlink_env (set_interface k 0) s = Some (True, s')
    \<and> core_ok exlink_ok exlink_interfaces s' \<and> g_configuration s' = 1 \<and> g_app s' = g_app s
    \<and> data_log (g_udc s') = data_log (g_udc s) @ map Edpt_Close (endpoints_of_interface k)"
proof -
  let ?stp = "set_interface k 0"
  define m where "m = (if g_speed s = USB_SPEED_HIGH then 512 else 64 :: u16)"
  define p where "p = (ep0_prepare ?stp s)\<lparr> g_intf_altsetting := (g_intf_altsetting s)[unat k := 0] \<rparr>"
  have k: "kept exlink_ok exlink_interfaces (ep0_prepare ?stp s) p"
    using assms(1) by (simp add: p_def kept_def core_ok_def ep0_same_def ep0_prepare_def)
  then have p: "core_ok exlink_ok exlink_interfaces p" "g_speed p = g_speed s" "g_app p = g_app s" "g_udc p = g_udc s" "g_configuration p = 1"
    using assms(2) by (simp_all add: kept_def) (simp_all add: p_def ep0_prepare_def)
  define c ds where "c = hd (config_parts 2 m)" and "ds = tl (config_parts 2 m)"
  have row: "config_row c ds" using config_is_row [of m] by (simp add: c_def ds_def)
  have cc: "current_config exlink_env p = Some (c @ concat ds)"
    using config_callback_row [of "g_speed s"] p(2)
    by (simp add: current_config_def exlink_env_def exlink_composite_descriptor_def from_callback_def c_def ds_def m_def)
  obtain r t where t: "usbd_set_interface exlink_env k 0 p = Some (r, t)" "kept exlink_ok exlink_interfaces p t"
    "g_configuration t = g_configuration p" "g_app t = g_app p"
    "data_log (g_udc t) = data_log (g_udc p) @ map Edpt_Close (interface_eps k 0xFF ds)"
    by (rule set_interface_closes [OF row cc p(1) no_notify])
  have alts: "unat k < length (g_intf_altsetting s)" using assms(1,3) by (simp add: core_ok_def word_less_nat_alt)
  have h: "usbd_setup_request_handler exlink_env ?stp (Req_Data 0) (ucast (wLength ?stp)) (ep0_prepare ?stp s) = Some (True, Req_Data 0, 0, t)"
    using t(1) alts assms(2)
    by (simp add: usbd_setup_request_handler_def usbd_standard_request_handler_def usbd_std_interface_req_handler_def
        set_interface_def usb_consts Let_def p_def ep0_prepare_def is_device_configured_def exlink_env_def exlink_composite_descriptor_def)
  obtain s' where "host_command exlink_env ?stp s = Some (True, s')" "core_ok exlink_ok exlink_interfaces s'"
    "g_configuration s' = g_configuration t" "g_app s' = g_app t" "data_log (g_udc s') = data_log (g_udc t)"
  proof (rule host_command_answered [OF assms(1) _ h])
    show "wLength ?stp = 0" by (simp add: set_interface_def)
    show "kept exlink_ok exlink_interfaces (ep0_prepare ?stp s) t" by (rule kept_trans [OF k t(2)])
  qed simp_all
  moreover have "interface_eps k 0xFF ds = endpoints_of_interface k"
    using assms(3) by (simp add: ds_def config_parts_def endpoints_of_interface_def)
  ultimately show ?thesis using t p by simp
qed

lemma set_interface_closes_endpoints_witness:
  "\<exists>(s :: bool exlink_device usbd_core) s'. core_ok exlink_ok exlink_interfaces s \<and> g_configuration s = 1
    \<and> host_command exlink_env (set_interface 1 0) s = Some (True, s')
    \<and> data_log (g_udc s') = data_log (g_udc s) @ [Edpt_Close 0x02, Edpt_Close 0x82]"
proof -
  obtain s0 :: "bool exlink_device usbd_core" where "exlink_reachable s0" by (rule device_is_reachable)
  then have "core_ok exlink_ok exlink_interfaces (s0\<lparr> g_configuration := 1 \<rparr>)" using reachable_ok [of s0] by simp
  moreover have c: "endpoints_of_interface 1 = [0x02, 0x82]" "g_configuration (s0\<lparr> g_configuration := 1 \<rparr>) = 1" "(1 :: u8) < 16"
    by (simp_all add: endpoints_of_interface_def)
  ultimately obtain s' where "host_command exlink_env (set_interface 1 0) (s0\<lparr> g_configuration := 1 \<rparr>) = Some (True, s')"
    "data_log (g_udc s') = data_log (g_udc (s0\<lparr> g_configuration := 1 \<rparr>)) @ map Edpt_Close [0x02, 0x82]"
    using set_interface_closes_endpoints [of "s0\<lparr> g_configuration := 1 \<rparr>" 1] unfolding c by blast
  then show ?thesis
    using \<open>core_ok exlink_ok exlink_interfaces (s0\<lparr> g_configuration := 1 \<rparr>)\<close> c(2) unfolding list.map by blast
qed

section \<open>Packets\<close>

lemma replay_opened: "opened u x \<Longrightarrow> opened (replay_call c u) x"
proof (cases c)
  case (Ep_Start_Read b ep n)
  assume "opened u x"
  then have "opened u' x" if "ep_update a (\<lambda>e. e\<lparr> xfer_len := l, actual_xfer_len := 0 \<rparr>) u = Some u'" for a l u'
    using opened_update(1) [OF that] by simp
  then show ?thesis
    using \<open>opened u x\<close> by (auto simp: Ep_Start_Read usbd_ep_start_read_def split: option.splits bind_splits if_splits)
next
  case (Ep_Start_Write b ep d)
  assume "opened u x"
  then have "opened u' x" if "ep_update a (\<lambda>e. e\<lparr> xfer_len := l, actual_xfer_len := 0 \<rparr>) u = Some u'" for a l u'
    using opened_update(1) [OF that] by simp
  then show ?thesis
    using \<open>opened u x\<close> by (auto simp: Ep_Start_Write usbd_ep_start_write_def split: option.splits bind_splits if_splits)
qed simp_all

lemma replay_data_log: "\<exists>xs. data_log (replay_call c u) = data_log u @ xs"
proof (cases c)
  case (Ep_Start_Read b ep n)
  then show ?thesis
    using data_log_update by (fastforce simp: usbd_ep_start_read_def split: option.splits bind_splits if_splits)
next
  case (Ep_Start_Write b ep d)
  then show ?thesis
    using data_log_update by (fastforce simp: usbd_ep_start_write_def split: option.splits bind_splits if_splits)
qed simp_all

lemma replays: "(opened u x \<longrightarrow> opened (fold replay_call cs u) x) \<and> (\<exists>xs. data_log (fold replay_call cs u) = data_log u @ xs)"
proof (induction cs arbitrary: u)
  case (Cons c cs)
  obtain xs where "data_log (replay_call c u) = data_log u @ xs" using replay_data_log by blast
  then show ?case using Cons.IH [of "replay_call c u"] replay_opened by auto
qed simp

definition read_size :: "u8 \<Rightarrow> nat" where
  "read_size ep = (if ep = 0x03 then 64 else 512)"

lemma out_cb_calls:
  assumes "exlink_ok d" and "ep \<in> {0x01, 0x02, 0x03, 0x05, 0x07}"
  shows "\<exists>cs. dev_calls (exlink_out_cb 0 ep bytes d) = dev_calls d @ cs @ [Ep_Start_Read 0 ep (read_size ep)]"
proof -
  have len: "length (s_cdc (dev_uart d)) = 2" using assms(1) length_s_cdc unfolding exlink_ok_def by blast
  then obtain p q where pq: "s_cdc (dev_uart d) = [p, q]" by (auto simp: length_Suc_conv numeral_2_eq_2)
  have eps: "cdc_out_ep p = 0x05" "cdc_out_ep q = 0x07"
    using assms(1) by (simp_all add: exlink_ok_def uart_ok_def pq endpoint_defs)
  show ?thesis
    using assms(2)
    by (auto simp: exlink_out_cb_def read_size_def on_ctrl_def on_dap_def on_dapv1_def on_uart_def Let_def endpoint_defs
        exlink_ctrl_out_cb_def dap_out_cb_def hid_out_cb_def cdc_port_out_def ctrl_call_def dap_call_def hid_call_def uart_call_def
        on_port_def pq eps EXLINK_BULK_MPS_def EXLINK_HID_MPS_def)
qed

text \<open>
  C29. A packet on an OUT endpoint that is served and open: the core hands it to the callback of its module
  and to no other, the callback has posted the next read of the endpoint before it returns, and the
  controller driver has accepted it, so that the endpoint is never left without a read.
\<close>

theorem packet_reaches_module:
  assumes "core_ok exlink_ok exlink_interfaces s" and "ep \<in> {0x01, 0x02, 0x03, 0x05, 0x07}"
    and "served s ep" and "opened (g_udc s) ep"
  shows "\<exists>s' xs. usb_step exlink_env (Out_Irq ep bytes) s = Some s' \<and> core_ok exlink_ok exlink_interfaces s'
    \<and> g_app s' = exlink_out_cb 0 ep bytes (g_app s) \<and> opened (g_udc s') ep
    \<and> data_log (g_udc s') = data_log (g_udc s) @ xs @ [Xfer_Out ep (read_size ep)]"
proof -
  have a: "ep AND 0x7F = ep" "ep_in_table ep" using assms(2) by (auto simp: ep_in_table_def)
  let ?d = "g_app s" and ?u = "g_udc s" and ?f = "exlink_out_cb 0 ep bytes"
  have ok: "exlink_ok ?d" "udc_ok ?u" using assms(1) by (simp_all add: core_ok_def)
  obtain cs where cs: "dev_calls (?f ?d) = dev_calls ?d @ cs @ [Ep_Start_Read 0 ep (read_size ep)]"
    using out_cb_calls [OF ok(1) assms(2)] by blast
  define v where "v = fold replay_call cs ?u"
  obtain xs where v: "opened v ep" "data_log v = data_log ?u @ xs" using replays [of ?u ep cs] assms(4) by (auto simp: v_def)
  define w where "w = replay_call (Ep_Start_Read 0 ep (read_size ep)) v"
  have "data_log (fold replay_call (map (\<lambda>(ep, n). Ep_Start_Read 0 ep n) [(ep, read_size ep)]) v)
      = data_log v @ map (\<lambda>(ep, n). Xfer_Out ep n) [(ep, read_size ep)]"
    by (rule replay_reads) (use v(1) assms(2) in \<open>auto simp: read_size_def\<close>)
  then have w: "data_log w = data_log ?u @ xs @ [Xfer_Out ep (read_size ep)]" "opened w ep"
    using v replay_opened by (simp_all add: w_def del: replay_call.simps)
  have run: "dev_run ?f (?d, ?u) = (?f ?d, w)" by (simp add: dev_run_def cs v_def w_def Let_def del: replay_call.simps)
  obtain m where m: "msg_entry ep s = Some m" "msg_cb m = Cb_App" using assms(3) by (auto simp: served_def split: option.splits)
  have "usb_step exlink_env (Out_Irq ep bytes) s = Some (s\<lparr> g_app := ?f ?d, g_udc := w \<rparr>)"
    using m run by (simp add: usbd_event_ep_out_complete_handler_def a exlink_env_def on_app_def)
  moreover have "core_ok exlink_ok exlink_interfaces (s\<lparr> g_app := ?f ?d, g_udc := w \<rparr>)"
    using assms(1) dev_run_keeps [OF harmless_out_cb ok run] by (simp add: core_ok_def)
  ultimately show ?thesis using w by (intro exI [of _ "s\<lparr> g_app := ?f ?d, g_udc := w \<rparr>"] exI [of _ xs]) simp
qed


lemma packet_reaches_module_witness:
  "\<exists>(s :: bool exlink_device usbd_core) s'. core_ok exlink_ok exlink_interfaces s
    \<and> usb_step exlink_env (Out_Irq 0x01 [1, 2]) s = Some s' \<and> g_app s' = exlink_out_cb 0 0x01 [1, 2] (g_app s)"
proof -
  obtain s0 :: "bool exlink_device usbd_core" where "exlink_reachable s0" by (rule device_is_reachable)
  then have c: "core_ok exlink_ok exlink_interfaces s0" using reachable_ok by blast
  define u where "u = (g_udc s0)\<lparr> udc_out_ep := (udc_out_ep (g_udc s0))[1 := ep_zero\<lparr> ep_enable := True \<rparr>] \<rparr>"
  define s where "s = s0\<lparr> g_rx_msg := (g_rx_msg s0)[1 := msg_zero\<lparr> msg_cb := Cb_App \<rparr>], g_udc := u \<rparr>"
  have "core_ok exlink_ok exlink_interfaces s" "served s 1" "opened (g_udc s) 1"
    using c by (auto simp: core_ok_def s_def u_def udc_ok_def served_def msg_entry_def opened_def ep_entry_def
        USB_EP_DIR_IS_OUT_def idx_7F nth_list_update Let_def)
  from packet_reaches_module [OF this(1) _ this(2,3)] \<open>core_ok exlink_ok exlink_interfaces s\<close> show ?thesis by blast
qed

end
