(* ===== verification/Usb_Modules.thy ===== *)
theory Usb_Modules
  imports Usb_Composite
begin

text \<open>
  The modules below the USB stack: what an interrupt of the USB controller does, after it has gone through
  the interrupt handler, the device core and the callbacks, is for each module a sequence of the events
  that the scripts of the module theories are made of, and nothing else.
\<close>

section \<open>The part of a module in the device\<close>

text \<open>
  The modules of the device share one log of calls; the part of a module is its state with the calls for
  its own endpoints.
\<close>

fun on_eps :: "u8 set \<Rightarrow> usb_call \<Rightarrow> bool" where
  "on_eps X (Ep_Start_Read b ep n) \<longleftrightarrow> ep \<in> X"
| "on_eps X (Ep_Start_Write b ep d) \<longleftrightarrow> ep \<in> X"
| "on_eps X _ \<longleftrightarrow> False"

definition ctrl_eps :: "u8 set" where "ctrl_eps = {EXLINK_EP_CMD_OUT, EXLINK_EP_CMD_IN}"
definition dap_eps :: "u8 set" where "dap_eps = {EXLINK_EP_DAP_OUT, EXLINK_EP_DAP_IN}"
definition hid_eps :: "u8 set" where "hid_eps = {EXLINK_EP_HID_OUT, EXLINK_EP_HID_IN}"
definition uart_eps :: "u8 set" where
  "uart_eps = {EXLINK_EP_CDC1_OUT, EXLINK_EP_CDC1_IN, EXLINK_EP_CDC2_OUT, EXLINK_EP_CDC2_IN}"

lemmas eps_defs = ctrl_eps_def dap_eps_def hid_eps_def uart_eps_def

lemma eps_disjoint:
  "ctrl_eps \<inter> dap_eps = {}" "ctrl_eps \<inter> hid_eps = {}" "ctrl_eps \<inter> uart_eps = {}" "dap_eps \<inter> hid_eps = {}"
  "dap_eps \<inter> uart_eps = {}" "hid_eps \<inter> uart_eps = {}"
  by (auto simp: eps_defs endpoint_defs)

definition ctrl_part :: "'t exlink_device \<Rightarrow> usb_if_ctrl" where
  "ctrl_part d = (dev_ctrl d)\<lparr> ctrl_calls := filter (on_eps ctrl_eps) (dev_calls d) \<rparr>"

definition dap_part :: "'t exlink_device \<Rightarrow> usb_if_dap" where
  "dap_part d = (dev_dap d)\<lparr> dap_calls := filter (on_eps dap_eps) (dev_calls d) \<rparr>"

definition uart_part :: "'t exlink_device \<Rightarrow> usb_if_uart" where
  "uart_part d = (dev_uart d)\<lparr> uart_calls := filter (on_eps uart_eps) (dev_calls d) \<rparr>"

lemmas part_defs = ctrl_part_def dap_part_def uart_part_def

lemma filter_other: "\<forall>c \<in> set cs. on_eps X c \<Longrightarrow> X \<inter> Y = {} \<Longrightarrow> filter (on_eps Y) cs = []"
proof (induction cs)
  case (Cons c cs)
  then show ?case by (cases c) auto
qed simp

lemma filter_own: "\<forall>c \<in> set cs. on_eps X c \<Longrightarrow> filter (on_eps X) cs = cs"
  by (simp add: filter_id_conv)

text \<open>Steps of a module that add calls for its own endpoints to the log and do not look at it.\<close>

definition ctrl_local :: "(usb_if_ctrl \<Rightarrow> usb_if_ctrl) \<Rightarrow> bool" where
  "ctrl_local f \<longleftrightarrow> (\<forall>s. \<exists>cs. (\<forall>c \<in> set cs. on_eps ctrl_eps c) \<and> (\<forall>k. f (s\<lparr> ctrl_calls := k \<rparr>) = (f s)\<lparr> ctrl_calls := k @ cs \<rparr>))"

definition dap_local :: "(usb_if_dap \<Rightarrow> usb_if_dap) \<Rightarrow> bool" where
  "dap_local f \<longleftrightarrow> (\<forall>s. \<exists>cs. (\<forall>c \<in> set cs. on_eps dap_eps c) \<and> (\<forall>k. f (s\<lparr> dap_calls := k \<rparr>) = (f s)\<lparr> dap_calls := k @ cs \<rparr>))"

definition hid_local :: "(usb_if_dapv1 \<Rightarrow> usb_if_dapv1) \<Rightarrow> bool" where
  "hid_local f \<longleftrightarrow> (\<forall>s. \<exists>cs. (\<forall>c \<in> set cs. on_eps hid_eps c) \<and> (\<forall>k. f (s\<lparr> hid_calls := k \<rparr>) = (f s)\<lparr> hid_calls := k @ cs \<rparr>))"

definition uart_local :: "(usb_if_uart \<Rightarrow> usb_if_uart) \<Rightarrow> bool" where
  "uart_local f \<longleftrightarrow> (\<forall>s. uart_ok s \<longrightarrow>
     (\<exists>cs. (\<forall>c \<in> set cs. on_eps uart_eps c) \<and> (\<forall>k. f (s\<lparr> uart_calls := k \<rparr>) = (f s)\<lparr> uart_calls := k @ cs \<rparr>)))"

lemma on_ctrl_parts:
  assumes "ctrl_local f"
  shows "ctrl_part (on_ctrl f d) = f (ctrl_part d)" "dap_part (on_ctrl f d) = dap_part d" "uart_part (on_ctrl f d) = uart_part d"
    "dev_unit (on_ctrl f d) = dev_unit d" "dev_dap (on_ctrl f d) = dev_dap d" "dev_uart (on_ctrl f d) = dev_uart d"
proof -
  obtain cs where cs: "\<forall>c \<in> set cs. on_eps ctrl_eps c" "\<And>k. f ((dev_ctrl d)\<lparr> ctrl_calls := k \<rparr>) = (f (dev_ctrl d))\<lparr> ctrl_calls := k @ cs \<rparr>"
    using assms unfolding ctrl_local_def by metis
  show "ctrl_part (on_ctrl f d) = f (ctrl_part d)" "dap_part (on_ctrl f d) = dap_part d" "uart_part (on_ctrl f d) = uart_part d"
    "dev_unit (on_ctrl f d) = dev_unit d" "dev_dap (on_ctrl f d) = dev_dap d" "dev_uart (on_ctrl f d) = dev_uart d"
    using filter_own [OF cs(1)] filter_other [OF cs(1) eps_disjoint(1)] filter_other [OF cs(1) eps_disjoint(3)]
    by (simp_all add: part_defs on_ctrl_def cs(2) Let_def)
qed

lemma on_dap_parts:
  assumes "dap_local f"
  shows "dap_part (on_dap (map_prod f id) d) = f (dap_part d)" "ctrl_part (on_dap (map_prod f id) d) = ctrl_part d"
    "uart_part (on_dap (map_prod f id) d) = uart_part d" "dev_unit (on_dap (map_prod f id) d) = dev_unit d"
    "dev_ctrl (on_dap (map_prod f id) d) = dev_ctrl d" "dev_uart (on_dap (map_prod f id) d) = dev_uart d"
proof -
  obtain cs where cs: "\<forall>c \<in> set cs. on_eps dap_eps c" "\<And>k. f ((dev_dap d)\<lparr> dap_calls := k \<rparr>) = (f (dev_dap d))\<lparr> dap_calls := k @ cs \<rparr>"
    using assms unfolding dap_local_def by metis
  show "dap_part (on_dap (map_prod f id) d) = f (dap_part d)" "ctrl_part (on_dap (map_prod f id) d) = ctrl_part d"
    "uart_part (on_dap (map_prod f id) d) = uart_part d" "dev_unit (on_dap (map_prod f id) d) = dev_unit d"
    "dev_ctrl (on_dap (map_prod f id) d) = dev_ctrl d" "dev_uart (on_dap (map_prod f id) d) = dev_uart d"
    using filter_own [OF cs(1)] filter_other [OF cs(1)] eps_disjoint
    by (simp_all add: part_defs on_dap_def cs(2) Int_commute)
qed

lemma on_dapv1_parts:
  assumes "hid_local f"
  shows "ctrl_part (on_dapv1 f d) = ctrl_part d" "dap_part (on_dapv1 f d) = dap_part d" "uart_part (on_dapv1 f d) = uart_part d"
    "dev_unit (on_dapv1 f d) = dev_unit d" "dev_ctrl (on_dapv1 f d) = dev_ctrl d" "dev_dap (on_dapv1 f d) = dev_dap d"
    "dev_uart (on_dapv1 f d) = dev_uart d"
proof -
  obtain cs where cs: "\<forall>c \<in> set cs. on_eps hid_eps c" "\<And>k. f ((dev_dapv1 d)\<lparr> hid_calls := k \<rparr>) = (f (dev_dapv1 d))\<lparr> hid_calls := k @ cs \<rparr>"
    using assms unfolding hid_local_def by metis
  show "ctrl_part (on_dapv1 f d) = ctrl_part d" "dap_part (on_dapv1 f d) = dap_part d" "uart_part (on_dapv1 f d) = uart_part d"
    "dev_unit (on_dapv1 f d) = dev_unit d" "dev_ctrl (on_dapv1 f d) = dev_ctrl d" "dev_dap (on_dapv1 f d) = dev_dap d"
    "dev_uart (on_dapv1 f d) = dev_uart d"
    using filter_other [OF cs(1)] eps_disjoint by (simp_all add: part_defs on_dapv1_def cs(2) Let_def Int_commute)
qed

lemma on_uart_parts:
  assumes "uart_local f" and "uart_ok (dev_uart d)"
  shows "uart_part (on_uart f d) = f (uart_part d)" "ctrl_part (on_uart f d) = ctrl_part d" "dap_part (on_uart f d) = dap_part d"
    "dev_unit (on_uart f d) = dev_unit d" "dev_ctrl (on_uart f d) = dev_ctrl d" "dev_dap (on_uart f d) = dev_dap d"
proof -
  obtain cs where cs: "\<forall>c \<in> set cs. on_eps uart_eps c" "\<And>k. f ((dev_uart d)\<lparr> uart_calls := k \<rparr>) = (f (dev_uart d))\<lparr> uart_calls := k @ cs \<rparr>"
    using assms unfolding uart_local_def by metis
  show "uart_part (on_uart f d) = f (uart_part d)" "ctrl_part (on_uart f d) = ctrl_part d" "dap_part (on_uart f d) = dap_part d"
    "dev_unit (on_uart f d) = dev_unit d" "dev_ctrl (on_uart f d) = dev_ctrl d" "dev_dap (on_uart f d) = dev_dap d"
    using filter_own [OF cs(1)] filter_other [OF cs(1)] eps_disjoint
    by (simp_all add: part_defs on_uart_def cs(2) Let_def Int_commute)
qed

section \<open>The events are local\<close>

lemma rx_ring_put_log: "rx_ring_put bs (s\<lparr> ctrl_calls := k \<rparr>) = (rx_ring_put bs s)\<lparr> ctrl_calls := k \<rparr>"
proof (induction bs s rule: rx_ring_put.induct)
  case (2 b bs s)
  have "rx_store b (s\<lparr> ctrl_calls := k \<rparr>) = (rx_store b s)\<lparr> ctrl_calls := k \<rparr>" by (simp add: rx_store_def)
  then show ?case using 2 by simp
qed simp

lemma put_busid: "ctrl_busid (rx_ring_put bs s) = ctrl_busid s"
  by (induction bs s rule: rx_ring_put.induct) (simp_all add: rx_store_def)

lemma ctrl_isr_local: "ctrl_local (ctrl_isr m e)"
  unfolding ctrl_local_def
proof
  fix s :: usb_if_ctrl
  let ?b = "ctrl_busid s"
  define cs where "cs = (case e of Ctrl_Out d \<Rightarrow> [Ep_Start_Read ?b EXLINK_EP_CMD_OUT EXLINK_BULK_MPS]
    | Ctrl_In n \<Rightarrow> if 0 < n \<and> n mod m = 0 then [Ep_Start_Write ?b EXLINK_EP_CMD_IN []] else []
    | Ctrl_Reset \<Rightarrow> [] | Ctrl_Configured \<Rightarrow> [Ep_Start_Read ?b EXLINK_EP_CMD_OUT EXLINK_BULK_MPS])"
  show "\<exists>cs. (\<forall>c \<in> set cs. on_eps ctrl_eps c) \<and> (\<forall>k. ctrl_isr m e (s\<lparr> ctrl_calls := k \<rparr>) = (ctrl_isr m e s)\<lparr> ctrl_calls := k @ cs \<rparr>)"
  proof (intro exI [of _ cs] conjI allI)
    show "\<forall>c \<in> set cs. on_eps ctrl_eps c" by (cases e) (auto simp: cs_def ctrl_eps_def)
    fix k
    have put: "rx_ring_put bs (s\<lparr> ctrl_calls := k, ctrl_ep_out_buf := x \<rparr>) = (rx_ring_put bs (s\<lparr> ctrl_ep_out_buf := x \<rparr>))\<lparr> ctrl_calls := k \<rparr>"
      for bs x
    proof -
      have "s\<lparr> ctrl_calls := k, ctrl_ep_out_buf := x \<rparr> = s\<lparr> ctrl_ep_out_buf := x, ctrl_calls := k \<rparr>" by (cases s) simp
      then show ?thesis by (simp only: rx_ring_put_log)
    qed
    show "ctrl_isr m e (s\<lparr> ctrl_calls := k \<rparr>) = (ctrl_isr m e s)\<lparr> ctrl_calls := k @ cs \<rparr>"
      by (cases e) (simp_all add: cs_def exlink_ctrl_out_cb_def exlink_ctrl_in_cb_def usb_if_ctrl_on_reset_def
        usb_if_ctrl_on_configured_def ctrl_call_def put Let_def)
  qed
qed

lemma dap_isr_local: "dap_local (dap_isr m e)"
  unfolding dap_local_def
proof
  fix s :: usb_if_dap
  let ?b = "dap_busid s"
  define cs where "cs = (case e of Dap_Out d \<Rightarrow> [Ep_Start_Read ?b EXLINK_EP_DAP_OUT EXLINK_BULK_MPS]
    | Dap_In n \<Rightarrow> if 0 < n \<and> n mod m = 0 then [Ep_Start_Write ?b EXLINK_EP_DAP_IN []] else []
    | Dap_Reset \<Rightarrow> [] | Dap_Configured \<Rightarrow> [Ep_Start_Read ?b EXLINK_EP_DAP_OUT EXLINK_BULK_MPS])"
  show "\<exists>cs. (\<forall>c \<in> set cs. on_eps dap_eps c) \<and> (\<forall>k. dap_isr m e (s\<lparr> dap_calls := k \<rparr>) = (dap_isr m e s)\<lparr> dap_calls := k @ cs \<rparr>)"
  proof (intro exI [of _ cs] conjI allI)
    show "\<forall>c \<in> set cs. on_eps dap_eps c" by (cases e) (auto simp: cs_def dap_eps_def)
    show "dap_isr m e (s\<lparr> dap_calls := k \<rparr>) = (dap_isr m e s)\<lparr> dap_calls := k @ cs \<rparr>" for k
      by (cases e) (simp_all add: cs_def dap_out_cb_def dap_in_cb_def usb_if_dap_on_reset_def
        usb_if_dap_on_configured_def dap_call_def Let_def)
  qed
qed

lemma uart_isr_local:
  assumes "event_ports_ok e"
  shows "uart_local (uart_isr m b e)"
  unfolding uart_local_def
proof (intro allI impI)
  fix s :: usb_if_uart
  assume ok: "uart_ok s"
  have two: "[0..<2] = [0, Suc 0]" by (simp add: upt_rec)
  have eps: "cdc_in_ep (s_cdc s ! i) \<in> uart_eps" "cdc_out_ep (s_cdc s ! i) \<in> uart_eps" if "i < 2" for i
    using uart_ok_ep [OF ok that] that by (auto simp: uart_eps_def less_2_cases_iff)
  note len = length_s_cdc [OF ok]
  define cs where "cs = (case e of
      Cdc_Out i d \<Rightarrow> (if 0 < length d \<and> \<not> cdc_tx_busy (s_cdc s ! i)
          then [Ep_Start_Write b (cdc_in_ep (s_cdc s ! i)) (take (length d) (cdc_tx (s_cdc (uart_isr m b e s) ! i)))] else [])
        @ [Ep_Start_Read b (cdc_out_ep (s_cdc s ! i)) EXLINK_BULK_MPS]
    | Cdc_In i n \<Rightarrow> if 0 < n \<and> n mod m = 0 then [Ep_Start_Write b (cdc_in_ep (s_cdc s ! i)) []] else []
    | Uart_Reset \<Rightarrow> [] | Uart_Configured \<Rightarrow> map (\<lambda>i. Ep_Start_Read b (cdc_out_ep (s_cdc s ! i)) EXLINK_BULK_MPS) [0..<2])"
  show "\<exists>cs. (\<forall>c \<in> set cs. on_eps uart_eps c) \<and> (\<forall>k. uart_isr m b e (s\<lparr> uart_calls := k \<rparr>) = (uart_isr m b e s)\<lparr> uart_calls := k @ cs \<rparr>)"
  proof (intro exI [of _ cs] conjI allI)
    show "\<forall>c \<in> set cs. on_eps uart_eps c" using eps assms by (cases e) (auto simp: cs_def two)
    show "uart_isr m b e (s\<lparr> uart_calls := k \<rparr>) = (uart_isr m b e s)\<lparr> uart_calls := k @ cs \<rparr>" for k
      using assms len
      by (cases e) (simp_all add: cs_def cdc_port_out_def cdc_port_in_def usb_if_uart_on_reset_def usb_if_uart_on_configured_def
        cdc_configured_def uart_call_def on_port_def two Let_def nth_list_update)
  qed
qed

lemma hid_steps_local:
  "hid_local (\<lambda>s. hid_out_cb b n (s\<lparr> s_hid_out_buf := overlay bytes (s_hid_out_buf s) \<rparr>))" "hid_local (hid_in_cb b n)"
  "hid_local usb_if_dapv1_on_reset" "hid_local (usb_if_dapv1_on_configured b)"
proof -
  let ?c = "[Ep_Start_Read b EXLINK_EP_HID_OUT EXLINK_HID_MPS]"
  show "hid_local (\<lambda>s. hid_out_cb b n (s\<lparr> s_hid_out_buf := overlay bytes (s_hid_out_buf s) \<rparr>))"
    "hid_local (usb_if_dapv1_on_configured b)"
    unfolding hid_local_def
    by (rule allI, rule exI [of _ ?c], simp add: hid_out_cb_def usb_if_dapv1_on_configured_def hid_call_def hid_eps_def)+
  show "hid_local (hid_in_cb b n)" "hid_local usb_if_dapv1_on_reset"
    unfolding hid_local_def by (rule allI, rule exI [of _ "[]"], simp add: hid_in_cb_def usb_if_dapv1_on_reset_def)+
qed

section \<open>Interrupts as events of the modules\<close>

text \<open>The modules are installed on bus 0.\<close>

definition on_bus_0 :: "'t exlink_device \<Rightarrow> bool" where
  "on_bus_0 d \<longleftrightarrow> ctrl_busid (dev_ctrl d) = 0 \<and> dap_busid (dev_dap d) = 0"

text \<open>
  What one device state is to an earlier one when only events have happened: each event with the packet
  size that the core reported for the endpoint.
\<close>

definition by_events :: "'t exlink_device \<Rightarrow> 't exlink_device \<Rightarrow> bool" where
  "by_events d d' \<longleftrightarrow>
     (\<exists>es. ctrl_part d' = fold (\<lambda>(m, e). ctrl_isr m e) es (ctrl_part d))
     \<and> (\<exists>es. dap_part d' = fold (\<lambda>(m, e). dap_isr m e) es (dap_part d))
     \<and> (\<exists>es. list_all (event_ports_ok \<circ> snd) es \<and> uart_part d' = fold (\<lambda>(m, e). uart_isr m 0 e) es (uart_part d))
     \<and> dev_unit d' = dev_unit d"

lemma by_events_refl: "by_events d d"
  unfolding by_events_def by (auto intro: exI [of _ "[]"])

lemma by_events_trans:
  assumes "by_events d d'" and "by_events d' d''"
  shows "by_events d d''"
proof -
  obtain xs ys where "ctrl_part d' = fold (\<lambda>(m, e). ctrl_isr m e) xs (ctrl_part d)"
    "ctrl_part d'' = fold (\<lambda>(m, e). ctrl_isr m e) ys (ctrl_part d')" using assms by (auto simp: by_events_def)
  then have 1: "\<exists>es. ctrl_part d'' = fold (\<lambda>(m, e). ctrl_isr m e) es (ctrl_part d)" by (intro exI [of _ "xs @ ys"]) simp
  obtain xs ys where "dap_part d' = fold (\<lambda>(m, e). dap_isr m e) xs (dap_part d)"
    "dap_part d'' = fold (\<lambda>(m, e). dap_isr m e) ys (dap_part d')" using assms by (auto simp: by_events_def)
  then have 2: "\<exists>es. dap_part d'' = fold (\<lambda>(m, e). dap_isr m e) es (dap_part d)" by (intro exI [of _ "xs @ ys"]) simp
  obtain xs ys where "uart_part d' = fold (\<lambda>(m, e). uart_isr m 0 e) xs (uart_part d)" "list_all (event_ports_ok \<circ> snd) xs"
    "uart_part d'' = fold (\<lambda>(m, e). uart_isr m 0 e) ys (uart_part d')" "list_all (event_ports_ok \<circ> snd) ys"
    using assms by (auto simp: by_events_def)
  then have 3: "\<exists>es. list_all (event_ports_ok \<circ> snd) es \<and> uart_part d'' = fold (\<lambda>(m, e). uart_isr m 0 e) es (uart_part d)"
    by (intro exI [of _ "xs @ ys"]) simp
  show ?thesis using 1 2 3 assms by (simp add: by_events_def)
qed

definition bus_events :: "'t exlink_device \<Rightarrow> 't exlink_device \<Rightarrow> bool" where
  "bus_events d d' \<longleftrightarrow> on_bus_0 d' \<and> by_events d d'"

text \<open>One event of one module.\<close>

lemma ctrl_busid_event: "ctrl_busid (ctrl_isr m e s) = ctrl_busid s"
  by (cases e) (simp_all add: exlink_ctrl_out_cb_def exlink_ctrl_in_cb_def usb_if_ctrl_on_reset_def usb_if_ctrl_on_configured_def
    ctrl_call_def put_busid Let_def)

lemma dap_busid_event: "dap_busid (dap_isr m e s) = dap_busid s"
  by (cases e) (simp_all add: dap_out_cb_def dap_in_cb_def usb_if_dap_on_reset_def usb_if_dap_on_configured_def dap_call_def Let_def)

lemma ctrl_event:
  assumes "on_bus_0 d" and "\<And>s. ctrl_busid s = 0 \<Longrightarrow> f s = ctrl_isr m e s"
  shows "bus_events d (on_ctrl f d)" and "dev_uart (on_ctrl f d) = dev_uart d"
proof -
  have f: "on_ctrl f d = on_ctrl (ctrl_isr m e) d" using assms by (simp add: on_ctrl_def on_bus_0_def)
  note parts = on_ctrl_parts [OF ctrl_isr_local, of m e d]
  have "by_events d (on_ctrl (ctrl_isr m e) d)"
    unfolding by_events_def using parts by (auto intro: exI [of _ "[(m, e)]"] exI [of _ "[]"])
  moreover have "on_bus_0 (on_ctrl (ctrl_isr m e) d)"
    using assms(1) parts(5) by (simp add: on_bus_0_def on_ctrl_def ctrl_busid_event Let_def)
  ultimately show "bus_events d (on_ctrl f d)" "dev_uart (on_ctrl f d) = dev_uart d" using f parts(6) by (simp_all add: bus_events_def)
qed

lemma dap_event:
  assumes "on_bus_0 d" and "\<And>s. dap_busid s = 0 \<Longrightarrow> f s = dap_isr m e s"
  shows "bus_events d (on_dap (map_prod f id) d)" and "dev_uart (on_dap (map_prod f id) d) = dev_uart d"
proof -
  have f: "on_dap (map_prod f id) d = on_dap (map_prod (dap_isr m e) id) d" using assms by (simp add: on_dap_def on_bus_0_def)
  note parts = on_dap_parts [OF dap_isr_local, of m e d]
  have "by_events d (on_dap (map_prod (dap_isr m e) id) d)"
    unfolding by_events_def using parts by (auto intro: exI [of _ "[(m, e)]"] exI [of _ "[]"])
  moreover have "on_bus_0 (on_dap (map_prod (dap_isr m e) id) d)"
    using assms(1) parts(5) by (simp add: on_bus_0_def on_dap_def dap_busid_event)
  ultimately show "bus_events d (on_dap (map_prod f id) d)" "dev_uart (on_dap (map_prod f id) d) = dev_uart d"
    using f parts(6) by (simp_all add: bus_events_def)
qed

lemma hid_event:
  assumes "on_bus_0 d" and "hid_local f"
  shows "bus_events d (on_dapv1 f d)" and "dev_uart (on_dapv1 f d) = dev_uart d"
  using assms(1) on_dapv1_parts [OF assms(2), of d]
  by (auto simp: bus_events_def by_events_def on_bus_0_def intro: exI [of _ "[]"])

lemma uart_event:
  assumes "on_bus_0 d" and "uart_ok (dev_uart d)" and "f = uart_isr m 0 e" and "event_ports_ok e"
  shows "bus_events d (on_uart f d)"
proof -
  note parts = on_uart_parts [OF uart_isr_local [OF assms(4)] assms(2), of m 0]
  have "by_events d (on_uart f d)"
    unfolding by_events_def assms(3) using parts assms(4) by (auto intro: exI [of _ "[(m, e)]"] exI [of _ "[]"])
  then show ?thesis using assms(1,3) parts(5,6) by (simp add: bus_events_def on_bus_0_def)
qed

lemma bus_events_refl: "on_bus_0 d \<Longrightarrow> bus_events d d"
  by (simp add: bus_events_def by_events_refl)

lemma bus_events_trans: "bus_events d d' \<Longrightarrow> bus_events d' d'' \<Longrightarrow> bus_events d d''"
  using by_events_trans by (auto simp: bus_events_def)

text \<open>The callbacks of the device.\<close>

lemma out_cb_events:
  assumes "on_bus_0 d" and "exlink_ok d"
  shows "bus_events d (exlink_out_cb 0 ep bytes d)"
proof -
  have u: "uart_ok (dev_uart d)" using assms(2) by (simp add: exlink_ok_def)
  have "(\<lambda>s. cdc_port_out 0 i (length bytes) (on_port i (\<lambda>p. p\<lparr> cdc_rx := overlay bytes (cdc_rx p) \<rparr>) s)) = uart_isr 0 0 (Cdc_Out i bytes)" for i
    by (rule ext) (simp add: overlay_def)
  then show ?thesis
    using ctrl_event(1) [OF assms(1), where m = 0 and e = "Ctrl_Out bytes"] dap_event(1) [OF assms(1), where m = 0 and e = "Dap_Out bytes"]
      hid_event(1) [OF assms(1) hid_steps_local(1)] bus_events_refl [OF assms(1)]
      uart_event [OF assms(1) u, where m = 0 and e = "Cdc_Out 0 bytes"] uart_event [OF assms(1) u, where m = 0 and e = "Cdc_Out 1 bytes"]
    by (simp add: exlink_out_cb_def overlay_def Let_def)
qed

lemma in_cb_events:
  assumes "on_bus_0 d" and "exlink_ok d"
  shows "bus_events d (exlink_in_cb 0 m ep n d)"
proof -
  have u: "uart_ok (dev_uart d)" using assms(2) by (simp add: exlink_ok_def)
  have "cdc_port_in m 0 i n = uart_isr m 0 (Cdc_In i n)" for i by (rule ext) simp
  then show ?thesis
    using ctrl_event(1) [OF assms(1), where m = m and e = "Ctrl_In n"] dap_event(1) [OF assms(1), where m = m and e = "Dap_In n"]
      hid_event(1) [OF assms(1) hid_steps_local(2)] bus_events_refl [OF assms(1)]
      uart_event [OF assms(1) u, where m = m and e = "Cdc_In 0 n"] uart_event [OF assms(1) u, where m = m and e = "Cdc_In 1 n"]
    by (simp add: exlink_in_cb_def)
qed

lemma all_modules:
  assumes "on_bus_0 d" and "exlink_ok d"
    and "\<And>s. ctrl_busid s = 0 \<Longrightarrow> fc s = ctrl_isr 0 ec s" and "\<And>s. dap_busid s = 0 \<Longrightarrow> fd s = dap_isr 0 ed s" and "hid_local fh"
    and "fu = uart_isr 0 0 eu" and "event_ports_ok eu"
  shows "bus_events d (on_uart fu (on_dapv1 fh (on_dap (map_prod fd id) (on_ctrl fc d))))"
proof -
  note c = ctrl_event [OF assms(1,3)]
  then have "on_bus_0 (on_ctrl fc d)" by (simp add: bus_events_def)
  note p = dap_event [OF this assms(4)]
  then have "on_bus_0 (on_dap (map_prod fd id) (on_ctrl fc d))" by (simp add: bus_events_def)
  note h = hid_event [OF this assms(5)]
  then have b: "on_bus_0 (on_dapv1 fh (on_dap (map_prod fd id) (on_ctrl fc d)))" by (simp add: bus_events_def)
  have "uart_ok (dev_uart (on_dapv1 fh (on_dap (map_prod fd id) (on_ctrl fc d))))"
    using assms(2) c(2) p(2) h(2) by (simp add: exlink_ok_def)
  from uart_event [OF b this assms(6,7)] show ?thesis using c(1) p(1) h(1) bus_events_trans by blast
qed

lemma handler_events:
  assumes "on_bus_0 d" and "exlink_ok d"
  shows "bus_events d (exlink_usbd_event_handler 0 e d)"
proof -
  have "bus_events d (on_uart usb_if_uart_on_reset (on_dapv1 usb_if_dapv1_on_reset
      (on_dap (map_prod usb_if_dap_on_reset id) (on_ctrl usb_if_ctrl_on_reset d))))"
    by (rule all_modules [where ec = Ctrl_Reset and ed = Dap_Reset and eu = Uart_Reset]) (use assms hid_steps_local in \<open>auto simp: fun_eq_iff\<close>)
  moreover have "bus_events d (on_uart (usb_if_uart_on_configured 0) (on_dapv1 (usb_if_dapv1_on_configured 0)
      (on_dap (map_prod (usb_if_dap_on_configured 0) id) (on_ctrl (usb_if_ctrl_on_configured 0) d))))"
    by (rule all_modules [where ec = Ctrl_Configured and ed = Dap_Configured and eu = Uart_Configured])
      (use assms hid_steps_local in \<open>auto simp: fun_eq_iff\<close>)
  ultimately show ?thesis using bus_events_refl [OF assms(1)] by simp
qed

section \<open>What the core adds\<close>

text \<open>The contract of the device with the core, kept along with the events since a state \<open>d\<close>.\<close>

lemma exlink_with_events:
  "usb_application exlink_env (\<lambda>a. exlink_ok a \<and> bus_events d a) exlink_interfaces exlink_bad 1"
proof (rule exlink.with_invariant)
  fix a a' :: "'a exlink_device" and u u' e
  assume "exlink_ok a" "bus_events d a" "event_handler exlink_env e (a, u) = (a', u')"
  then show "bus_events d a'"
    using bus_events_trans [OF _ handler_events, of d a e] by (auto simp: exlink_env_def dev_run_def bus_events_def Let_def)
next
  fix a a' :: "'a exlink_device" and u u' mps ep n
  assume "exlink_ok a" "bus_events d a" "app_in_cb exlink_env mps ep n (a, u) = (a', u')"
  then show "bus_events d a'"
    using bus_events_trans [OF _ in_cb_events, of d a] by (cases "mps ep") (auto simp: exlink_env_def dev_run_def bus_events_def Let_def)
next
  fix a a' :: "'a exlink_device" and u u' ep bytes
  assume "exlink_ok a" "bus_events d a" "app_out_cb exlink_env ep bytes (a, u) = (a', u')"
  then show "bus_events d a'"
    using bus_events_trans [OF _ out_cb_events, of d a] by (auto simp: exlink_env_def dev_run_def bus_events_def Let_def)
next
  fix i :: "'a exlink_device usbd_interface" and h stp len and req :: "u8 list" and a a' :: "'a exlink_device" and rc buf len' req'
  assume i: "i \<in> set exlink_interfaces" "class_interface_handler i = Some h" "bus_events d a"
    "h stp (Req_Data 0) len (req, a) = Some (rc, buf, len', req', a')"
  then have "h = hid_class_interface_request_handler \<or> h = cdc_acm_class_interface_request_handler"
    by (auto simp: interface_list interface_zero_def usbd_hid_init_intf_def usbd_cdc_acm_init_intf_def)
  then have "a' = a"
    using i(4) by (auto simp: hid_class_interface_request_handler_def cdc_acm_class_interface_request_handler_def Let_def
      split: bind_splits if_splits prod.splits)
  then show "bus_events d a'" using i(3) by simp
qed

text \<open>What happens while a thread waits: interrupts, and changes of the registers of the controller.\<close>

inductive interrupts :: "'t exlink_device usbd_core \<Rightarrow> 't exlink_device usbd_core \<Rightarrow> bool" where
  quiet: "interrupts s s"
| irq: "interrupts s s' \<Longrightarrow> conformant s' i \<Longrightarrow> usb_step exlink_env i s' = Some s'' \<Longrightarrow> interrupts s s''"
| regs: "interrupts s s' \<Longrightarrow> interrupts s (on_udc (\<lambda>u. u\<lparr> udc_regs := r \<rparr>) s')"

text \<open>
  C7. The scripts of the module theories leave nothing out.  Between two states of the device between which
  only interrupts have happened, any number of them and whatever the host and the bus did, each
  module has gone through a sequence of its own events (packet received, transfer complete, reset,
  configured), each handled as the module's interrupt function handles it, its calls into the stack
  included; the debug unit behind them has not changed at all.
\<close>

theorem interrupts_are_events:
  assumes "exlink_reachable s" and "on_bus_0 (g_app s)" and "interrupts s s'"
  shows "(\<exists>es. ctrl_part (g_app s') = fold (\<lambda>(m, e). ctrl_isr m e) es (ctrl_part (g_app s)))
    \<and> (\<exists>es. dap_part (g_app s') = fold (\<lambda>(m, e). dap_isr m e) es (dap_part (g_app s)))
    \<and> (\<exists>es. list_all (event_ports_ok \<circ> snd) es
        \<and> uart_part (g_app s') = fold (\<lambda>(m, e). uart_isr m 0 e) es (uart_part (g_app s)))
    \<and> dev_unit (g_app s') = dev_unit (g_app s)"
proof -
  have ok: "core_ok exlink_ok exlink_interfaces s" "ep0_room s" using reachable_ok [OF assms(1)] by simp_all
  let ?A = "\<lambda>a. exlink_ok a \<and> bus_events (g_app s) a"
  have "core_ok ?A exlink_interfaces s' \<and> ep0_room s'"
    using assms(3,2) ok
  proof (induction rule: interrupts.induct)
    case (quiet s)
    then show ?case using bus_events_refl [of "g_app s"] by (simp add: core_ok_def)
  next
    case (irq s s' i s'')
    then show ?case
      using usb_application.step_safe [OF exlink_with_events, of "g_app s" s' i] by (auto split: if_splits)
  next
    case (regs s s' r)
    then show ?case by (simp add: on_udc_def core_ok_def ep0_room_def)
  qed
  then show ?thesis by (simp add: core_ok_def bus_events_def by_events_def)
qed

lemma interrupts_are_events_witness:
  "\<exists>(s :: bool exlink_device usbd_core) s'. exlink_reachable s \<and> usb_step exlink_env Reset_Irq s = Some s'
    \<and> (\<exists>es. dap_part (g_app s') = fold (\<lambda>(m, e). dap_isr m e) es (dap_part (g_app s))) \<and> dev_unit (g_app s') = dev_unit (g_app s)"
proof -
  obtain s0 :: "bool exlink_device usbd_core" where r: "exlink_reachable s0" by (rule device_is_reachable)
  let ?d = "g_app s0"
  define d where "d = ?d\<lparr> dev_ctrl := (dev_ctrl ?d)\<lparr> ctrl_busid := 0 \<rparr>, dev_dap := (dev_dap ?d)\<lparr> dap_busid := 0 \<rparr> \<rparr>"
  define s where "s = s0\<lparr> g_app := d, g_udc := g_udc s0 \<rparr>"
  have "exlink_ok ?d" using reachable_ok [OF r] by (simp add: core_ok_def)
  then have "thread_action (?d, g_udc s0) (d, g_udc s0)"
    by (auto simp: thread_action_def exlink_ok_def d_def intro!: exI [of _ "[]"])
  then have ta: "thread_action (g_app s0, g_udc s0) (d, g_udc s0)" .
  obtain W :: "bool wire" and reg t0 t1 t2 where t: "exlink_ok (g_app t0)" "exlink_boot W reg t0 = Some t1"
    "irq_reset exlink_env t1 = Some t2" "usb_reach exlink_env thread_action t2 s0"
    using r unfolding exlink_reachable_def by blast
  have "usb_reach exlink_env thread_action t2 s" unfolding s_def by (rule usb_reach.thread [OF t(4) ta])
  then have s: "exlink_reachable s" using t(1-3) unfolding exlink_reachable_def by blast
  have bus: "on_bus_0 (g_app s)" by (simp add: s_def d_def on_bus_0_def)
  obtain s' where s': "usb_step exlink_env Reset_Irq s = Some s'"
    using exlink.step_safe [of s Reset_Irq] reachable_ok [OF s] by auto
  have "interrupts s s'" using interrupts.irq [OF interrupts.quiet, of s Reset_Irq s'] s' by simp
  from interrupts_are_events [OF s bus this] show ?thesis using s s' by blast
qed

end
