(* ===== verification/Firmware.thy ===== *)
theory Firmware
  imports Dap_Session Usb_Modules Frame_Dispatch
begin

text \<open>
  The start of the firmware (\<^verbatim>\<open>main\<close> in \<^verbatim>\<open>applications/main.c\<close>): USB first, then the frame thread, then the
  engine thread; interrupts may come as soon as USB is up.  The pads of the board and the thread that
  blinks the LED have no state here; \<open>ok\<close> is whether the kernel could create a thread.
\<close>

section \<open>main\<close>

definition exlink_frame_thread_start :: "bool \<Rightarrow> int" where
  "exlink_frame_thread_start ok = (if ok then 0 else - 1)"

definition on_dev_engine :: "(dap_engine \<Rightarrow> dap_engine) \<Rightarrow> 't exlink_device usbd_core \<Rightarrow> 't exlink_device usbd_core" where
  "on_dev_engine f s = s\<lparr> g_app := (g_app s)\<lparr> dev_dap := on_engine f (dev_dap (g_app s)) \<rparr> \<rparr>"

text \<open>
  The verdicts of the two thread starts and the state; \<open>is\<close> are the interrupts before the frame thread is
  started, \<open>js\<close> those between the two.
\<close>

definition exlink_main ::
  "'t wire \<Rightarrow> u32 \<Rightarrow> bool \<Rightarrow> bool \<Rightarrow> usb_input list \<Rightarrow> usb_input list \<Rightarrow> 't exlink_device usbd_core
    \<Rightarrow> (int \<times> int \<times> 't exlink_device usbd_core) option" where
  "exlink_main W reg ok_frame ok_dap is js s =
    do {
      s \<leftarrow> exlink_boot W reg s;
      s \<leftarrow> usb_steps exlink_env is s;
      let frame = exlink_frame_thread_start ok_frame;
      s \<leftarrow> usb_steps exlink_env js s;
      let engine = fst (dap_engine_thread_start ok_dap (dap_eng (dev_dap (g_app s))));
      Some (frame, engine, on_dev_engine (\<lambda>e. snd (dap_engine_thread_start ok_dap e)) s)
    }"

section \<open>What start-up leaves\<close>

lemma init_modules:
  assumes "dev_dap d = static_usb_dap" and e_def: "e = exlink_usb_init W 0 reg (d\<lparr> dev_calls := [] \<rparr>)"
  shows "dap_busid (dev_dap e) = 0" "\<not> dap_tx_busy (dev_dap e)" "dap_eng (dev_dap e) = static_engine"
    "length (dap_out_buf (dev_dap e)) = EXLINK_BULK_MPS" "length (dap_in_buf (dev_dap e)) = EXLINK_BULK_MPS"
    "ctrl_busid (dev_ctrl e) = 0" "\<not> ctrl_tx_busy (dev_ctrl e)" "ctrl_rx_head (dev_ctrl e) = 0" "ctrl_rx_tail (dev_ctrl e) = 0"
    "ctrl_rx_dropped (dev_ctrl e) = 0" "ctrl_rx_sem (dev_ctrl e) = 0"
  using assms(1)
  by (simp_all add: e_def exlink_usb_init_def dev_call_def on_ctrl_def on_dap_def on_dapv1_def on_uart_def Let_def
      usb_if_ctrl_add_def ctrl_call_def usb_if_dap_add_def dap_call_def usb_if_dapv1_add_def hid_call_def
      static_usb_dap_def)

text \<open>
  When \<^verbatim>\<open>main\<close> is through and the bus quiet so far, all that the theorems on the parts of the program assume
  holds: the device core has the shape from which the first reset leads to the reachable states, both
  channels are idle and on bus 0, both rings are empty, the frame thread and the engine thread are in
  their invariants.
\<close>

theorem main_establishes_invariants:
  assumes "exlink_ok (g_app s)" and "dev_dap (g_app s) = static_usb_dap"
  shows "\<exists>s'. exlink_main W reg ok_frame ok_dap [] [] s = Some (if ok_frame then 0 else - 1, if ok_dap then 0 else - 1, s')
    \<and> core_shape exlink_ok exlink_interfaces s' \<and> on_bus_0 (g_app s')
    \<and> thread_ok (static_thread (dev_ctrl (g_app s'))) \<and> rx_queue (dev_ctrl (g_app s')) = [] \<and> \<not> ctrl_tx_busy (dev_ctrl (g_app s'))
    \<and> usb_dap_ok (dev_dap (g_app s')) \<and> pending (dev_dap (g_app s')) = [] \<and> \<not> dap_tx_busy (dev_dap (g_app s'))"
proof -
  obtain s1 where s1: "exlink_boot W reg s = Some s1" "core_shape exlink_ok exlink_interfaces s1"
    "g_app s1 = exlink_usb_init W 0 reg ((g_app s)\<lparr> dev_calls := [] \<rparr>)"
    using boot_ok [OF assms(1)] by metis
  note m = init_modules [OF assms(2) s1(3)]
  define s' where "s' = on_dev_engine (\<lambda>e. snd (dap_engine_thread_start ok_dap e)) s1"
  have f: "dev_ctrl (g_app s') = dev_ctrl (g_app s1)" "dev_dap (g_app s') = on_engine (\<lambda>e. snd (dap_engine_thread_start ok_dap e)) (dev_dap (g_app s1))"
    by (simp_all add: s'_def on_dev_engine_def)
  have "exlink_main W reg ok_frame ok_dap [] [] s = Some (if ok_frame then 0 else - 1, if ok_dap then 0 else - 1, s')"
    using s1(1) by (simp add: exlink_main_def exlink_frame_thread_start_def dap_engine_thread_start_def s'_def Let_def)
  moreover have "core_shape exlink_ok exlink_interfaces s'"
    using s1(2) by (simp add: s'_def on_dev_engine_def core_shape_def exlink_ok_def)
  moreover have "on_bus_0 (g_app s')" using m(1,6) by (simp add: f on_bus_0_def)
  moreover have "snd (dap_engine_thread_start ok_dap static_engine) = static_engine"
    by (simp add: dap_engine_thread_start_def static_engine_def)
  then have "usb_dap_ok (dev_dap (g_app s')) \<and> pending (dev_dap (g_app s')) = [] \<and> \<not> dap_tx_busy (dev_dap (g_app s'))"
    using m(2-5) start_engine_ok by (simp add: f usb_dap_ok_def pending_def)
  moreover have "ctrl_ring_inv (dev_ctrl (g_app s')) \<and> rx_queue (dev_ctrl (g_app s')) = []"
    using m(8,9) rx_empty_iff by (simp add: f ctrl_ring_inv_def rx_queue_def ring_list_def EXLINK_RX_RING_SIZE_def)
  ultimately show ?thesis using static_thread_ok m(7) f(1) by auto
qed

text \<open>
  A request that arrives after USB is up and before the engine thread is started is lost without a trace:
  the callback accepted it, and the start empties the ring and does not count it as dropped.
\<close>

theorem early_request_lost:
  assumes "usb_dap_ok s" and "length (pending s) < DAP_PACKET_COUNT" and "0 < length d" and "length d \<le> EXLINK_BULK_MPS"
  shows "pending (dap_isr mps (Dap_Out d) s) = pending s @ [d]
    \<and> pending (on_engine (\<lambda>e. snd (dap_engine_thread_start ok e)) (dap_isr mps (Dap_Out d) s)) = []
    \<and> s_req_dropped (dap_eng (on_engine (\<lambda>e. snd (dap_engine_thread_start ok e)) (dap_isr mps (Dap_Out d) s))) = 0"
  using dap_out_accepted [OF assms, of mps]
  by (simp add: pending_def dap_engine_thread_start_def req_slots_def ring_list_def del: dap_isr.simps)

end
