(* ===== verification/Swd_Link.thy ===== *)
theory Swd_Link
  imports Swd_Target
begin

text \<open>
  The line in front of the target: the switch of an SWJ-DP, which watches every clock, as ADIv5 documents
  it.  Fifty clocks with SWDIO high are a line reset; a select sequence right behind one switches between
  JTAG and serial wire; after a switch the serial-wire port listens only from the next line reset on.  So a
  target may be found in any state, and the connect sequence of the probe has to bring it up from there.
\<close>

section \<open>The switch\<close>

text \<open>
  Whether serial wire is selected, whether the port has seen a line reset since, the clocks with SWDIO high
  up to now, the bits since the last line reset while they may become a select sequence, and the target.
\<close>

record link =
  lk_swd :: bool
  lk_sync :: bool
  lk_ones :: nat
  lk_sel :: "bool list option"
  lk_tgt :: target

definition swd_select_bits :: "bool list" where "swd_select_bits = word_bits 16 0xE79E"
definition jtag_select_bits :: "bool list" where "jtag_select_bits = word_bits 16 0xE73C"

definition lk_select :: "bool \<Rightarrow> link \<Rightarrow> link" where
  "lk_select b l =
    (case lk_sel l of
       None \<Rightarrow> l
     | Some bs \<Rightarrow>
         (let bs = bs @ [b] in
          if bs = swd_select_bits then l\<lparr> lk_swd := True, lk_sync := False, lk_sel := None \<rparr>
          else if bs = jtag_select_bits then l\<lparr> lk_swd := False, lk_sync := False, lk_sel := None \<rparr>
          else if bs = take (length bs) swd_select_bits \<or> bs = take (length bs) jtag_select_bits
          then l\<lparr> lk_sel := Some bs \<rparr>
          else l\<lparr> lk_sel := None \<rparr>))"

definition lk_watch :: "bool \<Rightarrow> link \<Rightarrow> link" where
  "lk_watch b l =
    (let n = (if b then lk_ones l + 1 else 0); l = l\<lparr> lk_ones := n \<rparr> in
     if 50 \<le> n
     then l\<lparr> lk_sync := lk_swd l, lk_sel := Some [],
            lk_tgt := (lk_tgt l)\<lparr> tg_heard := [], tg_say := [], tg_write := None \<rparr> \<rparr>
     else lk_select b l)"

definition listens :: "link \<Rightarrow> bool" where
  "listens l \<longleftrightarrow> lk_swd l \<and> lk_sync l"

definition lk_hear :: "nat \<Rightarrow> bool \<Rightarrow> link \<Rightarrow> link" where
  "lk_hear lat b l = lk_watch b (if listens l then l\<lparr> lk_tgt := tg_hear lat b (lk_tgt l) \<rparr> else l)"

text \<open>Nobody drives a released line but the target that is listening; else it is pulled up.\<close>

definition lk_speak :: "link \<Rightarrow> bool \<times> link" where
  "lk_speak l =
    (if listens l then (case tg_speak (lk_tgt l) of (b, t) \<Rightarrow> (b, lk_watch b (l\<lparr> lk_tgt := t \<rparr>)))
     else (True, lk_watch True l))"

definition link_wire :: "nat \<Rightarrow> link wire" where
  "link_wire lat = \<lparr> w_out = lk_hear lat, w_in = (\<lambda>edge. lk_speak), w_pin = (\<lambda>n t. True), w_act = (\<lambda>a t. t),
     w_spi_hz = 80000000 \<rparr>"

lemma link_wire_fields [simp]:
  "w_out (link_wire lat) = lk_hear lat" "w_in (link_wire lat) e = lk_speak" "w_act (link_wire lat) a t = t"
  by (simp_all add: link_wire_def)

lemma target_wire_fields:
  "w_out (target_wire lat) = tg_hear lat" "w_in (target_wire lat) e = tg_speak"
  by (simp_all add: target_wire_def)

section \<open>Packets pass the switch\<close>

text \<open>The target listens, no select sequence is under way, at most \<open>n\<close> clocks of the current run were high.\<close>

definition attached :: "nat \<Rightarrow> link \<Rightarrow> bool" where
  "attached n l \<longleftrightarrow> listens l \<and> lk_sel l = None \<and> lk_ones l \<le> n"

lemma watch_attached:
  "attached n l \<Longrightarrow> n < 49 \<Longrightarrow>
   attached (if b then Suc n else 0) (lk_watch b l) \<and> lk_tgt (lk_watch b l) = lk_tgt l"
  by (simp add: attached_def lk_watch_def lk_select_def listens_def Let_def)

lemma attached_tgt [simp]: "attached n (l\<lparr> lk_tgt := t \<rparr>) = attached n l"
  by (simp add: attached_def listens_def)

lemma attached_mono: "attached m l \<Longrightarrow> m \<le> n \<Longrightarrow> attached n l"
  by (simp add: attached_def)

lemma hear_attached:
  assumes "attached n l" and "n < 49"
  shows "attached (if b then Suc n else 0) (lk_hear lat b l)" and "lk_tgt (lk_hear lat b l) = tg_hear lat b (lk_tgt l)"
proof -
  have "lk_hear lat b l = lk_watch b (l\<lparr> lk_tgt := tg_hear lat b (lk_tgt l) \<rparr>)"
    using assms(1) by (simp add: lk_hear_def attached_def)
  then show "attached (if b then Suc n else 0) (lk_hear lat b l)" and "lk_tgt (lk_hear lat b l) = tg_hear lat b (lk_tgt l)"
    using watch_attached [of n "l\<lparr> lk_tgt := tg_hear lat b (lk_tgt l) \<rparr>"] assms by simp_all
qed

lemma out_attached:
  "attached n l \<Longrightarrow> n + length bs < 50 \<Longrightarrow>
   attached (n + length bs) (out_bits (link_wire lat) bs l)
   \<and> lk_tgt (out_bits (link_wire lat) bs l) = out_bits (target_wire lat) bs (lk_tgt l)"
proof (induction bs arbitrary: n l)
  case (Cons b bs)
  note h = hear_attached [OF Cons.prems(1), where b = b and lat = lat]
  have "attached (Suc n) (lk_hear lat b l)" using h(1) Cons.prems(2) by (cases b) (auto intro: attached_mono)
  then show ?case
    using Cons.IH [of "Suc n" "lk_hear lat b l"] h(2) Cons.prems(2) by (simp add: out_bits_Cons target_wire_fields)
qed simp

lemma in_attached:
  "attached n l \<Longrightarrow> n + k < 50 \<Longrightarrow>
   (case in_bits (link_wire lat) e k l of (bs, l') \<Rightarrow>
     attached (n + k) l' \<and> in_bits (target_wire lat) e k (lk_tgt l) = (bs, lk_tgt l'))"
proof (induction k arbitrary: n l)
  case (Suc k)
  obtain b t where bt: "tg_speak (lk_tgt l) = (b, t)" by fastforce
  have s: "lk_speak l = (b, lk_watch b (l\<lparr> lk_tgt := t \<rparr>))"
    using Suc.prems(1) bt by (simp add: lk_speak_def attached_def)
  have w: "attached (if b then Suc n else 0) (lk_watch b (l\<lparr> lk_tgt := t \<rparr>))" "lk_tgt (lk_watch b (l\<lparr> lk_tgt := t \<rparr>)) = t"
    using watch_attached [of n "l\<lparr> lk_tgt := t \<rparr>" b] Suc.prems by simp_all
  have "attached (Suc n) (lk_watch b (l\<lparr> lk_tgt := t \<rparr>))"
    using w(1) by (cases b) (auto intro: attached_mono)
  from Suc.IH [OF this] Suc.prems(2) w(2) bt s show ?case
    by (auto simp: target_wire_fields split: prod.splits)
qed simp

lemma in_attachedD:
  assumes "attached n l" and "n + k < 50" and "in_bits (link_wire lat) e k l = (bs, l')"
  shows "attached (n + k) l'" and "in_bits (target_wire lat) e k (lk_tgt l) = (bs, lk_tgt l')"
  using in_attached [OF assms(1,2), of lat e] assms(3) by simp_all

text \<open>The stop bit of a request ends every run, so no packet is taken for a line reset.\<close>

lemma request_attached:
  assumes "attached 39 l"
  shows "attached 1 (out_bits (link_wire lat) (request_bits rq) l)"
    and "lk_tgt (out_bits (link_wire lat) (request_bits rq) l) = out_bits (target_wire lat) (request_bits rq) (lk_tgt l)"
proof -
  define bs where "bs = take 6 (request_bits rq)"
  have rb: "request_bits rq = bs @ [False] @ [True]" "length bs = 6" by (simp_all add: bs_def request_bits_def)
  define l1 where "l1 = out_bits (link_wire lat) bs l"
  have l1: "attached 45 l1" "lk_tgt l1 = out_bits (target_wire lat) bs (lk_tgt l)"
    using out_attached [OF assms, of bs lat] rb(2) by (simp_all add: l1_def)
  define l2 where "l2 = lk_hear lat False l1"
  have l2: "attached 0 l2" "lk_tgt l2 = tg_hear lat False (lk_tgt l1)"
    using hear_attached [OF l1(1), where b = False and lat = lat] by (simp_all add: l2_def)
  have "out_bits (link_wire lat) (request_bits rq) l = lk_hear lat True l2"
    unfolding rb(1) out_bits_append l1_def [symmetric] by (simp add: out_bits_Cons l2_def)
  then show "attached 1 (out_bits (link_wire lat) (request_bits rq) l)"
    and "lk_tgt (out_bits (link_wire lat) (request_bits rq) l) = out_bits (target_wire lat) (request_bits rq) (lk_tgt l)"
    using hear_attached [OF l2(1), where b = True and lat = lat] l2(2) l1(2)
    unfolding rb(1) out_bits_append by (simp_all add: out_bits_Cons target_wire_fields)
qed

definition link_live :: "nat \<Rightarrow> link \<Rightarrow> bool" where
  "link_live lat l \<longleftrightarrow> attached 39 l \<and> between (lk_tgt l) \<and> tg_wait (lk_tgt l) \<le> lat"

lemma link_packet:
  assumes "attached 39 l" and "wire_transfer (link_wire lat) 1 rq d l = (ack, v, l')"
  shows "attached 39 l' \<and> wire_transfer (target_wire lat) 1 rq d (lk_tgt l) = (ack, v, lk_tgt l')"
proof -
  define l1 where "l1 = out_bits (link_wire lat) (request_bits rq) l"
  have l1: "attached 1 l1" "lk_tgt l1 = out_bits (target_wire lat) (request_bits rq) (lk_tgt l)"
    using request_attached [OF assms(1)] by (simp_all add: l1_def)
  obtain x l2 where l2: "in_bits (link_wire lat) False 1 l1 = (x, l2)" by fastforce
  have i2: "attached 2 l2" "in_bits (target_wire lat) False 1 (lk_tgt l1) = (x, lk_tgt l2)"
    using in_attachedD [OF l1(1) _ l2] by (simp_all add: numeral_2_eq_2 del: in_bits.simps)
  obtain a l3 where l3: "in_bits (link_wire lat) False 3 l2 = (a, l3)" by fastforce
  have i3: "attached 5 l3" "in_bits (target_wire lat) False 3 (lk_tgt l2) = (a, lk_tgt l3)"
    using in_attachedD [OF i2(1) _ l3] by (simp_all del: in_bits.simps)
  obtain y l4 where l4: "in_bits (link_wire lat) False 1 l3 = (y, l4)" by fastforce
  have i4: "attached 6 l4" "in_bits (target_wire lat) False 1 (lk_tgt l3) = (y, lk_tgt l4)"
    using in_attachedD [OF i3(1) _ l4] by (simp_all del: in_bits.simps)
  obtain bs l5 where l5: "in_bits (link_wire lat) False 32 l3 = (bs, l5)" by fastforce
  have i5: "attached 37 l5" "in_bits (target_wire lat) False 32 (lk_tgt l3) = (bs, lk_tgt l5)"
    using in_attachedD [OF i3(1) _ l5] by (simp_all del: in_bits.simps)
  obtain p l6 where l6: "in_bits (link_wire lat) False 1 l5 = (p, l6)" by fastforce
  have i6: "attached 38 l6" "in_bits (target_wire lat) False 1 (lk_tgt l5) = (p, lk_tgt l6)"
    using in_attachedD [OF i5(1) _ l6] by (simp_all del: in_bits.simps)
  obtain z l7 where l7: "in_bits (link_wire lat) False 1 l6 = (z, l7)" by fastforce
  have i7: "attached 39 l7" "in_bits (target_wire lat) False 1 (lk_tgt l6) = (z, lk_tgt l7)"
    using in_attachedD [OF i6(1) _ l7] by (simp_all del: in_bits.simps)
  let ?data = "word_bits 32 d @ [parity_bits (word_bits 32 d)]"
  have o8: "attached 39 (out_bits (link_wire lat) ?data l4)"
    "lk_tgt (out_bits (link_wire lat) ?data l4) = out_bits (target_wire lat) ?data (lk_tgt l4)"
    using out_attached [OF i4(1), of ?data lat] by simp_all
  note cases = assms(2) [unfolded wire_transfer_def Let_def l1_def [symmetric] l2 l3 l4 l5 l6 l7 fst_conv snd_conv prod.case]
  show ?thesis
    unfolding wire_transfer_def Let_def l1(2) [symmetric]
    using cases attached_mono [OF i4(1), of 39] i7(1) o8
    by (auto simp: i2(2) i3(2) i4(2) i5(2) i6(2) i7(2) split: if_splits simp del: in_bits.simps One_nat_def)
qed

interpretation linked: sw_target "link_wire lat" "link_live lat" lk_tgt lat for lat
proof
  fix l rq d ack v l'
  assume live: "link_live lat l" and x: "wire_transfer (link_wire lat) 1 rq d l = (ack, v, l')"
  have l: "attached 39 l" "between (lk_tgt l)" "tg_wait (lk_tgt l) \<le> lat" using live by (simp_all add: link_live_def)
  have p: "attached 39 l'" "tg_transfer lat rq d (lk_tgt l) = (ack, v, lk_tgt l')"
    using link_packet [OF l(1) x] target_transfer [OF l(2), of lat rq d] by simp_all
  then show "link_live lat l' \<and> tg_transfer lat rq d (lk_tgt l) = (ack, v, lk_tgt l')"
    using tg_transfer_between [OF l(2,3) p(2)] by (simp add: link_live_def)
qed (simp add: link_live_def)

section \<open>The connect sequence brings the target up\<close>

text \<open>What the target hears while it waits for a packet and no request comes leaves it as it is.\<close>

lemma hear_no_request:
  assumes "tg_write t = None" and "tg_heard t = []" and "length bs = 8" and "hd bs"
    and "bs \<noteq> request_bits (bits_word (take 4 (drop 1 bs)))"
  shows "out_bits (target_wire lat) bs t = t"
proof -
  have bs: "bs = butlast bs @ [last bs]" using assms(3) by (cases bs rule: rev_cases) auto
  have "hd (butlast bs)" using assms(3,4) by (cases bs) (auto split: if_splits)
  then have "out_bits (target_wire lat) (butlast bs) t = t\<lparr> tg_heard := butlast bs \<rparr>"
    using hear_start [of t "butlast bs" lat] assms(1-3) by simp
  then have "out_bits (target_wire lat) bs t = tg_hear lat (last bs) (t\<lparr> tg_heard := butlast bs \<rparr>)"
    by (subst bs, simp only: out_bits_append) (simp add: out_bits_def target_wire_def)
  also have "\<dots> = t\<lparr> tg_heard := [] \<rparr>"
    using assms(1,3,4,5) bs by (simp add: tg_hear_def Let_def)
  finally show ?thesis using assms(2) by simp
qed

lemma hear_idle:
  "tg_write t = None \<Longrightarrow> tg_heard t = [] \<Longrightarrow> out_bits (target_wire lat) (replicate n False @ bs) t = out_bits (target_wire lat) bs t"
  by (induction n) (simp_all add: out_bits_def target_wire_def tg_hear_def Let_def)

lemma hear_port:
  assumes "tg_write t = None" and "tg_heard t = replicate k True" and "k < 8"
  shows "tg_write (tg_hear lat True t) = None" "tg_port (tg_hear lat True t) = tg_port t"
    "tg_heard (tg_hear lat True t) = replicate (if k = 7 then 0 else Suc k) True"
proof -
  have bits: "tg_heard t @ [True] = replicate (Suc k) True" using assms(2) by (simp add: replicate_append_same)
  have no: "replicate 8 True \<noteq> request_bits n" for n by (simp add: request_bits_def eval_nat_numeral)
  have "tg_hear lat True t = t\<lparr> tg_heard := replicate (if k = 7 then 0 else Suc k) True \<rparr>"
  proof (cases "k = 7")
    case True
    then have len: "length (replicate (Suc k) True) = 8" and bs: "replicate (Suc k) True = replicate 8 True" by simp_all
    show ?thesis
      unfolding tg_hear_def Let_def bits assms(1) option.case len using no True by (simp add: bs del: replicate_Suc)
  next
    case False
    then show ?thesis unfolding tg_hear_def Let_def bits assms(1) option.case using assms(3) by simp
  qed
  then show "tg_write (tg_hear lat True t) = None" "tg_port (tg_hear lat True t) = tg_port t"
    "tg_heard (tg_hear lat True t) = replicate (if k = 7 then 0 else Suc k) True"
    using assms(1) by simp_all
qed

lemma request_wait: "tg_wait t \<le> lat \<Longrightarrow> tg_wait (tg_request lat rq t) \<le> lat"
  by (auto simp: tg_request_def Let_def split: prod.split)

lemma hear_wait: "tg_wait t \<le> lat \<Longrightarrow> tg_wait (tg_hear lat b t) \<le> lat"
  by (simp add: tg_hear_def Let_def request_wait split: option.split)

text \<open>The line as it is found: not in the middle of a packet if the target listens.\<close>

definition no_packet :: "link \<Rightarrow> bool" where
  "no_packet l \<longleftrightarrow> (listens l \<longrightarrow> between (lk_tgt l))"

text \<open>Behind a line reset, and while clocks with SWDIO high lead to one.\<close>

definition line_reset :: "link \<Rightarrow> bool" where
  "line_reset l \<longleftrightarrow> lk_sel l = Some [] \<and> lk_sync l = lk_swd l \<and> tg_heard (lk_tgt l) = [] \<and> tg_say (lk_tgt l) = []
     \<and> tg_write (lk_tgt l) = None"

definition calm :: "link \<Rightarrow> bool" where
  "calm l \<longleftrightarrow> (listens l \<longrightarrow> tg_write (lk_tgt l) = None \<and> (\<exists>k < 8. tg_heard (lk_tgt l) = replicate k True))"

lemma watch_fields:
  "lk_ones (lk_watch b l) = (if b then Suc (lk_ones l) else 0)" "tg_wait (lk_tgt (lk_watch b l)) = tg_wait (lk_tgt l)"
  "tg_port (lk_tgt (lk_watch b l)) = tg_port (lk_tgt l)"
  by (auto simp: lk_watch_def lk_select_def Let_def split: option.split)

lemma hear_fields:
  "lk_ones (lk_hear lat b l) = (if b then Suc (lk_ones l) else 0)"
  "tg_wait (lk_tgt l) \<le> lat \<Longrightarrow> tg_wait (lk_tgt (lk_hear lat b l)) \<le> lat"
  "\<not> listens l \<Longrightarrow> tg_port (lk_tgt (lk_hear lat b l)) = tg_port (lk_tgt l)"
  by (simp_all add: lk_hear_def watch_fields hear_wait)

lemma watch_calm: "calm l \<Longrightarrow> calm (lk_watch b l)"
  by (auto simp: calm_def listens_def lk_watch_def lk_select_def Let_def split: option.split)

lemma calm_hear:
  assumes "calm l"
  shows "calm (lk_hear lat True l)" and "tg_port (lk_tgt (lk_hear lat True l)) = tg_port (lk_tgt l)"
proof -
  have "calm (lk_hear lat True l) \<and> tg_port (lk_tgt (lk_hear lat True l)) = tg_port (lk_tgt l)"
  proof (cases "listens l")
    case True
    then obtain k where k: "tg_write (lk_tgt l) = None" "tg_heard (lk_tgt l) = replicate k True" "k < 8"
      using assms by (auto simp: calm_def)
    note h = hear_port [OF k, of lat]
    let ?l = "l\<lparr> lk_tgt := tg_hear lat True (lk_tgt l) \<rparr>"
    have "(if k = 7 then 0 else Suc k) < 8" using k(3) by simp
    then have "calm ?l" using h(1,3) unfolding calm_def by auto
    then show ?thesis using True h(2) watch_calm by (simp add: lk_hear_def watch_fields)
  next
    case False
    then show ?thesis using watch_calm [OF assms] hear_fields(3) by (simp add: lk_hear_def)
  qed
  then show "calm (lk_hear lat True l)" and "tg_port (lk_tgt (lk_hear lat True l)) = tg_port (lk_tgt l)" by simp_all
qed

lemma hear_highs:
  "tg_wait (lk_tgt l) \<le> lat \<Longrightarrow>
   lk_ones (out_bits (link_wire lat) (replicate n True) l) = lk_ones l + n
   \<and> tg_wait (lk_tgt (out_bits (link_wire lat) (replicate n True) l)) \<le> lat
   \<and> (calm l \<longrightarrow> tg_port (lk_tgt (out_bits (link_wire lat) (replicate n True) l)) = tg_port (lk_tgt l)
       \<and> calm (out_bits (link_wire lat) (replicate n True) l))"
proof (induction n arbitrary: l)
  case (Suc n)
  show ?case
    using Suc.IH [of "lk_hear lat True l"] hear_fields(2) [OF Suc.prems] hear_fields(1) calm_hear
    by (simp add: out_bits_Cons)
qed simp

lemma watch_resets: "49 \<le> lk_ones l \<Longrightarrow> line_reset (lk_watch True l) \<and> lk_swd (lk_watch True l) = lk_swd l"
  by (simp add: lk_watch_def line_reset_def Let_def)

text \<open>From any state 56 clocks with SWDIO high are a line reset.\<close>

lemma reset_effect:
  assumes "tg_wait (lk_tgt l) \<le> lat"
  defines "l' \<equiv> out_bits (link_wire lat) (replicate 56 True) l"
  shows "line_reset l'" and "tg_wait (lk_tgt l') \<le> lat" and "calm l \<Longrightarrow> tg_port (lk_tgt l') = tg_port (lk_tgt l)"
proof -
  define l1 where "l1 = out_bits (link_wire lat) (replicate 55 True) l"
  note h = hear_highs [OF assms(1), of 55, folded l1_def]
  have "replicate 56 True = replicate 55 True @ [True]" by (simp add: replicate_append_same flip: replicate_Suc)
  then have l': "l' = lk_hear lat True l1" by (simp add: l'_def l1_def out_bits_append out_bits_Cons)
  show "line_reset l'"
    unfolding l' lk_hear_def by (rule watch_resets [THEN conjunct1]) (use h in simp)
  show "tg_wait (lk_tgt l') \<le> lat" and "calm l \<Longrightarrow> tg_port (lk_tgt l') = tg_port (lk_tgt l)"
    using hear_highs [OF assms(1), of 56, folded l'_def] by simp_all
qed

text \<open>A select sequence under way; what the target hears of it.\<close>

lemma select_lengths [simp]: "length swd_select_bits = 16" "length jtag_select_bits = 16"
  by (simp_all add: swd_select_bits_def jtag_select_bits_def)

lemma select_progress:
  fixes lat :: nat
  assumes "lk_sel l = Some (take k swd_select_bits)" and "swd_select_bits ! k \<longrightarrow> Suc (lk_ones l) < 50" and "k < 15"
  defines "l' \<equiv> lk_hear lat (swd_select_bits ! k) l"
  shows "lk_sel l' = Some (take (Suc k) swd_select_bits)" and "lk_swd l' = lk_swd l" and "lk_sync l' = lk_sync l"
    and "lk_tgt l' = (if listens l then tg_hear lat (swd_select_bits ! k) (lk_tgt l) else lk_tgt l)"
proof -
  have next_bits: "take k swd_select_bits @ [swd_select_bits ! k] = take (Suc k) swd_select_bits"
    using assms(3) by (simp add: take_Suc_conv_app_nth)
  have "length (take (Suc k) swd_select_bits) = Suc k" "Suc k < 16" using assms(3) by simp_all
  then have short: "take (Suc k) swd_select_bits \<noteq> swd_select_bits" "take (Suc k) swd_select_bits \<noteq> jtag_select_bits"
    and len: "length (take (Suc k) swd_select_bits) = Suc k"
    using select_lengths by (metis nat_less_le)+
  have run: "\<not> 50 \<le> (if swd_select_bits ! k then lk_ones l + 1 else 0)" using assms(2) by auto
  have onward: "lk_watch b m = m\<lparr> lk_ones := n, lk_sel := Some (take (Suc k) swd_select_bits) \<rparr>"
    if "lk_sel m = Some (take k swd_select_bits)" "take k swd_select_bits @ [b] = take (Suc k) swd_select_bits"
      "n = (if b then lk_ones m + 1 else 0)" "\<not> 50 \<le> n" for b m n
  proof -
    have "lk_watch b m = lk_select b (m\<lparr> lk_ones := n \<rparr>)"
      using that(3,4) by (simp only: lk_watch_def Let_def if_False)
    also have "\<dots> = m\<lparr> lk_ones := n, lk_sel := Some (take (Suc k) swd_select_bits) \<rparr>"
      unfolding lk_select_def using that(1,2) short len by (simp only: Let_def) simp
    finally show ?thesis .
  qed
  define m where "m = (if listens l then l\<lparr> lk_tgt := tg_hear lat (swd_select_bits ! k) (lk_tgt l) \<rparr> else l)"
  have m: "lk_sel m = Some (take k swd_select_bits)" "lk_ones m = lk_ones l" "lk_swd m = lk_swd l" "lk_sync m = lk_sync l"
    "lk_tgt m = (if listens l then tg_hear lat (swd_select_bits ! k) (lk_tgt l) else lk_tgt l)"
    using assms(1) by (simp_all add: m_def)
  have "l' = m\<lparr> lk_ones := (if swd_select_bits ! k then lk_ones m + 1 else 0), lk_sel := Some (take (Suc k) swd_select_bits) \<rparr>"
    unfolding l'_def lk_hear_def m_def [symmetric] by (rule onward [OF m(1) next_bits refl]) (use run m(2) in auto)
  then show "lk_sel l' = Some (take (Suc k) swd_select_bits)" and "lk_swd l' = lk_swd l" and "lk_sync l' = lk_sync l"
    and "lk_tgt l' = (if listens l then tg_hear lat (swd_select_bits ! k) (lk_tgt l) else lk_tgt l)"
    using m by simp_all
qed

lemma select_run:
  assumes "line_reset l"
  shows "k \<le> 15 \<Longrightarrow> (let l' = out_bits (link_wire lat) (take k swd_select_bits) l in
     lk_sel l' = Some (take k swd_select_bits) \<and> lk_swd l' = lk_swd l \<and> lk_sync l' = lk_sync l
     \<and> (0 < k \<longrightarrow> lk_ones l' \<le> k)
     \<and> lk_tgt l' = (if listens l then out_bits (target_wire lat) (take k swd_select_bits) (lk_tgt l) else lk_tgt l))"
proof (induction k)
  case 0
  then show ?case using assms by (simp add: line_reset_def)
next
  case (Suc k)
  define l1 where "l1 = out_bits (link_wire lat) (take k swd_select_bits) l"
  have l1: "lk_sel l1 = Some (take k swd_select_bits)" "lk_swd l1 = lk_swd l" "lk_sync l1 = lk_sync l"
    "0 < k \<longrightarrow> lk_ones l1 \<le> k"
    "lk_tgt l1 = (if listens l then out_bits (target_wire lat) (take k swd_select_bits) (lk_tgt l) else lk_tgt l)"
    using Suc by (simp_all add: Let_def l1_def)
  have low: "\<not> swd_select_bits ! 0" by (simp add: swd_select_bits_def word_bits_def)
  have run: "swd_select_bits ! k \<longrightarrow> Suc (lk_ones l1) < 50"
    using l1(4) Suc.prems low by (cases "k = 0") auto
  have k: "k < 15" using Suc.prems by simp
  note p = select_progress [OF l1(1) run k, of lat]
  have split: "take (Suc k) swd_select_bits = take k swd_select_bits @ [swd_select_bits ! k]"
    using k by (simp add: take_Suc_conv_app_nth)
  have step: "out_bits (link_wire lat) (take (Suc k) swd_select_bits) l = lk_hear lat (swd_select_bits ! k) l1"
    unfolding split by (simp add: out_bits_append out_bits_Cons l1_def)
  have ones: "lk_ones (lk_hear lat (swd_select_bits ! k) l1) \<le> Suc k"
    using hear_fields(1) [of lat "swd_select_bits ! k" l1] l1(4) low by (cases "k = 0") auto
  have tgt: "lk_tgt (lk_hear lat (swd_select_bits ! k) l1) =
      (if listens l then out_bits (target_wire lat) (take (Suc k) swd_select_bits) (lk_tgt l) else lk_tgt l)"
    using p(4) l1(2,3,5) unfolding split by (simp add: listens_def out_bits_append out_bits_Cons target_wire_fields)
  show ?case unfolding step Let_def using p(1-3) l1(2,3) ones tgt by simp
qed

text \<open>The sixteen bits of the sequence hold no request, and serial wire is selected behind them.\<close>

lemma select_bits_port:
  assumes "tg_write t = None" and "tg_heard t = []"
  shows "tg_port (out_bits (target_wire lat) swd_select_bits t) = tg_port t"
proof -
  have bits: "swd_select_bits = [False] @ [True, True, True, True, False, False, True, True]
      @ [True, True, False, False, True, True, True]"
    unfolding swd_select_bits_def by code_simp
  have "out_bits (target_wire lat) [True, True, True, True, False, False, True, True] t = t"
    by (rule hear_no_request [OF assms]) (simp_all add: request_bits_def)
  moreover have "out_bits (target_wire lat) [False] t = t" using hear_idle [OF assms, of lat 1 "[]"] by simp
  moreover have "out_bits (target_wire lat) [True, True, False, False, True, True, True] t
      = t\<lparr> tg_heard := [True, True, False, False, True, True, True] \<rparr>"
    using hear_start [of t "[True, True, False, False, True, True, True]" lat] assms by simp
  ultimately show ?thesis
    unfolding bits out_bits_append by simp
qed

lemma select_effect:
  assumes "line_reset l" and "tg_wait (lk_tgt l) \<le> lat"
  defines "l' \<equiv> out_bits (link_wire lat) swd_select_bits l"
  shows "lk_swd l'" "\<not> lk_sync l'" "lk_sel l' = None" "lk_ones l' \<le> 16" "tg_wait (lk_tgt l') \<le> lat"
    "tg_port (lk_tgt l') = tg_port (lk_tgt l)"
proof -
  define l1 where "l1 = out_bits (link_wire lat) (take 15 swd_select_bits) l"
  have split: "swd_select_bits = take 15 swd_select_bits @ [swd_select_bits ! 15]"
    by (simp add: take_Suc_conv_app_nth [of 15 swd_select_bits, symmetric])
  have l1: "lk_sel l1 = Some (take 15 swd_select_bits)" "lk_swd l1 = lk_swd l" "lk_sync l1 = lk_sync l" "lk_ones l1 \<le> 15"
    "lk_tgt l1 = (if listens l then out_bits (target_wire lat) (take 15 swd_select_bits) (lk_tgt l) else lk_tgt l)"
    using select_run [OF assms(1), of 15 lat] by (simp_all add: Let_def l1_def)
  have l': "l' = lk_hear lat (swd_select_bits ! 15) l1"
    unfolding l'_def l1_def by (subst split) (simp only: out_bits_append out_bits_Cons out_bits_Nil link_wire_fields)
  have last: "lk_watch b k = k\<lparr> lk_ones := n, lk_swd := True, lk_sync := False, lk_sel := None \<rparr>"
    if "lk_sel k = Some (take 15 swd_select_bits)" "b = swd_select_bits ! 15" "n = (if b then lk_ones k + 1 else 0)" "n < 50" for b k n
    using that split [symmetric] by (simp add: lk_watch_def lk_select_def Let_def)
  define k where "k = (if listens l1 then l1\<lparr> lk_tgt := tg_hear lat (swd_select_bits ! 15) (lk_tgt l1) \<rparr> else l1)"
  have k: "lk_sel k = Some (take 15 swd_select_bits)" "lk_ones k = lk_ones l1"
    "lk_tgt k = (if listens l1 then tg_hear lat (swd_select_bits ! 15) (lk_tgt l1) else lk_tgt l1)"
    using l1(1) by (simp_all add: k_def)
  have end_state: "l' = k\<lparr> lk_ones := (if swd_select_bits ! 15 then lk_ones k + 1 else 0), lk_swd := True, lk_sync := False, lk_sel := None \<rparr>"
    unfolding l' lk_hear_def k_def [symmetric] by (rule last [OF k(1) refl refl]) (use l1(4) k(2) in simp)
  show "lk_swd l'" "\<not> lk_sync l'" "lk_sel l' = None"
    by (simp_all add: end_state)
  show "lk_ones l' \<le> 16" unfolding l' hear_fields(1) using l1(4) by simp
  have tgt: "lk_tgt l' = (if listens l then out_bits (target_wire lat) swd_select_bits (lk_tgt l) else lk_tgt l)"
  proof -
    have "lk_tgt l' = (if listens l1 then tg_hear lat (swd_select_bits ! 15) (lk_tgt l1) else lk_tgt l1)"
      by (simp add: end_state k(3))
    moreover have "listens l1 = listens l" using l1(2,3) by (simp add: listens_def)
    ultimately show ?thesis
      using l1(5) by (subst split) (simp add: out_bits_append out_bits_Cons target_wire_fields)
  qed
  have t: "tg_write (lk_tgt l) = None" "tg_heard (lk_tgt l) = []" using assms(1) by (simp_all add: line_reset_def)
  show "tg_port (lk_tgt l') = tg_port (lk_tgt l)" using tgt select_bits_port [OF t] by simp
  have "tg_wait (out_bits (target_wire lat) bs t) \<le> lat" if "tg_wait t \<le> lat" for bs t
    using that by (induction bs arbitrary: t) (simp_all add: out_bits_Cons target_wire_fields hear_wait)
  then show "tg_wait (lk_tgt l') \<le> lat" using tgt assms(2) by simp
qed

text \<open>Clocks with SWDIO high do not undo a selection.\<close>

lemma highs_keep_selection:
  "lk_swd l \<Longrightarrow> lk_sel l = None \<or> lk_sel l = Some [] \<and> 50 \<le> lk_ones l \<Longrightarrow>
   lk_swd (out_bits (link_wire lat) (replicate n True) l)"
proof (induction n arbitrary: l)
  case (Suc n)
  have "lk_swd (lk_hear lat True l) \<and> (lk_sel (lk_hear lat True l) = None
      \<or> lk_sel (lk_hear lat True l) = Some [] \<and> 50 \<le> lk_ones (lk_hear lat True l))"
    using Suc.prems by (auto simp: lk_hear_def lk_watch_def lk_select_def Let_def)
  then show ?case using Suc.IH [of "lk_hear lat True l"] by (simp add: out_bits_Cons)
qed simp

text \<open>The idle clocks end the chance of a select sequence; the target hears nothing in them.\<close>

lemma select_prefixes:
  "take 1 swd_select_bits = [False]" "take 2 jtag_select_bits = [False, False]"
  "[False, False, False] \<noteq> take 3 swd_select_bits" "[False, False, False] \<noteq> take 3 jtag_select_bits"
  unfolding swd_select_bits_def jtag_select_bits_def by code_simp+

lemma short_select: "length bs < 16 \<Longrightarrow> bs \<noteq> swd_select_bits" "length bs < 16 \<Longrightarrow> bs \<noteq> jtag_select_bits"
  using select_lengths by auto

lemma hear_low:
  assumes "listens l" and "tg_write (lk_tgt l) = None" and "tg_heard (lk_tgt l) = []"
  shows "lk_hear lat False l = lk_select False (l\<lparr> lk_ones := 0 \<rparr>)"
proof -
  have "tg_hear lat False (lk_tgt l) = lk_tgt l" using assms(2,3) by (simp add: tg_hear_def Let_def)
  then show ?thesis using assms(1) by (simp add: lk_hear_def lk_watch_def)
qed

lemma hear_lows:
  assumes "attached 0 l" and "tg_write (lk_tgt l) = None" and "tg_heard (lk_tgt l) = []"
  shows "attached 0 (out_bits (link_wire lat) (replicate n False) l)
    \<and> lk_tgt (out_bits (link_wire lat) (replicate n False) l) = lk_tgt l"
  using assms
proof (induction n arbitrary: l)
  case (Suc n)
  have "lk_hear lat False l = l\<lparr> lk_ones := 0 \<rparr>"
    using hear_low [of l lat] Suc.prems by (simp add: attached_def lk_select_def)
  then show ?case
    using Suc.IH [of "l\<lparr> lk_ones := 0 \<rparr>"] Suc.prems by (simp add: out_bits_Cons attached_def listens_def)
qed simp

lemma idle_effect:
  fixes lat :: nat
  assumes "line_reset l" and "lk_swd l"
  defines "l' \<equiv> out_bits (link_wire lat) (replicate 8 False) l"
  shows "attached 0 l'" and "lk_tgt l' = lk_tgt l"
proof -
  have l: "lk_sel l = Some []" "listens l" "tg_write (lk_tgt l) = None" "tg_heard (lk_tgt l) = []"
    using assms(1,2) by (simp_all add: line_reset_def listens_def)
  define m where "m = l\<lparr> lk_ones := 0, lk_sel := None \<rparr>"
  have upd: "listens (m\<lparr> lk_sel := x \<rparr>)" "lk_tgt (m\<lparr> lk_sel := x \<rparr>) = lk_tgt l" "m\<lparr> lk_ones := 0 \<rparr> = m" for x
    using l(2) by (simp_all add: m_def listens_def)
  have h1: "lk_hear lat False l = m\<lparr> lk_sel := Some [False] \<rparr>"
    using hear_low [OF l(2-4), of lat] l(1) short_select [of "[False]"] select_prefixes(1)
    by (cases l) (simp add: lk_select_def m_def)
  have h2: "lk_hear lat False (m\<lparr> lk_sel := Some [False] \<rparr>) = m\<lparr> lk_sel := Some [False, False] \<rparr>"
    using hear_low [of "m\<lparr> lk_sel := Some [False] \<rparr>" lat] upd l(3,4) short_select [of "[False, False]"] select_prefixes(2)
    by (simp add: lk_select_def m_def numeral_2_eq_2)
  have h3: "lk_hear lat False (m\<lparr> lk_sel := Some [False, False] \<rparr>) = m"
    using hear_low [of "m\<lparr> lk_sel := Some [False, False] \<rparr>" lat] upd l(3,4) short_select [of "[False, False, False]"] select_prefixes(3,4)
    by (simp add: lk_select_def m_def numeral_3_eq_3)
  have "replicate 8 False = False # False # False # replicate 5 False" by (simp add: eval_nat_numeral)
  then have "l' = out_bits (link_wire lat) (replicate 5 False) m"
    by (simp add: l'_def out_bits_Cons h1 h2 h3)
  moreover have "attached 0 m" using l(2) by (simp add: attached_def m_def listens_def)
  ultimately show "attached 0 l'" and "lk_tgt l' = lk_tgt l"
    using hear_lows [of m lat 5] l(3,4) by (simp_all add: m_def)
qed

text \<open>
  Behind the connect sequence the target listens and is between packets, whatever the line was before; its
  registers are as before unless the sequence fell into a packet.
\<close>

definition connect_bits :: "bool list" where
  "connect_bits = replicate 56 True @ word_bits 16 0xE79E @ replicate 56 True @ replicate 8 False"

lemma connect_effect:
  fixes lat :: nat
  assumes "tg_wait (lk_tgt l) \<le> lat"
  defines "l' \<equiv> out_bits (link_wire lat) connect_bits l"
  shows "link_live lat l'" and "no_packet l \<Longrightarrow> tg_port (lk_tgt l') = tg_port (lk_tgt l)"
proof -
  define l1 where "l1 = out_bits (link_wire lat) (replicate 56 True) l"
  define l2 where "l2 = out_bits (link_wire lat) swd_select_bits l1"
  define l3 where "l3 = out_bits (link_wire lat) (replicate 56 True) l2"
  have l': "l' = out_bits (link_wire lat) (replicate 8 False) l3"
    by (simp add: l'_def connect_bits_def l1_def l2_def l3_def swd_select_bits_def out_bits_append)
  note r1 = reset_effect [OF assms(1), folded l1_def]
  note s2 = select_effect [OF r1(1,2), folded l2_def]
  have calm2: "calm l2" using s2(2) by (simp add: calm_def listens_def)
  note r3 = reset_effect [OF s2(5), folded l3_def]
  have swd: "lk_swd l3" unfolding l3_def by (rule highs_keep_selection) (simp_all add: s2)
  note i = idle_effect [OF r3(1) swd, of lat, folded l']
  have "between (lk_tgt l')" using r3(1) i(2) by (simp add: line_reset_def between_def)
  then show "link_live lat l'" using i r3(2) attached_mono [OF i(1), of 39] by (simp add: link_live_def)
  show "tg_port (lk_tgt l') = tg_port (lk_tgt l)" if "no_packet l"
  proof -
    have "calm l" using that by (auto simp: calm_def no_packet_def between_def intro: exI [of _ 0])
    then show ?thesis using r1(3) s2(6) r3(3) [OF calm2] i(2) by simp
  qed
qed

end
