(* ===== verification/Swd_Diag.thy ===== *)
theory Swd_Diag
  imports Swd_Link
begin

text \<open>
  The bring-up commands of the SWD transport (\<^verbatim>\<open>cmsis-dap/port/dap_swd_diag.c\<close>): shell commands that
  connect to a target, power its debug domain up, read its memory and probe the pins, without the
  command layer.  A command takes the words of its command line, the first its own name, and returns
  what it prints, line by line, as a tag and the values in the line; a command that never returns is
  \<open>None\<close>.
\<close>

section \<open>Numbers on the command line\<close>

text \<open>The functions of the C library; a value out of range is cut to the range of the result.\<close>

definition c_space :: "char \<Rightarrow> bool" where
  "c_space c \<longleftrightarrow> c = CHR '' '' \<or> (9 \<le> (of_char c :: nat) \<and> (of_char c :: nat) \<le> 13)"

definition c_digit :: "nat \<Rightarrow> char \<Rightarrow> nat option" where
  "c_digit base c =
    (let n = of_char c :: nat;
         d = (if 48 \<le> n \<and> n \<le> 57 then n - 48 else if 97 \<le> n \<and> n \<le> 122 then n - 87
              else if 65 \<le> n \<and> n \<le> 90 then n - 55 else base)
     in if d < base then Some d else None)"

fun c_number :: "nat \<Rightarrow> nat \<Rightarrow> string \<Rightarrow> nat" where
  "c_number base acc [] = acc"
| "c_number base acc (c # cs) = (case c_digit base c of None \<Rightarrow> acc | Some d \<Rightarrow> c_number base (acc * base + d) cs)"

fun c_sign :: "string \<Rightarrow> bool \<times> string" where
  "c_sign (c # cs) = (if c = CHR ''-'' then (True, cs) else if c = CHR ''+'' then (False, cs) else (False, c # cs))"
| "c_sign [] = (False, [])"

definition atoi :: "string \<Rightarrow> int" where
  "atoi s = (case c_sign (dropWhile c_space s) of (neg, s) \<Rightarrow>
     let v = int (c_number 10 0 s); v = (if neg then - v else v) in max (- 2147483648) (min 2147483647 v))"

fun c_base :: "string \<Rightarrow> nat \<times> string" where
  "c_base (z # x # d # cs) =
    (if z = CHR ''0'' \<and> (x = CHR ''x'' \<or> x = CHR ''X'') \<and> c_digit 16 d \<noteq> None then (16, d # cs)
     else if z = CHR ''0'' then (8, z # x # d # cs) else (10, z # x # d # cs))"
| "c_base (z # cs) = (if z = CHR ''0'' then (8, z # cs) else (10, z # cs))"
| "c_base [] = (10, [])"

text \<open>\<^verbatim>\<open>strtoul(s, NULL, 0)\<close>\<close>

definition strtoul :: "string \<Rightarrow> u32" where
  "strtoul s = (case c_sign (dropWhile c_space s) of (neg, s) \<Rightarrow> case c_base s of (base, s) \<Rightarrow>
     let v = c_number base 0 s
     in if 4294967295 < v then 0xFFFFFFFF else if neg then - of_nat v else of_nat v)"

definition forever :: "string list \<Rightarrow> bool" where
  "forever argv \<longleftrightarrow> 1 < length argv \<and> (case argv ! 1 of [] \<Rightarrow> False | c # _ \<Rightarrow> c = CHR ''f'' \<or> c = CHR ''F'')"

type_synonym printed = "(string \<times> u32 list) list"

section \<open>Connecting and reading the identification\<close>

text \<open>\<^verbatim>\<open>dap_tx [f]\<close>: a square wave.\<close>

definition dap_tx :: "'t wire \<Rightarrow> string list \<Rightarrow> 't swd \<Rightarrow> (printed \<times> 't swd) option" where
  "dap_tx W argv s =
    (let s = dap_swd_spi_init W s in
     if forever argv then None
     else Some ([(''writing'', [2000000]), (''done'', [])], (swd_write_bits W 0x55 8 ^^ 2000000) s))"

definition swd_cfg :: "'t wire \<Rightarrow> string list \<Rightarrow> 't swd \<Rightarrow> printed \<times> 't swd" where
  "swd_cfg W argv s =
    (let s = (if 2 \<le> length argv then s\<lparr> s_read_even := (atoi (argv ! 1) \<noteq> 0) \<rparr> else s);
         s = (if 3 \<le> length argv
              then (let t = atoi (argv ! 2) in if 1 \<le> t \<and> t \<le> 4 then s\<lparr> s_trn := of_int t \<rparr> else s) else s);
         s = (if 4 \<le> length argv
              then (let k = atoi (argv ! 3) in if 0 < k then dap_swd_spi_set_clock W (of_int k * 1000) s else s) else s)
     in ([(''cfg'', [of_bool (s_read_even s), ucast (s_trn s)])], s))"

definition ack_is :: "u8 \<Rightarrow> u32 \<Rightarrow> bool" where
  "ack_is ack w \<longleftrightarrow> ucast ack = w"

definition plausible :: "u32 \<Rightarrow> bool" where
  "plausible data \<longleftrightarrow> data \<noteq> 0 \<and> data \<noteq> 0xFFFFFFFF"

definition swd_id :: "'t wire \<Rightarrow> string list \<Rightarrow> 't swd \<Rightarrow> printed \<times> 't swd" where
  "swd_id W argv s =
    (let s = swd_send_connect W (dap_swd_spi_init W s) in
     case SWD_Transfer W DAP_TRANSFER_RnW (Some 0) s of (ack, d, s) \<Rightarrow>
       let data = the d;
           name = (if ack_is ack DAP_TRANSFER_OK then ''OK'' else if ack_is ack DAP_TRANSFER_WAIT then ''WAIT''
                   else if ack_is ack DAP_TRANSFER_FAULT then ''FAULT''
                   else if ucast ack AND DAP_TRANSFER_ERROR \<noteq> 0 then ''OK+PARITY_ERR'' else ''???'')
       in ((name, [of_bool (s_read_even s), ucast (s_trn s), ucast ack, data])
             # (if ack_is ack DAP_TRANSFER_OK \<and> plausible data then [(''LINK UP'', [])] else []), s))"

definition swd_freq :: "'t wire \<Rightarrow> string list \<Rightarrow> 't swd \<Rightarrow> printed \<times> 't swd" where
  "swd_freq W argv s =
    (let mhz = (if 2 \<le> length argv then of_int (atoi (argv ! 1)) else 10 :: u32);
         mhz = (if mhz = 0 then 1 else mhz);
         hz = mhz * 1000000;
         src = w_spi_hz W;
         s = dap_swd_spi_set_clock W hz s;
         s = dap_swd_spi_init W s;
         s = dap_swd_spi_set_clock W hz s;
         s = swd_send_connect W s
     in case SWD_Transfer W DAP_TRANSFER_RnW (Some 0) s of (ack, d, s) \<Rightarrow>
       let data = the d; ok = ack_is (ack AND 7) DAP_TRANSFER_OK;
           verdict = (if ok \<and> data = 0x1BA01477 then ''OK'' else if ok then ''unexpected'' else ''FAIL'')
       in ([(''src'', [src, src div 2]), (verdict, [mhz, ucast (ack AND 7), data])], s))"

definition swd_read :: "'t wire \<Rightarrow> string list \<Rightarrow> 't swd \<Rightarrow> printed \<times> 't swd" where
  "swd_read W argv s =
    (let s = swd_send_connect W (dap_swd_spi_init W s) in
     case SWD_Transfer W DAP_TRANSFER_RnW (Some 0) s of (ack, d, s) \<Rightarrow>
       let data = the d;
           parity_error = (ucast ack AND DAP_TRANSFER_ERROR \<noteq> 0);
           line = (''cfg'', [of_bool (s_read_even s), ucast (s_trn s), ucast (ack AND 7)])
       in (if ack_is (ack AND 7) DAP_TRANSFER_OK
           then [line, (if parity_error then ''OK PARITY ERR'' else ''OK'', [data])]
             @ (if \<not> parity_error \<and> plausible data then [(''LINK UP'', [])] else [])
           else if ack_is (ack AND 7) DAP_TRANSFER_WAIT then [line, (''WAIT'', [])]
           else if ack_is (ack AND 7) DAP_TRANSFER_FAULT then [line, (''FAULT'', [])]
           else [line, (''no valid ACK'', [])], s))"

section \<open>Powering up and reading memory\<close>

definition ABORT_CLR_ALL :: u32 where "ABORT_CLR_ALL = 0x1E"
definition CTRL_PWRUP_REQ :: u32 where "CTRL_PWRUP_REQ = 0x50000000"
definition CTRL_PWRUP_ACK :: u32 where "CTRL_PWRUP_ACK = 0xA0000000"
definition CSW_VALUE_32 :: u32 where "CSW_VALUE_32 = 0x23000052"
definition SWD_PWRUP_RETRIES :: nat where "SWD_PWRUP_RETRIES = 100"

definition ack_str :: "u8 \<Rightarrow> string" where
  "ack_str ack =
    (if ack_is (ack AND 7) DAP_TRANSFER_OK then ''OK'' else if ack_is (ack AND 7) DAP_TRANSFER_WAIT then ''WAIT''
     else if ack_is (ack AND 7) DAP_TRANSFER_FAULT then ''FAULT'' else ''NO-ACK'')"

definition ack_ok :: "u8 \<Rightarrow> bool" where
  "ack_ok ack \<longleftrightarrow> ack_is (ack AND 7) DAP_TRANSFER_OK"

text \<open>
  The polling loop: \<open>Inl\<close> is the early return of an acknowledge, \<open>Inr\<close> the word after the loop, \<open>v\<close>
  the word before it.
\<close>

fun swd_pwrup_poll :: "'t wire \<Rightarrow> nat \<Rightarrow> u32 \<Rightarrow> 't swd \<Rightarrow> (u8 + u32) \<times> 't swd" where
  "swd_pwrup_poll W 0 v s = (Inr v, s)"
| "swd_pwrup_poll W (Suc tries) v s =
    (case dp_read (SWD_Transfer W) DP_CTRL_STAT v s of (ack, d, s) \<Rightarrow>
      let v = the d in
      if \<not> ack_ok ack then (Inl ack, s)
      else if v AND CTRL_PWRUP_ACK = CTRL_PWRUP_ACK then (Inr v, s)
      else swd_pwrup_poll W tries v (swd_act W (Delay_Ms 1) s))"

text \<open>The acknowledge, the word read from DPIDR, what is printed, and the state.\<close>

definition swd_powerup_prologue :: "'t wire \<Rightarrow> 't swd \<Rightarrow> u8 \<times> u32 \<times> printed \<times> 't swd" where
  "swd_powerup_prologue W s =
    (let xfer = SWD_Transfer W;
         s = swd_send_connect W (dap_swd_spi_init W s);
         s = s\<lparr> s_sel_cache := 0xFFFFFFFF \<rparr> in
     case dp_read xfer DP_IDCODE 0 s of (ack, d, s) \<Rightarrow>
     let idr = the d; out = [(''DPIDR '' @ ack_str ack, [idr])] in
     if \<not> ack_ok ack then (ack, idr, out, s) else
     case dp_write xfer DP_ABORT ABORT_CLR_ALL s of (ack, s) \<Rightarrow>
     let out = out @ [(''ABORT '' @ ack_str ack, [])] in
     if \<not> ack_ok ack then (ack, idr, out, s) else
     case dp_write xfer DP_SELECT 0 s of (ack, s) \<Rightarrow>
     let s = s\<lparr> s_sel_cache := 0 \<rparr>; out = out @ [(''SELECT '' @ ack_str ack, [])] in
     if \<not> ack_ok ack then (ack, idr, out, s) else
     case dp_write xfer DP_CTRL_STAT CTRL_PWRUP_REQ s of (ack, s) \<Rightarrow>
     let out = out @ [(''CTRLwr '' @ ack_str ack, [CTRL_PWRUP_REQ])] in
     if \<not> ack_ok ack then (ack, idr, out, s) else
     case swd_pwrup_poll W SWD_PWRUP_RETRIES idr s of
       (Inl ack, s) \<Rightarrow> (ack, idr, out @ [(''CTRLrd '' @ ack_str ack, [])], s)
     | (Inr v, s) \<Rightarrow>
         let up = (v AND CTRL_PWRUP_ACK = CTRL_PWRUP_ACK);
             out = out @ [(''CTRLrd '' @ (if up then ''YES'' else ''NO''), [v])]
         in (ucast (if up then DAP_TRANSFER_OK else DAP_TRANSFER_WAIT), idr, out, s))"

definition swd_pwr :: "'t wire \<Rightarrow> string list \<Rightarrow> 't swd \<Rightarrow> printed \<times> 't swd" where
  "swd_pwr W argv s =
    (let out = [(''cfg'', [of_bool (s_read_even s), ucast (s_trn s)])] in
     case swd_powerup_prologue W s of (ack, _, o1, s) \<Rightarrow>
     if \<not> ack_ok ack then (out @ o1 @ [(''power-up FAILED'', [])], s)
     else case ap_read (SWD_Transfer W) AP_IDR 0 s of (ack, d, s) \<Rightarrow>
       (out @ o1 @ [(''AP IDR '' @ ack_str ack, [the d])]
          @ (if ack_ok ack \<and> plausible (the d) then [(''MEM-AP READY'', [])] else []), s))"

definition swd_mem :: "'t wire \<Rightarrow> string list \<Rightarrow> 't swd \<Rightarrow> printed \<times> 't swd" where
  "swd_mem W argv s =
    (let xfer = SWD_Transfer W;
         addr = (if 2 \<le> length argv then strtoul (argv ! 1) else 0xE0042000);
         out = [(''cfg'', [of_bool (s_read_even s), ucast (s_trn s), addr])] in
     case swd_powerup_prologue W s of (ack, _, o1, s) \<Rightarrow>
     let out = out @ o1 in
     if \<not> ack_ok ack then (out @ [(''power-up FAILED'', [])], s)
     else case ap_write xfer AP_CSW CSW_VALUE_32 s of (ack, s) \<Rightarrow>
     if \<not> ack_ok ack then (out @ [(''CSW '' @ ack_str ack, [])], s)
     else case ap_write xfer AP_TAR addr s of (ack, s) \<Rightarrow>
     if \<not> ack_ok ack then (out @ [(''TAR '' @ ack_str ack, [])], s)
     else case ap_read xfer AP_DRW 0 s of (ack, d, s) \<Rightarrow>
     let v = the d in
     (out @ [(''DRW '' @ ack_str ack, []), (''mem '' @ ack_str ack, [addr, v])]
        @ (if ack_ok ack \<and> addr = 0xE0042000 then [(''DEV_ID'', [v AND 0xFFF])] else []), s))"

section \<open>Wave forms, pins and levels\<close>

definition swd_seq :: "'t wire \<Rightarrow> string list \<Rightarrow> 't swd \<Rightarrow> (printed \<times> 't swd) option" where
  "swd_seq W argv s =
    (let s = dap_swd_spi_init W s in
     if forever argv then None else Some ([(''one shot'', []), (''sent'', [])], swd_send_connect W s))"

text \<open>Eight bytes read one after the other.\<close>

fun read_bytes :: "'t wire \<Rightarrow> nat \<Rightarrow> 't swd \<Rightarrow> u32 list \<times> 't swd" where
  "read_bytes W 0 s = ([], s)"
| "read_bytes W (Suc n) s =
    (case swd_read_bits W 8 s of (v, s) \<Rightarrow> case read_bytes W n s of (vs, s) \<Rightarrow> ((v AND 0xFF) # vs, s))"

definition swd_raw :: "'t wire \<Rightarrow> string list \<Rightarrow> 't swd \<Rightarrow> printed \<times> 't swd" where
  "swd_raw W argv s =
    (let s = swd_send_connect W (dap_swd_spi_init W s);
         s = swd_write_bits W 0xA5 8 s;
         s = swd_turnaround W s
     in case read_bytes W 8 s of (vs, s) \<Rightarrow> ([(''raw'', vs)], s))"

definition swd_rdtest :: "'t wire \<Rightarrow> string list \<Rightarrow> 't swd \<Rightarrow> printed \<times> 't swd" where
  "swd_rdtest W argv s =
    (case read_bytes W 8 (dap_swd_spi_init W s) of (vs, s) \<Rightarrow> ([(''read'', vs)], s))"

definition read_pin :: "'t wire \<Rightarrow> nat \<Rightarrow> 't swd \<Rightarrow> u32" where
  "read_pin W n s = of_bool (w_pin W n (on_wire s))"

definition swd_pin :: "'t wire \<Rightarrow> string list \<Rightarrow> 't swd \<Rightarrow> printed \<times> 't swd" where
  "swd_pin W argv s =
    (let s = swd_act W (Gpio_Input SWDIO_PIN) (swd_act W (Pad_Gpio SWDIO_PIN) s);
         s = swd_act W (Delay_Loop 200000) (swd_act W (Pad_Pullup SWDIO_PIN) s);
         hi = read_pin W SWDIO_PIN s;
         s = swd_act W (Delay_Loop 200000) (swd_act W (Pad_Pulldown SWDIO_PIN) s);
         lo = read_pin W SWDIO_PIN s;
         verdict = (if hi = 1 \<and> lo = 0 then ''floating'' else if hi = 0 \<and> lo = 0 then ''stuck LOW''
                    else if hi = 1 \<and> lo = 1 then ''stuck HIGH'' else ''abnormal'');
         s = swd_act W (Pad_Strong SWDIO_PIN) s;
         s = swd_act W (Gpio_Write SWDIO_PIN True) s;
         s = swd_act W (Delay_Loop 200000) (swd_act W (Gpio_Output SWDIO_PIN) s);
         oh = read_pin W SWDIO_PIN s;
         s = swd_act W (Delay_Loop 200000) (swd_act W (Gpio_Write SWDIO_PIN False) s);
         ol = read_pin W SWDIO_PIN s;
         s = swd_act W (Gpio_Input SWDIO_PIN) s;
         drives = (if oh = 1 \<and> ol = 0 then [(''pad drives'', [])] else if oh = 0 then [(''shorted'', [])] else [])
     in ([(''input'', [hi, lo]), (verdict, []), (''output'', [oh, ol])] @ drives, dap_swd_spi_init W s))"

definition park_level :: "string list \<Rightarrow> bool" where
  "park_level argv = (if 2 \<le> length argv then atoi (argv ! 1) \<noteq> 0 else True)"

definition park_pin :: "'t wire \<Rightarrow> nat \<Rightarrow> bool \<Rightarrow> 't swd \<Rightarrow> 't swd" where
  "park_pin W n lvl s =
    swd_act W (Gpio_Output n) (swd_act W (Gpio_Write n lvl) (swd_act W (Pad_Strong n) (swd_act W (Pad_Gpio n) s)))"

definition swd_drive :: "'t wire \<Rightarrow> string list \<Rightarrow> 't swd \<Rightarrow> printed \<times> 't swd" where
  "swd_drive W argv s =
    (let lvl = park_level argv in ([(''PA29'', [of_bool lvl])], park_pin W SWDIO_PIN lvl s))"

definition swd_clk :: "'t wire \<Rightarrow> string list \<Rightarrow> 't swd \<Rightarrow> printed \<times> 't swd" where
  "swd_clk W argv s =
    (let lvl = park_level argv in ([(''PA27'', [of_bool lvl])], park_pin W SWCLK_PIN lvl s))"

definition swd_trit :: "'t wire \<Rightarrow> string list \<Rightarrow> 't swd \<Rightarrow> printed \<times> 't swd" where
  "swd_trit W argv s =
    (let s = dap_swd_spi_init W s;
         s = swd_write_bits W 0x00 8 s;
         (a, s) = swd_read_bits W 8 s;
         s = swd_write_bits W 0xFF 8 s;
         (b, s) = swd_read_bits W 8 s;
         a = a AND 0xFF; b = b AND 0xFF
     in ([(''read'', [a, b]),
          (if a = 0xFF \<and> b = 0xFF then (''tri-stated'', []) else if a \<noteq> b then (''not released'', [])
           else (''dominated'', [a]))], s))"

definition swd_rst :: "'t wire \<Rightarrow> string list \<Rightarrow> 't swd \<Rightarrow> printed \<times> 't swd" where
  "swd_rst W argv s =
    (let ms = (if 2 \<le> length argv then atoi (argv ! 1) else 10);
         ms = (if ms \<le> 0 then 10 else ms)
     in case dap_swd_nreset_pulse W (of_int ms) s of (lvl, s) \<Rightarrow>
       ([(''low for'', [of_int ms]), (if lvl \<noteq> 0 then ''high'' else ''low'', [ucast lvl])], s))"

definition swd_rstlvl :: "'t wire \<Rightarrow> string list \<Rightarrow> 't swd \<Rightarrow> printed \<times> 't swd" where
  "swd_rstlvl W argv s =
    (let lvl = park_level argv in ([(''PA26'', [of_bool lvl])], dap_swd_nreset_park W (of_bool lvl) s))"

section \<open>The commands on a documented target\<close>

text \<open>
  The set-up of the probe that a target of standard timing needs, and that \<^verbatim>\<open>swd_cfg\<close> may change: sampling
  on the rising edge, one turnaround clock.
\<close>

definition std_host :: "'t swd \<Rightarrow> bool" where
  "std_host s \<longleftrightarrow> \<not> s_read_even s \<and> s_trn s = 1"

lemma init_connect:
  fixes lat :: nat
  assumes "std_host s" and "tg_wait (lk_tgt (on_wire s)) \<le> lat"
  defines "s' \<equiv> swd_send_connect (link_wire lat) (dap_swd_spi_init (link_wire lat) s)"
  shows "line_up (link_live lat) s'" and "on_wire s' = out_bits (link_wire lat) connect_bits (on_wire s)"
proof -
  let ?s = "dap_swd_spi_init (link_wire lat) s"
  have i: "std_edge ?s" "s_trn ?s = 1" "on_wire ?s = on_wire s"
    using assms(1) by (simp_all add: dap_swd_spi_init_def swd_pad_pullup_def swd_nreset_init_def swd_act_def
        std_edge_def std_host_def Let_def)
  show w: "on_wire s' = out_bits (link_wire lat) connect_bits (on_wire s)"
    using i(3) by (simp add: s'_def connect_sequence_bits connect_bits_def)
  have "std_edge s'" "s_trn s' = 1"
    using write_bytes_effect(2,3) [where n = "length k_swd_connect" and data = k_swd_connect and s = ?s] i by (simp_all add: s'_def swd_send_connect_def)
  then show "line_up (link_live lat) s'" using connect_effect(1) [OF assms(2)] w by (simp add: line_up_def)
qed

text \<open>The registers of the target behind the switch.\<close>

definition port_of :: "link swd \<Rightarrow> port" where
  "port_of s = tg_port (lk_tgt (on_wire s))"

lemma port_of_cache [simp]: "port_of (s\<lparr> s_sel_cache := x \<rparr>) = port_of s"
  by (simp add: port_of_def)

lemmas link_access = linked.register_access [folded port_of_def]

lemma acks: "ack_ok 1" "ack_str 1 = ''OK''"
  by (simp_all add: ack_ok_def ack_str_def ack_is_def transfer_bits)

text \<open>What powering up leaves: SELECT 0, both domains requested and acknowledged.\<close>

definition powered :: "port \<Rightarrow> port" where
  "powered p = p\<lparr> pt_select := 0, pt_dp := (pt_dp p)(4 := 0xF0000000) \<rparr>"

lemma powerup_succeeds:
  fixes lat :: nat
  assumes "std_host s" and "tg_wait (lk_tgt (on_wire s)) \<le> lat" and "lat < SWD_WAIT_RETRIES"
  defines "p \<equiv> tg_port (lk_tgt (out_bits (link_wire lat) connect_bits (on_wire s)))"
  shows "\<exists>s'. swd_powerup_prologue (link_wire lat) s =
      (1, pt_dp p 0,
       [(''DPIDR OK'', [pt_dp p 0]), (''ABORT OK'', []), (''SELECT OK'', []),
        (''CTRLwr OK'', [0x50000000]), (''CTRLrd YES'', [0xF0000000])], s')
    \<and> line_up (link_live lat) s' \<and> s_sel_cache s' = 0 \<and> port_of s' = powered p"
proof -
  let ?W = "link_wire lat" and ?p = p
  define s0 where "s0 = (swd_send_connect ?W (dap_swd_spi_init ?W s))\<lparr> s_sel_cache := 0xFFFFFFFF \<rparr>"
  have s0: "line_up (link_live lat) s0" "port_of s0 = ?p"
    using init_connect [OF assms(1,2)] by (simp_all add: s0_def port_of_def p_def)
  obtain s1 where r1: "swd_xfer_retry (SWD_Transfer ?W) 2 (Some 0) s0 = (1, Some (pt_dp ?p 0), s1)"
    and s1: "line_up (link_live lat) s1" "port_of s1 = ?p"
    by (rule link_access [OF s0(1) assms(3), of 2 0]) (simp add: port_get_def s0(2))
  obtain d2 s2 where r2: "swd_xfer_retry (SWD_Transfer ?W) 0 (Some ABORT_CLR_ALL) s1 = (1, d2, s2)"
    and s2: "line_up (link_live lat) s2" "port_of s2 = ?p"
    by (rule link_access [OF s1(1) assms(3), of 0 ABORT_CLR_ALL]) (simp add: port_put_def s1(2))
  obtain d3 s3 where r3: "swd_xfer_retry (SWD_Transfer ?W) 8 (Some 0) s2 = (1, d3, s3)"
    and s3: "line_up (link_live lat) s3" "port_of s3 = ?p\<lparr> pt_select := 0 \<rparr>"
    by (rule link_access [OF s2(1) assms(3), of 8 0]) (simp add: port_put_def s2(2))
  define s3' where "s3' = s3\<lparr> s_sel_cache := 0 \<rparr>"
  have s3': "line_up (link_live lat) s3'" "port_of s3' = ?p\<lparr> pt_select := 0 \<rparr>" "s_sel_cache s3' = 0"
    using s3 by (simp_all add: s3'_def)
  obtain d4 s4 where r4: "swd_xfer_retry (SWD_Transfer ?W) 4 (Some CTRL_PWRUP_REQ) s3' = (1, d4, s4)"
    and s4: "line_up (link_live lat) s4" "port_of s4 = powered ?p" "s_sel_cache s4 = 0"
    by (rule link_access [OF s3'(1) assms(3), of 4 CTRL_PWRUP_REQ])
      (simp add: port_put_def s3' powered_def CTRL_PWRUP_REQ_def)
  obtain s5 where r5: "swd_xfer_retry (SWD_Transfer ?W) 6 (Some (pt_dp ?p 0)) s4 = (1, Some 0xF0000000, s5)"
    and s5: "line_up (link_live lat) s5" "port_of s5 = powered ?p" "s_sel_cache s5 = 0"
    by (rule link_access [OF s4(1) assms(3), of 6 "pt_dp ?p 0"]) (simp add: port_get_def s4 powered_def)
  obtain n where n: "SWD_PWRUP_RETRIES = Suc n" by (cases SWD_PWRUP_RETRIES) (simp_all add: SWD_PWRUP_RETRIES_def)
  have poll: "swd_pwrup_poll ?W SWD_PWRUP_RETRIES (pt_dp ?p 0) s4 = (Inr 0xF0000000, s5)"
    unfolding n using r5 by (simp add: dp_read_def transfer_bits DP_CTRL_STAT_def acks CTRL_PWRUP_ACK_def)
  show ?thesis
    unfolding swd_powerup_prologue_def
    using r1 r2 r3 r4 poll s5
    by (simp add: Let_def s0_def [symmetric] dp_read_def dp_write_def transfer_bits DP_IDCODE_def DP_ABORT_def
        DP_SELECT_def DP_CTRL_STAT_def acks s3'_def [symmetric] CTRL_PWRUP_ACK_def CTRL_PWRUP_REQ_def)
qed

lemma bank_zero: "s_sel_cache s = 0 \<Longrightarrow> apreg AND 0xF0 = 0 \<Longrightarrow> swd_select_ap xfer apreg s = (1, s)"
  by (simp add: swd_select_ap_def transfer_bits)

text \<open>Reading a word: CSW, TAR, DRW, then RDBUFF.\<close>

lemma mem_access:
  assumes up: "line_up (link_live lat) s" and lat: "lat < SWD_WAIT_RETRIES" and sel: "s_sel_cache s = 0" "pt_select (port_of s) = 0"
  shows "\<exists>s1 s2 s3. ap_write (SWD_Transfer (link_wire lat)) AP_CSW c s = (1, s1)
    \<and> ap_write (SWD_Transfer (link_wire lat)) AP_TAR addr s1 = (1, s2)
    \<and> ap_read (SWD_Transfer (link_wire lat)) AP_DRW 0 s2 = (1, Some (pt_mem (port_of s) addr), s3)
    \<and> line_up (link_live lat) s3 \<and> pt_mem (port_of s3) = pt_mem (port_of s)
    \<and> pt_dp (port_of s3) = pt_dp (port_of s)"
proof -
  let ?W = "link_wire lat" and ?p = "port_of s"
  obtain d1 s1 where r1: "swd_xfer_retry (SWD_Transfer ?W) 1 (Some c) s = (1, d1, s1)"
    and s1: "line_up (link_live lat) s1" "s_sel_cache s1 = 0" "port_of s1 = port_put 1 c ?p"
    by (rule link_access [OF up lat, of 1 c]) (simp add: sel)
  obtain d2 s2 where r2: "swd_xfer_retry (SWD_Transfer ?W) 5 (Some addr) s1 = (1, d2, s2)"
    and s2: "line_up (link_live lat) s2" "s_sel_cache s2 = 0" "port_of s2 = port_put 5 addr (port_put 1 c ?p)"
    by (rule link_access [OF s1(1) lat, of 5 addr]) (simp add: s1)
  obtain d3 s3 where r3: "swd_xfer_retry (SWD_Transfer ?W) 0xF (Some 0) s2 = (1, d3, s3)"
    and s3: "line_up (link_live lat) s3" "(tg_rdbuf (lk_tgt (on_wire s3)), port_of s3) = port_get 0xF (port_put 5 addr (port_put 1 c ?p))"
    by (rule link_access [OF s2(1) lat, of "0xF" 0]) (simp add: s2)
  obtain s4 where r4: "swd_xfer_retry (SWD_Transfer ?W) 0xE (Some 0) s3 = (1, Some (tg_rdbuf (lk_tgt (on_wire s3))), s4)"
    and s4: "line_up (link_live lat) s4" "port_of s4 = port_of s3"
    by (rule link_access [OF s3(1) lat, of "0xE" 0]) simp
  have reg: "tg_rdbuf (lk_tgt (on_wire s3)) = pt_mem ?p addr" "pt_mem (port_of s3) = pt_mem ?p" "pt_dp (port_of s3) = pt_dp ?p"
    using s3(2) sel(2) by (simp_all add: port_get_def port_put_def ap_addr_def next_word_def)
  have "ap_write (SWD_Transfer ?W) AP_CSW c s = (1, s1)" "ap_write (SWD_Transfer ?W) AP_TAR addr s1 = (1, s2)"
    "ap_read (SWD_Transfer ?W) AP_DRW 0 s2 = (1, Some (pt_mem ?p addr), s4)"
    by (simp_all add: ap_write_def ap_read_def AP_CSW_def AP_TAR_def AP_DRW_def DP_RDBUFF_def transfer_bits bank_zero
        sel s1 s2 r1 r2 r3 r4 reg)
  then show ?thesis using s4 reg(2,3) by auto
qed

text \<open>
  C28. The bring-up command that reads memory, from any state of the line: JTAG selected, serial wire selected
  but out of step, or in the middle of a packet or a select sequence; whatever the SELECT cache, the state of
  the SPI unit and the number of WAIT answers (below the retry count) are; with standard timing set in the
  probe.  The connect sequence brings the line up, the prologue is acknowledged at every step, both power
  domains come up, and the words printed are the identification and the memory word at the address of the
  command line that the target holds.  They are those it held before, and the whole memory is as it was,
  unless the connect sequence fell into a packet.
\<close>

theorem swd_mem_reads_word:
  assumes "std_host s" and "tg_wait (lk_tgt (on_wire s)) \<le> lat" and "lat < SWD_WAIT_RETRIES"
  shows "\<exists>s'. swd_mem (link_wire lat) [c, a] s =
      ([(''cfg'', [0, 1, strtoul a]), (''DPIDR OK'', [pt_dp (port_of s') 0]), (''ABORT OK'', []),
        (''SELECT OK'', []), (''CTRLwr OK'', [0x50000000]), (''CTRLrd YES'', [0xF0000000]), (''DRW OK'', []),
        (''mem OK'', [strtoul a, pt_mem (port_of s') (strtoul a)])]
       @ (if strtoul a = 0xE0042000 then [(''DEV_ID'', [pt_mem (port_of s') 0xE0042000 AND 0xFFF])] else []), s')
     \<and> line_up (link_live lat) s'
     \<and> (no_packet (on_wire s) \<longrightarrow> pt_mem (port_of s') = pt_mem (port_of s) \<and> pt_dp (port_of s') 0 = pt_dp (port_of s) 0)"
proof -
  let ?p = "tg_port (lk_tgt (out_bits (link_wire lat) connect_bits (on_wire s)))" and ?x = "SWD_Transfer (link_wire lat)"
  obtain s1 where p: "swd_powerup_prologue (link_wire lat) s =
      (1, pt_dp ?p 0, [(''DPIDR OK'', [pt_dp ?p 0]), (''ABORT OK'', []), (''SELECT OK'', []),
        (''CTRLwr OK'', [0x50000000]), (''CTRLrd YES'', [0xF0000000])], s1)"
    and s1: "line_up (link_live lat) s1" "s_sel_cache s1 = 0" "port_of s1 = powered ?p"
    using powerup_succeeds [OF assms] by blast
  have "pt_select (port_of s1) = 0" by (simp add: s1(3) powered_def)
  then obtain s2 s3 s4 where r: "ap_write ?x AP_CSW CSW_VALUE_32 s1 = (1, s2)"
    "ap_write ?x AP_TAR (strtoul a) s2 = (1, s3)"
    "ap_read ?x AP_DRW 0 s3 = (1, Some (pt_mem (port_of s1) (strtoul a)), s4)"
    "line_up (link_live lat) s4" "pt_mem (port_of s4) = pt_mem (port_of s1)" "pt_dp (port_of s4) = pt_dp (port_of s1)"
    using mem_access [OF s1(1) assms(3) s1(2)] by blast
  have host: "\<not> s_read_even s" "s_trn s = 1" using assms(1) by (simp_all add: std_host_def)
  have after: "pt_mem (port_of s4) = pt_mem ?p" "pt_dp (port_of s4) 0 = pt_dp ?p 0"
    using r(5,6) by (simp_all add: s1(3) powered_def)
  have "no_packet (on_wire s) \<Longrightarrow> ?p = port_of s"
    using connect_effect(2) [OF assms(2)] by (simp add: port_of_def)
  then show ?thesis using r(4) after host by (intro exI [of _ s4]) (simp add: swd_mem_def Let_def p acks r s1(3) powered_def)
qed

text \<open>A target with JTAG selected, in the middle of what looks like a packet.\<close>

definition demo_probe :: "link swd" where
  "demo_probe = \<lparr> s_read_even = False, s_trn = 1, s_drive = False, s_sel_cache = 5, spi_drive = False,
     spi_even = True, spi_bits = 3,
     on_wire = \<lparr> lk_swd = False, lk_sync = False, lk_ones = 3, lk_sel = Some [False],
       lk_tgt = \<lparr> tg_heard = [True, True], tg_say = [True], tg_write = Some 4, tg_wait = 4, tg_rdbuf = 7, tg_port = demo_port \<rparr> \<rparr> \<rparr>"

lemma swd_mem_reads_word_witness:
  "\<exists>s'. swd_mem (link_wire 4) [''swd_mem'', ''0x20000010''] demo_probe
     = ([(''cfg'', [0, 1, 0x20000010]), (''DPIDR OK'', [0x0BC11477]), (''ABORT OK'', []), (''SELECT OK'', []),
         (''CTRLwr OK'', [0x50000000]), (''CTRLrd YES'', [0xF0000000]), (''DRW OK'', []),
         (''mem OK'', [0x20000010, 0x20000010])], s')"
proof -
  have a: "strtoul ''0x20000010'' = 0x20000010"
    by (simp add: strtoul_def c_space_def c_digit_def of_char_def)
  have d: "std_host demo_probe" "tg_wait (lk_tgt (on_wire demo_probe)) \<le> 4" "no_packet (on_wire demo_probe)"
    "port_of demo_probe = demo_port"
    by (simp_all add: demo_probe_def std_host_def no_packet_def listens_def port_of_def)
  have wait: "(4 :: nat) < SWD_WAIT_RETRIES" by (simp add: SWD_WAIT_RETRIES_def)
  have regs: "pt_dp demo_port 0 = 0x0BC11477" "pt_mem demo_port 0x20000010 = 0x20000010" by (simp_all add: demo_port_def)
  have "(0x20000010 :: u32) \<noteq> 0xE0042000" by simp
  with swd_mem_reads_word [OF d(1,2) wait, of "''swd_mem''" "''0x20000010''"] d(3)
  show ?thesis unfolding a d(4) by (auto simp: regs)
qed

end
