(* ===== verification/Usb_Dcd.thy ===== *)
theory Usb_Dcd
  imports Usbd_Irq
begin

text \<open>
  The peripheral library below the controller driver (HPM SDK \<^verbatim>\<open>components/usb/device/hpm_usb_device.c\<close>
  and the endpoint part of \<^verbatim>\<open>drivers/src/hpm_usb_drv.c\<close>): queue heads and transfer descriptors in memory,
  the endpoint control registers.  The registers that the controller changes by itself are a parameter:
  \<open>hw r t\<close> is what the read of register \<open>r\<close> at time \<open>t\<close> returns, and every read takes one unit of time; a
  loop that waits for such a register returns or it is \<open>None\<close>.
\<close>

section \<open>Constants (hpm_soc_feature.h)\<close>

definition USB_SOC_DCD_QHD_BUFFER_COUNT :: nat where "USB_SOC_DCD_QHD_BUFFER_COUNT = 5"
definition USB_SOC_DCD_MAX_ENDPOINT_COUNT :: nat where "USB_SOC_DCD_MAX_ENDPOINT_COUNT = 16"
definition USB_SOC_DCD_QTD_COUNT_EACH_ENDPOINT :: nat where "USB_SOC_DCD_QTD_COUNT_EACH_ENDPOINT = 8"

lemmas dcd_consts = USB_SOC_DCD_QHD_BUFFER_COUNT_def USB_SOC_DCD_MAX_ENDPOINT_COUNT_def
  USB_SOC_DCD_QTD_COUNT_EACH_ENDPOINT_def

definition usb_xfer_isochronous :: u8 where "usb_xfer_isochronous = 1"
definition usb_xfer_bulk :: u32 where "usb_xfer_bulk = 2"

definition ENDPTCTRL_STALL :: u32 where "ENDPTCTRL_STALL = 1"
definition ENDPTCTRL_TYPE :: u32 where "ENDPTCTRL_TYPE = push_bit 2 3"
definition ENDPTCTRL_TOGGLE_RESET :: u32 where "ENDPTCTRL_TOGGLE_RESET = push_bit 6 1"
definition ENDPTCTRL_ENABLE :: u32 where "ENDPTCTRL_ENABLE = push_bit 7 1"

lemmas endptctrl_defs = ENDPTCTRL_STALL_def ENDPTCTRL_TYPE_def ENDPTCTRL_TOGGLE_RESET_def ENDPTCTRL_ENABLE_def

section \<open>State\<close>

text \<open>
  A transfer descriptor; its address is the index in the array, \<open>No_Qtd\<close> the invalid link
  (\<^verbatim>\<open>USB_SOC_DCD_QTD_NEXT_INVALID\<close>).  The byte count of the token has 15 bits.
\<close>

datatype qtd_link = No_Qtd | Null_Qtd | Qtd nat

record dcd_qtd_t =
  q_next :: qtd_link
  q_xact_err :: bool
  q_buffer_err :: bool
  q_halted :: bool
  q_active :: bool
  q_int_on_complete :: bool
  q_total_bytes :: "15 word"
  q_buffer :: "u32 list"
  q_expected_bytes :: u16

record dcd_qhd_t =
  h_int_on_setup :: bool
  h_max_packet_size :: "11 word"
  h_zero_length_termination :: bool
  h_iso_mult :: "2 word"
  h_overlay_next :: qtd_link
  h_attached_buffer :: u32
  h_attached_qtd :: qtd_link

datatype usb_reg = ENDPTSETUPSTAT | ENDPTPRIME | ENDPTFLUSH | ENDPTSTAT | ENDPTNAK | ENDPTNAKEN | USBSTS | ENDPTCOMPLETE

record usb_dcd =
  dd_qhd :: "dcd_qhd_t list"
  dd_qtd :: "dcd_qtd_t list"
  dd_ctrl :: "u32 list"
  dd_time :: nat
  dd_writes :: "(usb_reg \<times> u32) list"

type_synonym usb_hw = "usb_reg \<Rightarrow> nat \<Rightarrow> u32"

definition reg_read :: "usb_hw \<Rightarrow> usb_reg \<Rightarrow> usb_dcd \<Rightarrow> u32 \<times> usb_dcd" where
  "reg_read hw r d = (hw r (dd_time d), d\<lparr> dd_time := dd_time d + 1 \<rparr>)"

definition reg_write :: "usb_reg \<Rightarrow> u32 \<Rightarrow> usb_dcd \<Rightarrow> usb_dcd" where
  "reg_write r v d = d\<lparr> dd_writes := dd_writes d @ [(r, v)] \<rparr>"

text \<open>Waiting until the bits of a mask are clear.\<close>

partial_function (option) wait_clear :: "usb_hw \<Rightarrow> usb_reg \<Rightarrow> u32 \<Rightarrow> usb_dcd \<Rightarrow> usb_dcd option" where
  "wait_clear hw r m d =
    (case reg_read hw r d of (v, d) \<Rightarrow> if v AND m \<noteq> 0 then wait_clear hw r m d else Some d)"

section \<open>Endpoint control registers (hpm_usb_drv.c)\<close>

definition ep_num :: "u8 \<Rightarrow> nat" where "ep_num ep_addr = unat (ep_addr AND 0x0F)"
definition ep_dir :: "u8 \<Rightarrow> nat" where "ep_dir ep_addr = unat (drop_bit 7 (ep_addr AND 0x80))"
definition dir_shift :: "u8 \<Rightarrow> nat" where "dir_shift ep_addr = (if ep_dir ep_addr \<noteq> 0 then 16 else 0)"

definition on_ctrl_reg :: "nat \<Rightarrow> (u32 \<Rightarrow> u32) \<Rightarrow> usb_dcd \<Rightarrow> usb_dcd" where
  "on_ctrl_reg i f d = d\<lparr> dd_ctrl := (dd_ctrl d)[i := f (dd_ctrl d ! i)] \<rparr>"

definition usb_dcd_edpt_open :: "u8 \<Rightarrow> u8 \<Rightarrow> usb_dcd \<Rightarrow> usb_dcd" where
  "usb_dcd_edpt_open ep_addr xfer =
    on_ctrl_reg (ep_num ep_addr) (\<lambda>temp.
      (temp AND NOT (push_bit (dir_shift ep_addr) (push_bit 2 3)))
      OR push_bit (dir_shift ep_addr) (push_bit 2 (ucast xfer) OR ENDPTCTRL_ENABLE OR ENDPTCTRL_TOGGLE_RESET))"

definition usb_dcd_edpt_get_type :: "u8 \<Rightarrow> usb_dcd \<Rightarrow> u8" where
  "usb_dcd_edpt_get_type ep_addr d =
    ucast (drop_bit (dir_shift ep_addr + 2) (dd_ctrl d ! ep_num ep_addr AND push_bit (dir_shift ep_addr + 2) 3))"

definition usb_dcd_edpt_xfer :: "nat \<Rightarrow> usb_dcd \<Rightarrow> usb_dcd" where
  "usb_dcd_edpt_xfer ep_idx =
    reg_write ENDPTPRIME (push_bit (ep_idx div 2 + (if ep_idx mod 2 \<noteq> 0 then 16 else 0)) 1)"

definition usb_dcd_edpt_stall :: "u8 \<Rightarrow> usb_dcd \<Rightarrow> usb_dcd" where
  "usb_dcd_edpt_stall ep_addr =
    on_ctrl_reg (ep_num ep_addr) (\<lambda>temp. temp OR push_bit (dir_shift ep_addr) ENDPTCTRL_STALL)"

definition usb_dcd_edpt_clear_stall :: "u8 \<Rightarrow> usb_dcd \<Rightarrow> usb_dcd" where
  "usb_dcd_edpt_clear_stall ep_addr d =
    on_ctrl_reg (ep_num ep_addr) (\<lambda>temp. temp AND NOT (push_bit (dir_shift ep_addr) ENDPTCTRL_STALL))
      (on_ctrl_reg (ep_num ep_addr) (\<lambda>temp. temp OR push_bit (dir_shift ep_addr) ENDPTCTRL_TOGGLE_RESET) d)"

definition usb_dcd_edpt_check_stall :: "u8 \<Rightarrow> usb_dcd \<Rightarrow> bool" where
  "usb_dcd_edpt_check_stall ep_addr d \<longleftrightarrow>
    dd_ctrl d ! ep_num ep_addr AND push_bit (dir_shift ep_addr) ENDPTCTRL_STALL \<noteq> 0"

text \<open>The loop that flushes an endpoint until its status bit is down.\<close>

partial_function (option) flush_endpoint :: "usb_hw \<Rightarrow> u32 \<Rightarrow> usb_dcd \<Rightarrow> usb_dcd option" where
  "flush_endpoint hw primebit d =
    (case reg_read hw ENDPTFLUSH d of (v, d) \<Rightarrow>
       case wait_clear hw ENDPTFLUSH primebit (reg_write ENDPTFLUSH (v OR primebit) d) of
         None \<Rightarrow> None
       | Some d \<Rightarrow>
           (case reg_read hw ENDPTSTAT d of (v, d) \<Rightarrow>
              if v AND primebit \<noteq> 0 then flush_endpoint hw primebit d else Some d))"

definition usb_dcd_edpt_close :: "usb_hw \<Rightarrow> u8 \<Rightarrow> usb_dcd \<Rightarrow> usb_dcd option" where
  "usb_dcd_edpt_close hw ep_addr d =
    do {
      d \<leftarrow> flush_endpoint hw (push_bit (dir_shift ep_addr) (push_bit (ep_num ep_addr) 1)) d;
      let d = on_ctrl_reg (ep_num ep_addr)
        (\<lambda>temp. temp AND NOT (push_bit (dir_shift ep_addr) (ENDPTCTRL_TYPE OR ENDPTCTRL_ENABLE OR ENDPTCTRL_STALL))) d;
      Some (on_ctrl_reg (ep_num ep_addr) (\<lambda>temp. temp OR push_bit (dir_shift ep_addr) (push_bit 2 usb_xfer_bulk)) d)
    }"

text \<open>A register of flags is cleared by writing back what it reads.\<close>

definition write_back :: "usb_hw \<Rightarrow> usb_reg \<Rightarrow> usb_dcd \<Rightarrow> usb_dcd" where
  "write_back hw r d = (case reg_read hw r d of (v, d) \<Rightarrow> reg_write r v d)"

definition usb_dcd_bus_reset :: "usb_hw \<Rightarrow> usb_dcd \<Rightarrow> usb_dcd option" where
  "usb_dcd_bus_reset hw d =
    do {
      let d = d\<lparr> dd_ctrl := take 1 (dd_ctrl d)
                 @ replicate (USB_SOC_DCD_MAX_ENDPOINT_COUNT - 1) (push_bit 18 usb_xfer_bulk OR push_bit 2 usb_xfer_bulk) \<rparr>;
      let d = reg_write ENDPTNAKEN 0 (write_back hw ENDPTNAK d);
      let d = write_back hw ENDPTCOMPLETE (write_back hw ENDPTSETUPSTAT (write_back hw USBSTS d));
      d \<leftarrow> wait_clear hw ENDPTPRIME (NOT 0) d;
      wait_clear hw ENDPTFLUSH (NOT 0) (reg_write ENDPTFLUSH 0xFFFFFFFF d)
    }"

section \<open>Queue heads and transfer descriptors (hpm_usb_device.c)\<close>

definition qtd_zero :: dcd_qtd_t where
  "qtd_zero = \<lparr> q_next = Null_Qtd, q_xact_err = False, q_buffer_err = False, q_halted = False, q_active = False,
     q_int_on_complete = False, q_total_bytes = 0, q_buffer = replicate USB_SOC_DCD_QHD_BUFFER_COUNT 0, q_expected_bytes = 0 \<rparr>"

definition qhd_zero :: dcd_qhd_t where
  "qhd_zero = \<lparr> h_int_on_setup = False, h_max_packet_size = 0, h_zero_length_termination = False, h_iso_mult = 0,
     h_overlay_next = Null_Qtd, h_attached_buffer = 0, h_attached_qtd = Null_Qtd \<rparr>"

definition usb_qtd_init :: "u32 \<Rightarrow> u16 \<Rightarrow> dcd_qtd_t \<Rightarrow> dcd_qtd_t" where
  "usb_qtd_init data_ptr total_bytes q =
    (let q = q\<lparr> q_next := No_Qtd, q_xact_err := False, q_buffer_err := False, q_halted := False, q_active := True,
               q_int_on_complete := False, q_total_bytes := ucast total_bytes, q_expected_bytes := total_bytes \<rparr>
     in if data_ptr \<noteq> 0
        then q\<lparr> q_buffer := data_ptr # map (\<lambda>i. (data_ptr AND 0xFFFFF000) + of_nat i * 0x1000) [1..<USB_SOC_DCD_QHD_BUFFER_COUNT] \<rparr>
        else q)"

definition usb_device_bus_reset :: "usb_hw \<Rightarrow> u16 \<Rightarrow> usb_dcd \<Rightarrow> usb_dcd option" where
  "usb_device_bus_reset hw ep0_max_packet_size d =
    do {
      d \<leftarrow> usb_dcd_bus_reset hw d;
      let q = qhd_zero\<lparr> h_zero_length_termination := True, h_max_packet_size := ucast ep0_max_packet_size, h_overlay_next := No_Qtd \<rparr>;
      Some (d\<lparr> dd_qhd := [q\<lparr> h_int_on_setup := True \<rparr>, q] @ replicate (2 * USB_SOC_DCD_MAX_ENDPOINT_COUNT - 2) qhd_zero,
              dd_qtd := replicate (2 * USB_SOC_DCD_MAX_ENDPOINT_COUNT * USB_SOC_DCD_QTD_COUNT_EACH_ENDPOINT) qtd_zero \<rparr>)
    }"

definition ep_index :: "u8 \<Rightarrow> nat" where
  "ep_index ep_addr = 2 * ep_num ep_addr + ep_dir ep_addr"

definition usb_device_edpt_open :: "u8 \<Rightarrow> u8 \<Rightarrow> u16 \<Rightarrow> usb_dcd \<Rightarrow> bool \<times> usb_dcd" where
  "usb_device_edpt_open ep_addr xfer max_packet_size d =
    (let ep_idx = ep_index ep_addr in
     if USB_SOC_DCD_MAX_ENDPOINT_COUNT \<le> ep_num ep_addr then (False, d)
     else
       let q = qhd_zero\<lparr> h_int_on_setup := (ep_idx = 0), h_zero_length_termination := True,
                 h_max_packet_size := ucast (max_packet_size AND 0x7FF), h_overlay_next := No_Qtd \<rparr>;
           q = (if xfer = usb_xfer_isochronous
                then q\<lparr> h_iso_mult := ucast ((drop_bit 11 max_packet_size AND 3) + 1) \<rparr> else q)
       in (True, usb_dcd_edpt_open ep_addr xfer (d\<lparr> dd_qhd := (dd_qhd d)[ep_idx := q] \<rparr>)))"

text \<open>The link from the descriptor before.\<close>

definition linked :: "nat option \<Rightarrow> nat \<Rightarrow> dcd_qtd_t list \<Rightarrow> dcd_qtd_t list" where
  "linked prev k qs = (case prev of None \<Rightarrow> qs | Some p \<Rightarrow> qs[p := (qs ! p)\<lparr> q_next := Qtd k \<rparr>])"

text \<open>
  The descriptors of a transfer, 16384 bytes each: the loop with its variables \<open>i\<close>, \<open>buffer\<close>, \<open>total_bytes\<close>,
  \<open>prev_p_qtd\<close> and \<open>first_p_qtd\<close>.
\<close>

function xfer_descriptors ::
  "nat \<Rightarrow> nat \<Rightarrow> u32 \<Rightarrow> u32 \<Rightarrow> nat option \<Rightarrow> qtd_link \<Rightarrow> dcd_qtd_t list \<Rightarrow> (qtd_link \<times> dcd_qtd_t list) option" where
  "xfer_descriptors ep_idx i buffer total_bytes prev first qs =
    (let k = ep_idx * USB_SOC_DCD_QTD_COUNT_EACH_ENDPOINT + i;
         xfer_len = (if 0x4000 < total_bytes then 0x4000 else total_bytes);
         rest = total_bytes - xfer_len;
         q = usb_qtd_init buffer (ucast xfer_len) (qs ! k);
         q = (if rest = 0 then q\<lparr> q_int_on_complete := True \<rparr> else q);
         qs = qs[k := q];
         qs = linked prev k qs;
         first = (if prev = None then Qtd k else first)
     in if length qs \<le> k then None
        else if 0 < rest then xfer_descriptors ep_idx (i + 1) (buffer + xfer_len) rest (Some k) first qs
        else Some (first, qs))"
  by pat_completeness auto
termination
  by (relation "measure (\<lambda>(ep_idx, i, buffer, total_bytes, prev, first, qs). unat total_bytes)")
    (auto simp: word_less_nat_alt unat_sub word_le_nat_alt split: if_splits)

declare xfer_descriptors.simps [simp del]

definition usb_device_edpt_xfer :: "usb_hw \<Rightarrow> u8 \<Rightarrow> u32 \<Rightarrow> u32 \<Rightarrow> usb_dcd \<Rightarrow> (bool \<times> usb_dcd) option" where
  "usb_device_edpt_xfer hw ep_addr buffer total_bytes d =
    (let ep_idx = ep_index ep_addr; qtd_num = ucast ((total_bytes + 0x3FFF) div 0x4000) :: u16 in
     if USB_SOC_DCD_QTD_COUNT_EACH_ENDPOINT < unat qtd_num then Some (False, d)
     else if USB_SOC_DCD_MAX_ENDPOINT_COUNT \<le> ep_num ep_addr then Some (False, d)
     else do {
       d \<leftarrow> (if ep_num ep_addr = 0 then wait_clear hw ENDPTSETUPSTAT 1 d else Some d);
       (first, qs) \<leftarrow> xfer_descriptors ep_idx 0 buffer total_bytes None Null_Qtd (dd_qtd d);
       let d = d\<lparr> dd_qtd := qs,
                  dd_qhd := (dd_qhd d)[ep_idx := (dd_qhd d ! ep_idx)\<lparr> h_attached_buffer := buffer, h_attached_qtd := first,
                    h_overlay_next := first \<rparr>] \<rparr>;
       Some (True, usb_dcd_edpt_xfer ep_idx d)
     })"

definition usb_device_edpt_close :: "usb_hw \<Rightarrow> u8 \<Rightarrow> usb_dcd \<Rightarrow> usb_dcd option" where
  "usb_device_edpt_close = usb_dcd_edpt_close"

section \<open>What the controller makes of a descriptor\<close>

text \<open>
  The address of byte \<open>k\<close> of a descriptor, by the rule of the controller: the offset runs through the page
  of the first pointer and on through the pages of the others.
\<close>

definition qtd_address :: "dcd_qtd_t \<Rightarrow> nat \<Rightarrow> u32" where
  "qtd_address q k =
    (let off = unat (q_buffer q ! 0) mod 4096 + k in
     if off < 4096 then q_buffer q ! 0 + of_nat k
     else (q_buffer q ! (off div 4096) AND 0xFFFFF000) + of_nat (off mod 4096))"

lemma page_mask: "(a :: u32) AND 0xFFFFF000 = push_bit 12 (drop_bit 12 a)"
proof -
  have "(0xFFFFF000 :: u32) = NOT (mask 12)" by (simp add: mask_eq_exp_minus_1)
  moreover have "a AND NOT (mask 12) = push_bit 12 (drop_bit 12 a)" by (rule bit_word_eqI) (auto simp: bit_simps)
  ultimately show ?thesis by simp
qed

lemma page_of: "(a :: u32) AND 0xFFFFF000 = a - of_nat (unat a mod 4096)"
proof -
  have "unat (take_bit 12 a) = unat a mod 4096" by (simp only: unsigned_take_bit_eq) (simp add: take_bit_eq_mod)
  then have "take_bit 12 a = of_nat (unat a mod 4096)" by (metis of_nat_unat ucast_id)
  then show ?thesis using bits_ident [of 12 a] by (simp add: page_mask eq_diff_eq)
qed

lemma page_base:
  assumes "off = unat (a :: u32) mod 4096 + k" and "off div 4096 = i"
  shows "(a AND 0xFFFFF000) + of_nat i * 0x1000 + of_nat (off mod 4096) = a + of_nat k"
proof -
  have "off = i * 4096 + off mod 4096" using assms(2) div_mult_mod_eq [of off 4096] by simp
  then have "of_nat (unat a mod 4096 + k) = (of_nat i * 0x1000 + of_nat (off mod 4096) :: u32)"
    using assms(1) by (metis of_nat_add of_nat_mult of_nat_numeral)
  then show ?thesis by (simp add: page_of algebra_simps)
qed

lemma page_aligned: "(((a :: u32) AND 0xFFFFF000) + of_nat i * 0x1000) AND 0xFFFFF000 = (a AND 0xFFFFF000) + of_nat i * 0x1000"
proof -
  let ?x = "push_bit 12 (drop_bit 12 a) + push_bit 12 (of_nat i) :: u32"
  have "take_bit 12 ?x = 0" by (simp add: take_bit_push_bit flip: push_bit_add)
  then have "push_bit 12 (drop_bit 12 ?x) = ?x" using bits_ident [of 12 ?x] by simp
  moreover have "of_nat i * 0x1000 = (push_bit 12 (of_nat i) :: u32)" by (simp add: push_bit_eq_mult)
  ultimately show ?thesis by (simp only: page_mask)
qed

lemma descriptor_covers:
  assumes "a \<noteq> 0" and "k < 0x4000"
  shows "qtd_address (usb_qtd_init a n q) k = a + of_nat k"
proof -
  let ?off = "unat a mod 4096 + k"
  have pages: "[1..<5] = [1, 2, 3, 4 :: nat]" by (simp add: upt_rec)
  have "unat a mod 4096 < 4096" by simp
  then have "?off < 20480" using assms(2) by linarith
  then have d: "?off div 4096 < 5" by (simp add: less_mult_imp_div_less)
  show ?thesis
  proof (cases "?off < 4096")
    case False
    then have "0 < ?off div 4096" by (simp add: div_greater_zero_iff)
    then have "?off div 4096 \<in> {1, 2, 3, 4}" using d by auto
    then have "q_buffer (usb_qtd_init a n q) ! (?off div 4096) = (a AND 0xFFFFF000) + of_nat (?off div 4096) * 0x1000"
      using assms(1) by (auto simp: usb_qtd_init_def dcd_consts pages)
    then show ?thesis
      using False assms(1) page_base [OF refl refl, of a k] page_aligned
      by (simp add: qtd_address_def usb_qtd_init_def Let_def)
  qed (use assms(1) in \<open>simp add: qtd_address_def usb_qtd_init_def Let_def\<close>)
qed

section \<open>The descriptors of a transfer\<close>

text \<open>How many descriptors a transfer takes, and the slots of its endpoint after they have been filled.\<close>

definition qtds_needed :: "u32 \<Rightarrow> nat" where
  "qtds_needed n = (if n = 0 then 1 else (unat n + 0x3FFF) div 0x4000)"

fun filled :: "nat \<Rightarrow> u32 \<Rightarrow> u32 \<Rightarrow> dcd_qtd_t list \<Rightarrow> dcd_qtd_t list" where
  "filled k a n [] = []"
| "filled k a n (q # qs) =
    (if 0x4000 < n
     then (usb_qtd_init a 0x4000 q)\<lparr> q_next := Qtd (k + 1) \<rparr> # filled (k + 1) (a + 0x4000) (n - 0x4000) qs
     else (usb_qtd_init a (ucast n) q)\<lparr> q_int_on_complete := True \<rparr> # qs)"

lemma qtds_needed_more:
  assumes "0x4000 < (n :: u32)"
  shows "qtds_needed n = Suc (qtds_needed (n - 0x4000))" and "unat (n - 0x4000) = unat n - 0x4000" and "n - 0x4000 \<noteq> 0"
proof -
  have n: "0x4000 < unat n" using assms by (simp add: word_less_nat_alt)
  then show u: "unat (n - 0x4000) = unat n - 0x4000" using assms by (simp add: unat_sub less_imp_le)
  then show nz: "n - 0x4000 \<noteq> 0" using n by auto
  have "n \<noteq> 0" using n by auto
  have "(unat n + 0x3FFF) div 0x4000 = Suc ((unat n - 0x4000 + 0x3FFF) div 0x4000)" using n by auto
  then show "qtds_needed n = Suc (qtds_needed (n - 0x4000))"
    using nz \<open>n \<noteq> 0\<close> by (simp add: qtds_needed_def u)
qed

lemma qtds_needed_one: "\<not> 0x4000 < (n :: u32) \<Longrightarrow> qtds_needed n = 1"
proof -
  assume n: "\<not> 0x4000 < n"
  show ?thesis
  proof (cases "n = 0")
    case False
    then have "unat n \<noteq> 0" by (simp add: unat_eq_0)
    moreover have "unat n \<le> 0x4000" using n by (simp add: not_less word_le_nat_alt)
    ultimately have "(unat n + 0x3FFF) div 0x4000 = 1" by auto
    then show ?thesis using False by (simp add: qtds_needed_def)
  qed (simp add: qtds_needed_def)
qed

lemma length_filled [simp]: "length (filled k a n qs) = length qs"
  by (induction qs arbitrary: k a n) simp_all

lemma filled_rest: "qtds_needed n \<le> j \<Longrightarrow> j < length qs \<Longrightarrow> filled k a n qs ! j = qs ! j"
proof (induction qs arbitrary: k a n j)
  case (Cons q qs)
  then show ?case
    by (cases "0x4000 < n"; cases j) (auto simp: qtds_needed_more(1) qtds_needed_one)
qed simp

lemma descriptors_filled:
  assumes "length xs = ep_idx * 8 + i" and "qtds_needed n \<le> length qs" and "\<forall>p. prev = Some p \<longrightarrow> p < length xs"
  shows "xfer_descriptors ep_idx i a n prev first (xs @ qs)
    = Some (if prev = None then Qtd (length xs) else first, linked prev (length xs) xs @ filled (length xs) a n qs)"
  using assms
proof (induction qs arbitrary: i xs a n prev first)
  case Nil
  then show ?case by (cases "0x4000 < n") (simp_all add: qtds_needed_more qtds_needed_one)
next
  case (Cons q qs)
  let ?k = "length xs"
  have k: "ep_idx * USB_SOC_DCD_QTD_COUNT_EACH_ENDPOINT + i = ?k" using Cons.prems(1) by (simp add: dcd_consts)
  have upd: "linked prev ?k (xs @ y # ys) = linked prev ?k xs @ y # ys" for y ys
    using Cons.prems(3) by (auto simp: linked_def list_update_append nth_append split: option.splits)
  have len: "length (linked prev ?k ys) = length ys" for ys by (simp add: linked_def split: option.splits)
  show ?case
  proof (cases "0x4000 < n")
    case True
    note more = qtds_needed_more [OF True]
    let ?x = "usb_qtd_init a 0x4000 q"
    have "0 < n - 0x4000" using True more(2) by (simp add: word_less_nat_alt)
    then have "xfer_descriptors ep_idx i a n prev first (xs @ q # qs)
      = xfer_descriptors ep_idx (i + 1) (a + 0x4000) (n - 0x4000) (Some ?k) (if prev = None then Qtd ?k else first)
          ((linked prev ?k xs @ [?x]) @ qs)"
      using True more(3)
      by (subst xfer_descriptors.simps) (simp add: k Let_def nth_append list_update_append len upd)
    also have "\<dots> = Some (if prev = None then Qtd ?k else first,
        linked (Some ?k) (?k + 1) (linked prev ?k xs @ [?x]) @ filled (?k + 1) (a + 0x4000) (n - 0x4000) qs)"
      using Cons.IH [of "linked prev ?k xs @ [?x]" "i + 1" "n - 0x4000" "Some ?k"] Cons.prems more(1) len by simp
    finally show ?thesis using True len by (simp add: linked_def [of "Some ?k"] list_update_append nth_append)
  next
    case False
    let ?x = "(usb_qtd_init a (ucast n) q)\<lparr> q_int_on_complete := True \<rparr>"
    show ?thesis
      using False by (subst xfer_descriptors.simps) (simp add: k Let_def nth_append list_update_append len upd)
  qed
qed

text \<open>
  The list of descriptors that begins at a slot, as the interrupt handler and the controller follow it
  (the fuel is the length of the array: a longer list would be a cycle).
\<close>

fun qtd_list :: "nat \<Rightarrow> dcd_qtd_t list \<Rightarrow> qtd_link \<Rightarrow> dcd_qtd_t list" where
  "qtd_list (Suc f) qs (Qtd k) = (if k < length qs then qs ! k # qtd_list f qs (q_next (qs ! k)) else [])"
| "qtd_list f qs l = []"

lemma qtd_list_filled:
  assumes "k = length xs" and "qtds_needed n \<le> length qs" and "qtds_needed n \<le> f"
  shows "qtd_list f (xs @ filled k a n qs) (Qtd k) = take (qtds_needed n) (filled k a n qs)"
  using assms
proof (induction qs arbitrary: k xs a n f)
  case Nil
  then show ?case by (cases "0x4000 < n") (simp_all add: qtds_needed_more qtds_needed_one)
next
  case (Cons q qs)
  show ?case
  proof (cases "0x4000 < n")
    case True
    note more = qtds_needed_more(1) [OF True]
    obtain g where f: "f = Suc g" using Cons.prems(3) more by (cases f) simp_all
    let ?x = "(usb_qtd_init a 0x4000 q)\<lparr> q_next := Qtd (k + 1) \<rparr>"
    have "qtd_list g ((xs @ [?x]) @ filled (k + 1) (a + 0x4000) (n - 0x4000) qs) (Qtd (k + 1))
      = take (qtds_needed (n - 0x4000)) (filled (k + 1) (a + 0x4000) (n - 0x4000) qs)"
      using Cons.prems more f by (intro Cons.IH) simp_all
    then show ?thesis using True more f Cons.prems(1) by (simp add: nth_append)
  next
    case False
    obtain g where f: "f = Suc g" using Cons.prems(3) qtds_needed_one [OF False] by (cases f) simp_all
    have "q_next (usb_qtd_init a m q) = No_Qtd" for m by (simp add: usb_qtd_init_def Let_def)
    then show ?thesis using False f qtds_needed_one [OF False] Cons.prems(1) by (simp add: nth_append)
  qed
qed

text \<open>What a transfer's descriptors hold: all active without error, the last one with the interrupt.\<close>

definition qtd_ready :: "dcd_qtd_t \<Rightarrow> bool" where
  "qtd_ready q \<longleftrightarrow> q_active q \<and> \<not> q_halted q \<and> \<not> q_xact_err q \<and> \<not> q_buffer_err q
     \<and> unat (q_total_bytes q) = unat (q_expected_bytes q)"

definition qtd_addresses :: "dcd_qtd_t \<Rightarrow> u32 list" where
  "qtd_addresses q = map (qtd_address q) [0..<unat (q_expected_bytes q)]"

lemma init_ready:
  assumes "unat n \<le> 0x4000"
  shows "qtd_ready (usb_qtd_init a n q)" and "q_expected_bytes (usb_qtd_init a n q) = n" and "\<not> q_int_on_complete (usb_qtd_init a n q)"
  using assms by (simp_all add: qtd_ready_def usb_qtd_init_def Let_def unsigned_ucast_eq take_bit_nat_eq_self)

lemma qtd_fields [simp]:
  "qtd_ready (q\<lparr> q_next := l \<rparr>) = qtd_ready q" "qtd_ready (q\<lparr> q_int_on_complete := b \<rparr>) = qtd_ready q"
  "qtd_addresses (q\<lparr> q_next := l \<rparr>) = qtd_addresses q" "qtd_addresses (q\<lparr> q_int_on_complete := b \<rparr>) = qtd_addresses q"
  by (simp_all add: qtd_ready_def qtd_addresses_def qtd_address_def Let_def)

lemma init_addresses:
  assumes "unat n \<le> 0x4000" and "a \<noteq> 0 \<or> n = 0"
  shows "qtd_addresses (usb_qtd_init a n q) = map (\<lambda>j. a + of_nat j) [0..<unat n]"
  using assms descriptor_covers [of a _ n q] by (auto simp: qtd_addresses_def init_ready)

text \<open>A retired descriptor with a number of bytes left, and what the interrupt handler reads of a descriptor.\<close>

definition retired :: "u16 \<Rightarrow> dcd_qtd_t \<Rightarrow> dcd_qtd_t" where
  "retired left q = q\<lparr> q_active := False, q_total_bytes := ucast left \<rparr>"

definition irq_view :: "dcd_qtd_t \<Rightarrow> dcd_qtd" where
  "irq_view q = \<lparr> qtd_halted = q_halted q, qtd_xact_err = q_xact_err q, qtd_buffer_err = q_buffer_err q, qtd_active = q_active q,
     qtd_expected = ucast (q_expected_bytes q), qtd_total = ucast (q_total_bytes q) \<rparr>"

definition completed :: "u16 \<Rightarrow> dcd_qtd_t list \<Rightarrow> dcd_qtd list" where
  "completed left c = map irq_view (map (retired 0) (butlast c) @ [retired left (last c)])"

lemma view_ready:
  assumes "qtd_ready q" and "unat left \<le> 0x4000"
  shows "\<not> qtd_halted (irq_view (retired left q))" "\<not> qtd_xact_err (irq_view (retired left q))"
    "\<not> qtd_buffer_err (irq_view (retired left q))" "\<not> qtd_active (irq_view (retired left q))"
    "qtd_expected (irq_view (retired left q)) = ucast (q_expected_bytes q)" "qtd_total (irq_view (retired left q)) = ucast left"
proof -
  have "take_bit 15 (unat left) = unat left" "take_bit 32 (unat left) = unat left"
    using assms(2) by (auto intro!: take_bit_nat_eq_self)
  then have "take_bit 15 (ucast left) = (ucast left :: u32)"
    by (simp only: word_unat_eq_iff unsigned_take_bit_eq) (simp add: unsigned_ucast_eq)
  then have "ucast (ucast left :: 15 word) = (ucast left :: u32)" by (simp add: unsigned_ucast_eq)
  then show "qtd_total (irq_view (retired left q)) = ucast left" by (simp add: irq_view_def retired_def)
qed (use assms(1) in \<open>simp_all add: irq_view_def retired_def qtd_ready_def\<close>)

text \<open>The descriptors in their slots: what they hold, and what the handler makes of them in the end.\<close>

lemma chunk_bytes: "\<not> 0x4000 < (n :: u32) \<Longrightarrow> unat (ucast n :: u16) = unat n"
  by (simp add: unsigned_ucast_eq word_less_nat_alt take_bit_nat_eq_self)

lemma filled_describes:
  assumes "qtds_needed n \<le> length qs" and "a \<noteq> 0 \<or> n = 0" and "unat a + unat n \<le> 2 ^ 32"
    and "c = take (qtds_needed n) (filled k a n qs)"
  shows "c \<noteq> [] \<and> list_all qtd_ready c \<and> concat (map qtd_addresses c) = map (\<lambda>j. a + of_nat j) [0..<unat n]
    \<and> map q_int_on_complete c = replicate (length c - 1) False @ [True]
    \<and> q_expected_bytes (last c) \<le> 0x4000
    \<and> (\<forall>left m. left \<le> q_expected_bytes (last c) \<longrightarrow> qtd_scan (completed left c) m = Some (True, m + n - ucast left))"
  using assms
proof (induction qs arbitrary: k a n c)
  case Nil
  then show ?case by (cases "0x4000 < n") (simp_all add: qtds_needed_more qtds_needed_one)
next
  case (Cons q qs)
  show ?case
  proof (cases "0x4000 < n")
    case True
    note more = qtds_needed_more [OF True]
    let ?x = "(usb_qtd_init a 0x4000 q)\<lparr> q_next := Qtd (k + 1) \<rparr>"
    let ?c = "take (qtds_needed (n - 0x4000)) (filled (k + 1) (a + 0x4000) (n - 0x4000) qs)"
    have n: "0x4000 < unat n" using True by (simp add: word_less_nat_alt)
    have a: "unat (a + 0x4000) = unat a + 0x4000" using Cons.prems(3) n by (subst unat_add_lem [THEN iffD1]) simp_all
    then have nz: "a + 0x4000 \<noteq> 0" by (metis add_is_0 unat_0 zero_neq_numeral)
    define C where "C = ?c"
    have IH: "a + 0x4000 \<noteq> 0 \<or> n - 0x4000 = 0" "qtds_needed (n - 0x4000) \<le> length qs"
      "unat (a + 0x4000) + unat (n - 0x4000) \<le> 2 ^ 32"
      using Cons.prems(1,3) more a n nz by simp_all
    note ihs = Cons.IH [OF IH(2,1,3) C_def, unfolded more(2)]
    have ih: "C \<noteq> []" "list_all qtd_ready C"
      "concat (map qtd_addresses C) = map (\<lambda>j. a + 0x4000 + of_nat j) [0..<unat n - 0x4000]"
      "map q_int_on_complete C = replicate (length C - 1) False @ [True]" "q_expected_bytes (last C) \<le> 0x4000"
      "\<And>left m. left \<le> q_expected_bytes (last C) \<Longrightarrow> qtd_scan (completed left C) m = Some (True, m + (n - 0x4000) - ucast left)"
      using ihs by blast+
    have c: "c = ?x # C" using True more(1) Cons.prems(4) by (simp add: C_def)
    have x: "qtd_ready ?x" "\<not> q_int_on_complete ?x" "q_expected_bytes ?x = 0x4000"
      "qtd_addresses ?x = map (\<lambda>j. a + of_nat j) [0..<0x4000]"
      using init_ready [of "0x4000" a q] init_addresses [of "0x4000" a q] Cons.prems(2) n by auto
    have "[0..<unat n] = [0..<0x4000] @ [0x4000..<unat n]" using n by (metis le_add2 less_imp_le upt_add_eq_append zero_le le_add_diff_inverse)
    moreover have "[0x4000..<unat n] = map (\<lambda>j. j + 0x4000) [0..<unat n - 0x4000]" using n by (simp add: map_add_upt)
    ultimately have "concat (map qtd_addresses c) = map (\<lambda>j. a + of_nat j) [0..<unat n]"
      using x(4) ih(3) by (simp add: c add.assoc add.commute)
    moreover have "completed left c = irq_view (retired 0 ?x) # completed left C" for left
      using ih(1) by (simp add: completed_def c)
    then have "qtd_scan (completed left c) m = Some (True, m + n - ucast left)" if "left \<le> q_expected_bytes (last c)" for left m
      using ih(1,6) that view_ready [OF x(1), of 0] x(3) by (simp add: c completed_def Let_def)
    moreover obtain l where "length C = Suc l" using ih(1) by (cases C) auto
    ultimately show ?thesis using ih(1,2,4,5) x(1,2) by (simp add: c)
  next
    case False
    let ?x = "(usb_qtd_init a (ucast n) q)\<lparr> q_int_on_complete := True \<rparr>"
    have c: "c = [?x]" using False qtds_needed_one [OF False] Cons.prems(4) by simp
    have n: "unat (ucast n :: u16) \<le> 0x4000" using False chunk_bytes [OF False] by (simp add: not_less word_le_nat_alt)
    have x: "qtd_ready ?x" "q_expected_bytes ?x = ucast n" "qtd_addresses ?x = map (\<lambda>j. a + of_nat j) [0..<unat n]"
      using init_ready [OF n, of a q] init_addresses [OF n, of a q] Cons.prems(2) chunk_bytes [OF False] by auto
    have "take_bit 16 (unat n) = unat n" using chunk_bytes [OF False] by (simp add: unsigned_ucast_eq)
    then have "take_bit 16 n = n" by (simp only: word_unat_eq_iff unsigned_take_bit_eq)
    then have u: "ucast (ucast n :: u16) = n" by (simp add: unsigned_ucast_eq)
    have "qtd_scan (completed left c) m = Some (True, m + n - ucast left)" if "left \<le> q_expected_bytes (last c)" for left m
    proof -
      have "unat left \<le> 0x4000" using that n by (simp add: c x(2) word_le_nat_alt)
      then show ?thesis using view_ready [OF x(1), of left] x(2) u by (simp add: c completed_def Let_def)
    qed
    then show ?thesis using x n by (simp add: c word_le_nat_alt)
  qed
qed

section \<open>Transfers\<close>

lemma wait_clear_returns:
  assumes "hw r t AND m = 0" and "dd_time d \<le> t"
  obtains t' where "wait_clear hw r m d = Some (d\<lparr> dd_time := t' \<rparr>)" "dd_time d < t'" "t' \<le> Suc t"
proof -
  have stop: "wait_clear hw r m d = Some (d\<lparr> dd_time := dd_time d + 1 \<rparr>)" if "hw r (dd_time d) AND m = 0" for d
    by (subst wait_clear.simps) (simp add: reg_read_def that)
  have "\<exists>t'. wait_clear hw r m d = Some (d\<lparr> dd_time := t' \<rparr>) \<and> dd_time d < t' \<and> t' \<le> Suc t"
    using assms(2)
  proof (induction "t - dd_time d" arbitrary: d)
    case 0
    then show ?case using assms(1) stop [of d] by auto
  next
    case (Suc k)
    show ?case
    proof (cases "hw r (dd_time d) AND m = 0")
      case False
      then have "wait_clear hw r m d = wait_clear hw r m (d\<lparr> dd_time := dd_time d + 1 \<rparr>)"
        by (subst wait_clear.simps) (simp add: reg_read_def)
      moreover have "\<exists>t'. wait_clear hw r m (d\<lparr> dd_time := dd_time d + 1 \<rparr>) = Some (d\<lparr> dd_time := t' \<rparr>) \<and> dd_time d + 1 < t' \<and> t' \<le> Suc t"
        using Suc.hyps(1) [of "d\<lparr> dd_time := dd_time d + 1 \<rparr>"] Suc.hyps(2) Suc.prems by simp
      ultimately show ?thesis by auto
    qed (use stop [of d] Suc.prems in auto)
  qed
  then show thesis using that by blast
qed

lemma ep_num_less: "ep_num ep < 16"
proof -
  have "ep AND 0x0F = take_bit 4 ep" by (simp add: take_bit_eq_mask mask_eq_exp_minus_1)
  then show ?thesis by (simp add: ep_num_def take_bit_eq_mod unat_mod_distrib)
qed

lemma ep_dir_less: "ep_dir ep < 2"
proof -
  have "unat (ep AND 0x80) < 256" using unsigned_less [of "ep AND 0x80"] by simp
  then show ?thesis by (simp add: ep_dir_def drop_bit_eq_div unat_div_distrib)
qed

lemma ep_index_less: "ep_index ep < 32"
  using ep_num_less [of ep] ep_dir_less [of ep] by (simp add: ep_index_def)

text \<open>The descriptors that an endpoint's queue head refers to.\<close>

definition attached :: "u8 \<Rightarrow> usb_dcd \<Rightarrow> dcd_qtd_t list" where
  "attached ep d = qtd_list (length (dd_qtd d)) (dd_qtd d) (h_attached_qtd (dd_qhd d ! ep_index ep))"

definition setup_taken :: "usb_hw \<Rightarrow> u8 \<Rightarrow> usb_dcd \<Rightarrow> bool" where
  "setup_taken hw ep d \<longleftrightarrow> ep_num ep = 0 \<longrightarrow> (\<exists>t \<ge> dd_time d. hw ENDPTSETUPSTAT t AND 1 = 0)"

lemma few_descriptors:
  assumes "unat n \<le> 0x20000"
  shows "qtds_needed n \<le> 8" and "unat (ucast ((n + 0x3FFF) div 0x4000) :: u16) \<le> 8"
proof -
  have "unat n + 0x3FFF < 9 * 0x4000" using assms by simp
  then have d: "(unat n + 0x3FFF) div 0x4000 < 9" by (rule less_mult_imp_div_less)
  then show "qtds_needed n \<le> 8" by (simp add: qtds_needed_def)
  have "unat (n + 0x3FFF) = unat n + 0x3FFF" using assms by (subst unat_add_lem [THEN iffD1]) simp_all
  then have "unat ((n + 0x3FFF) div 0x4000) = (unat n + 0x3FFF) div 0x4000" by (simp add: unat_div_distrib)
  then show "unat (ucast ((n + 0x3FFF) div 0x4000) :: u16) \<le> 8"
    using d by (simp add: unsigned_ucast_eq le_trans [OF take_bit_nat_less_eq_self])
qed

lemma setup_wait:
  assumes "setup_taken hw ep d"
  obtains t where "(if ep_num ep = 0 then wait_clear hw ENDPTSETUPSTAT 1 d else Some d) = Some (d\<lparr> dd_time := t \<rparr>)"
proof (cases "ep_num ep = 0")
  case True
  then obtain u where "hw ENDPTSETUPSTAT u AND 1 = 0" "dd_time d \<le> u" using assms by (auto simp: setup_taken_def)
  then show thesis using wait_clear_returns True that by (metis (full_types))
qed (use that [of "dd_time d"] in simp)

text \<open>The state after the start of a transfer: the slots of the endpoint filled, its queue head linked.\<close>

lemma edpt_xfer_fills:
  assumes "length (dd_qtd d) = 256" and "setup_taken hw ep d" and "unat n \<le> 0x20000"
  obtains d' where "usb_device_edpt_xfer hw ep a n d = Some (True, d')"
    "dd_qtd d' = take (8 * ep_index ep) (dd_qtd d) @ filled (8 * ep_index ep) a n (drop (8 * ep_index ep) (dd_qtd d))"
    "dd_qhd d' = (dd_qhd d)[ep_index ep := (dd_qhd d ! ep_index ep)\<lparr> h_attached_buffer := a,
       h_attached_qtd := Qtd (8 * ep_index ep), h_overlay_next := Qtd (8 * ep_index ep) \<rparr>]"
    "dd_ctrl d' = dd_ctrl d" "dd_writes d' = dd_writes d @ [(ENDPTPRIME, push_bit (ep_idx2bit (ep_index ep)) 1)]"
proof -
  let ?i = "ep_index ep" and ?qs = "dd_qtd d"
  let ?k = "8 * ?i"
  let ?new = "take ?k ?qs @ filled ?k a n (drop ?k ?qs)"
  have len: "length (take ?k ?qs) = ?i * 8" "qtds_needed n \<le> length (drop ?k ?qs)"
    using assms(1) ep_index_less [of ep] few_descriptors [OF assms(3)] by simp_all
  have fill: "xfer_descriptors ?i 0 a n None Null_Qtd ?qs = Some (Qtd ?k, ?new)"
    using descriptors_filled [of "take ?k ?qs" ?i 0 n "drop ?k ?qs" None a Null_Qtd] len by (simp add: linked_def mult.commute)
  obtain t where wait: "(if ep_num ep = 0 then wait_clear hw ENDPTSETUPSTAT 1 d else Some d) = Some (d\<lparr> dd_time := t \<rparr>)"
    by (rule setup_wait [OF assms(2)])
  show thesis
  proof (rule that)
    show "usb_device_edpt_xfer hw ep a n d = Some (True, usb_dcd_edpt_xfer ?i (d\<lparr> dd_time := t, dd_qtd := ?new,
       dd_qhd := (dd_qhd d)[?i := (dd_qhd d ! ?i)\<lparr> h_attached_buffer := a, h_attached_qtd := Qtd ?k, h_overlay_next := Qtd ?k \<rparr>] \<rparr>))"
      using few_descriptors(2) [OF assms(3)] wait fill ep_num_less [of ep]
      by (simp add: usb_device_edpt_xfer_def Let_def dcd_consts not_le)
  qed (simp_all add: usb_dcd_edpt_xfer_def reg_write_def ep_idx2bit_def)
qed

text \<open>
  C19. Starting a transfer of up to 128 kilobytes: the library describes it completely.  The descriptors
  that the controller finds from the queue head on are active and without error, by the addressing rule
  of the controller they cover the bytes of the buffer once each and in order whatever its alignment,
  only the last one interrupts, and the endpoint is primed with the very bit that the interrupt handler
  tests; descriptors of other endpoints are untouched.  When the controller has retired them, with so
  many bytes left over in the last, the interrupt handler counts exactly the bytes transferred.
\<close>

theorem transfer_is_described:
  assumes "length (dd_qtd d) = 256" and "length (dd_qhd d) = 32" and "setup_taken hw ep d"
    and "unat n \<le> 0x20000" and "a \<noteq> 0 \<or> n = 0" and "unat a + unat n \<le> 2 ^ 32"
  shows "\<exists>d'. usb_device_edpt_xfer hw ep a n d = Some (True, d')
    \<and> list_all qtd_ready (attached ep d')
    \<and> concat (map qtd_addresses (attached ep d')) = map (\<lambda>j. a + of_nat j) [0..<unat n]
    \<and> map q_int_on_complete (attached ep d') = replicate (length (attached ep d') - 1) False @ [True]
    \<and> h_overlay_next (dd_qhd d' ! ep_index ep) = h_attached_qtd (dd_qhd d' ! ep_index ep)
    \<and> dd_writes d' = dd_writes d @ [(ENDPTPRIME, push_bit (ep_idx2bit (ep_index ep)) 1)] \<and> dd_ctrl d' = dd_ctrl d
    \<and> (\<forall>k < 256. k div 8 \<noteq> ep_index ep \<longrightarrow> dd_qtd d' ! k = dd_qtd d ! k) \<and> (\<forall>i. i \<noteq> ep_index ep \<longrightarrow> dd_qhd d' ! i = dd_qhd d ! i)
    \<and> (\<forall>left \<le> q_expected_bytes (last (attached ep d')).
          qtd_scan (completed left (attached ep d')) 0 = Some (True, n - ucast left))"
proof -
  let ?i = "ep_index ep" and ?qs = "dd_qtd d"
  let ?k = "8 * ?i"
  define c where "c = take (qtds_needed n) (filled ?k a n (drop ?k ?qs))"
  have i: "?i < 32" by (rule ep_index_less)
  note need = few_descriptors(1) [OF assms(4)]
  obtain d' where run: "usb_device_edpt_xfer hw ep a n d = Some (True, d')"
    and d': "dd_qtd d' = take ?k ?qs @ filled ?k a n (drop ?k ?qs)"
      "dd_qhd d' = (dd_qhd d)[?i := (dd_qhd d ! ?i)\<lparr> h_attached_buffer := a, h_attached_qtd := Qtd ?k, h_overlay_next := Qtd ?k \<rparr>]"
      "dd_ctrl d' = dd_ctrl d" "dd_writes d' = dd_writes d @ [(ENDPTPRIME, push_bit (ep_idx2bit ?i) 1)]"
    using edpt_xfer_fills [OF assms(1,3,4)] by metis
  have len: "length (take ?k ?qs) = ?k" "qtds_needed n \<le> length (drop ?k ?qs)" using assms(1) i need by simp_all
  have "attached ep d' = c"
    using assms(1,2) i need len qtd_list_filled [of ?k "take ?k ?qs" n "drop ?k ?qs" 256 a]
    by (simp add: attached_def d' c_def)
  moreover note filled_describes [OF len(2) assms(5,6) c_def]
  moreover have "dd_qtd d' ! k = dd_qtd d ! k" if "k < 256" "k div 8 \<noteq> ?i" for k
  proof (cases "k < ?k")
    case False
    then have "8 \<le> k - ?k" using that(2) by linarith
    then show ?thesis
      using False that(1) len assms(1) need filled_rest [of n "k - ?k" "drop ?k ?qs" ?k a] i by (simp add: d' nth_append)
  qed (use i assms(1) in \<open>simp add: d' nth_append\<close>)
  ultimately show ?thesis using run assms(2) i d' by auto
qed

definition dcd_blank :: usb_dcd where
  "dcd_blank = \<lparr> dd_qhd = replicate 32 qhd_zero, dd_qtd = replicate 256 qtd_zero, dd_ctrl = replicate 16 0,
     dd_time = 0, dd_writes = [] \<rparr>"

theorem transfer_is_described_witness:
  "\<exists>d'. usb_device_edpt_xfer (\<lambda>r t. 0) 0x80 0x80001234 20000 dcd_blank = Some (True, d')
    \<and> concat (map qtd_addresses (attached 0x80 d')) = map (\<lambda>j. 0x80001234 + of_nat j) [0..<20000]
    \<and> dd_writes d' = [(ENDPTPRIME, push_bit 16 1)]"
  using transfer_is_described [of dcd_blank "\<lambda>r t. 0" "0x80" "20000" "0x80001234"]
  by (auto simp: dcd_blank_def setup_taken_def ep_index_def ep_num_def ep_dir_def ep_idx2bit_def)

section \<open>Stall bits\<close>

text \<open>
  The driver's contract keeps one stall bit per number and direction of an endpoint; the library keeps it
  at bit 0 or 16 of a control register.
\<close>

lemma dir_bit: "ep_dir ep \<noteq> 0 \<longleftrightarrow> ep AND 0x80 \<noteq> 0" and dir_bit_7: "ep AND 0x80 = 0 \<longleftrightarrow> \<not> bit ep 7"
proof -
  have "x AND 2 ^ n = (if bit x n then 2 ^ n else 0)" for x :: u8 and n
    by (rule bit_eqI) (auto simp: bit_and_iff bit_exp_iff)
  from this [of ep 7] have m: "ep AND 0x80 = (if bit ep 7 then 0x80 else 0)" by simp
  then show "ep AND 0x80 = 0 \<longleftrightarrow> \<not> bit ep 7" by simp
  show "ep_dir ep \<noteq> 0 \<longleftrightarrow> ep AND 0x80 \<noteq> 0" unfolding ep_dir_def m by simp
qed

lemma check_stall_bit: "usb_dcd_edpt_check_stall ep d = bit (dd_ctrl d ! ep_num ep) (dir_shift ep)"
proof -
  have "bit x s \<longleftrightarrow> x AND push_bit s 1 \<noteq> 0" if "s < 32" for x :: u32 and s
    by (simp add: push_bit_of_1 and_exp_eq_0_iff_not_bit)
  moreover have "dir_shift ep < 32" by (simp add: dir_shift_def)
  ultimately show ?thesis by (simp add: usb_dcd_edpt_check_stall_def ENDPTCTRL_STALL_def)
qed

lemma check_on_ctrl:
  assumes "length (dd_ctrl d) = 16"
  shows "usb_dcd_edpt_check_stall ep (on_ctrl_reg (ep_num a) f d)
    = (if ep_num ep = ep_num a then bit (f (dd_ctrl d ! ep_num ep)) (dir_shift ep) else usb_dcd_edpt_check_stall ep d)"
  using assms ep_num_less [of a] by (auto simp: check_stall_bit on_ctrl_reg_def nth_list_update)

lemma dir_shift_cases: "dir_shift ep = 0 \<or> dir_shift ep = 16"
  by (simp add: dir_shift_def)

lemma half_bit:
  assumes "\<not> bit (c :: u32) 16"
  shows "bit (push_bit (dir_shift a) c) (dir_shift ep) \<longleftrightarrow> dir_shift ep = dir_shift a \<and> bit c 0"
  using assms by (auto simp: dir_shift_def bit_push_bit_iff)

lemma same_stall_bit: "ep AND 0x8F = a AND 0x8F \<longleftrightarrow> ep_num ep = ep_num a \<and> dir_shift ep = dir_shift a"
proof -
  have c: "(0x8F :: u8) = 0x0F OR 0x80" "(0x0F OR 0x80) AND 0x0F = (0x0F :: u8)" "(0x0F OR 0x80) AND 0x80 = (0x80 :: u8)"
    by code_simp+
  have "dir_shift ep = dir_shift a \<longleftrightarrow> (ep AND 0x80 = 0 \<longleftrightarrow> a AND 0x80 = 0)"
    using dir_bit [of ep] dir_bit [of a] by (auto simp: dir_shift_def)
  moreover have "x AND 2 ^ n = (if bit x n then 2 ^ n else 0)" for x :: u8 and n
    by (rule bit_eqI) (auto simp: bit_and_iff bit_exp_iff)
  from this [of _ 7] have "x AND 0x80 = 0 \<or> x AND 0x80 = 0x80" for x :: u8 by auto
  ultimately have d: "dir_shift ep = dir_shift a \<longleftrightarrow> ep AND 0x80 = a AND 0x80" by metis
  have n: "ep_num ep = ep_num a \<longleftrightarrow> ep AND 0x0F = a AND 0x0F" by (simp only: ep_num_def word_unat_eq_iff)
  have "(x AND (0x0F OR 0x80)) AND 0x0F = x AND 0x0F" "(x AND (0x0F OR 0x80)) AND 0x80 = x AND 0x80" for x :: u8
    by (simp_all only: and.assoc c)
  moreover have "x AND (0x0F OR 0x80) = (x AND 0x0F) OR (x AND 0x80)" for x :: u8
    by (simp only: bit.conj_disj_distrib)
  ultimately show ?thesis unfolding c(1) n d by metis
qed

definition stalls_agree :: "hpm_udc \<Rightarrow> usb_dcd \<Rightarrow> bool" where
  "stalls_agree u d \<longleftrightarrow> length (dd_ctrl d) = 16 \<and> (\<forall>ep. usbd_ep_is_stalled ep u \<longleftrightarrow> usb_dcd_edpt_check_stall ep d)"

lemma put_bits:
  assumes "\<not> bit (c :: u32) 16"
  shows "bit (temp OR push_bit (dir_shift a) c) (dir_shift ep)
      \<longleftrightarrow> bit temp (dir_shift ep) \<or> dir_shift ep = dir_shift a \<and> bit c 0"
    and "bit (temp AND NOT (push_bit (dir_shift a) c)) (dir_shift ep)
      \<longleftrightarrow> bit temp (dir_shift ep) \<and> \<not> (dir_shift ep = dir_shift a \<and> bit c 0)"
proof -
  have "dir_shift ep < 32" using dir_shift_cases [of ep] by auto
  then show "bit (temp AND NOT (push_bit (dir_shift a) c)) (dir_shift ep)
      \<longleftrightarrow> bit temp (dir_shift ep) \<and> \<not> (dir_shift ep = dir_shift a \<and> bit c 0)"
    by (simp only: bit_and_iff bit_not_iff_eq half_bit [OF assms]) simp
qed (simp only: bit_or_iff half_bit [OF assms])

lemma ctrl_bits:
  "\<not> bit ENDPTCTRL_STALL 16" "bit ENDPTCTRL_STALL 0" "\<not> bit ENDPTCTRL_TOGGLE_RESET 16" "\<not> bit ENDPTCTRL_TOGGLE_RESET 0"
  "\<not> bit (push_bit 2 3 :: u32) 16" "\<not> bit (push_bit 2 3 :: u32) 0"
  "\<not> bit (push_bit 2 usb_xfer_bulk) 16" "\<not> bit (push_bit 2 usb_xfer_bulk) 0"
  "\<not> bit (ENDPTCTRL_TYPE OR ENDPTCTRL_ENABLE OR ENDPTCTRL_STALL) 16" "bit (ENDPTCTRL_TYPE OR ENDPTCTRL_ENABLE OR ENDPTCTRL_STALL) 0"
  by (code_simp)+

lemma open_bits:
  "\<not> bit (push_bit 2 (ucast (x :: u8)) OR ENDPTCTRL_ENABLE OR ENDPTCTRL_TOGGLE_RESET) 16"
  "\<not> bit (push_bit 2 (ucast (x :: u8)) OR ENDPTCTRL_ENABLE OR ENDPTCTRL_TOGGLE_RESET) 0"
proof -
  have "\<not> bit x 14" using bit_imp_le_length [of x 14] by auto
  then have "\<not> bit (push_bit 2 (ucast x) :: u32) 16" by (simp add: bit_push_bit_iff bit_ucast_iff)
  moreover have "\<not> bit (push_bit 2 (ucast x) :: u32) 0" by (simp add: bit_push_bit_iff)
  moreover have "\<not> bit ENDPTCTRL_ENABLE 16" "\<not> bit ENDPTCTRL_ENABLE 0" by (code_simp)+
  ultimately show "\<not> bit (push_bit 2 (ucast x) OR ENDPTCTRL_ENABLE OR ENDPTCTRL_TOGGLE_RESET) 16"
    "\<not> bit (push_bit 2 (ucast x) OR ENDPTCTRL_ENABLE OR ENDPTCTRL_TOGGLE_RESET) 0"
    using ctrl_bits(3,4) by (simp_all only: bit_or_iff simp_thms)
qed

lemma check_after:
  assumes "length (dd_ctrl d) = 16"
  shows "usb_dcd_edpt_check_stall ep (usb_dcd_edpt_stall a d) \<longleftrightarrow> ep AND 0x8F = a AND 0x8F \<or> usb_dcd_edpt_check_stall ep d"
    and "usb_dcd_edpt_check_stall ep (usb_dcd_edpt_clear_stall a d) \<longleftrightarrow> ep AND 0x8F \<noteq> a AND 0x8F \<and> usb_dcd_edpt_check_stall ep d"
    and "usb_dcd_edpt_check_stall ep (usb_dcd_edpt_open a x d) \<longleftrightarrow> usb_dcd_edpt_check_stall ep d"
proof -
  have len: "length (dd_ctrl (on_ctrl_reg i f d)) = 16" for i f using assms by (simp add: on_ctrl_reg_def)
  note step = check_on_ctrl [OF assms] check_on_ctrl [OF len] put_bits [OF ctrl_bits(1)] put_bits [OF ctrl_bits(3)]
    put_bits [OF ctrl_bits(5)] put_bits [OF open_bits(1)]
  show "usb_dcd_edpt_check_stall ep (usb_dcd_edpt_stall a d) \<longleftrightarrow> ep AND 0x8F = a AND 0x8F \<or> usb_dcd_edpt_check_stall ep d"
    by (simp only: usb_dcd_edpt_stall_def step same_stall_bit ctrl_bits(2)) (auto simp only: check_stall_bit split: if_splits)
  show "usb_dcd_edpt_check_stall ep (usb_dcd_edpt_open a x d) \<longleftrightarrow> usb_dcd_edpt_check_stall ep d"
    by (simp only: usb_dcd_edpt_open_def step ctrl_bits(6) open_bits(2)) (auto simp only: check_stall_bit split: if_splits)
  let ?toggled = "on_ctrl_reg (ep_num a) (\<lambda>temp. temp OR push_bit (dir_shift a) ENDPTCTRL_TOGGLE_RESET) d"
  have t: "usb_dcd_edpt_check_stall ep ?toggled \<longleftrightarrow> usb_dcd_edpt_check_stall ep d" for ep
    by (simp only: step ctrl_bits(4)) (auto simp only: check_stall_bit split: if_splits)
  show "usb_dcd_edpt_check_stall ep (usb_dcd_edpt_clear_stall a d) \<longleftrightarrow> ep AND 0x8F \<noteq> a AND 0x8F \<and> usb_dcd_edpt_check_stall ep d"
    using t [of ep]
    by (simp only: usb_dcd_edpt_clear_stall_def step(2) step(4) same_stall_bit ctrl_bits(2)) (auto simp only: check_stall_bit split: if_splits)
qed

text \<open>
  The controller comes to rest again and again: over three reads in a row, priming, flushing and the
  status of the endpoints are done.
\<close>

definition idle_at :: "usb_hw \<Rightarrow> nat \<Rightarrow> bool" where
  "idle_at hw t \<longleftrightarrow> (\<forall>k < 3. hw ENDPTPRIME (t + k) = 0 \<and> hw ENDPTFLUSH (t + k) = 0 \<and> hw ENDPTSTAT (t + k) = 0)"

definition settles :: "usb_hw \<Rightarrow> bool" where
  "settles hw \<longleftrightarrow> (\<forall>t. \<exists>u \<ge> t. idle_at hw u)"

lemma idle_reads:
  assumes "idle_at hw u"
  shows "hw ENDPTPRIME u = 0" "hw ENDPTFLUSH u = 0" "hw ENDPTSTAT u = 0" "hw ENDPTFLUSH (u + 1) = 0"
    "hw ENDPTSTAT (u + 1) = 0" "hw ENDPTSTAT (u + 2) = 0"
proof -
  have "hw ENDPTPRIME (u + k) = 0 \<and> hw ENDPTFLUSH (u + k) = 0 \<and> hw ENDPTSTAT (u + k) = 0" if "k < 3" for k
    using assms that by (simp add: idle_at_def)
  from this [of 0] this [of 1] this [of 2] show "hw ENDPTPRIME u = 0" "hw ENDPTFLUSH u = 0" "hw ENDPTSTAT u = 0"
    "hw ENDPTFLUSH (u + 1) = 0" "hw ENDPTSTAT (u + 1) = 0" "hw ENDPTSTAT (u + 2) = 0" by auto
qed

lemma wait_settles:
  assumes "settles hw" and "r = ENDPTPRIME \<or> r = ENDPTFLUSH"
  obtains t where "wait_clear hw r m d = Some (d\<lparr> dd_time := t \<rparr>)"
proof -
  obtain u where "dd_time d \<le> u" "idle_at hw u" using assms(1) by (auto simp: settles_def)
  then have "hw r u AND m = 0" "dd_time d \<le> u" using idle_reads [of hw u] assms(2) by auto
  then show thesis using wait_clear_returns [of hw r u m d] that by blast
qed

lemma flush_returns:
  assumes "idle_at hw u" and "dd_time d \<le> u"
  shows "\<exists>t w. flush_endpoint hw p d = Some (d\<lparr> dd_writes := w, dd_time := t \<rparr>)"
  using assms(2)
proof (induction "u - dd_time d" arbitrary: d rule: less_induct)
  case less
  note idle = idle_reads [OF assms(1)]
  let ?v = "hw ENDPTFLUSH (dd_time d) OR p"
  let ?d = "d\<lparr> dd_time := dd_time d + 1, dd_writes := dd_writes d @ [(ENDPTFLUSH, ?v)] \<rparr>"
  let ?s = "if dd_time d < u then u else u + 1"
  have s: "hw ENDPTFLUSH ?s AND p = 0" "dd_time ?d \<le> ?s" using idle less.prems by auto
  obtain t where w: "wait_clear hw ENDPTFLUSH p ?d = Some (?d\<lparr> dd_time := t \<rparr>)" and t: "dd_time d + 1 < t" "t \<le> Suc ?s"
    using wait_clear_returns [of hw ENDPTFLUSH ?s p ?d] s by auto
  have eq: "flush_endpoint hw p d =
      (if hw ENDPTSTAT t AND p \<noteq> 0 then flush_endpoint hw p (?d\<lparr> dd_time := t + 1 \<rparr>) else Some (?d\<lparr> dd_time := t + 1 \<rparr>))"
    by (subst flush_endpoint.simps) (use w in \<open>simp add: reg_read_def reg_write_def\<close>)
  show ?case
  proof (cases "hw ENDPTSTAT t AND p = 0")
    case True
    then show ?thesis using eq by auto
  next
    case False
    then have "t \<noteq> u" "t \<noteq> u + 1" "t \<noteq> u + 2" using idle by auto
    then have "t < u" using t by (auto split: if_splits)
    then have "\<exists>t' w. flush_endpoint hw p (?d\<lparr> dd_time := t + 1 \<rparr>) = Some (?d\<lparr> dd_time := t + 1, dd_writes := w, dd_time := t' \<rparr>)"
      using less.hyps [of "?d\<lparr> dd_time := t + 1 \<rparr>"] t by auto
    then show ?thesis using eq False by auto
  qed
qed

lemma close_returns:
  assumes "settles hw" and "length (dd_ctrl d) = 16"
  obtains d' where "usb_device_edpt_close hw a d = Some d'" "length (dd_ctrl d') = 16"
    "\<And>ep. usb_dcd_edpt_check_stall ep d' \<longleftrightarrow> ep AND 0x8F \<noteq> a AND 0x8F \<and> usb_dcd_edpt_check_stall ep d"
proof -
  let ?p = "push_bit (dir_shift a) (push_bit (ep_num a) 1)"
  obtain u where "dd_time d \<le> u" "idle_at hw u" using assms(1) by (auto simp: settles_def)
  then obtain t w where f: "flush_endpoint hw ?p d = Some (d\<lparr> dd_writes := w, dd_time := t \<rparr>)"
    using flush_returns [of hw u d ?p] by blast
  define e where "e = d\<lparr> dd_writes := w, dd_time := t \<rparr>"
  let ?c = "ENDPTCTRL_TYPE OR ENDPTCTRL_ENABLE OR ENDPTCTRL_STALL"
  let ?off = "on_ctrl_reg (ep_num a) (\<lambda>temp. temp AND NOT (push_bit (dir_shift a) ?c)) e"
  have len: "length (dd_ctrl e) = 16" "length (dd_ctrl ?off) = 16" using assms(2) by (simp_all add: e_def on_ctrl_reg_def)
  have e: "usb_dcd_edpt_check_stall ep e \<longleftrightarrow> usb_dcd_edpt_check_stall ep d" for ep by (simp add: e_def check_stall_bit)
  let ?fin = "on_ctrl_reg (ep_num a) (\<lambda>temp. temp OR push_bit (dir_shift a) (push_bit 2 usb_xfer_bulk)) ?off"
  note step = check_on_ctrl [OF len(1)] check_on_ctrl [OF len(2)] put_bits [OF ctrl_bits(9)] put_bits [OF ctrl_bits(7)]
  have off: "usb_dcd_edpt_check_stall ep ?off \<longleftrightarrow> ep AND 0x8F \<noteq> a AND 0x8F \<and> usb_dcd_edpt_check_stall ep e" for ep
    by (simp only: step same_stall_bit ctrl_bits(10)) (auto simp only: check_stall_bit split: if_splits)
  have fin: "usb_dcd_edpt_check_stall ep ?fin \<longleftrightarrow> usb_dcd_edpt_check_stall ep ?off" for ep
    by (simp only: step(2) step(5) ctrl_bits(8)) (auto simp only: check_stall_bit split: if_splits)
  show thesis
  proof (rule that)
    show "usb_device_edpt_close hw a d = Some ?fin"
      using f by (simp add: usb_device_edpt_close_def usb_dcd_edpt_close_def e_def Let_def)
    show "length (dd_ctrl ?fin) = 16" using len(2) by (simp add: on_ctrl_reg_def)
  qed (simp only: fin off e)
qed

lemma bus_reset_returns:
  assumes "settles hw" and "length (dd_ctrl d) = 16"
  obtains d' where "usb_device_bus_reset hw m d = Some d'" "length (dd_ctrl d') = 16"
    "\<And>ep. usb_dcd_edpt_check_stall ep d' \<longleftrightarrow> ep AND 0x0F = 0 \<and> usb_dcd_edpt_check_stall ep d"
proof -
  let ?bulk = "push_bit 18 usb_xfer_bulk OR push_bit 2 usb_xfer_bulk"
  let ?ctrl = "take 1 (dd_ctrl d) @ replicate 15 ?bulk"
  have ret: "\<exists>d'. usb_device_bus_reset hw m d = Some d' \<and> dd_ctrl d' = ?ctrl"
  proof -
    define d1 where "d1 = write_back hw ENDPTCOMPLETE (write_back hw ENDPTSETUPSTAT (write_back hw USBSTS
      (reg_write ENDPTNAKEN 0 (write_back hw ENDPTNAK (d\<lparr> dd_ctrl := ?ctrl \<rparr>)))))"
    have c: "dd_ctrl d1 = ?ctrl" by (simp add: d1_def write_back_def reg_read_def reg_write_def)
    obtain t where w1: "wait_clear hw ENDPTPRIME (NOT 0) d1 = Some (d1\<lparr> dd_time := t \<rparr>)"
      using wait_settles [OF assms(1)] by blast
    define d2 where "d2 = reg_write ENDPTFLUSH 0xFFFFFFFF (d1\<lparr> dd_time := t \<rparr>)"
    obtain u where w2: "wait_clear hw ENDPTFLUSH (NOT 0) d2 = Some (d2\<lparr> dd_time := u \<rparr>)"
      using wait_settles [OF assms(1)] by blast
    have "usb_dcd_bus_reset hw d = Some (d2\<lparr> dd_time := u \<rparr>)"
      using w1 w2 by (simp add: usb_dcd_bus_reset_def dcd_consts Let_def d1_def d2_def)
    then show ?thesis using c by (simp add: usb_device_bus_reset_def Let_def d2_def reg_write_def)
  qed
  then obtain d' where d': "usb_device_bus_reset hw m d = Some d'" "dd_ctrl d' = ?ctrl" by blast
  have low: "ep AND 0x0F = 0 \<longleftrightarrow> ep_num ep = 0" for ep by (simp add: ep_num_def unat_eq_0)
  have none: "\<not> bit ?bulk 0" "\<not> bit ?bulk 16" by (code_simp)+
  show thesis
  proof (rule that)
    show "usb_device_bus_reset hw m d = Some d'" by (rule d'(1))
    show "length (dd_ctrl d') = 16" using assms(2) by (simp add: d'(2))
    show "usb_dcd_edpt_check_stall ep d' \<longleftrightarrow> ep AND 0x0F = 0 \<and> usb_dcd_edpt_check_stall ep d" for ep
    proof (cases "ep_num ep = 0")
      case True
      then have "?ctrl ! ep_num ep = dd_ctrl d ! ep_num ep" using assms(2) by (simp add: nth_append)
      then show ?thesis using True by (simp only: low check_stall_bit d'(2) simp_thms)
    next
      case False
      then have "?ctrl ! ep_num ep = ?bulk" using assms(2) ep_num_less [of ep] by (simp add: nth_append)
      then show ?thesis using False dir_shift_cases [of ep] none by (auto simp only: low check_stall_bit d'(2))
    qed
  qed
qed

section \<open>The driver above the library\<close>

text \<open>What the driver asks of the library, and the two runs of it.\<close>

datatype ep_op = Op_Open u8 u8 u16 | Op_Close u8 | Op_Stall u8 | Op_Clear_Stall u8 | Op_Bus_Reset

fun driver_op :: "ep_op \<Rightarrow> hpm_udc \<Rightarrow> hpm_udc option" where
  "driver_op (Op_Open a attr mps) u = map_option snd (usbd_ep_open a attr mps u)"
| "driver_op (Op_Close a) u = map_option snd (usbd_ep_close a u)"
| "driver_op (Op_Stall a) u = Some (usbd_ep_set_stall a u)"
| "driver_op (Op_Clear_Stall a) u = Some (usbd_ep_clear_stall a u)"
| "driver_op Op_Bus_Reset u = Some (udc_bus_reset u)"

fun library_op :: "usb_hw \<Rightarrow> ep_op \<Rightarrow> usb_dcd \<Rightarrow> usb_dcd option" where
  "library_op hw (Op_Open a attr mps) d = Some (snd (usb_device_edpt_open a (USB_GET_ENDPOINT_TYPE attr) mps d))"
| "library_op hw (Op_Close a) d = usb_device_edpt_close hw a d"
| "library_op hw (Op_Stall a) d = Some (usb_dcd_edpt_stall a d)"
| "library_op hw (Op_Clear_Stall a) d = Some (usb_dcd_edpt_clear_stall a d)"
| "library_op hw Op_Bus_Reset d = usb_device_bus_reset hw 64 d"

fun driver_run :: "ep_op list \<Rightarrow> hpm_udc \<Rightarrow> hpm_udc option" where
  "driver_run [] u = Some u"
| "driver_run (x # xs) u = do { u \<leftarrow> driver_op x u; driver_run xs u }"

fun library_run :: "usb_hw \<Rightarrow> ep_op list \<Rightarrow> usb_dcd \<Rightarrow> usb_dcd option" where
  "library_run hw [] d = Some d"
| "library_run hw (x # xs) d = do { d \<leftarrow> library_op hw x d; library_run hw xs d }"

lemma edpt_open_stalls:
  assumes "length (dd_ctrl d) = 16"
  shows "length (dd_ctrl (snd (usb_device_edpt_open a x m d))) = 16"
    and "usb_dcd_edpt_check_stall ep (snd (usb_device_edpt_open a x m d)) \<longleftrightarrow> usb_dcd_edpt_check_stall ep d"
proof -
  obtain qs where "snd (usb_device_edpt_open a x m d) = usb_dcd_edpt_open a x (d\<lparr> dd_qhd := qs \<rparr>)"
    using ep_num_less [of a] by (simp add: usb_device_edpt_open_def Let_def dcd_consts)
  moreover have "length (dd_ctrl (d\<lparr> dd_qhd := qs \<rparr>)) = 16" using assms by simp
  note check_after(3) [OF this, of ep a x]
  moreover have "usb_dcd_edpt_check_stall ep (d\<lparr> dd_qhd := qs \<rparr>) \<longleftrightarrow> usb_dcd_edpt_check_stall ep d"
    by (simp add: usb_dcd_edpt_check_stall_def)
  ultimately show "length (dd_ctrl (snd (usb_device_edpt_open a x m d))) = 16"
    "usb_dcd_edpt_check_stall ep (snd (usb_device_edpt_open a x m d)) \<longleftrightarrow> usb_dcd_edpt_check_stall ep d"
    using assms by (simp_all add: usb_dcd_edpt_open_def on_ctrl_reg_def)
qed

lemma update_regs: "ep_update a f u = Some u' \<Longrightarrow> udc_regs u' = udc_regs u"
  by (auto simp: ep_update_def Let_def split: if_splits)

lemma driver_stalls:
  assumes "driver_op x u = Some u'"
  shows "usbd_ep_is_stalled ep u' \<longleftrightarrow>
    (case x of Op_Open a t m \<Rightarrow> usbd_ep_is_stalled ep u
     | Op_Stall a \<Rightarrow> ep AND 0x8F = a AND 0x8F \<or> usbd_ep_is_stalled ep u
     | Op_Bus_Reset \<Rightarrow> ep AND 0x0F = 0 \<and> usbd_ep_is_stalled ep u
     | Op_Close a \<Rightarrow> ep AND 0x8F \<noteq> a AND 0x8F \<and> usbd_ep_is_stalled ep u
     | Op_Clear_Stall a \<Rightarrow> ep AND 0x8F \<noteq> a AND 0x8F \<and> usbd_ep_is_stalled ep u)"
proof -
  have low: "(ep AND 0x8F) AND 0x0F = ep AND (0x0F :: u8)"
  proof -
    have "(0x8F :: u8) AND 0x0F = 0x0F" by code_simp
    then show ?thesis by (simp only: and.assoc)
  qed
  show ?thesis
    using assms low
    by (cases x) (auto simp: usbd_ep_open_def usbd_ep_close_def usbd_ep_set_stall_def usbd_ep_clear_stall_def udc_bus_reset_def
      usbd_ep_is_stalled_def dcd_def put_stalled_def bind_eq_Some_conv dest!: update_regs split: if_splits)
qed

lemma op_refined:
  assumes "stalls_agree u d" and "settles hw" and "driver_op x u = Some u'"
  obtains d' where "library_op hw x d = Some d'" "stalls_agree u' d'"
proof -
  have len: "length (dd_ctrl d) = 16" and eq: "usbd_ep_is_stalled ep u \<longleftrightarrow> usb_dcd_edpt_check_stall ep d" for ep
    using assms(1) by (auto simp: stalls_agree_def)
  note after = driver_stalls [OF assms(3)]
  show thesis
  proof (cases x)
    case (Op_Open a t m)
    then show thesis using that edpt_open_stalls [OF len] after eq by (simp add: stalls_agree_def)
  next
    case (Op_Close a)
    obtain d' where "usb_device_edpt_close hw a d = Some d'" "length (dd_ctrl d') = 16"
      "\<And>ep. usb_dcd_edpt_check_stall ep d' \<longleftrightarrow> ep AND 0x8F \<noteq> a AND 0x8F \<and> usb_dcd_edpt_check_stall ep d"
      using close_returns [OF assms(2) len] by blast
    then show thesis using that after eq Op_Close by (simp add: stalls_agree_def)
  next
    case (Op_Stall a)
    have "length (dd_ctrl (usb_dcd_edpt_stall a d)) = 16" using len by (simp add: usb_dcd_edpt_stall_def on_ctrl_reg_def)
    then show thesis using that Op_Stall after eq check_after(1) [OF len] by (simp add: stalls_agree_def)
  next
    case (Op_Clear_Stall a)
    have "length (dd_ctrl (usb_dcd_edpt_clear_stall a d)) = 16" using len by (simp add: usb_dcd_edpt_clear_stall_def on_ctrl_reg_def)
    then show thesis using that Op_Clear_Stall after eq check_after(2) [OF len] by (simp add: stalls_agree_def)
  next
    case Op_Bus_Reset
    obtain d' where "usb_device_bus_reset hw 64 d = Some d'" "length (dd_ctrl d') = 16"
      "\<And>ep. usb_dcd_edpt_check_stall ep d' \<longleftrightarrow> ep AND 0x0F = 0 \<and> usb_dcd_edpt_check_stall ep d"
      using bus_reset_returns [OF assms(2) len] by blast
    then show thesis using that after eq Op_Bus_Reset by (simp add: stalls_agree_def)
  qed
qed

text \<open>
  C20. The endpoint control registers implement the driver's stall flags: whatever sequence of opening,
  closing, stalling, clearing and bus resets the driver carries out, the library carries it out too, its
  waiting loops return whenever the controller keeps coming to rest, and the stall test of the registers
  then answers for every endpoint what the flags of the driver's contract say.
\<close>

theorem stall_flags_refined:
  assumes "stalls_agree u d" and "settles hw" and "driver_run xs u = Some u'"
  shows "\<exists>d'. library_run hw xs d = Some d' \<and> stalls_agree u' d'"
  using assms(1,3)
proof (induction xs arbitrary: u d)
  case (Cons x xs)
  then obtain v where v: "driver_op x u = Some v" "driver_run xs v = Some u'" by (auto simp: bind_eq_Some_conv)
  obtain e where e: "library_op hw x d = Some e" "stalls_agree v e"
    using op_refined [OF Cons.prems(1) assms(2) v(1)] by blast
  then show ?case using Cons.IH [OF e(2) v(2)] by simp
qed simp

definition udc_blank :: hpm_udc where
  "udc_blank = \<lparr> udc_is_suspend = False, udc_in_ep = replicate 16 ep_zero, udc_out_ep = replicate 16 ep_zero,
     udc_regs = \<lparr> reg_speed = 2, reg_suspended = False, reg_connected = True, reg_address = 0, reg_stalled = (\<lambda>ep. False) \<rparr>,
     udc_log = [] \<rparr>"

theorem stall_flags_refined_witness:
  "\<exists>d'. library_run (\<lambda>r t. 0) [Op_Bus_Reset, Op_Open 0x81 2 512, Op_Stall 0x81, Op_Stall 1, Op_Close 0x81] dcd_blank = Some d'
    \<and> usb_dcd_edpt_check_stall 1 d' \<and> \<not> usb_dcd_edpt_check_stall 0x81 d'"
proof -
  let ?xs = "[Op_Bus_Reset, Op_Open 0x81 2 512, Op_Stall 0x81, Op_Stall 1, Op_Close 0x81]"
  have "usb_dcd_edpt_check_stall ep dcd_blank = False" for ep
    using ep_num_less [of ep] by (simp add: usb_dcd_edpt_check_stall_def dcd_blank_def)
  then have a: "stalls_agree udc_blank dcd_blank"
    by (simp add: stalls_agree_def usbd_ep_is_stalled_def udc_blank_def) (simp add: dcd_blank_def)
  have s: "settles (\<lambda>r t. 0)" by (auto simp: settles_def idle_at_def)
  obtain u' where u': "driver_run ?xs udc_blank = Some u'" "usbd_ep_is_stalled 1 u'" "\<not> usbd_ep_is_stalled 0x81 u'"
    by (simp add: usbd_ep_open_def usbd_ep_close_def usbd_ep_set_stall_def udc_bus_reset_def dcd_def put_stalled_def
      ep_update_def Let_def udc_blank_def usbd_ep_is_stalled_def USB_EP_GET_IDX_def USB_EP_DIR_IS_OUT_def)
  then show ?thesis using stall_flags_refined [OF a s u'(1)] by (auto simp: stalls_agree_def)
qed

end
