(* ===== verification/Spec2Isabelle.thy ===== *)
theory Spec2Isabelle
  imports Firmware Swd_Diag Usb_Dcd
begin

text \<open>
  \<^bold>\<open>ExLink: a verification library for the firmware of a CMSIS-DAP debug probe.\<close>

  \<^bold>\<open>The program.\<close>  The probe is a composite USB device with seven interfaces.  Interface 0 carries framed
  commands for the probe itself, interface 1 the packets of CMSIS-DAP version 2, interface 2 is a HID
  interface that only enumerates, interfaces 3 to 6 are two serial ports.  Two threads do the work.  The
  frame thread takes bytes from a ring that the OUT callback of interface 0 fills, parses frames and
  answers them.  The engine thread takes packets from a ring that the OUT callback of interface 1 fills,
  executes the debug commands in them on the SWD wire, and sends the responses.  All callbacks run in
  interrupts and meet the threads only in the two rings and in one transmit flag per IN endpoint.

  \<^bold>\<open>Theories and sources.\<close>  Paths are under \<^verbatim>\<open>src/\<close>; \<^verbatim>\<open>cmsis-dap\<close> stands for
  \<^verbatim>\<open>libraries/third_party/cmsis-dap\<close>.
  \<^item> \<open>Prelude\<close>: machine words, bytes and bits shared by all theories.
  \<^item> \<open>Frame_Codec\<close>: \<^verbatim>\<open>applications/frame_proto.h\<close>, \<^verbatim>\<open>frame_parser.c\<close>.  The parser is a step function on a
    record of its state, the frame builder a function on the output buffer, CRC-16 a fold over bytes.
  \<^item> \<open>Ring_Buffer\<close>: the single-producer single-consumer ring as locale \<open>spsc_ring\<close>, a bounded queue with
    an abstraction function, interpreted on the byte ring (\<open>Usb_Ctrl\<close>) and on the request ring
    (\<open>Dap_Engine\<close>).
  \<^item> \<open>Usb_Channel\<close>: what the interface modules share: endpoint numbers, the log of calls into the USB
    stack, the bounded wait for a transmit flag, and locale \<open>bulk_in\<close>, the contract between a sender, its
    IN callback and the host, interpreted by \<open>Usb_Ctrl\<close>, \<open>Usb_Dap\<close> and \<open>Usb_Uart\<close>.
  \<^item> \<open>Usb_Ctrl\<close>, \<open>Usb_Dap\<close>, \<open>Usb_Dapv1\<close>, \<open>Usb_Uart\<close>: \<^verbatim>\<open>applications/usb_if_ctrl.c\<close>, \<^verbatim>\<open>usb_if_dap.c\<close>,
    \<^verbatim>\<open>usb_if_dapv1.c\<close>, \<^verbatim>\<open>usb_if_uart.c\<close>: the statics of each module as a record, each function of it.
  \<^item> \<open>Frame_Dispatch\<close>: \<^verbatim>\<open>applications/frame_dispatch.c\<close>, the dispatcher and the frame thread.
  \<^item> \<open>Swd_Spi\<close>: \<^verbatim>\<open>cmsis-dap/port/dap_swd_spi.c\<close>, the SWD transport over the SPI peripheral; \<open>Sw_Dp\<close>:
    \<^verbatim>\<open>cmsis-dap/arm/SW_DP.c\<close>, the bit-banged reference it replaces; \<open>Swd_Diag\<close>:
    \<^verbatim>\<open>cmsis-dap/port/dap_swd_diag.c\<close>, the bring-up commands.
  \<^item> \<open>Dap_Base\<close>, \<open>Dap_Transfer\<close>, \<open>Dap_Command\<close>: \<^verbatim>\<open>cmsis-dap/arm/DAP.c\<close>, \<^verbatim>\<open>DAP_vendor.c\<close> and the
    configuration \<^verbatim>\<open>cmsis-dap/port/DAP_config.h\<close>: the commands of the debug unit, the transfers, the command
    processor.
  \<^item> \<open>Swd_Target\<close>: a target at the far end of the wire, bit by bit, as the ADIv5 specification documents
    one; through locale \<open>sw_target\<close> it instantiates the parameters of the wire and discharges the laws of
    the locales \<open>posted_port\<close> (the transfer commands) and \<open>register_port\<close> (the register layer of the
    transport).  \<open>Swd_Link\<close>: the switch between JTAG and serial wire in front of it, which the connect
    sequence has to bring up; a target behind it interprets \<open>sw_target\<close> as well.
  \<^item> \<open>Dap_Engine\<close>, \<open>Dap_Thread\<close>: \<^verbatim>\<open>applications/dap_engine.c\<close>, the request ring and the engine thread.
    \<open>Dap_Session\<close> puts them on top of the target: a session of commands from the host's packets to the
    registers and back.
  \<^item> \<open>Usb_Device\<close>: \<^verbatim>\<open>applications/usb_device.c\<close>, descriptors, event distribution, initialisation.
  \<^item> The USB device stack, CherryUSB, as the firmware configures it (\<^verbatim>\<open>cherryusb\<close> stands for
    \<^verbatim>\<open>rt-thread/components/drivers/usb/cherryusb\<close>).  \<open>Usb_Dc\<close>: the controller driver
    \<^verbatim>\<open>cherryusb/port/hpmicro/usb_dc_hpm.c\<close>, its endpoint table a record, its calls of the vendor library a
    log.  \<open>Usbd_Core\<close>: \<^verbatim>\<open>cherryusb/core/usbd_core.c\<close>, the statics of the core as one record with the driver
    below and the application above it as fields, every handler a function that may leave an array
    (\<open>None\<close>).  \<open>Usbd_Class\<close>: \<^verbatim>\<open>usbd_cdc_acm.c\<close> and \<^verbatim>\<open>usbd_hid.c\<close>.  \<open>Usbd_Irq\<close>: the interrupt handler.
  \<^item> \<open>Usb_Dcd\<close>: the vendor library below the controller driver (\<^verbatim>\<open>libraries/hpm_sdk\<close>:
    \<^verbatim>\<open>components/usb/device/hpm_usb_device.c\<close> and the endpoint part of \<^verbatim>\<open>drivers/src/hpm_usb_drv.c\<close>): queue
    heads, transfer descriptors and endpoint control registers; the registers that the controller changes
    by itself are a parameter of time.
  \<^item> \<open>Usbd_Safe\<close>, \<open>Usbd_Answer\<close>, \<open>Usbd_Ep0\<close>, \<open>Usbd_Host\<close>: what the core does for any application that keeps
    the laws of locale \<open>usb_application\<close>: its invariant, the outcome of every request, endpoint 0 as a state
    machine (\<open>usb_reach\<close>), control transfers as a host sees them.
  \<^item> \<open>Usb_Composite\<close>: the probe as such an application: start-up, the interpretation of the locale on the
    modules' own callbacks, and what a host finds.  \<open>Usb_Modules\<close>: what an interrupt of the whole device
    is for each module, which ties the scripts below to the stack.
  \<^item> \<open>Firmware\<close>: \<^verbatim>\<open>applications/main.c\<close>, the order in which the parts are started: it establishes what the
    theorems on the parts assume, and loses a request that comes before the engine thread is started.

  \<^bold>\<open>How code is rendered.\<close>  Statics are records, handlers state transformers; a machine integer is a word
  of its width, an index into an array a natural number where the code bounds it.  An error code is a
  value of the result; an access outside an array is \<open>None\<close> of an option or a faulting branch, never an
  arbitrary value.  A call that leaves the modelled code (start of an endpoint transfer, a semaphore, a
  pad or SPI register) is an entry of a log or an action of the parameter \<open>wire\<close>, in the order of the
  code.  What interrupts do while a thread sleeps or polls is a script: the \<open>k\<close>-th element is what happens
  during the \<open>k\<close>-th wait, and theorems hold for every script unless they say otherwise;
  \<open>interrupts_are_events\<close> proves that whatever interrupts of the whole device do to a module is such a
  list of its events.

  \<^bold>\<open>Loops.\<close>  Counted loops recurse on their counter.  The bounded waits end by a measure (at most 1000
  ticks).  The drain loops of the two threads end only when the ring is empty, the pin wait of
  \<^verbatim>\<open>DAP_SWJ_Pins\<close> only when the pins match, the waits of the vendor library only when a register comes to
  rest; they are \<open>partial_function\<close>s, so that not returning is
  \<open>None\<close>: \<open>frame_thread_round_ends\<close> and \<open>requests_served_in_order\<close> prove that the drain loops return,
  \<open>swj_pins_hangs\<close> that the pin wait need not, \<open>stall_flags_refined\<close> that those of the library return
  with a controller that keeps coming to rest.  There is no fuel anywhere.

  \<^bold>\<open>What the lemmas show.\<close>
  \<^item> Framing: round trip of frame streams with noise, detection of any changed byte, memory safety.
  \<^item> Rings: refinement to a bounded queue under every interleaving of producer and consumer steps.
  \<^item> Channels: one transfer at the host per send, results of a send, echo of the serial ports.
  \<^item> Wire: the transport drives the documented SWD packets and agrees clock for clock with the packet of
    the reference, whose idle cycles and dummy data phases it leaves out; the register layer reads and
    writes the addressed registers; the bring-up command works from any state of the line.
  \<^item> Debug unit: transfer commands refine the sequential execution of register operations although
    access-port reads are posted; responses are counted; buffers are bounded.
  \<^item> Threads: end-to-end service of requests in order, with the exact limit of what a host may have
    outstanding; a whole debug session is the sequential execution of its register operations.
  \<^item> Device: descriptors well formed and consistent with what the modules register and start.
  \<^item> Stack: from the first bus reset on only three requests make the core leave its arrays, and they are
    named; descriptors are read in full, endpoints are opened before the modules post reads on them.
  \<^item> Vendor library: a transfer is described to the controller byte for byte by its chain of descriptors,
    and the control registers refine the stall flags that the driver above relies on.

  \<^bold>\<open>Not modelled.\<close>  Of the vendor's USB library the set-up of PHY and controller and the host part; its SPI
  library and the registers behind it.  The host stack, the other classes and the other controllers of
  CherryUSB, which are not part of the image; RT-Thread itself; the flash port, which is compiled out as
  the configuration does not switch on its layer.  The scheduler and the time a wait takes; concurrent
  access by two threads to one SPI peripheral (the shell commands run in the shell thread and are not locked against the engine thread);
  the text that shell commands print (the numbers are); JTAG, SWO and the UART of CMSIS-DAP, which the
  configuration switches off; clocks, pads and start-up code.
\<close>

end
